(* ===== verification/Prelude.thy ===== *)
theory Prelude
  imports Main "HOL-Library.AList" "HOL-Library.Char_ord" "HOL-Library.List_Lexorder"
begin

text \<open>
  Shared vocabulary of the development.

  \<^item> Results of fallible Go functions: \<open>'a result\<close> is \<open>go_error + 'a\<close>, with \<open>Inl\<close> for a
    non-nil \<open>error\<close>. The constructors of \<open>go_error\<close> are the errors the repository creates
    itself plus one constructor per class of error that comes from the operating system or
    from a decoder of the Go standard library.
  \<^item> Go maps keyed by strings: association lists with the operations \<open>gget\<close>, \<open>gput\<close>,
    \<open>gdel\<close>. The law that clients use is the locale \<open>go_map\<close>; the association
    lists are its interpretation. Keys are enumerated in sorted order, which is the only way
    the source enumerates them when the order is observable.
  \<^item> A locale of deterministic machines with an invariant, used for every component whose
    reachable states are studied.
\<close>

section \<open>Collections of rewrite rules\<close>

named_theorems json_simps \<open>equations for encoding and decoding of JSON values\<close>
named_theorems status_simps \<open>equations for request states and their transitions\<close>

section \<open>Results\<close>

datatype go_error =
    ErrText string            \<comment> \<open>errors.New / fmt.Errorf with a known text\<close>
  | ErrOs string              \<comment> \<open>an error of the operating system\<close>
  | ErrDecode                 \<comment> \<open>encoding/json rejected its input\<close>
  | ErrMarshal                \<comment> \<open>encoding/json refused a value\<close>
  | ErrTooLong                \<comment> \<open>bufio.ErrTooLong\<close>
  | ErrChain string string string  \<comment> \<open>hash chain mismatch: event id, prev, want\<close>
  | ErrHash string            \<comment> \<open>event hash mismatch: event id\<close>
  | ErrExists string          \<comment> \<open>request already exists\<close>
  | ErrNotFound string string \<comment> \<open>request not found for event\<close>
  | ErrInvalidFrom string string   \<comment> \<open>transition, status it was attempted from\<close>
  | ErrUnsupported string     \<comment> \<open>unsupported event type\<close>

type_synonym 'a result = "go_error + 'a"

definition result_bind :: "'a result \<Rightarrow> ('a \<Rightarrow> 'b result) \<Rightarrow> 'b result" where
  "result_bind r f = (case r of Inl e \<Rightarrow> Inl e | Inr a \<Rightarrow> f a)"

lemma result_bind_simps [simp]:
  "result_bind (Inl e) f = Inl e"
  "result_bind (Inr a) f = f a"
  by (simp_all add: result_bind_def)

lemma result_bind_eq_Inr:
  "result_bind r f = Inr b \<longleftrightarrow> (\<exists>a. r = Inr a \<and> f a = Inr b)"
  by (cases r) auto

lemma result_bind_assoc:
  "result_bind (result_bind r f) g = result_bind r (\<lambda>a. result_bind (f a) g)"
  by (cases r) auto

text \<open>A Go loop \<open>for _, x := range xs\<close> whose body may return an error.\<close>

fun result_fold :: "('a \<Rightarrow> 'b \<Rightarrow> 'b result) \<Rightarrow> 'a list \<Rightarrow> 'b \<Rightarrow> 'b result" where
  "result_fold f [] b = Inr b"
| "result_fold f (x # xs) b = result_bind (f x b) (result_fold f xs)"

lemma result_fold_append:
  "result_fold f (xs @ ys) b = result_bind (result_fold f xs b) (result_fold f ys)"
  by (induction xs arbitrary: b) (auto simp: result_bind_def split: sum.splits)

lemma result_fold_snoc:
  "result_fold f (xs @ [y]) b = result_bind (result_fold f xs b) (f y)"
proof -
  have "result_fold f [y] = f y"
    by (rule ext) (simp add: result_bind_def split: sum.splits)
  then show ?thesis by (simp add: result_fold_append del: result_fold.simps(2))
qed

lemma result_fold_invariant:
  assumes "result_fold f xs b = Inr c" and "I b"
    and "\<And>x b b'. x \<in> set xs \<Longrightarrow> I b \<Longrightarrow> f x b = Inr b' \<Longrightarrow> I b'"
  shows "I c"
  using assms
proof (induction xs arbitrary: b)
  case (Cons x xs)
  from Cons.prems(1) obtain b' where b': "f x b = Inr b'" "result_fold f xs b' = Inr c"
    by (auto simp: result_bind_eq_Inr)
  from Cons.prems(2,3) b'(1) have "I b'" by auto
  with b'(2) Cons show ?case by auto
qed simp

section \<open>Go maps keyed by strings\<close>

type_synonym 'v gomap = "(string \<times> 'v) list"

definition gget :: "'v gomap \<Rightarrow> string \<Rightarrow> 'v option" where
  "gget m k = map_of m k"

definition gput :: "string \<Rightarrow> 'v \<Rightarrow> 'v gomap \<Rightarrow> 'v gomap" where
  "gput k v m = AList.update k v m"

definition gdel :: "string \<Rightarrow> 'v gomap \<Rightarrow> 'v gomap" where
  "gdel k m = AList.delete k m"

definition gkeys :: "'v gomap \<Rightarrow> string list" where
  "gkeys m = sort (remdups (map fst m))"

text \<open>
  What the clients of a map rely on: the value stored under a key is the last one put there,
  other keys keep theirs, and \<open>keys\<close> lists exactly the present keys, each once, in
  increasing byte order.
\<close>

locale go_map =
  fixes get :: "'m \<Rightarrow> string \<Rightarrow> 'v option"
    and put :: "string \<Rightarrow> 'v \<Rightarrow> 'm \<Rightarrow> 'm"
    and del :: "string \<Rightarrow> 'm \<Rightarrow> 'm"
    and keys :: "'m \<Rightarrow> string list"
  assumes get_put: "get (put k v m) k' = (if k' = k then Some v else get m k')"
    and get_del: "get (del k m) k' = (if k' = k then None else get m k')"
    and keys_iff: "k \<in> set (keys m) \<longleftrightarrow> get m k \<noteq> None"
    and keys_sorted: "sorted (keys m)"
    and keys_distinct: "distinct (keys m)"
begin

lemma get_put_same: "get (put k v m) k = Some v"
  by (simp add: get_put)

lemma get_put_other: "k' \<noteq> k \<Longrightarrow> get (put k v m) k' = get m k'"
  by (simp add: get_put)

lemma keys_put: "set (keys (put k v m)) = insert k (set (keys m))"
  by (auto simp: keys_iff get_put split: if_splits)

lemma keys_del: "set (keys (del k m)) = set (keys m) - {k}"
  by (auto simp: keys_iff get_del split: if_splits)

text \<open>The key list depends on the contents alone, not on the history of the map.\<close>

lemma keys_unique:
  assumes "\<And>k. (get m k = None) = (get m' k = None)"
  shows "keys m = keys m'"
proof (rule sorted_distinct_set_unique)
  show "set (keys m) = set (keys m')" using assms by (auto simp: keys_iff)
qed (simp_all add: keys_sorted keys_distinct)

end

interpretation gm: go_map gget gput gdel gkeys
proof
  fix k k' :: string and v :: 'a and m
  show "gget (gput k v m) k' = (if k' = k then Some v else gget m k')"
    by (simp add: gget_def gput_def update_conv')
  show "gget (gdel k m) k' = (if k' = k then None else gget m k')"
    by (simp add: gget_def gdel_def delete_conv')
  show "k \<in> set (gkeys m) \<longleftrightarrow> gget m k \<noteq> None"
    by (auto simp: gkeys_def gget_def map_of_eq_None_iff)
  show "sorted (gkeys m)" and "distinct (gkeys m)"
    by (simp_all add: gkeys_def)
qed

lemmas gomap_simps [simp] = gm.get_put gm.get_del

lemma gget_Nil [simp]: "gget [] k = None"
  by (simp add: gget_def)

lemma gput_eq_Nil [simp]: "gput k v m \<noteq> []"
  by (cases m) (auto simp: gput_def)

section \<open>Machines with an invariant\<close>

text \<open>
  A machine is a set of start states and a step relation labelled by the input it consumes.
  If the invariant holds at the start and every step keeps it, it holds after every run.
\<close>

inductive run :: "('s \<Rightarrow> 'i \<Rightarrow> 's \<Rightarrow> bool) \<Rightarrow> 's \<Rightarrow> 'i list \<Rightarrow> 's \<Rightarrow> bool"
  for step :: "'s \<Rightarrow> 'i \<Rightarrow> 's \<Rightarrow> bool" where
  run_nil: "run step s [] s"
| run_snoc: "run step s is t \<Longrightarrow> step t i u \<Longrightarrow> run step s (is @ [i]) u"

inductive_cases run_NilE: "run step s [] t"

lemma run_single: "step s i t \<Longrightarrow> run step s [i] t"
  using run_snoc [OF run_nil] by fastforce

lemma run_trans: "run step t js u \<Longrightarrow> run step s is t \<Longrightarrow> run step s (is @ js) u"
proof (induction rule: run.induct)
  case (run_nil)
  then show ?case by simp
next
  case (run_snoc t' is' v i u')
  then show ?case using run.run_snoc [of step s "is @ is'" v i u'] by simp
qed

lemma run_Cons: "step s i t \<Longrightarrow> run step t is u \<Longrightarrow> run step s (i # is) u"
  using run_trans [of step t "is" u s "[i]"] run_single by fastforce

locale machine =
  fixes start :: "'s \<Rightarrow> bool"
    and step :: "'s \<Rightarrow> 'i \<Rightarrow> 's \<Rightarrow> bool"
    and inv :: "'s \<Rightarrow> bool"
  assumes inv_start: "start s \<Longrightarrow> inv s"
    and inv_step: "inv s \<Longrightarrow> step s i t \<Longrightarrow> inv t"
begin

lemma inv_run_from:
  assumes "run step s is t" and "inv s"
  shows "inv t"
  using assms by (induction rule: run.induct) (auto intro: inv_step)

lemma inv_run: "start s \<Longrightarrow> run step s is t \<Longrightarrow> inv t"
  by (blast intro: inv_run_from inv_start)

end

text \<open>
  One machine simulates another if every step of the first, from related states, is matched by a
  run of the second; then so is every run.
\<close>

locale simulation =
  fixes cstep :: "'c \<Rightarrow> 'i \<Rightarrow> 'c \<Rightarrow> bool" and astep :: "'a \<Rightarrow> 'j \<Rightarrow> 'a \<Rightarrow> bool" and sim :: "'c \<Rightarrow> 'a \<Rightarrow> bool"
  assumes sim_step: "cstep y i y' \<Longrightarrow> sim y g \<Longrightarrow> \<exists>acts g'. run astep g acts g' \<and> sim y' g'"
begin

lemma sim_run: "run cstep y is y' \<Longrightarrow> sim y g \<Longrightarrow> \<exists>acts g'. run astep g acts g' \<and> sim y' g'"
proof (induction rule: run.induct)
  case (run_nil y)
  then show ?case using run.run_nil by fast
next
  case (run_snoc y is' t i u)
  then obtain acts h where h: "run astep g acts h" "sim t h" by blast
  from sim_step [OF run_snoc.hyps(2) h(2)] obtain acts' g' where "run astep h acts' g'" "sim u g'" by blast
  with run_trans [OF _ h(1)] show ?case by blast
qed

end

end
