(* ===== verification/Go_Strings.thy ===== *)
theory Go_Strings
  imports Prelude "HOL-Library.Word"
begin

text \<open>
  What the source uses of the Go packages \<open>strings\<close>, \<open>strconv\<close>, \<open>unicode/utf8\<close>,
  \<open>encoding/hex\<close> and \<open>bufio\<close>. A Go string is a sequence of bytes, hence a HOL
  \<open>string\<close> (a list of 8-bit characters); functions that look at runes work on the UTF-8
  encoding in those bytes.
\<close>

section \<open>Bytes and UTF-8\<close>

definition byte :: "char \<Rightarrow> nat" where
  "byte c = of_char c"

lemma byte_less [simp]: "byte c < 256"
  by (simp add: byte_def nat_of_char_less_256)

lemma byte_inject [simp]: "byte c = byte d \<longleftrightarrow> c = d"
  by (simp add: byte_def)

lemma char_of_byte [simp]: "char_of (byte c) = c"
  by (simp add: byte_def)

lemma byte_char_of [simp]: "n < 256 \<Longrightarrow> byte (char_of n) = n"
  by (simp add: byte_def)

definition cont_byte :: "char \<Rightarrow> bool" where
  "cont_byte c \<longleftrightarrow> 128 \<le> byte c \<and> byte c < 192"

text \<open>
  \<open>utf8.DecodeRune\<close>: the number of bytes of the well-formed encoding at the front of the
  string, and 0 where Go reports \<open>RuneError\<close> of width 1 (or the string is empty).
\<close>

definition rune_size :: "string \<Rightarrow> nat" where
  "rune_size s = (case s of
     [] \<Rightarrow> 0
   | a # r \<Rightarrow>
      (if byte a < 128 then 1
       else case r of
         [] \<Rightarrow> 0
       | b # r2 \<Rightarrow>
          (if 194 \<le> byte a \<and> byte a < 224 then (if cont_byte b then 2 else 0)
           else case r2 of
             [] \<Rightarrow> 0
           | c # r3 \<Rightarrow>
              (if 224 \<le> byte a \<and> byte a < 240 then
                 (if cont_byte b \<and> cont_byte c \<and> (byte a = 224 \<longrightarrow> 160 \<le> byte b)
                     \<and> (byte a = 237 \<longrightarrow> byte b < 160) then 3 else 0)
               else case r3 of
                 [] \<Rightarrow> 0
               | d # _ \<Rightarrow>
                  (if 240 \<le> byte a \<and> byte a < 245 then
                     (if cont_byte b \<and> cont_byte c \<and> cont_byte d
                         \<and> (byte a = 240 \<longrightarrow> 144 \<le> byte b)
                         \<and> (byte a = 244 \<longrightarrow> byte b < 144) then 4 else 0)
                   else 0)))))"

lemma rune_size_le: "rune_size s \<le> length s"
  by (auto simp: rune_size_def split: list.splits)

lemma rune_size_Nil [simp]: "rune_size [] = 0"
  by (simp add: rune_size_def)

lemma rune_size_ascii [simp]: "byte c < 128 \<Longrightarrow> rune_size (c # s) = 1"
  by (simp add: rune_size_def)

lemma rune_size_append: "0 < rune_size s \<Longrightarrow> rune_size (s @ t) = rune_size s"
proof -
  assume pos: "0 < rune_size s"
  consider "s = []" | a where "s = [a]" | a b where "s = [a, b]" | a b c where "s = [a, b, c]"
    | a b c d r where "s = a # b # c # d # r"
    by (metis list.exhaust)
  then show ?thesis
    using pos by cases (simp_all add: rune_size_def split: if_split_asm)
qed

lemma rune_size_take: "rune_size (take (rune_size s) s) = rune_size s"
  by (auto simp: rune_size_def split: list.splits)

lemma rune_size_multi:
  "\<not> byte c < 128 \<Longrightarrow> rune_size (c # s) \<noteq> 0 \<Longrightarrow> 2 \<le> rune_size (c # s)"
  by (auto simp: rune_size_def split: list.splits if_splits)

text \<open>Every byte of a multi-byte encoding is at least 0x80.\<close>

lemma rune_size_high:
  "\<not> byte c < 128 \<Longrightarrow> x \<in> set (take (rune_size (c # s)) (c # s)) \<Longrightarrow> 128 \<le> byte x"
  by (auto simp: rune_size_def cont_byte_def split: list.splits if_splits)

text \<open>\<open>utf8.ValidString\<close>.\<close>

function valid_utf8 :: "string \<Rightarrow> bool" where
  "valid_utf8 s =
     (if s = [] then True
      else if rune_size s = 0 then False else valid_utf8 (drop (rune_size s) s))"
  by pat_completeness auto
termination
  by (relation "measure length") auto

declare valid_utf8.simps [simp del]

lemma valid_utf8_Nil [simp]: "valid_utf8 []"
  by (subst valid_utf8.simps) simp

lemma valid_utf8_ascii [simp]: "byte c < 128 \<Longrightarrow> valid_utf8 (c # s) = valid_utf8 s"
  by (subst valid_utf8.simps) simp

lemma valid_utf8_ascii_only: "(\<And>c. c \<in> set s \<Longrightarrow> byte c < 128) \<Longrightarrow> valid_utf8 s"
  by (induction s) auto

lemma valid_utf8_append: "valid_utf8 s \<Longrightarrow> valid_utf8 t \<Longrightarrow> valid_utf8 (s @ t)"
proof (induction s rule: valid_utf8.induct)
  case (1 s)
  show ?case
  proof (cases "s = []")
    case False
    with "1.prems"(1) have n: "rune_size s \<noteq> 0" and v: "valid_utf8 (drop (rune_size s) s)"
      by (simp_all add: valid_utf8.simps [of s] split: if_splits)
    have "valid_utf8 (drop (rune_size s) s @ t)"
      using "1.IH" False n v "1.prems"(2) by simp
    with n show ?thesis
      by (subst valid_utf8.simps) (simp add: rune_size_append rune_size_le)
  qed (use "1.prems" in simp)
qed

section \<open>Package strings\<close>

definition HasPrefix :: "string \<Rightarrow> string \<Rightarrow> bool" where
  "HasPrefix s p \<longleftrightarrow> take (length p) s = p"

definition HasSuffix :: "string \<Rightarrow> string \<Rightarrow> bool" where
  "HasSuffix s p \<longleftrightarrow> HasPrefix (rev s) (rev p)"

definition TrimPrefix :: "string \<Rightarrow> string \<Rightarrow> string" where
  "TrimPrefix s p = (if HasPrefix s p then drop (length p) s else s)"

definition TrimSuffix :: "string \<Rightarrow> string \<Rightarrow> string" where
  "TrimSuffix s p = (if HasSuffix s p then take (length s - length p) s else s)"

lemma HasPrefix_iff: "HasPrefix s p \<longleftrightarrow> (\<exists>r. s = p @ r)"
  by (auto simp: HasPrefix_def) (metis append_take_drop_id)

lemma HasPrefix_Nil [simp]: "HasPrefix s []"
  by (simp add: HasPrefix_def)

lemma HasPrefix_Cons [simp]:
  "HasPrefix [] (p # ps) = False"
  "HasPrefix (c # s) (p # ps) \<longleftrightarrow> c = p \<and> HasPrefix s ps"
  by (auto simp: HasPrefix_def)

text \<open>
  \<open>unicode.IsSpace\<close> on the encoded runes: the number of bytes of a white-space rune at the
  front of the string, 0 if there is none. Besides the six ASCII characters these are U+0085,
  U+00A0, U+1680, U+2000 to U+200A, U+2028, U+2029, U+202F, U+205F and U+3000.
\<close>

definition ascii_space :: "char \<Rightarrow> bool" where
  "ascii_space c \<longleftrightarrow> (9 \<le> byte c \<and> byte c \<le> 13) \<or> byte c = 32"

definition space3 :: "nat \<Rightarrow> nat \<Rightarrow> nat \<Rightarrow> bool" where
  "space3 a b c \<longleftrightarrow>
     (a = 225 \<and> b = 154 \<and> c = 128)
   \<or> (a = 226 \<and> b = 128 \<and> ((128 \<le> c \<and> c \<le> 138) \<or> c = 168 \<or> c = 169 \<or> c = 175))
   \<or> (a = 226 \<and> b = 129 \<and> c = 159)
   \<or> (a = 227 \<and> b = 128 \<and> c = 128)"

definition space2 :: "nat \<Rightarrow> nat \<Rightarrow> bool" where
  "space2 a b \<longleftrightarrow> a = 194 \<and> (b = 133 \<or> b = 160)"

fun space_size :: "string \<Rightarrow> nat" where
  "space_size [] = 0"
| "space_size (a # r) =
     (if ascii_space a then 1
      else case r of [] \<Rightarrow> 0
      | b # r2 \<Rightarrow> (if space2 (byte a) (byte b) then 2
          else case r2 of [] \<Rightarrow> 0
          | c # _ \<Rightarrow> (if space3 (byte a) (byte b) (byte c) then 3 else 0)))"

text \<open>The same at the end of a string, given the string reversed (\<open>utf8.DecodeLastRune\<close>).\<close>

fun space_size_rev :: "string \<Rightarrow> nat" where
  "space_size_rev [] = 0"
| "space_size_rev (a # r) =
     (if ascii_space a then 1
      else case r of [] \<Rightarrow> 0
      | b # r2 \<Rightarrow> (if space2 (byte b) (byte a) then 2
          else case r2 of [] \<Rightarrow> 0
          | c # _ \<Rightarrow> (if space3 (byte c) (byte b) (byte a) then 3 else 0)))"

function trim_while :: "(string \<Rightarrow> nat) \<Rightarrow> string \<Rightarrow> string" where
  "trim_while f s = (if f s = 0 \<or> s = [] then s else trim_while f (drop (f s) s))"
  by pat_completeness auto
termination
  by (relation "measure (\<lambda>(f, s). length s)") auto

declare trim_while.simps [simp del]

definition TrimSpace :: "string \<Rightarrow> string" where
  "TrimSpace s = rev (trim_while space_size_rev (rev (trim_while space_size s)))"

lemma trim_while_done: "f (trim_while f s) = 0 \<or> trim_while f s = []"
  by (induction f s rule: trim_while.induct) (subst (1 2) trim_while.simps, auto)

lemma trim_while_id [simp]: "f s = 0 \<Longrightarrow> trim_while f s = s"
  by (subst trim_while.simps) simp

lemma trim_while_suffix: "\<exists>p. s = p @ trim_while f s"
proof (induction f s rule: trim_while.induct)
  case (1 f s)
  show ?case
  proof (cases "f s = 0 \<or> s = []")
    case True
    then show ?thesis by (subst trim_while.simps) auto
  next
    case False
    with "1.IH" obtain p where "drop (f s) s = p @ trim_while f (drop (f s) s)" by blast
    then have "s = (take (f s) s @ p) @ trim_while f (drop (f s) s)"
      by (metis append.assoc append_take_drop_id)
    then have "\<exists>p. s = p @ trim_while f (drop (f s) s)" by blast
    with False show ?thesis by (subst trim_while.simps) simp
  qed
qed

lemma TrimSpace_infix: "\<exists>p q. s = p @ TrimSpace s @ q"
proof -
  obtain p where p: "s = p @ trim_while space_size s"
    using trim_while_suffix by blast
  obtain q where "rev (trim_while space_size s) = q @ rev (TrimSpace s)"
    using trim_while_suffix by (metis TrimSpace_def rev_rev_ident)
  then have "trim_while space_size s = TrimSpace s @ rev q"
    by (metis rev_append rev_rev_ident)
  with p show ?thesis by metis
qed

lemma TrimSpace_Nil [simp]: "TrimSpace [] = []"
  by (simp add: TrimSpace_def)

lemma TrimSpace_id: "space_size s = 0 \<Longrightarrow> space_size_rev (rev s) = 0 \<Longrightarrow> TrimSpace s = s"
  by (simp add: TrimSpace_def)

text \<open>\<open>strings.IndexByte\<close>: \<open>None\<close> stands for -1.\<close>

fun IndexByte :: "string \<Rightarrow> char \<Rightarrow> nat option" where
  "IndexByte [] c = None"
| "IndexByte (x # xs) c = (if x = c then Some 0 else map_option Suc (IndexByte xs c))"

lemma IndexByte_None: "IndexByte s c = None \<longleftrightarrow> c \<notin> set s"
  by (induction s) auto

lemma IndexByte_Some:
  "IndexByte s c = Some i \<Longrightarrow> i < length s \<and> s ! i = c \<and> c \<notin> set (take i s)"
  by (induction s arbitrary: i) (auto split: if_splits)

text \<open>\<open>strings.Split\<close> with a one-byte separator.\<close>

fun SplitByte :: "char \<Rightarrow> string \<Rightarrow> string list" where
  "SplitByte c [] = [[]]"
| "SplitByte c (x # xs) =
     (if x = c then [] # SplitByte c xs
      else case SplitByte c xs of [] \<Rightarrow> [[x]] | y # ys \<Rightarrow> (x # y) # ys)"

lemma SplitByte_not_Nil [simp]: "SplitByte c s \<noteq> []"
  by (induction s) (auto split: list.splits)

lemma SplitByte_no_sep: "t \<in> set (SplitByte c s) \<Longrightarrow> c \<notin> set t"
  by (induction s arbitrary: t) (auto split: if_splits list.splits)

lemma SplitByte_token: "c \<notin> set t \<Longrightarrow> SplitByte c t = [t]"
  by (induction t) auto

lemma SplitByte_append: "c \<notin> set t \<Longrightarrow> SplitByte c (t @ c # s) = t # SplitByte c s"
  by (induction t) auto

text \<open>\<open>strings.Join\<close>.\<close>

fun Join :: "string list \<Rightarrow> string \<Rightarrow> string" where
  "Join [] sep = []"
| "Join [x] sep = x"
| "Join (x # y # xs) sep = x @ sep @ Join (y # xs) sep"

lemma Split_Join:
  "xs \<noteq> [] \<Longrightarrow> (\<And>x. x \<in> set xs \<Longrightarrow> c \<notin> set x) \<Longrightarrow> SplitByte c (Join xs [c]) = xs"
  by (induction xs "[c]" rule: Join.induct) (auto simp: SplitByte_token SplitByte_append)

text \<open>\<open>strings.Trim\<close> with an ASCII cut set.\<close>

definition TrimChars :: "string \<Rightarrow> string \<Rightarrow> string" where
  "TrimChars s cutset =
     rev (dropWhile (\<lambda>c. c \<in> set cutset) (rev (dropWhile (\<lambda>c. c \<in> set cutset) s)))"

section \<open>Decimal and hexadecimal numbers\<close>

definition digit_char :: "nat \<Rightarrow> char" where
  "digit_char n = char_of (48 + n)"

definition is_digit :: "char \<Rightarrow> bool" where
  "is_digit c \<longleftrightarrow> 48 \<le> byte c \<and> byte c \<le> 57"

fun string_of_nat :: "nat \<Rightarrow> string" where
  "string_of_nat n =
     (if n < 10 then [digit_char n] else string_of_nat (n div 10) @ [digit_char (n mod 10)])"

declare string_of_nat.simps [simp del]

definition string_of_int :: "int \<Rightarrow> string" where
  "string_of_int i = (if i < 0 then CHR ''-'' # string_of_nat (nat (- i)) else string_of_nat (nat i))"

definition nat_of_digits :: "string \<Rightarrow> nat" where
  "nat_of_digits s = foldl (\<lambda>a c. 10 * a + (byte c - 48)) 0 s"

lemma byte_digit_char [simp]: "n < 10 \<Longrightarrow> byte (digit_char n) = 48 + n"
  by (simp add: digit_char_def)

lemma is_digit_digit_char [simp]: "n < 10 \<Longrightarrow> is_digit (digit_char n)"
  by (simp add: is_digit_def)

lemma digit_char_0: "digit_char 0 = CHR ''0''"
  by code_simp

lemma digit_char_inject: "m < 10 \<Longrightarrow> n < 10 \<Longrightarrow> digit_char m = digit_char n \<Longrightarrow> m = n"
  by (metis add_left_cancel byte_digit_char)

lemma string_of_nat_digits: "c \<in> set (string_of_nat n) \<Longrightarrow> is_digit c"
  by (induction n rule: string_of_nat.induct) (subst (asm) (2) string_of_nat.simps, auto split: if_splits)

lemma string_of_nat_not_Nil [simp]: "string_of_nat n \<noteq> []"
  by (subst string_of_nat.simps) simp

lemma nat_of_digits_snoc [simp]:
  "nat_of_digits (s @ [c]) = 10 * nat_of_digits s + (byte c - 48)"
  by (simp add: nat_of_digits_def)

lemma nat_of_digits_string_of_nat [simp]: "nat_of_digits (string_of_nat n) = n"
proof (induction n rule: string_of_nat.induct)
  case (1 n)
  show ?case
  proof (cases "n < 10")
    case True
    then show ?thesis by (subst string_of_nat.simps) (simp add: nat_of_digits_def)
  next
    case False
    with "1.IH" have "nat_of_digits (string_of_nat (n div 10)) = n div 10" by simp
    with False show ?thesis by (subst string_of_nat.simps) simp
  qed
qed

lemma string_of_nat_inject [simp]: "string_of_nat m = string_of_nat n \<longleftrightarrow> m = n"
  by (metis nat_of_digits_string_of_nat)

text \<open>No superfluous leading zero.\<close>

lemma string_of_nat_hd: "n \<noteq> 0 \<Longrightarrow> hd (string_of_nat n) \<noteq> CHR ''0''"
proof (induction n rule: string_of_nat.induct)
  case (1 n)
  show ?case
  proof (cases "n < 10")
    case True
    have "digit_char n \<noteq> digit_char 0"
      using True "1.prems" digit_char_inject [of n 0] by auto
    with True show ?thesis by (subst string_of_nat.simps) (simp add: digit_char_0)
  next
    case False
    then have "hd (string_of_nat (n div 10)) \<noteq> CHR ''0''" using "1.IH" by simp
    with False show ?thesis by (subst string_of_nat.simps) simp
  qed
qed

lemma string_of_nat_0: "string_of_nat 0 = ''0''"
  by (simp add: string_of_nat.simps digit_char_0)

text \<open>\<open>strconv.ParseUint(s, 10, 32)\<close>: decimal digits only, and the value fits in 32 bits.\<close>

definition ParseUint32 :: "string \<Rightarrow> 32 word option" where
  "ParseUint32 s =
     (if s \<noteq> [] \<and> list_all is_digit s \<and> nat_of_digits s < 2 ^ 32
      then Some (of_nat (nat_of_digits s)) else None)"

lemma ParseUint32_roundtrip: "ParseUint32 (string_of_nat (unat (w :: 32 word))) = Some w"
proof -
  have "list_all is_digit (string_of_nat (unat w))"
    by (simp add: list_all_iff string_of_nat_digits)
  moreover have "unat w < 2 ^ 32" using unsigned_less [of w] by simp
  ultimately show ?thesis by (simp add: ParseUint32_def)
qed

definition hex_digit :: "nat \<Rightarrow> char" where
  "hex_digit n = (if n < 10 then char_of (48 + n) else char_of (87 + n))"

text \<open>\<open>hex.EncodeToString\<close>.\<close>

definition hex_encode :: "string \<Rightarrow> string" where
  "hex_encode s = concat (map (\<lambda>c. [hex_digit (byte c div 16), hex_digit (byte c mod 16)]) s)"

lemma byte_hex_digit: "n < 16 \<Longrightarrow> byte (hex_digit n) = (if n < 10 then 48 + n else 87 + n)"
  by (simp add: hex_digit_def)

lemma byte_div16 [simp]: "byte c div 16 < 16"
  using byte_less [of c] by linarith

lemma hex_encode_chars: "c \<in> set (hex_encode s) \<Longrightarrow> \<exists>n < 16. c = hex_digit n"
  by (auto simp: hex_encode_def intro: exI [of _ "byte d div 16" for d] exI [of _ "byte d mod 16" for d])

lemma hex_encode_lower_alnum:
  "c \<in> set (hex_encode s) \<Longrightarrow> (48 \<le> byte c \<and> byte c \<le> 57) \<or> (97 \<le> byte c \<and> byte c \<le> 102)"
  by (drule hex_encode_chars) (auto simp: byte_hex_digit split: if_splits)

lemma hex_encode_ascii: "c \<in> set (hex_encode s) \<Longrightarrow> byte c < 128"
  by (drule hex_encode_lower_alnum) auto

lemma length_hex_encode [simp]: "length (hex_encode s) = 2 * length s"
  by (induction s) (auto simp: hex_encode_def)

section \<open>bufio.Scanner over lines\<close>

text \<open>
  \<open>bufio.ScanLines\<close> with a maximal token size: the lines without their terminators (a
  trailing carriage return is dropped, a final unterminated line counts if it is not empty).
  A line of \<open>limit\<close> bytes or more does not fit the buffer: scanning stops there with
  \<open>ErrTooLong\<close>. The result is the list of tokens delivered and whether the scan ended with
  that error.
\<close>

definition drop_cr :: "string \<Rightarrow> string" where
  "drop_cr s = (if s \<noteq> [] \<and> last s = CHR 0x0D then butlast s else s)"

definition newline :: char where
  "newline = CHR 0x0A"

function scan_lines :: "nat \<Rightarrow> string \<Rightarrow> string list \<times> bool" where
  "scan_lines limit s =
     (if s = [] then ([], False)
      else case IndexByte s newline of
        None \<Rightarrow> (if length s < limit then ([drop_cr s], False) else ([], True))
      | Some i \<Rightarrow>
          (if i < limit then
             (let (ls, e) = scan_lines limit (drop (Suc i) s) in (drop_cr (take i s) # ls, e))
           else ([], True)))"
  by pat_completeness auto
termination
  by (relation "measure (\<lambda>(l, s). length s)") (auto dest: IndexByte_Some)

declare scan_lines.simps [simp del]

lemma scan_lines_Nil [simp]: "scan_lines limit [] = ([], False)"
  by (simp add: scan_lines.simps)

lemma IndexByte_append: "c \<notin> set l \<Longrightarrow> IndexByte (l @ c # s) c = Some (length l)"
  by (induction l) auto

lemma scan_lines_line:
  "newline \<notin> set l \<Longrightarrow> length l < limit \<Longrightarrow>
   scan_lines limit (l @ newline # s)
     = (let (ls, e) = scan_lines limit s in (drop_cr l # ls, e))"
  by (subst scan_lines.simps) (simp add: IndexByte_append)

lemma scan_lines_long:
  "newline \<notin> set l \<Longrightarrow> \<not> length l < limit \<Longrightarrow> scan_lines limit (l @ newline # s) = ([], True)"
  by (subst scan_lines.simps) (simp add: IndexByte_append)

text \<open>
  A file that is empty or ends with a newline is a line boundary: what is appended after it
  is scanned as if it stood alone.
\<close>

definition at_boundary :: "string \<Rightarrow> bool" where
  "at_boundary s \<longleftrightarrow> s = [] \<or> last s = newline"

lemma at_boundary_line [simp]: "at_boundary (s @ [newline])" "at_boundary (s @ l @ [newline])"
  by (simp_all add: at_boundary_def)

lemma at_boundary_Nil [simp]: "at_boundary []"
  by (simp add: at_boundary_def)

lemma scan_lines_append:
  "at_boundary s \<Longrightarrow>
   scan_lines limit (s @ t) =
     (let (ls, e) = scan_lines limit s; (ms, f) = scan_lines limit t
      in if e then (ls, True) else (ls @ ms, f))"
proof (induction limit s rule: scan_lines.induct)
  case (1 limit s)
  show ?case
  proof (cases "s = []")
    case False
    with "1.prems" have "newline \<in> set s"
      by (auto simp: at_boundary_def dest: last_in_set)
    then obtain i where i: "IndexByte s newline = Some i"
      by (cases "IndexByte s newline") (auto simp: IndexByte_None)
    define l r where "l = take i s" and "r = drop (Suc i) s"
    from IndexByte_Some [OF i] have s: "s = l @ newline # r" and nl: "newline \<notin> set l"
      by (auto simp: l_def r_def) (metis id_take_nth_drop)
    have len: "length l = i" using IndexByte_Some [OF i] by (simp add: l_def)
    have "at_boundary r" using "1.prems" s by (auto simp: at_boundary_def split: if_splits)
    show ?thesis
    proof (cases "i < limit")
      case True
      have "scan_lines limit (r @ t) =
          (let (ls, e) = scan_lines limit r; (ms, f) = scan_lines limit t
           in if e then (ls, True) else (ls @ ms, f))"
        using "1.IH" [OF False i True] \<open>at_boundary r\<close> by (simp add: r_def)
      with True nl len show ?thesis
        by (simp add: s scan_lines_line Let_def split: prod.splits)
    next
      case False
      with nl len show ?thesis
        by (simp add: s scan_lines_long Let_def split: prod.splits)
    qed
  qed (simp split: prod.splits)
qed

end
