(* ===== verification/Go_Quote.thy ===== *)
theory Go_Quote
  imports Go_Strings
begin

text \<open>
  String literals of \<open>encoding/json\<close>. A literal is kept as the bytes between its quotes, escapes
  included: that is what \<open>json.RawMessage\<close> and \<open>json.Compact\<close> see. Encoding a Go string produces
  such a literal (\<open>json_quote\<close>, with HTML escaping as \<open>json.Marshal\<close> does it), decoding one gives
  a Go string (\<open>json_unquote\<close>). Unquoting a quoted valid UTF-8 string gives the string back; a
  quoted string is always a well-formed literal.
\<close>

section \<open>String literals\<close>

abbreviation (input) dquote :: char where "dquote \<equiv> CHR 0x22"
abbreviation (input) bslash :: char where "bslash \<equiv> CHR 0x5C"

definition hex4 :: "nat \<Rightarrow> string" where
  "hex4 n = [hex_digit (n div 4096), hex_digit (n div 256 mod 16),
             hex_digit (n div 16 mod 16), hex_digit (n mod 16)]"

definition u_escape :: "nat \<Rightarrow> string" where
  "u_escape n = bslash # CHR ''u'' # hex4 n"

text \<open>One ASCII byte as \<open>json.Marshal\<close> writes it (HTML escaping is on).\<close>

definition quote_byte :: "char \<Rightarrow> string" where
  "quote_byte c =
     (if c = dquote \<or> c = bslash then [bslash, c]
      else if c = CHR 0x0A then [bslash, CHR ''n'']
      else if c = CHR 0x0D then [bslash, CHR ''r'']
      else if c = CHR 0x09 then [bslash, CHR ''t'']
      else if byte c < 32 \<or> c = CHR ''<'' \<or> c = CHR ''>'' \<or> c = CHR ''&'' then u_escape (byte c)
      else [c])"

definition line_sep :: string where "line_sep = [CHR 0xE2, CHR 0x80, CHR 0xA8]"
definition para_sep :: string where "para_sep = [CHR 0xE2, CHR 0x80, CHR 0xA9]"
definition rune_error :: string where "rune_error = [CHR 0xEF, CHR 0xBF, CHR 0xBD]"

function json_quote :: "string \<Rightarrow> string" where
  "json_quote [] = []"
| "json_quote (c # s) =
     (if byte c < 128 then quote_byte c @ json_quote s
      else if rune_size (c # s) = 0 then u_escape 65533 @ json_quote s
      else (let r = take (rune_size (c # s)) (c # s);
                q = (if r = line_sep then u_escape 8232
                     else if r = para_sep then u_escape 8233 else r)
            in q @ json_quote (drop (rune_size (c # s)) (c # s))))"
  by pat_completeness auto
termination
  by (relation "measure length") auto

declare json_quote.simps [simp del]

definition hex_val :: "char \<Rightarrow> nat option" where
  "hex_val c = (if is_digit c then Some (byte c - 48)
     else if 97 \<le> byte c \<and> byte c \<le> 102 then Some (byte c - 87)
     else if 65 \<le> byte c \<and> byte c \<le> 70 then Some (byte c - 55)
     else None)"

fun hex4_val :: "string \<Rightarrow> nat option" where
  "hex4_val [a, b, c, d] =
     (case (hex_val a, hex_val b, hex_val c, hex_val d) of
        (Some w, Some x, Some y, Some z) \<Rightarrow> Some (w * 4096 + x * 256 + y * 16 + z)
      | _ \<Rightarrow> None)"
| "hex4_val _ = None"

text \<open>\<open>utf8.EncodeRune\<close>.\<close>

definition utf8_encode :: "nat \<Rightarrow> string" where
  "utf8_encode n =
     (if n < 128 then [char_of n]
      else if n < 2048 then [char_of (192 + n div 64), char_of (128 + n mod 64)]
      else if n < 65536 then
        [char_of (224 + n div 4096), char_of (128 + n div 64 mod 64), char_of (128 + n mod 64)]
      else [char_of (240 + n div 262144), char_of (128 + n div 4096 mod 64),
            char_of (128 + n div 64 mod 64), char_of (128 + n mod 64)])"

definition simple_escape :: "char \<Rightarrow> string option" where
  "simple_escape e =
     (if e = dquote \<or> e = bslash \<or> e = CHR ''/'' then Some [e]
      else if e = CHR ''b'' then Some [CHR 0x08]
      else if e = CHR ''f'' then Some [CHR 0x0C]
      else if e = CHR ''n'' then Some [CHR 0x0A]
      else if e = CHR ''r'' then Some [CHR 0x0D]
      else if e = CHR ''t'' then Some [CHR 0x09]
      else None)"

text \<open>
  The literal between the quotes decoded to a Go string: escapes are resolved, a surrogate
  pair becomes one rune, an unpaired surrogate or an ill-formed byte becomes U+FFFD.
\<close>

definition is_surrogate :: "nat \<Rightarrow> bool" where
  "is_surrogate n \<longleftrightarrow> 55296 \<le> n \<and> n < 57344"

function json_unquote :: "string \<Rightarrow> string option" where
  "json_unquote [] = Some []"
| "json_unquote (c # s) =
     (if c = bslash then
        (case s of
           [] \<Rightarrow> None
         | e # t \<Rightarrow>
            (if e = CHR ''u'' then
               (case hex4_val (take 4 t) of
                  None \<Rightarrow> None
                | Some n \<Rightarrow>
                   (if \<not> is_surrogate n then
                      map_option ((@) (utf8_encode n)) (json_unquote (drop 4 t))
                    else
                      (case (take 2 (drop 4 t) = [bslash, CHR ''u''], hex4_val (take 4 (drop 6 t))) of
                         (True, Some m) \<Rightarrow>
                           (if n < 56320 \<and> 56320 \<le> m \<and> m < 57344 then
                              map_option ((@) (utf8_encode (65536 + (n - 55296) * 1024 + (m - 56320))))
                                (json_unquote (drop 10 t))
                            else map_option ((@) rune_error) (json_unquote (drop 4 t)))
                       | _ \<Rightarrow> map_option ((@) rune_error) (json_unquote (drop 4 t)))))
             else
               (case simple_escape e of
                  None \<Rightarrow> None
                | Some x \<Rightarrow> map_option ((@) x) (json_unquote t))))
      else if c = dquote \<or> byte c < 32 then None
      else if byte c < 128 then map_option (Cons c) (json_unquote s)
      else if rune_size (c # s) = 0 then map_option ((@) rune_error) (json_unquote s)
      else map_option ((@) (take (rune_size (c # s)) (c # s)))
             (json_unquote (drop (rune_size (c # s)) (c # s))))"
  by pat_completeness auto
termination
  by (relation "measure length") auto

declare json_unquote.simps(2) [simp del]

subsection \<open>Unquoting a quoted string\<close>

lemma hex_val_hex_digit [simp]: "n < 16 \<Longrightarrow> hex_val (hex_digit n) = Some n"
  by (auto simp: hex_val_def is_digit_def byte_hex_digit)

lemma hex4_val_hex4 [simp]: "n < 65536 \<Longrightarrow> hex4_val (hex4 n) = Some n"
proof -
  assume "n < 65536"
  then have "n div 4096 < 16" by linarith
  moreover have "n div 4096 * 4096 + n div 256 mod 16 * 256 + n div 16 mod 16 * 16 + n mod 16 = n"
  proof -
    have "n div 256 = n div 16 div 16" "n div 4096 = n div 256 div 16"
      by (simp_all add: div_mult2_eq [symmetric])
    then show ?thesis
      using div_mult_mod_eq [of n 16] div_mult_mod_eq [of "n div 16" 16]
        div_mult_mod_eq [of "n div 256" 16] by linarith
  qed
  ultimately show ?thesis by (simp add: hex4_def)
qed

lemma length_hex4 [simp]: "length (hex4 n) = 4"
  by (simp add: hex4_def)

lemma char_of_eqI: "byte c = n \<Longrightarrow> char_of n = c"
  by auto

lemma utf8_encode_sep:
  "utf8_encode 8232 = [CHR 0xE2, CHR 0x80, CHR 0xA8]"
  "utf8_encode 8233 = [CHR 0xE2, CHR 0x80, CHR 0xA9]"
  by (auto simp: utf8_encode_def byte_def intro!: char_of_eqI)

lemma json_unquote_u_escape:
  "n < 65536 \<Longrightarrow> \<not> is_surrogate n \<Longrightarrow>
   json_unquote (u_escape n @ s) = map_option ((@) (utf8_encode n)) (json_unquote s)"
  by (simp add: u_escape_def) (subst json_unquote.simps(2), simp)

lemma json_unquote_escape:
  "simple_escape e = Some x \<Longrightarrow> json_unquote (bslash # e # s) = map_option ((@) x) (json_unquote s)"
  by (subst json_unquote.simps(2)) (auto simp: simple_escape_def)

lemma json_unquote_plain:
  "c \<noteq> bslash \<Longrightarrow> c \<noteq> dquote \<Longrightarrow> \<not> byte c < 32 \<Longrightarrow> byte c < 128 \<Longrightarrow>
   json_unquote (c # s) = map_option (Cons c) (json_unquote s)"
  by (subst json_unquote.simps(2)) simp

lemma append_singleton_fun: "(@) [c] = Cons c"
  by (rule ext) simp

lemma json_unquote_quote_byte:
  assumes "byte c < 128"
  shows "json_unquote (quote_byte c @ s) = map_option (Cons c) (json_unquote s)"
proof -
  have esc: "json_unquote (u_escape (byte c) @ s) = map_option (Cons c) (json_unquote s)"
    using assms
    by (subst json_unquote_u_escape) (auto simp: is_surrogate_def utf8_encode_def append_singleton_fun)
  show ?thesis
    using assms
    by (auto simp: quote_byte_def esc json_unquote_plain json_unquote_escape simple_escape_def
        append_singleton_fun)
qed

lemma json_unquote_rune:
  assumes "\<not> byte c < 128" and "rune_size (c # s) \<noteq> 0"
  shows "json_unquote (take (rune_size (c # s)) (c # s) @ t)
           = map_option ((@) (take (rune_size (c # s)) (c # s))) (json_unquote t)"
proof -
  let ?r = "take (rune_size (c # s)) (c # s)"
  obtain r' where r: "?r = c # r'" using assms(2) by (cases "rune_size (c # s)") auto
  have "rune_size ?r = rune_size (c # s)" by (rule rune_size_take)
  then have n: "rune_size (?r @ t) = rune_size (c # s)"
    using assms(2) rune_size_append [of ?r t] by simp
  have len: "length ?r = rune_size (c # s)" using rune_size_le [of "c # s"] by simp
  have c: "c \<noteq> bslash" "c \<noteq> dquote" "\<not> byte c < 32"
    using assms(1) by (auto simp: byte_def)
  have "json_unquote (c # (r' @ t)) = map_option ((@) (take (rune_size (c # r' @ t)) (c # r' @ t)))
             (json_unquote (drop (rune_size (c # r' @ t)) (c # r' @ t)))"
    using assms n r c by (subst json_unquote.simps(2)) simp
  moreover have "rune_size (c # r' @ t) = length (c # r')" using n len r by simp
  then have "take (rune_size (c # r' @ t)) (c # r' @ t) = ?r"
    and "drop (rune_size (c # r' @ t)) (c # r' @ t) = t"
    unfolding r by simp_all
  ultimately show ?thesis using r by simp
qed

theorem json_unquote_quote: "valid_utf8 s \<Longrightarrow> json_unquote (json_quote s) = Some s"
proof (induction s rule: json_quote.induct)
  case 1
  show ?case by (simp add: json_quote.simps)
next
  case (2 c s)
  show ?case
  proof (cases "byte c < 128")
    case True
    with "2.prems" "2.IH"(1) show ?thesis
      by (simp add: json_quote.simps json_unquote_quote_byte)
  next
    case False
    let ?n = "rune_size (c # s)"
    let ?r = "take ?n (c # s)"
    from "2.prems" have n: "?n \<noteq> 0" and v: "valid_utf8 (drop ?n (c # s))"
      by (simp_all add: valid_utf8.simps [of "c # s"] split: if_splits)
    have IH: "json_unquote (json_quote (drop ?n (c # s))) = Some (drop ?n (c # s))"
      using "2.IH"(3) False n v by simp
    have sep: "?r = line_sep \<Longrightarrow> utf8_encode 8232 = ?r" "?r = para_sep \<Longrightarrow> utf8_encode 8233 = ?r"
      by (simp_all add: line_sep_def para_sep_def utf8_encode_sep)
    have q: "json_unquote ((if ?r = line_sep then u_escape 8232
               else if ?r = para_sep then u_escape 8233 else ?r) @ t)
             = map_option ((@) ?r) (json_unquote t)" for t
      using sep False n
      by (simp add: json_unquote_rune json_unquote_u_escape is_surrogate_def del: take_Suc_Cons)
    have "json_quote (c # s) = (if ?r = line_sep then u_escape 8232
               else if ?r = para_sep then u_escape 8233 else ?r) @ json_quote (drop ?n (c # s))"
      using False n by (simp add: json_quote.simps(2) Let_def)
    then show ?thesis by (simp only: q IH option.map append_take_drop_id)
  qed
qed

subsection \<open>Well-formed literals\<close>

text \<open>
  The literals the scanner of \<open>encoding/json\<close> accepts: bytes from 0x20 on except the quote,
  and complete escapes.
\<close>

function raw_ok :: "string \<Rightarrow> bool" where
  "raw_ok [] = True"
| "raw_ok (c # s) =
     (if c = bslash then
        (case s of
           [] \<Rightarrow> False
         | e # t \<Rightarrow>
            (if e = CHR ''u'' then hex4_val (take 4 t) \<noteq> None \<and> raw_ok (drop 4 t)
             else simple_escape e \<noteq> None \<and> raw_ok t))
      else c \<noteq> dquote \<and> \<not> byte c < 32 \<and> raw_ok s)"
  by pat_completeness auto
termination
  by (relation "measure length") auto

declare raw_ok.simps(2) [simp del]

text \<open>Reading a literal after its opening quote: the literal and what follows the closing quote.\<close>

function scan_str :: "string \<Rightarrow> (string \<times> string) option" where
  "scan_str [] = None"
| "scan_str (c # s) =
     (if c = dquote then Some ([], s)
      else if c = bslash then
        (case s of
           [] \<Rightarrow> None
         | e # t \<Rightarrow>
            (if e = CHR ''u'' then
               (if hex4_val (take 4 t) \<noteq> None
                then map_option (\<lambda>(a, b). (c # e # take 4 t @ a, b)) (scan_str (drop 4 t))
                else None)
             else if simple_escape e \<noteq> None
                then map_option (\<lambda>(a, b). (c # e # a, b)) (scan_str t)
                else None))
      else if byte c < 32 then None
      else map_option (\<lambda>(a, b). (c # a, b)) (scan_str s))"
  by pat_completeness auto
termination
  by (relation "measure length") auto

declare scan_str.simps(2) [simp del]

lemma hex4_val_length: "hex4_val s = Some n \<Longrightarrow> length s = 4"
  by (cases s rule: hex4_val.cases) auto

lemma scan_str_raw:
  "raw_ok r \<Longrightarrow> scan_str (r @ dquote # s) = Some (r, s)"
proof (induction r rule: raw_ok.induct)
  case 1
  show ?case by (simp add: scan_str.simps(2))
next
  case (2 c r)
  show ?case
  proof (cases "c = bslash")
    case False
    with 2 show ?thesis by (simp add: raw_ok.simps(2) scan_str.simps(2) [of c])
  next
    case c: True
    with "2.prems" obtain e t where r: "r = e # t" by (auto simp: raw_ok.simps(2) split: list.splits)
    show ?thesis
    proof (cases "e = CHR ''u''")
      case True
      with "2.prems" c r have h: "hex4_val (take 4 t) \<noteq> None" and ok: "raw_ok (drop 4 t)"
        by (simp_all add: raw_ok.simps(2))
      then have l: "4 \<le> length t" by (auto dest!: hex4_val_length)
      have "scan_str (drop 4 t @ dquote # s) = Some (drop 4 t, s)"
        using "2.IH"(1) c r True h ok by simp
      with c r True h l show ?thesis by (simp add: scan_str.simps(2) [of bslash])
    next
      case False
      with "2.prems" c r have h: "simple_escape e \<noteq> None" and ok: "raw_ok t"
        by (simp_all add: raw_ok.simps(2))
      have "scan_str (t @ dquote # s) = Some (t, s)"
        using "2.IH"(2) c r False h ok by simp
      with c r False h show ?thesis by (simp add: scan_str.simps(2) [of bslash])
    qed
  qed
qed

lemma scan_str_sound:
  "scan_str s = Some (r, t) \<Longrightarrow> raw_ok r \<and> s = r @ dquote # t"
proof (induction s arbitrary: r rule: scan_str.induct)
  case (2 c s)
  consider "c = dquote" | "c = bslash" | "c \<noteq> dquote" "c \<noteq> bslash" by auto
  then show ?case
  proof cases
    case 1
    with "2.prems" show ?thesis by (simp add: scan_str.simps(2))
  next
    case b: 2
    with "2.prems" obtain e u where s: "s = e # u" by (auto simp: scan_str.simps(2) split: list.splits)
    show ?thesis
    proof (cases "e = CHR ''u''")
      case True
      with "2.prems" b s obtain a where h: "hex4_val (take 4 u) \<noteq> None"
        and a: "scan_str (drop 4 u) = Some (a, t)" and r: "r = bslash # e # take 4 u @ a"
        by (auto simp: scan_str.simps(2) split: if_splits)
      have "raw_ok a \<and> drop 4 u = a @ dquote # t" using "2.IH"(1) b s True h a by simp
      moreover have "4 \<le> length u" using h by (auto dest!: hex4_val_length)
      ultimately show ?thesis
        using b s True h r append_take_drop_id [of 4 u] by (simp add: raw_ok.simps(2))
    next
      case False
      with "2.prems" b s obtain a where h: "simple_escape e \<noteq> None"
        and a: "scan_str u = Some (a, t)" and r: "r = bslash # e # a"
        by (auto simp: scan_str.simps(2) split: if_splits)
      have "raw_ok a \<and> u = a @ dquote # t" using "2.IH"(2) b s False h a by simp
      with b s False h r show ?thesis by (simp add: raw_ok.simps(2))
    qed
  next
    case 3
    with "2.prems" obtain a where a: "scan_str s = Some (a, t)" and r: "r = c # a"
      and lo: "\<not> byte c < 32"
      by (auto simp: scan_str.simps(2) split: if_splits)
    have "raw_ok a \<and> s = a @ dquote # t" using "2.IH"(3) 3 lo a by simp
    with 3 r lo show ?thesis by (simp add: raw_ok.simps(2))
  qed
qed simp

text \<open>A quoted string is a well-formed literal, whatever its bytes.\<close>

lemma raw_ok_append: "raw_ok a \<Longrightarrow> raw_ok b \<Longrightarrow> raw_ok (a @ b)"
proof (induction a rule: raw_ok.induct)
  case (2 c s)
  show ?case
  proof (cases "c = bslash")
    case True
    with "2.prems" obtain e t where s: "s = e # t" by (auto simp: raw_ok.simps(2) split: list.splits)
    show ?thesis
    proof (cases "e = CHR ''u''")
      case u: True
      with "2.prems" True s have h: "hex4_val (take 4 t) \<noteq> None" "raw_ok (drop 4 t)"
        by (simp_all add: raw_ok.simps(2))
      then have "4 \<le> length t" by (auto dest!: hex4_val_length)
      with "2.IH"(1) "2.prems" True s u h show ?thesis by (simp add: raw_ok.simps(2))
    next
      case False
      with "2.IH"(2) "2.prems" True s show ?thesis by (simp add: raw_ok.simps(2))
    qed
  next
    case False
    with 2 show ?thesis by (simp add: raw_ok.simps(2))
  qed
qed simp

lemma raw_ok_high: "(\<And>c. c \<in> set s \<Longrightarrow> 128 \<le> byte c) \<Longrightarrow> raw_ok s"
proof (induction s)
  case (Cons c s)
  then have "128 \<le> byte c" by simp
  then have "c \<noteq> bslash" "c \<noteq> dquote" "\<not> byte c < 32" by (auto simp: byte_def)
  with Cons show ?case by (simp add: raw_ok.simps(2))
qed simp

lemma raw_ok_u_escape [simp]: "n < 65536 \<Longrightarrow> raw_ok (u_escape n)"
  by (simp add: u_escape_def raw_ok.simps(2) [of bslash])

lemma raw_ok_quote_byte: "byte c < 128 \<Longrightarrow> raw_ok (quote_byte c)"
  by (auto simp: quote_byte_def raw_ok.simps(2) simple_escape_def)

theorem raw_ok_quote [simp]: "raw_ok (json_quote s)"
proof (induction s rule: json_quote.induct)
  case (2 c s)
  let ?n = "rune_size (c # s)"
  have high: "\<not> byte c < 128 \<Longrightarrow> raw_ok (take ?n (c # s))"
    by (rule raw_ok_high) (rule rune_size_high)
  show ?case
    using 2 high
    by (subst json_quote.simps(2)) (auto simp: Let_def intro!: raw_ok_append raw_ok_quote_byte)
qed (simp add: json_quote.simps)

lemma hex_val_byte: "hex_val c = Some n \<Longrightarrow> 48 \<le> byte c"
  by (auto simp: hex_val_def is_digit_def split: if_splits)

lemma hex4_val_bytes: "hex4_val s = Some n \<Longrightarrow> c \<in> set s \<Longrightarrow> 48 \<le> byte c"
  by (cases s rule: hex4_val.cases) (auto split: option.splits dest: hex_val_byte)

lemma raw_ok_bytes: "raw_ok r \<Longrightarrow> c \<in> set r \<Longrightarrow> 32 \<le> byte c"
proof (induction r rule: raw_ok.induct)
  case (2 d s)
  show ?case
  proof (cases "d = bslash")
    case True
    with "2.prems" obtain e t where s: "s = e # t" by (auto simp: raw_ok.simps(2) split: list.splits)
    have b: "32 \<le> byte bslash" "32 \<le> byte (CHR ''u'')" by (simp_all add: byte_def)
    show ?thesis
    proof (cases "e = CHR ''u''")
      case u: True
      with "2.prems" True s obtain n where h: "hex4_val (take 4 t) = Some n" "raw_ok (drop 4 t)"
        by (auto simp: raw_ok.simps(2))
      have "c \<in> set (take 4 t) \<or> c \<in> set (drop 4 t) \<or> c = d \<or> c = e"
        using "2.prems"(2) s append_take_drop_id [of 4 t] by (metis Un_iff set_ConsD set_append)
      with "2.IH"(1) True s u h b show ?thesis
        using hex4_val_bytes [OF h(1)] by fastforce
    next
      case False
      with "2.prems" True s have h: "simple_escape e \<noteq> None" "raw_ok t"
        by (simp_all add: raw_ok.simps(2))
      have "32 \<le> byte e" using h(1) by (auto simp: simple_escape_def byte_def split: if_splits)
      with "2.IH"(2) "2.prems" True s False h b show ?thesis by auto
    qed
  next
    case False
    with 2 show ?thesis by (auto simp: raw_ok.simps(2))
  qed
qed simp

subsection \<open>Compaction of literals\<close>

text \<open>
  What \<open>json.Marshal\<close> does to the string literals inside a \<open>RawMessage\<close> (\<open>compact\<close> with
  \<open>escapeHTML\<close>): the three HTML characters and the two line separators are escaped, everything
  else is copied.
\<close>

fun html_raw :: "string \<Rightarrow> string" where
  "html_raw [] = []"
| "html_raw (c # s) =
     (if c = CHR ''<'' \<or> c = CHR ''>'' \<or> c = CHR ''&'' then u_escape (byte c) @ html_raw s
      else if take 3 (c # s) = line_sep then u_escape 8232 @ html_raw (drop 2 s)
      else if take 3 (c # s) = para_sep then u_escape 8233 @ html_raw (drop 2 s)
      else c # html_raw s)"

declare html_raw.simps(2) [simp del]

definition html_plain :: "char \<Rightarrow> bool" where
  "html_plain c \<longleftrightarrow> c \<noteq> CHR ''<'' \<and> c \<noteq> CHR ''>'' \<and> c \<noteq> CHR ''&'' \<and> c \<noteq> CHR 0xE2"

lemma html_raw_plain:
  "(\<And>c. c \<in> set a \<Longrightarrow> html_plain c) \<Longrightarrow> html_raw (a @ s) = a @ html_raw s"
  by (induction a) (auto simp: html_raw.simps(2) html_plain_def line_sep_def para_sep_def)

lemma hex_digit_plain: "n < 16 \<Longrightarrow> html_plain (hex_digit n)"
proof -
  assume "n < 16"
  then have "48 \<le> byte (hex_digit n) \<and> byte (hex_digit n) \<le> 57
      \<or> 97 \<le> byte (hex_digit n) \<and> byte (hex_digit n) \<le> 102"
    by (auto simp: byte_hex_digit)
  then show ?thesis by (auto simp: html_plain_def byte_def)
qed

lemma u_escape_plain: "n < 65536 \<Longrightarrow> c \<in> set (u_escape n) \<Longrightarrow> html_plain c"
  by (auto simp: u_escape_def hex4_def intro!: hex_digit_plain) (simp_all add: html_plain_def)

lemma html_raw_u_escape: "n < 65536 \<Longrightarrow> html_raw (u_escape n @ s) = u_escape n @ html_raw s"
  by (rule html_raw_plain) (rule u_escape_plain)

lemma html_raw_quote_byte:
  assumes "byte c < 128"
  shows "html_raw (quote_byte c @ s) = quote_byte c @ html_raw s"
proof (cases "quote_byte c = u_escape (byte c)")
  case True
  with assms show ?thesis by (simp add: html_raw_u_escape)
next
  case False
  then have "x = c \<or> x = bslash \<or> x \<in> set ''nrt''" and "c \<noteq> CHR ''<''" "c \<noteq> CHR ''>''" "c \<noteq> CHR ''&''"
    if "x \<in> set (quote_byte c)" for x
    using that by (auto simp: quote_byte_def split: if_splits)
  moreover have "c \<noteq> CHR 0xE2" using assms by (auto simp: byte_def)
  ultimately have "html_plain x" if "x \<in> set (quote_byte c)" for x
    using that by (fastforce simp: html_plain_def)
  then show ?thesis by (rule html_raw_plain)
qed

lemma html_raw_rune:
  assumes "\<not> byte c < 128" and "rune_size (c # s) \<noteq> 0"
    and "take (rune_size (c # s)) (c # s) \<noteq> line_sep" and "take (rune_size (c # s)) (c # s) \<noteq> para_sep"
  shows "html_raw (take (rune_size (c # s)) (c # s) @ t) = take (rune_size (c # s)) (c # s) @ html_raw t"
proof -
  let ?n = "rune_size (c # s)"
  let ?r = "take ?n (c # s)"
  obtain r' where r: "?r = c # r'" using assms(2) by (cases ?n) auto
  have high: "128 \<le> byte x" if "x \<in> set ?r" for x using that assms(1) rune_size_high by blast
  have cont: "x \<noteq> CHR 0xE2" if "x \<in> set r'" for x
  proof -
    have "cont_byte x" using that r assms(1)
      by (auto simp: rune_size_def split: list.splits if_splits)
    then show ?thesis by (auto simp: cont_byte_def byte_def)
  qed
  have plain: "html_plain x" if "x \<in> set r'" for x
    using that cont high r by (fastforce simp: html_plain_def byte_def)
  have "?n = 3" if "c = CHR 0xE2"
    using that assms(2) by (auto simp: rune_size_def byte_def split: list.splits if_splits)
  then have "take 3 (c # r' @ t) = ?r" if "c = CHR 0xE2"
    using that r by (metis append_Cons append_eq_conv_conj length_take min.absorb2 rune_size_le)
  then have "take 3 (c # r' @ t) \<noteq> line_sep \<and> take 3 (c # r' @ t) \<noteq> para_sep"
    using assms(3,4) by (cases "c = CHR 0xE2") (auto simp: line_sep_def para_sep_def)
  moreover have "c \<noteq> CHR ''<'' \<and> c \<noteq> CHR ''>'' \<and> c \<noteq> CHR ''&''"
    using assms(1) by (auto simp: byte_def)
  ultimately show ?thesis
    using html_raw_plain [of r' t] plain r by (simp add: html_raw.simps(2))
qed

text \<open>Literals that \<open>json.Marshal\<close> wrote itself are left unchanged by compaction.\<close>

theorem html_raw_quote [simp]: "html_raw (json_quote s) = json_quote s"
proof (induction s rule: json_quote.induct)
  case (2 c s)
  show ?case
    using 2 by (subst (1 2) json_quote.simps(2))
      (auto simp: Let_def html_raw_rune html_raw_u_escape html_raw_quote_byte)
qed (simp add: json_quote.simps)

section \<open>Decoded strings are valid UTF-8\<close>

lemma valid_utf8_rune: "rune_size s \<noteq> 0 \<Longrightarrow> valid_utf8 (take (rune_size s) s)"
  by (subst valid_utf8.simps) (simp add: rune_size_take)

lemma valid_utf8_encode:
  assumes "\<not> is_surrogate n" "n < 1114112"
  shows "valid_utf8 (utf8_encode n)"
proof -
  have "rune_size (utf8_encode n) = length (utf8_encode n)"
  proof -
    consider "n < 128" | "128 \<le> n" "n < 2048" | "2048 \<le> n" "n < 65536" | "65536 \<le> n" by linarith
    then show ?thesis
    proof cases
      case 2
      then have "n div 64 < 32" "2 \<le> n div 64" by linarith+
      with 2 show ?thesis by (simp add: utf8_encode_def rune_size_def cont_byte_def)
    next
      case 3
      define q where "q = n div 64"
      have q: "n div 4096 = q div 64" using div_mult2_eq [of n 64 64] by (simp add: q_def)
      have m: "q mod 64 + 64 * (q div 64) = q" by simp
      have d: "q div 64 < 16" and "32 \<le> q" using 3 unfolding q_def by linarith+
      then have z: "q div 64 = 0 \<Longrightarrow> 32 \<le> q mod 64" using m by linarith
      have "q < 864 \<or> 896 \<le> q" using assms(1) unfolding is_surrogate_def q_def by linarith
      then have s: "q div 64 = 13 \<Longrightarrow> q mod 64 < 32" using m by linarith
      show ?thesis using 3 d z s
        by (simp add: utf8_encode_def rune_size_def cont_byte_def q_def [symmetric] q)
    next
      case 4
      define q where "q = n div 4096"
      have q: "n div 262144 = q div 64" using div_mult2_eq [of n 4096 64] by (simp add: q_def)
      have m: "q mod 64 + 64 * (q div 64) = q" by simp
      have "q < 272" "16 \<le> q" using 4 assms(2) unfolding q_def by linarith+
      then have d: "q div 64 < 5" and z: "q div 64 = 0 \<Longrightarrow> 16 \<le> q mod 64"
        and s: "q div 64 = 4 \<Longrightarrow> q mod 64 < 16" using m by linarith+
      show ?thesis using 4 d z s
        by (simp add: utf8_encode_def rune_size_def cont_byte_def q_def [symmetric] q)
    qed (simp add: utf8_encode_def)
  qed
  moreover have "utf8_encode n \<noteq> []" by (simp add: utf8_encode_def)
  ultimately show ?thesis by (subst valid_utf8.simps) simp
qed

lemma hex_val_less: "hex_val c = Some n \<Longrightarrow> n < 16"
  by (auto simp: hex_val_def is_digit_def split: if_splits)

lemma hex4_val_less: "hex4_val s = Some n \<Longrightarrow> n < 65536"
proof -
  assume "hex4_val s = Some n"
  then obtain a b c d w x y z where
    "hex_val a = Some w" "hex_val b = Some x" "hex_val c = Some y" "hex_val d = Some z"
    "n = w * 4096 + x * 256 + y * 16 + z"
    by (cases s rule: hex4_val.cases) (auto split: option.splits)
  then show ?thesis using hex_val_less [of a w] hex_val_less [of b x] hex_val_less [of c y] hex_val_less [of d z]
    by simp
qed

lemma valid_utf8_rune_error: "valid_utf8 rune_error"
  by (subst valid_utf8.simps) (simp add: rune_error_def rune_size_def cont_byte_def byte_def)

lemma simple_escape_ascii: "simple_escape e = Some x \<Longrightarrow> valid_utf8 x"
  by (auto simp: simple_escape_def byte_def split: if_splits)

theorem json_unquote_valid: "json_unquote s = Some t \<Longrightarrow> valid_utf8 t"
proof (induction s arbitrary: t rule: length_induct)
  case (1 s)
  then have IH: "valid_utf8 u" if "json_unquote r = Some u" "length r < length s" for r u
    using that by blast
  have IH_drop: "valid_utf8 u" if "json_unquote (drop k x) = Some u" "s = a # b # x" for k a b x u
    using IH [OF that(1)] that(2) by simp
  have IH_tl: "valid_utf8 u" if "json_unquote x = Some u" "s = a # y" "y = x \<or> y = b # x" for a b x y u
    using IH [OF that(1)] that(2,3) by auto
  have IH_rune: "valid_utf8 u" if "json_unquote (drop k (a # x)) = Some u" "0 < k" "s = a # x" for k a x u
    using IH [OF that(1)] that(2,3) by simp
  have enc: "valid_utf8 (utf8_encode n @ u)" if "hex4_val v = Some n" "\<not> is_surrogate n" "valid_utf8 u" for n u v
    using that hex4_val_less [of v n] by (intro valid_utf8_append valid_utf8_encode) auto
  have pair: "valid_utf8 (utf8_encode (65536 + (n - 55296) * 1024 + (m - 56320)) @ u)"
    if "n < 56320" "m < 57344" "valid_utf8 u" for n m u
    using that by (intro valid_utf8_append valid_utf8_encode) (auto simp: is_surrogate_def)
  have pair': "valid_utf8 (utf8_encode (9216 + ((n - 55296) * 1024 + m)) @ u)"
    if "n < 56320" "56320 \<le> m" "m < 57344" "valid_utf8 u" for n m u
    using pair [of n m u] that by (simp add: algebra_simps)
  have err: "valid_utf8 (rune_error @ u)" if "valid_utf8 u" for u
    using that by (intro valid_utf8_append valid_utf8_rune_error)
  show ?case
  proof (cases s)
    case (Cons c r)
    show ?thesis
    proof (cases "c = bslash")
      case True
      show ?thesis
        using 1(2) Cons True
        by (auto simp: json_unquote.simps(2) split: list.splits if_splits option.splits bool.splits
            intro: enc pair' err valid_utf8_append IH_drop IH_tl simple_escape_ascii)
    next
      case False
      then show ?thesis
        using 1(2) Cons valid_utf8_rune [of s]
        by (auto simp: json_unquote.simps(2) split: if_splits intro: err valid_utf8_append IH_rune IH_tl)
    qed
  qed (use 1(2) in simp)
qed

end
