(* ===== verification/Go_Json.thy ===== *)
theory Go_Json
  imports Go_Quote
begin

text \<open>
  JSON texts as \<open>encoding/json\<close> reads and writes them: the syntax tree with literals as
  written, the compact printer, the parser, and decoding of objects into structs. Parsing a
  printed well-formed tree gives the tree (\<open>json_parse_print\<close>) and every tree the parser
  returns is well-formed (\<open>json_parse_wf\<close>), so printing is injective on parsed texts. The
  limit of 10000 nesting levels of the Go decoder is not modelled.
\<close>

datatype json =
    JNull
  | JBool bool
  | JNum string
  | JStr string
  | JArr "json list"
  | JObj "(string \<times> json) list"

section \<open>Printing\<close>

fun json_print :: "json \<Rightarrow> string"
  and print_elems :: "json list \<Rightarrow> string"
  and print_members :: "(string \<times> json) list \<Rightarrow> string" where
  "json_print JNull = ''null''"
| "json_print (JBool b) = (if b then ''true'' else ''false'')"
| "json_print (JNum s) = s"
| "json_print (JStr s) = dquote # s @ [dquote]"
| "json_print (JArr xs) = CHR ''['' # print_elems xs"
| "json_print (JObj ms) = CHR ''{'' # print_members ms"
| "print_elems [] = '']''"
| "print_elems (x # xs) = json_print x @ (if xs = [] then '']'' else CHR '','' # print_elems xs)"
| "print_members [] = ''}''"
| "print_members ((k, v) # ms) =
     dquote # k @ dquote # CHR '':'' # json_print v @
       (if ms = [] then ''}'' else CHR '','' # print_members ms)"

section \<open>Well-formed trees\<close>

definition exp_ok :: "string \<Rightarrow> bool" where
  "exp_ok s = (case s of
     [] \<Rightarrow> True
   | e # t \<Rightarrow> (e = CHR ''e'' \<or> e = CHR ''E'') \<and>
       (let d = (case t of x # u \<Rightarrow> (if x = CHR ''+'' \<or> x = CHR ''-'' then u else t) | [] \<Rightarrow> [])
        in d \<noteq> [] \<and> list_all is_digit d))"

definition frac_ok :: "string \<Rightarrow> bool" where
  "frac_ok s = (case s of
     [] \<Rightarrow> True
   | x # t \<Rightarrow> (if x = CHR ''.''
        then takeWhile is_digit t \<noteq> [] \<and> exp_ok (dropWhile is_digit t)
        else exp_ok s))"

definition num_ok :: "string \<Rightarrow> bool" where
  "num_ok s =
     (let t = (case s of x # u \<Rightarrow> (if x = CHR ''-'' then u else s) | [] \<Rightarrow> []);
          d = takeWhile is_digit t
      in d \<noteq> [] \<and> (hd d = CHR ''0'' \<longrightarrow> length d = 1) \<and> frac_ok (dropWhile is_digit t))"

definition num_char :: "char \<Rightarrow> bool" where
  "num_char c \<longleftrightarrow> is_digit c \<or> c \<in> set ''+-.eE''"

fun wf_json :: "json \<Rightarrow> bool"
  and wf_elems :: "json list \<Rightarrow> bool"
  and wf_members :: "(string \<times> json) list \<Rightarrow> bool" where
  "wf_json (JNum s) = (num_ok s \<and> list_all num_char s)"
| "wf_json (JStr s) = raw_ok s"
| "wf_json (JArr xs) = wf_elems xs"
| "wf_json (JObj ms) = wf_members ms"
| "wf_json _ = True"
| "wf_elems [] = True"
| "wf_elems (x # xs) = (wf_json x \<and> wf_elems xs)"
| "wf_members [] = True"
| "wf_members ((k, v) # ms) = (raw_ok k \<and> wf_json v \<and> wf_members ms)"

lemma wf_members_iff: "wf_members ms \<longleftrightarrow> (\<forall>(k, v) \<in> set ms. raw_ok k \<and> wf_json v)"
  by (induction ms) auto

lemma wf_elems_iff: "wf_elems xs \<longleftrightarrow> (\<forall>x \<in> set xs. wf_json x)"
  by (induction xs) auto

section \<open>Parsing\<close>

definition is_ws :: "char \<Rightarrow> bool" where
  "is_ws c \<longleftrightarrow> c = CHR '' '' \<or> c = CHR 0x09 \<or> c = CHR 0x0A \<or> c = CHR 0x0D"

definition skip_ws :: "string \<Rightarrow> string" where
  "skip_ws s = dropWhile is_ws s"

definition scan_num :: "string \<Rightarrow> (json \<times> string) option" where
  "scan_num s = (let l = takeWhile num_char s in
     if num_ok l then Some (JNum l, dropWhile num_char s) else None)"

definition scan_word :: "string \<Rightarrow> json \<Rightarrow> string \<Rightarrow> (json \<times> string) option" where
  "scan_word w v s = (if HasPrefix s w then Some (v, drop (length w) s) else None)"

text \<open>
  The recursive descent carries fuel. Every nested call reads at least one byte less than its
  caller, so the length of the text is enough.
\<close>

fun pvalue :: "nat \<Rightarrow> string \<Rightarrow> (json \<times> string) option"
  and pelems :: "nat \<Rightarrow> string \<Rightarrow> (json list \<times> string) option"
  and pmembers :: "nat \<Rightarrow> string \<Rightarrow> ((string \<times> json) list \<times> string) option" where
  "pvalue 0 s = None"
| "pvalue (Suc n) s = (case skip_ws s of
     [] \<Rightarrow> None
   | c # r \<Rightarrow>
      (if c = CHR ''{'' then
         (case skip_ws r of
            [] \<Rightarrow> None
          | d # t \<Rightarrow> (if d = CHR ''}'' then Some (JObj [], t)
              else map_option (\<lambda>(ms, u). (JObj ms, u)) (pmembers n (d # t))))
       else if c = CHR ''['' then
         (case skip_ws r of
            [] \<Rightarrow> None
          | d # t \<Rightarrow> (if d = CHR '']'' then Some (JArr [], t)
              else map_option (\<lambda>(xs, u). (JArr xs, u)) (pelems n (d # t))))
       else if c = dquote then map_option (\<lambda>(a, t). (JStr a, t)) (scan_str r)
       else if c = CHR ''t'' then scan_word ''true'' (JBool True) (c # r)
       else if c = CHR ''f'' then scan_word ''false'' (JBool False) (c # r)
       else if c = CHR ''n'' then scan_word ''null'' JNull (c # r)
       else scan_num (c # r)))"
| "pelems 0 s = None"
| "pelems (Suc n) s = (case pvalue n s of
     None \<Rightarrow> None
   | Some (v, t) \<Rightarrow> (case skip_ws t of
        [] \<Rightarrow> None
      | d # u \<Rightarrow> (if d = CHR '']'' then Some ([v], u)
          else if d = CHR '','' then map_option (\<lambda>(vs, w). (v # vs, w)) (pelems n u)
          else None)))"
| "pmembers 0 s = None"
| "pmembers (Suc n) s = (case skip_ws s of
     [] \<Rightarrow> None
   | c # r \<Rightarrow>
      (if c \<noteq> dquote then None
       else (case scan_str r of
          None \<Rightarrow> None
        | Some (k, t) \<Rightarrow> (case skip_ws t of
             [] \<Rightarrow> None
           | e # u \<Rightarrow>
              (if e \<noteq> CHR '':'' then None
               else (case pvalue n u of
                  None \<Rightarrow> None
                | Some (v, w) \<Rightarrow> (case skip_ws w of
                     [] \<Rightarrow> None
                   | d # x \<Rightarrow> (if d = CHR ''}'' then Some ([(k, v)], x)
                       else if d = CHR '','' then
                         map_option (\<lambda>(ms, y). ((k, v) # ms, y)) (pmembers n x)
                       else None))))))))"

definition json_parse :: "string \<Rightarrow> json option" where
  "json_parse s = (case pvalue (Suc (length s)) s of
     Some (v, t) \<Rightarrow> (if skip_ws t = [] then Some v else None)
   | None \<Rightarrow> None)"

section \<open>Parsing what was printed\<close>

lemma skip_ws_non [simp]: "\<not> is_ws c \<Longrightarrow> skip_ws (c # s) = c # s"
  by (simp add: skip_ws_def)

lemma skip_ws_Nil [simp]: "skip_ws [] = []"
  by (simp add: skip_ws_def)

text \<open>What may follow a value: no byte that could extend a number.\<close>

definition stops :: "string \<Rightarrow> bool" where
  "stops s \<longleftrightarrow> (case s of [] \<Rightarrow> True | c # _ \<Rightarrow> \<not> num_char c)"

definition num_start :: "char \<Rightarrow> bool" where
  "num_start c \<longleftrightarrow> c = CHR ''-'' \<or> is_digit c"

lemma num_ok_hd: "num_ok s \<Longrightarrow> \<exists>c t. s = c # t \<and> num_start c"
  by (cases s) (auto simp: num_ok_def Let_def num_start_def split: if_splits)

lemma num_start_not_special:
  assumes "num_start c"
  shows "c \<noteq> CHR ''{''" "c \<noteq> CHR ''[''" "c \<noteq> dquote" "c \<noteq> CHR ''t''" "c \<noteq> CHR ''f''"
    "c \<noteq> CHR ''n''" "c \<noteq> CHR ''}''" "c \<noteq> CHR '']''" "\<not> is_ws c"
  using assms by (auto simp: num_start_def is_digit_def is_ws_def byte_def)

lemma takeWhile_num: "list_all num_char l \<Longrightarrow> stops s \<Longrightarrow> takeWhile num_char (l @ s) = l"
  by (induction l) (auto simp: stops_def split: list.splits)

lemma dropWhile_num: "list_all num_char l \<Longrightarrow> stops s \<Longrightarrow> dropWhile num_char (l @ s) = s"
  by (induction l) (auto simp: stops_def split: list.splits)

lemma scan_num_print:
  "num_ok l \<Longrightarrow> list_all num_char l \<Longrightarrow> stops s \<Longrightarrow> scan_num (l @ s) = Some (JNum l, s)"
  by (simp add: scan_num_def takeWhile_num dropWhile_num)

lemma pvalue_num:
  assumes "num_ok l" "list_all num_char l" "stops s"
  shows "pvalue (Suc n) (l @ s) = Some (JNum l, s)"
proof -
  obtain c t where l: "l = c # t" and c: "num_start c"
    using num_ok_hd [OF assms(1)] by blast
  have "scan_num (c # t @ s) = Some (JNum l, s)"
    using scan_num_print [OF assms] l by simp
  with l show ?thesis by (simp add: num_start_not_special [OF c])
qed

lemma json_print_hd:
  "wf_json j \<Longrightarrow> \<exists>c t. json_print j = c # t \<and> \<not> is_ws c \<and> c \<noteq> CHR '']'' \<and> c \<noteq> CHR ''}''"
proof (cases j)
  case (JNum s)
  assume "wf_json j"
  with JNum num_ok_hd [of s] obtain c t where "s = c # t" "num_start c" by auto
  with JNum num_start_not_special [of c] show ?thesis by simp
qed (auto simp: is_ws_def)

lemma stops_simps [simp]:
  "stops []" "stops (CHR '']'' # s)" "stops (CHR ''}'' # s)" "stops (CHR '','' # s)"
  by (auto simp: stops_def num_char_def is_digit_def byte_def)

lemma not_ws_simps [simp]:
  "\<not> is_ws (CHR ''{'')" "\<not> is_ws (CHR ''['')" "\<not> is_ws dquote" "\<not> is_ws (CHR '':'')" "\<not> is_ws (CHR '','')"
  "\<not> is_ws (CHR ''}'')" "\<not> is_ws (CHR '']'')" "\<not> is_ws (CHR ''t'')" "\<not> is_ws (CHR ''f'')" "\<not> is_ws (CHR ''n'')"
  by (simp_all add: is_ws_def)

lemma scan_word_print [simp]:
  "scan_word ''true'' v (CHR ''t'' # CHR ''r'' # CHR ''u'' # CHR ''e'' # s) = Some (v, s)"
  "scan_word ''false'' v (CHR ''f'' # CHR ''a'' # CHR ''l'' # CHR ''s'' # CHR ''e'' # s) = Some (v, s)"
  "scan_word ''null'' v (CHR ''n'' # CHR ''u'' # CHR ''l'' # CHR ''l'' # s) = Some (v, s)"
  by (simp_all add: scan_word_def)

lemma parse_print_mutual:
  shows "wf_json j \<Longrightarrow> length (json_print j) \<le> n \<Longrightarrow> stops s \<Longrightarrow>
           pvalue n (json_print j @ s) = Some (j, s)"
    and "wf_elems xs \<Longrightarrow> xs \<noteq> [] \<Longrightarrow> length (print_elems xs) \<le> n \<Longrightarrow>
           pelems n (print_elems xs @ s) = Some (xs, s)"
    and "wf_members ms \<Longrightarrow> ms \<noteq> [] \<Longrightarrow> length (print_members ms) \<le> n \<Longrightarrow>
           pmembers n (print_members ms @ s) = Some (ms, s)"
proof (induction j and xs and ms arbitrary: n s and n s and n s
    rule: json_print_print_elems_print_members.induct)
  case (3 l)
  then obtain m where "n = Suc m" using num_ok_hd by (cases n) auto
  with 3 pvalue_num show ?case by simp
next
  case (4 r)
  then obtain m where "n = Suc m" by (cases n) auto
  with 4 scan_str_raw [of r s] show ?case by simp
next
  case (5 xs)
  then obtain m where n: "n = Suc m" by (cases n) auto
  show ?case
  proof (cases xs)
    case (Cons y ys)
    with 5 obtain c t where c: "json_print y = c # t" "\<not> is_ws c" "c \<noteq> CHR '']''"
      using json_print_hd [of y] by auto
    have "pelems m (print_elems xs @ s) = Some (xs, s)" using 5 n Cons by simp
    with n c Cons show ?thesis by simp
  qed (use n in simp)
next
  case (6 ms)
  then obtain m where n: "n = Suc m" by (cases n) auto
  show ?case
  proof (cases ms)
    case (Cons y ys)
    then obtain k v where y: "y = (k, v)" by (cases y)
    have "pmembers m (print_members ms @ s) = Some (ms, s)" using 6 n Cons by simp
    with n y Cons show ?thesis by simp
  qed (use n in simp)
next
  case (8 x xs)
  then obtain m where n: "n = Suc m" by (cases n) (auto split: if_splits)
  have v: "pvalue m (json_print x @ u) = Some (x, u)" if "stops u" for u
    using 8 n that by (auto split: if_splits)
  show ?case
  proof (cases "xs = []")
    case True
    with n v [of "CHR '']'' # s"] show ?thesis by simp
  next
    case False
    then have "pelems m (print_elems xs @ s) = Some (xs, s)" using 8 n by simp
    with False n v [of "CHR '','' # print_elems xs @ s"] show ?thesis by simp
  qed
next
  case (10 k v ms)
  then obtain m where n: "n = Suc m" by (cases n) auto
  have pv: "pvalue m (json_print v @ u) = Some (v, u)" if "stops u" for u
    using 10 n that by simp
  have sk: "scan_str (k @ dquote # u) = Some (k, u)" for u
    using 10 by (simp add: scan_str_raw)
  show ?case
  proof (cases "ms = []")
    case True
    with n sk pv [of "CHR ''}'' # s"] show ?thesis by simp
  next
    case False
    then have "pmembers m (print_members ms @ s) = Some (ms, s)" using 10 n by simp
    with False n sk pv [of "CHR '','' # print_members ms @ s"] show ?thesis by simp
  qed
next
  case 1
  then obtain m where "n = Suc m" by (cases n) auto
  then show ?case by simp
next
  case (2 b)
  then obtain m where "n = Suc m" by (cases n) (auto split: if_splits)
  then show ?case by simp
qed simp_all

theorem json_parse_print: "wf_json j \<Longrightarrow> json_parse (json_print j) = Some j"
  using parse_print_mutual(1) [of j "Suc (length (json_print j))" "[]"]
  by (simp add: json_parse_def)

section \<open>What the parser returns\<close>

lemma skip_ws_length: "length (skip_ws s) \<le> length s"
  by (simp add: skip_ws_def length_dropWhile_le)

lemma skip_ws_Cons_length: "skip_ws s = c # r \<Longrightarrow> Suc (length r) \<le> length s"
  using skip_ws_length [of s] by simp

lemma scan_str_length: "scan_str s = Some (r, t) \<Longrightarrow> Suc (length t) \<le> length s"
  by (drule scan_str_sound) simp

lemma scan_num_length: "scan_num s = Some (v, t) \<Longrightarrow> Suc (length t) \<le> length s"
proof -
  assume a: "scan_num s = Some (v, t)"
  then have "num_ok (takeWhile num_char s)" and t: "t = dropWhile num_char s"
    by (auto simp: scan_num_def Let_def split: if_splits)
  then have "0 < length (takeWhile num_char s)" using num_ok_hd by fastforce
  moreover have "length (takeWhile num_char s) + length t = length s"
    using t by (metis length_append takeWhile_dropWhile_id)
  ultimately show ?thesis by linarith
qed

lemma scan_word_length: "w \<noteq> [] \<Longrightarrow> scan_word w j s = Some (v, t) \<Longrightarrow> Suc (length t) \<le> length s"
  by (auto simp: scan_word_def HasPrefix_iff split: if_splits) (metis Suc_leI length_greater_0_conv)

lemma scan_num_wf: "scan_num s = Some (v, t) \<Longrightarrow> wf_json v"
  by (auto simp: scan_num_def Let_def list_all_iff split: if_splits dest: set_takeWhileD)

lemma scan_word_wf: "scan_word w j s = Some (v, t) \<Longrightarrow> wf_json j \<Longrightarrow> wf_json v"
  by (auto simp: scan_word_def split: if_splits)

lemma parse_wf_mutual:
  shows "pvalue n s = Some (j, t) \<Longrightarrow> wf_json j"
    and "pelems n s = Some (xs, t) \<Longrightarrow> wf_elems xs"
    and "pmembers n s = Some (ms, t) \<Longrightarrow> wf_members ms"
proof (induction n s and n s and n s arbitrary: j t and xs t and ms t
    rule: pvalue_pelems_pmembers.induct)
  case (2 n s)
  from "2.prems" obtain c r where s: "skip_ws s = c # r" by (auto split: list.splits)
  consider "c = CHR ''{''" | "c = CHR ''[''" | "c \<noteq> CHR ''{''" "c \<noteq> CHR ''[''" by auto
  then show ?case
  proof cases
    case 1
    then show ?thesis using 2 s by (fastforce split: list.splits if_splits)
  next
    case b: 2
    then show ?thesis using 2 s by (fastforce split: list.splits if_splits)
  next
    case 3
    then show ?thesis
      using "2.prems" s
      by (auto split: if_splits dest: scan_num_wf scan_word_wf scan_str_sound)
  qed
next
  case (4 n s)
  from "4.prems" obtain v u where v: "pvalue n s = Some (v, u)" by (auto split: option.splits)
  from "4.prems" v obtain d w where d: "skip_ws u = d # w" by (auto split: list.splits)
  have "wf_json v" using "4.IH"(1) v by blast
  with "4.prems" "4.IH"(2) v d show ?case by (fastforce split: if_splits)
next
  case (6 n s)
  from "6.prems" obtain r where r: "skip_ws s = dquote # r" by (auto split: list.splits if_splits)
  from "6.prems" r obtain k u where k: "scan_str r = Some (k, u)" by (auto split: option.splits)
  from "6.prems" r k obtain w where w: "skip_ws u = CHR '':'' # w" by (auto split: list.splits if_splits)
  from "6.prems" r k w obtain v x where v: "pvalue n w = Some (v, x)" by (auto split: option.splits)
  from "6.prems" r k w v obtain d y where d: "skip_ws x = d # y" by (auto split: list.splits)
  have "wf_json v" using "6.IH"(1) r k w v by fastforce
  moreover have "raw_ok k" using scan_str_sound [OF k] by simp
  ultimately show ?case
    using "6.prems" "6.IH"(2) r k w v d by (fastforce split: if_splits)
qed simp_all

theorem json_parse_wf: "json_parse s = Some j \<Longrightarrow> wf_json j"
  by (auto simp: json_parse_def simp del: pvalue.simps split: option.splits if_splits
      dest: parse_wf_mutual(1))

text \<open>Printing is injective on trees that come from parsing.\<close>

lemma json_print_inject: "wf_json i \<Longrightarrow> wf_json j \<Longrightarrow> json_print i = json_print j \<Longrightarrow> i = j"
  using json_parse_print by (metis option.inject)

text \<open>
  Fuel: a call that succeeds with any fuel succeeds with as much fuel as the bytes it consumed,
  hence with the length of the text.
\<close>

lemma parse_fuel_mutual:
  shows "pvalue n s = Some (j, t) \<Longrightarrow>
           length t < length s \<and> (\<forall>m. length s - length t \<le> m \<longrightarrow> pvalue m s = Some (j, t))"
    and "pelems n s = Some (xs, t) \<Longrightarrow>
           length t < length s \<and> (\<forall>m. length s - length t \<le> m \<longrightarrow> pelems m s = Some (xs, t))"
    and "pmembers n s = Some (ms, t) \<Longrightarrow>
           length t < length s \<and> (\<forall>m. length s - length t \<le> m \<longrightarrow> pmembers m s = Some (ms, t))"
proof (induction n s and n s and n s arbitrary: j t and xs t and ms t
    rule: pvalue_pelems_pmembers.induct)
  case (2 n s)
  from "2.prems" obtain c r where s: "skip_ws s = c # r" by (auto split: list.splits)
  note ls = skip_ws_Cons_length [OF s]
  consider (obj) "c = CHR ''{''" | (arr) "c = CHR ''[''" | (other) "c \<noteq> CHR ''{''" "c \<noteq> CHR ''[''" by auto
  then show ?case
  proof cases
    case obj
    with "2.prems" s obtain d u where d: "skip_ws r = d # u" by (auto split: list.splits)
    note lr = skip_ws_Cons_length [OF d]
    show ?thesis
    proof (cases "d = CHR ''}''")
      case True
      have "pvalue m s = Some (j, t)" if "length s - length t \<le> m" for m
        using "2.prems" s obj d True that ls lr by (cases m) auto
      with "2.prems" s obj d True ls lr show ?thesis by auto
    next
      case False
      with "2.prems" s obj d obtain ms where ms: "pmembers n (d # u) = Some (ms, t)" "j = JObj ms"
        by auto
      have IH: "length t < length (d # u)"
          "length (d # u) - length t \<le> m \<Longrightarrow> pmembers m (d # u) = Some (ms, t)" for m
        using "2.IH"(1) [OF s obj d False ms(1)] by auto
      have "pvalue m s = Some (j, t)" if "length s - length t \<le> m" for m
        using s obj d False ms IH that ls lr by (cases m) auto
      with IH ls lr show ?thesis by auto
    qed
  next
    case arr
    then have nobj: "c \<noteq> CHR ''{''" by simp
    from arr "2.prems" s obtain d u where d: "skip_ws r = d # u" by (auto split: list.splits)
    note lr = skip_ws_Cons_length [OF d]
    show ?thesis
    proof (cases "d = CHR '']''")
      case True
      have "pvalue m s = Some (j, t)" if "length s - length t \<le> m" for m
        using "2.prems" s arr d True that ls lr by (cases m) auto
      with "2.prems" s arr d True ls lr show ?thesis by auto
    next
      case False
      with "2.prems" s arr d obtain xs where xs: "pelems n (d # u) = Some (xs, t)" "j = JArr xs"
        by auto
      have IH: "length t < length (d # u)"
          "length (d # u) - length t \<le> m \<Longrightarrow> pelems m (d # u) = Some (xs, t)" for m
        using "2.IH"(2) [OF s nobj arr d False xs(1)] by auto
      have "pvalue m s = Some (j, t)" if "length s - length t \<le> m" for m
        using s arr d False xs IH that ls lr by (cases m) auto
      with IH ls lr show ?thesis by auto
    qed
  next
    case other
    have t: "length t < length s"
      using "2.prems" s other ls
      by (auto split: if_splits dest!: scan_str_length scan_num_length scan_word_length [rotated])
    moreover have "pvalue m s = Some (j, t)" if "length s - length t \<le> m" for m
      using "2.prems" s other that t by (cases m) auto
    ultimately show ?thesis by blast
  qed
next
  case (4 n s)
  from "4.prems" obtain v u where v: "pvalue n s = Some (v, u)" by (auto split: option.splits)
  from "4.prems" v obtain d w where d: "skip_ws u = d # w" by (auto split: list.splits)
  note lu = skip_ws_Cons_length [OF d]
  have V: "length u < length s" "length s - length u \<le> m \<Longrightarrow> pvalue m s = Some (v, u)" for m
    using "4.IH"(1) [OF v] by auto
  show ?case
  proof (cases "d = CHR '']''")
    case True
    have "pelems m s = Some (xs, t)" if "length s - length t \<le> m" for m
      using "4.prems" v V d True that lu by (cases m) auto
    with "4.prems" v V d True lu show ?thesis by auto
  next
    case False
    with "4.prems" v d obtain vs where vs: "d = CHR '',''" "pelems n w = Some (vs, t)" "xs = v # vs"
      by (auto split: if_splits)
    have IH: "length t < length w" "length w - length t \<le> m \<Longrightarrow> pelems m w = Some (vs, t)" for m
      using "4.IH"(2) [OF v _ d False vs(1,2)] by auto
    have "pelems m s = Some (xs, t)" if "length s - length t \<le> m" for m
      using v V d vs IH that lu by (cases m) auto
    with IH V lu show ?thesis by auto
  qed
next
  case (6 n s)
  from "6.prems" obtain r where r: "skip_ws s = dquote # r" by (auto split: list.splits if_splits)
  from "6.prems" r obtain k u where k: "scan_str r = Some (k, u)" by (auto split: option.splits)
  from "6.prems" r k obtain w where w: "skip_ws u = CHR '':'' # w" by (auto split: list.splits if_splits)
  from "6.prems" r k w obtain v x where v: "pvalue n w = Some (v, x)" by (auto split: option.splits)
  from "6.prems" r k w v obtain d y where d: "skip_ws x = d # y" by (auto split: list.splits)
  note l = skip_ws_Cons_length [OF r] scan_str_length [OF k] skip_ws_Cons_length [OF w]
    skip_ws_Cons_length [OF d]
  have V: "length x < length w" "length w - length x \<le> m \<Longrightarrow> pvalue m w = Some (v, x)" for m
    using "6.IH"(1) r k w v by fastforce+
  show ?case
  proof (cases "d = CHR ''}''")
    case True
    have "pmembers m s = Some (ms, t)" if "length s - length t \<le> m" for m
      using "6.prems" r k w v V d True that l by (cases m) auto
    with "6.prems" r k w v V d True l show ?thesis by auto
  next
    case False
    with "6.prems" r k w v d obtain ns where ns: "d = CHR '',''" "pmembers n y = Some (ns, t)" "ms = (k, v) # ns"
      by (auto split: if_splits)
    have IH: "length t < length y" "length y - length t \<le> m \<Longrightarrow> pmembers m y = Some (ns, t)" for m
      using "6.IH"(2) r k w v d ns by fastforce+
    have "pmembers m s = Some (ms, t)" if "length s - length t \<le> m" for m
      using r k w v V d ns IH that l by (cases m) auto
    with IH V l show ?thesis by auto
  qed
qed simp_all

theorem pvalue_enough_fuel: "pvalue n s = Some r \<Longrightarrow> pvalue (Suc (length s)) s = Some r"
  using parse_fuel_mutual(1) [of n s "fst r" "snd r"] by (simp del: pvalue.simps)

end
