(* ===== verification/Go_Codec.thy ===== *)
theory Go_Codec
  imports Go_Json
begin

text \<open>
  How \<open>encoding/json\<close> maps Go values to JSON and back: strings, fixed-width integers, string
  slices, string maps and structs. Decoding takes the value the variable held before, since a
  JSON \<open>null\<close> or an absent member leaves it unchanged. Member names are matched exactly first
  and case-insensitively second, unknown members are ignored, later members win. Each encoder
  comes with the fact that decoding its result gives the value back.
\<close>

section \<open>Texts of well-formed trees\<close>

lemma num_char_byte: "num_char c \<Longrightarrow> 32 \<le> byte c"
  by (auto simp: num_char_def is_digit_def byte_def)

lemma json_print_bytes_mutual:
  shows "wf_json j \<Longrightarrow> c \<in> set (json_print j) \<Longrightarrow> 32 \<le> byte c"
    and "wf_elems xs \<Longrightarrow> c \<in> set (print_elems xs) \<Longrightarrow> 32 \<le> byte c"
    and "wf_members ms \<Longrightarrow> c \<in> set (print_members ms) \<Longrightarrow> 32 \<le> byte c"
proof (induction j and xs and ms rule: json_print_print_elems_print_members.induct)
  case (3 s)
  then show ?case by (auto simp: list_all_iff dest: num_char_byte)
next
  case (4 s)
  then show ?case by (auto simp: byte_def dest: raw_ok_bytes [unfolded byte_def])
next
  case (10 k v ms)
  then show ?case by (auto simp: byte_def split: if_splits dest: raw_ok_bytes [unfolded byte_def])
qed (auto simp: byte_def split: if_splits)

lemma json_print_no_newline: "wf_json j \<Longrightarrow> newline \<notin> set (json_print j)"
  using json_print_bytes_mutual(1) [of j newline] by (auto simp: newline_def byte_def)

lemma json_print_last: "wf_json (JObj ms) \<Longrightarrow> last (json_print (JObj ms)) = CHR ''}''"
proof -
  have "print_members ms \<noteq> [] \<and> last (print_members ms) = CHR ''}''" for ms
    by (induction ms) auto
  then show ?thesis by simp
qed

section \<open>Compaction of trees\<close>

text \<open>\<open>json.Marshal\<close> of a raw message: the same tree with HTML-escaped literals.\<close>

fun html_json :: "json \<Rightarrow> json"
  and html_elems :: "json list \<Rightarrow> json list"
  and html_members :: "(string \<times> json) list \<Rightarrow> (string \<times> json) list" where
  "html_json (JStr s) = JStr (html_raw s)"
| "html_json (JArr xs) = JArr (html_elems xs)"
| "html_json (JObj ms) = JObj (html_members ms)"
| "html_json j = j"
| "html_elems [] = []"
| "html_elems (x # xs) = html_json x # html_elems xs"
| "html_members [] = []"
| "html_members ((k, v) # ms) = (html_raw k, html_json v) # html_members ms"

lemma hex4_val_digit: "hex4_val s = Some n \<Longrightarrow> c \<in> set s \<Longrightarrow> \<exists>m. hex_val c = Some m"
  by (cases s rule: hex4_val.cases) (auto split: option.splits)

lemma hex_val_plain: "hex_val c = Some m \<Longrightarrow> html_plain c"
  by (auto simp: hex_val_def is_digit_def html_plain_def byte_def split: if_splits)

lemma raw_ok_html_raw: "raw_ok s \<Longrightarrow> raw_ok (html_raw s)"
proof (induction s rule: raw_ok.induct)
  case (2 c s)
  show ?case
  proof (cases "c = bslash")
    case True
    with "2.prems" obtain e t where s: "s = e # t" by (auto simp: raw_ok.simps(2) split: list.splits)
    have e: "e \<noteq> CHR ''<''" "e \<noteq> CHR ''>''" "e \<noteq> CHR ''&''" "e \<noteq> CHR 0xE2"
      using "2.prems" True s by (auto simp: raw_ok.simps(2) simple_escape_def split: if_splits)
    have h: "html_raw (c # s) = c # e # html_raw t"
      using True s e by (simp add: html_raw.simps(2) line_sep_def para_sep_def)
    show ?thesis
    proof (cases "e = CHR ''u''")
      case u: True
      with "2.prems" True s obtain n where n: "hex4_val (take 4 t) = Some n" "raw_ok (drop 4 t)"
        by (auto simp: raw_ok.simps(2))
      have p: "html_plain x" if "x \<in> set (take 4 t)" for x
        using hex4_val_digit [OF n(1) that] hex_val_plain by blast
      have "html_raw t = take 4 t @ html_raw (drop 4 t)"
        using html_raw_plain [of "take 4 t" "drop 4 t"] p by simp
      moreover have "raw_ok (html_raw (drop 4 t))" using "2.IH"(1) True s u n by simp
      moreover have "length (take 4 t) = 4" using n(1) by (rule hex4_val_length)
      then have "4 \<le> length t" by simp
      ultimately show ?thesis using h True u n by (simp add: raw_ok.simps(2))
    next
      case False
      with "2.IH"(2) "2.prems" True s h show ?thesis by (simp add: raw_ok.simps(2))
    qed
  next
    case False
    have drop2: "raw_ok (html_raw (drop 2 s))" if "take 3 (c # s) = line_sep \<or> take 3 (c # s) = para_sep"
    proof -
      from that obtain a b t where s: "s = [a, b] @ t" "a = CHR 0x80" "b = CHR 0xA8 \<or> b = CHR 0xA9"
        by (cases s; cases "tl s") (auto simp: line_sep_def para_sep_def)
      have "html_plain x" if "x \<in> set [a, b]" for x
        using that s(2,3) by (auto simp: html_plain_def)
      then have "html_raw s = [a, b] @ html_raw t"
        unfolding s(1) by (rule html_raw_plain)
      moreover have "raw_ok (html_raw s)" using 2 False by (simp add: raw_ok.simps(2))
      moreover have "a \<noteq> bslash" "b \<noteq> bslash" using s(2,3) by auto
      ultimately show ?thesis using s by (simp add: raw_ok.simps(2))
    qed
    have rest: "raw_ok (html_raw s)" using 2 False by (simp add: raw_ok.simps(2))
    have esc: "byte c < 65536" using byte_less [of c] by linarith
    have "c \<noteq> dquote \<and> \<not> byte c < 32" using "2.prems" False by (simp add: raw_ok.simps(2))
    with False rest have keep: "raw_ok (c # html_raw s)" by (simp add: raw_ok.simps(2))
    have "raw_ok (u_escape n @ t)" if "n < 65536" "raw_ok t" for n t
      using that by (simp add: raw_ok_append)
    with rest keep drop2 esc show ?thesis
      unfolding html_raw.simps(2) by (simp del: take_Suc_Cons)
  qed
qed simp

lemma wf_html_mutual:
  shows "wf_json j \<Longrightarrow> wf_json (html_json j)"
    and "wf_elems xs \<Longrightarrow> wf_elems (html_elems xs)"
    and "wf_members ms \<Longrightarrow> wf_members (html_members ms)"
  by (induction j and xs and ms rule: html_json_html_elems_html_members.induct)
     (auto simp: raw_ok_html_raw)

text \<open>Trees that \<open>json.Marshal\<close> built itself: well-formed and fixed by compaction.\<close>

definition canonical :: "json \<Rightarrow> bool" where
  "canonical j \<longleftrightarrow> wf_json j \<and> html_json j = j"

section \<open>Scalars\<close>

definition jstring :: "string \<Rightarrow> json" where
  "jstring s = JStr (json_quote s)"

definition juint :: "32 word \<Rightarrow> json" where
  "juint w = JNum (string_of_nat (unat w))"

definition jint :: "int \<Rightarrow> json" where
  "jint i = JNum (string_of_int i)"

definition dec_string :: "json \<Rightarrow> string \<Rightarrow> string option" where
  "dec_string j old = (case j of JStr r \<Rightarrow> json_unquote r | JNull \<Rightarrow> Some old | _ \<Rightarrow> None)"

definition dec_uint32 :: "json \<Rightarrow> 32 word \<Rightarrow> 32 word option" where
  "dec_uint32 j old = (case j of JNum l \<Rightarrow> ParseUint32 l | JNull \<Rightarrow> Some old | _ \<Rightarrow> None)"

text \<open>\<open>strconv.ParseInt\<close> of a JSON number literal, then the range check of the Go type.\<close>

definition parse_int :: "string \<Rightarrow> int option" where
  "parse_int l = (case l of
     c # t \<Rightarrow>
       (if c = CHR ''-''
        then (if t \<noteq> [] \<and> list_all is_digit t then Some (- int (nat_of_digits t)) else None)
        else if list_all is_digit l then Some (int (nat_of_digits l)) else None)
   | [] \<Rightarrow> None)"

definition dec_int :: "nat \<Rightarrow> json \<Rightarrow> int \<Rightarrow> int option" where
  "dec_int bits j old = (case j of
     JNum l \<Rightarrow> (case parse_int l of
        Some i \<Rightarrow> (if - (2 ^ (bits - 1)) \<le> i \<and> i < 2 ^ (bits - 1) then Some i else None)
      | None \<Rightarrow> None)
   | JNull \<Rightarrow> Some old
   | _ \<Rightarrow> None)"

lemma digit_not_minus: "is_digit c \<Longrightarrow> c \<noteq> CHR ''-''"
  by (auto simp: is_digit_def byte_def)

lemma num_ok_digits:
  assumes "s \<noteq> []" "list_all is_digit s" "hd s = CHR ''0'' \<longrightarrow> length s = 1"
  shows "num_ok s"
proof -
  have c: "(case s of [] \<Rightarrow> [] | x # u \<Rightarrow> if x = CHR ''-'' then u else s) = s"
    using assms(1,2) by (cases s) (auto dest: digit_not_minus)
  have w: "takeWhile is_digit s = s" "dropWhile is_digit s = []"
    using assms(2) by (simp_all add: list_all_iff)
  show ?thesis
    using assms(1,3) by (simp add: num_ok_def frac_ok_def Let_def c w)
qed

lemma string_of_nat_all_digits: "list_all is_digit (string_of_nat n)"
  by (simp add: list_all_iff string_of_nat_digits)

lemma string_of_nat_num_ok: "num_ok (string_of_nat n) \<and> list_all num_char (string_of_nat n)"
proof -
  have "hd (string_of_nat n) = CHR ''0'' \<longrightarrow> length (string_of_nat n) = 1"
    using string_of_nat_hd [of n] string_of_nat_0 by (cases "n = 0") auto
  then show ?thesis
    using num_ok_digits string_of_nat_all_digits by (auto simp: list_all_iff num_char_def)
qed

lemma string_of_int_num_ok: "num_ok (string_of_int i) \<and> list_all num_char (string_of_int i)"
proof (cases "i < 0")
  case True
  let ?s = "string_of_nat (nat (- i))"
  obtain c u where cu: "?s = c # u" "is_digit c"
    using string_of_nat_digits [of _ "nat (- i)"] by (cases ?s) auto
  then have "c \<noteq> CHR ''-''" by (auto simp: is_digit_def byte_def)
  then have "num_ok (CHR ''-'' # ?s)"
    using string_of_nat_num_ok [of "nat (- i)"] cu by (simp add: num_ok_def)
  then show ?thesis
    using True string_of_nat_num_ok [of "nat (- i)"] by (simp add: string_of_int_def num_char_def)
qed (simp add: string_of_int_def string_of_nat_num_ok)

lemma canonical_scalars [json_simps]:
  "canonical (jstring s)" "canonical (juint w)" "canonical (jint i)" "canonical JNull"
  using string_of_nat_num_ok string_of_int_num_ok
  by (simp_all add: canonical_def jstring_def juint_def jint_def)

lemma dec_string_jstring [json_simps]: "valid_utf8 s \<Longrightarrow> dec_string (jstring s) old = Some s"
  by (simp add: dec_string_def jstring_def json_unquote_quote)

lemma dec_uint32_juint [json_simps]: "dec_uint32 (juint w) old = Some w"
  by (simp add: dec_uint32_def juint_def ParseUint32_roundtrip)

lemma parse_int_string_of_int: "parse_int (string_of_int i) = Some i"
proof (cases "i < 0")
  case True
  then show ?thesis
    by (simp add: string_of_int_def parse_int_def list_all_iff string_of_nat_digits)
next
  case False
  obtain c u where cu: "string_of_nat (nat i) = c # u" "is_digit c"
    using string_of_nat_digits [of _ "nat i"] by (cases "string_of_nat (nat i)") auto
  then have "c \<noteq> CHR ''-''" by (auto simp: is_digit_def byte_def)
  moreover have "list_all is_digit (string_of_nat (nat i))"
    by (simp add: list_all_iff string_of_nat_digits)
  moreover have "int (nat_of_digits (string_of_nat (nat i))) = i" using False by simp
  ultimately show ?thesis
    using False cu by (simp add: string_of_int_def parse_int_def)
qed

lemma dec_int_jint [json_simps]:
  "- (2 ^ (bits - 1)) \<le> i \<Longrightarrow> i < 2 ^ (bits - 1) \<Longrightarrow> dec_int bits (jint i) old = Some i"
  by (simp add: dec_int_def jint_def parse_int_string_of_int)

section \<open>Slices and maps of strings\<close>

text \<open>A nil or empty slice is written as \<open>null\<close>: the source only encodes slices grown from nil.\<close>

definition jstrings :: "string list \<Rightarrow> json" where
  "jstrings xs = (if xs = [] then JNull else JArr (map jstring xs))"

fun dec_elems :: "json list \<Rightarrow> string list option" where
  "dec_elems [] = Some []"
| "dec_elems (j # js) = (case dec_string j [] of
     None \<Rightarrow> None
   | Some s \<Rightarrow> map_option (Cons s) (dec_elems js))"

definition dec_strings :: "json \<Rightarrow> string list \<Rightarrow> string list option" where
  "dec_strings j old = (case j of JArr js \<Rightarrow> dec_elems js | JNull \<Rightarrow> Some [] | _ \<Rightarrow> None)"

definition jmap :: "string gomap \<Rightarrow> json" where
  "jmap m = JObj (map (\<lambda>k. (json_quote k, jstring (case gget m k of Some v \<Rightarrow> v | None \<Rightarrow> []))) (gkeys m))"

fun dec_entries :: "(string \<times> json) list \<Rightarrow> string gomap \<Rightarrow> string gomap option" where
  "dec_entries [] m = Some m"
| "dec_entries ((k, v) # ms) m = (case (json_unquote k, dec_string v []) of
     (Some k', Some v') \<Rightarrow> dec_entries ms (gput k' v' m)
   | _ \<Rightarrow> None)"

definition dec_map :: "json \<Rightarrow> string gomap \<Rightarrow> string gomap option" where
  "dec_map j old = (case j of JObj ms \<Rightarrow> dec_entries ms old | JNull \<Rightarrow> Some [] | _ \<Rightarrow> None)"

lemma dec_elems_jstring:
  "(\<And>x. x \<in> set xs \<Longrightarrow> valid_utf8 x) \<Longrightarrow> dec_elems (map jstring xs) = Some xs"
  by (induction xs) (auto simp: json_simps)

lemma dec_strings_jstrings [json_simps]:
  "list_all valid_utf8 xs \<Longrightarrow> dec_strings (jstrings xs) old = Some xs"
  by (auto simp: dec_strings_def jstrings_def dec_elems_jstring list_all_iff)

lemma html_elems_map: "html_elems xs = map html_json xs"
  by (induction xs) auto

lemma html_members_map: "html_members ms = map (\<lambda>(k, v). (html_raw k, html_json v)) ms"
  by (induction ms) auto

lemma canonical_jstrings [json_simps]: "canonical (jstrings xs)"
  using canonical_scalars(1)
  by (auto simp: canonical_def jstrings_def wf_elems_iff html_elems_map)

lemma canonical_jmap [json_simps]: "canonical (jmap m)"
  using canonical_scalars(1)
  by (auto simp: canonical_def jmap_def wf_members_iff html_members_map)

text \<open>A map whose association list is in key order, as decoding leaves it.\<close>

definition key_ordered :: "'v gomap \<Rightarrow> bool" where
  "key_ordered m \<longleftrightarrow> sorted (map fst m) \<and> distinct (map fst m)"

definition utf8_map :: "string gomap \<Rightarrow> bool" where
  "utf8_map m \<longleftrightarrow> (\<forall>(k, v) \<in> set m. valid_utf8 k \<and> valid_utf8 v)"

lemma gkeys_ordered: "key_ordered m \<Longrightarrow> gkeys m = map fst m"
  by (simp add: gkeys_def key_ordered_def distinct_remdups_id sorted_sort_id)

lemma gput_fresh: "k \<notin> set (map fst m) \<Longrightarrow> gput k v m = m @ [(k, v)]"
  unfolding gput_def by (induction m) auto

lemma dec_entries_map:
  "utf8_map ms \<Longrightarrow> distinct (map fst (m @ ms)) \<Longrightarrow>
   dec_entries (map (\<lambda>(k, v). (json_quote k, jstring v)) ms) m = Some (m @ ms)"
proof (induction ms arbitrary: m)
  case (Cons e ms)
  obtain k v where e: "e = (k, v)" by (cases e)
  from Cons.prems e have "k \<notin> set (map fst m)" by auto
  then have "gput k v m = m @ [(k, v)]" by (rule gput_fresh)
  with Cons e show ?case
    by (simp add: utf8_map_def json_unquote_quote json_simps)
qed simp

lemma dec_map_jmap [json_simps]:
  assumes "key_ordered m" "utf8_map m"
  shows "dec_map (jmap m) [] = Some m"
proof -
  have "distinct (map fst m)" using assms(1) by (simp add: key_ordered_def)
  then have e: "map (\<lambda>k. (json_quote k, jstring (case gget m k of Some v \<Rightarrow> v | None \<Rightarrow> []))) (map fst m)
      = map (\<lambda>(k, v). (json_quote k, jstring v)) m"
    by (auto simp: gget_def map_of_eq_Some_iff)
  have "jmap m = JObj (map (\<lambda>(k, v). (json_quote k, jstring v)) m)"
    unfolding jmap_def gkeys_ordered [OF assms(1)] e ..
  with dec_entries_map [of m "[]"] assms show ?thesis
    by (simp add: dec_map_def key_ordered_def)
qed

section \<open>Structs\<close>

text \<open>
  Case folding of member names as the decoder compares them: ASCII letters, the long s (U+017F)
  and the Kelvin sign (U+212A).
\<close>

definition ascii_lower :: "char \<Rightarrow> char" where
  "ascii_lower c = (if 65 \<le> byte c \<and> byte c \<le> 90 then char_of (byte c + 32) else c)"

function fold_key :: "string \<Rightarrow> string" where
  "fold_key [] = []"
| "fold_key (c # s) =
     (if take 2 (c # s) = [CHR 0xC5, CHR 0xBF] then CHR ''s'' # fold_key (drop 1 s)
      else if take 3 (c # s) = [CHR 0xE2, CHR 0x84, CHR 0xAA] then CHR ''k'' # fold_key (drop 2 s)
      else ascii_lower c # fold_key s)"
  by pat_completeness auto
termination
  by (relation "measure length") auto

type_synonym 'r fields = "(string \<times> (json \<Rightarrow> 'r \<Rightarrow> 'r option)) list"

definition find_field :: "'r fields \<Rightarrow> string \<Rightarrow> (json \<Rightarrow> 'r \<Rightarrow> 'r option) option" where
  "find_field fs k = (case map_of fs k of
     Some d \<Rightarrow> Some d
   | None \<Rightarrow> map_option snd (find (\<lambda>(n, _). fold_key n = fold_key k) fs))"

fun dec_members :: "'r fields \<Rightarrow> (string \<times> json) list \<Rightarrow> 'r \<Rightarrow> 'r option" where
  "dec_members fs [] r = Some r"
| "dec_members fs ((k, v) # ms) r = (case json_unquote k of
     None \<Rightarrow> None
   | Some k' \<Rightarrow> (case find_field fs k' of
        None \<Rightarrow> dec_members fs ms r
      | Some d \<Rightarrow> (case d v r of None \<Rightarrow> None | Some r' \<Rightarrow> dec_members fs ms r')))"

definition dec_struct :: "'r fields \<Rightarrow> json \<Rightarrow> 'r \<Rightarrow> 'r option" where
  "dec_struct fs j r = (case j of JObj ms \<Rightarrow> dec_members fs ms r | JNull \<Rightarrow> Some r | _ \<Rightarrow> None)"

lemma dec_struct_JObj: "dec_struct fs (JObj ms) r = dec_members fs ms r"
  by (simp add: dec_struct_def)

text \<open>A field of a record decoded by \<open>d\<close> and written back.\<close>

definition dec_field :: "('a \<Rightarrow> 'r \<Rightarrow> 'r) \<Rightarrow> ('r \<Rightarrow> 'a) \<Rightarrow> (json \<Rightarrow> 'a \<Rightarrow> 'a option) \<Rightarrow> json \<Rightarrow> 'r \<Rightarrow> 'r option" where
  "dec_field upd sel d j r = map_option (\<lambda>a. upd a r) (d j (sel r))"

text \<open>A pointer field: \<open>null\<close> sets it to nil, anything else fills a fresh value.\<close>

definition dec_pointer :: "'a \<Rightarrow> (json \<Rightarrow> 'a \<Rightarrow> 'a option) \<Rightarrow> json \<Rightarrow> 'a option \<Rightarrow> 'a option option" where
  "dec_pointer zero d j old = (case j of
     JNull \<Rightarrow> Some None
   | _ \<Rightarrow> map_option Some (d j (case old of None \<Rightarrow> zero | Some a \<Rightarrow> a)))"

text \<open>Members with the \<open>omitempty\<close> option.\<close>

definition omit_if :: "bool \<Rightarrow> string \<Rightarrow> json \<Rightarrow> (string \<times> json) list" where
  "omit_if b k j = (if b then [] else [(k, j)])"

definition plain_key :: "string \<Rightarrow> bool" where
  "plain_key k \<longleftrightarrow> list_all (\<lambda>c. 95 \<le> byte c \<and> byte c < 123) k"

lemma json_unquote_plain_key: "plain_key k \<Longrightarrow> json_unquote k = Some k"
proof (induction k)
  case (Cons c k)
  then have "95 \<le> byte c" "byte c < 123" by (auto simp: plain_key_def)
  then have "c \<noteq> bslash" "c \<noteq> dquote" by (auto simp: byte_def)
  with Cons show ?case by (simp add: plain_key_def json_unquote_plain)
qed simp

lemma raw_ok_plain_key: "plain_key k \<Longrightarrow> raw_ok k"
proof (induction k)
  case (Cons c k)
  then have "95 \<le> byte c" by (auto simp: plain_key_def)
  then have "c \<noteq> bslash" "c \<noteq> dquote" "\<not> byte c < 32" by (auto simp: byte_def)
  with Cons show ?case by (simp add: plain_key_def raw_ok.simps(2))
qed simp

lemma html_raw_plain_key: "plain_key k \<Longrightarrow> html_raw k = k"
proof -
  assume "plain_key k"
  then have "95 \<le> byte c \<and> byte c < 123" if "c \<in> set k" for c
    using that by (auto simp: plain_key_def list_all_iff)
  moreover have "95 \<le> byte c \<and> byte c < 123 \<Longrightarrow> html_plain c" for c
    by (auto simp: html_plain_def byte_def)
  ultimately have "html_plain c" if "c \<in> set k" for c using that by blast
  then show ?thesis using html_raw_plain [of k "[]"] by simp
qed

lemma dec_members_plain:
  "plain_key k \<Longrightarrow> map_of fs k = Some d \<Longrightarrow>
   dec_members fs ((k, v) # ms) r = Option.bind (d v r) (dec_members fs ms)"
  by (simp add: json_unquote_plain_key find_field_def split: option.splits)

declare dec_members.simps(2) [simp del]

lemma canonical_JObj:
  "canonical (JObj ms) \<longleftrightarrow> (\<forall>(k, v) \<in> set ms. raw_ok k \<and> html_raw k = k \<and> canonical v)"
proof -
  have "map (\<lambda>(k, v). (html_raw k, html_json v)) ms = ms \<longleftrightarrow>
      (\<forall>(k, v) \<in> set ms. html_raw k = k \<and> html_json v = v)"
    by (induction ms) auto
  then show ?thesis by (auto simp: canonical_def wf_members_iff html_members_map)
qed

lemma canonical_members:
  "(\<And>k v. (k, v) \<in> set ms \<Longrightarrow> plain_key k \<and> canonical v) \<Longrightarrow> canonical (JObj ms)"
  by (auto simp: canonical_JObj raw_ok_plain_key html_raw_plain_key)

lemma plain_key_eval: "plain_key [] = True"
  "plain_key (c # k) = (95 \<le> byte c \<and> byte c < 123 \<and> plain_key k)"
  by (simp_all add: plain_key_def)

lemma dec_members_omit:
  "plain_key k \<Longrightarrow> map_of fs k = Some d \<Longrightarrow>
   dec_members fs (omit_if b k j @ ms) r
     = (if b then dec_members fs ms r else Option.bind (d j r) (dec_members fs ms))"
  by (simp add: omit_if_def dec_members_plain)

lemma dec_members_omit_end:
  "plain_key k \<Longrightarrow> map_of fs k = Some d \<Longrightarrow>
   dec_members fs (omit_if b k j) r = (if b then Some r else d j r)"
  using dec_members_omit [of k fs d b j "[]" r] by (cases "d j r") auto

lemma bind_Some_map_option: "Option.bind (map_option f x) g = Option.bind x (\<lambda>a. g (f a))"
  by (cases x) auto

lemmas codec_simps = dec_struct_JObj dec_members_plain dec_members_omit dec_members_omit_end
  dec_field_def plain_key_eval byte_def json_simps

lemma canonical_append:
  "canonical (JObj (ms @ ns)) \<longleftrightarrow> canonical (JObj ms) \<and> canonical (JObj ns)"
  by (auto simp: canonical_JObj)

lemma canonical_Cons:
  "plain_key k \<Longrightarrow> canonical (JObj ((k, v) # ms)) \<longleftrightarrow> canonical v \<and> canonical (JObj ms)"
  by (auto simp: canonical_JObj raw_ok_plain_key html_raw_plain_key)

lemma canonical_omit_if:
  "plain_key k \<Longrightarrow> canonical v \<Longrightarrow> canonical (JObj (omit_if b k v))"
  by (auto simp: omit_if_def canonical_Cons) (simp_all add: canonical_JObj)

lemma canonical_JObj_Nil: "canonical (JObj [])"
  by (simp add: canonical_JObj)

lemmas canon_simps = canonical_append canonical_Cons canonical_omit_if canonical_JObj_Nil
  plain_key_eval byte_def json_simps

end
