(* ===== verification/Go_Time.thy ===== *)
theory Go_Time
  imports Go_Codec
begin

text \<open>
  What the source uses of package \<open>time\<close>. An instant is the number of nanoseconds since
  1970-01-01T00:00:00Z; the location of a \<open>time.Time\<close> only matters for printing, and the
  source prints in UTC. \<open>format_time\<close> is \<open>UTC().Format(time.RFC3339Nano)\<close>,
  \<open>parse_time\<close> is the inverse (\<open>strict\<close> as in \<open>Time.UnmarshalJSON\<close>, otherwise as in
  \<open>time.Parse\<close>). The calendar computation is the one of package \<open>time\<close>: cut off cycles of
  400, 100, 4 and 1 years, then look the month up. Main fact: parsing a formatted instant of
  the years 0 to 9999 gives the instant (\<open>parse_format_time\<close>).
\<close>

type_synonym time = int

abbreviation (input) second :: time where "second \<equiv> 1000000000"

section \<open>Arithmetic\<close>

text \<open>\<open>Time.Sub\<close> saturates at the range of \<open>Duration\<close> (a signed 64-bit count).\<close>

definition max_duration :: int where "max_duration = 2 ^ 63 - 1"
definition min_duration :: int where "min_duration = - (2 ^ 63)"

definition time_sub :: "time \<Rightarrow> time \<Rightarrow> int" where
  "time_sub t u = max min_duration (min max_duration (t - u))"

lemma time_sub_less_iff:
  "min_duration < d \<Longrightarrow> d \<le> max_duration \<Longrightarrow> time_sub t u < d \<longleftrightarrow> t - u < d"
  by (auto simp: time_sub_def max_duration_def min_duration_def)

text \<open>The zero \<open>time.Time\<close>, 0001-01-01T00:00:00Z.\<close>

definition zero_time :: time where "zero_time = - 62135596800 * second"

section \<open>Calendar\<close>

definition leap :: "int \<Rightarrow> bool" where
  "leap y \<longleftrightarrow> y mod 4 = 0 \<and> (y mod 100 \<noteq> 0 \<or> y mod 400 = 0)"

definition month_lengths :: "bool \<Rightarrow> nat list" where
  "month_lengths l = [31, if l then 29 else 28, 31, 30, 31, 30, 31, 31, 30, 31, 30, 31]"

fun split_month :: "nat list \<Rightarrow> nat \<Rightarrow> nat \<times> nat" where
  "split_month [] d = (1, Suc d)"
| "split_month (l # ls) d =
     (if d < l then (1, Suc d) else let (m, x) = split_month ls (d - l) in (Suc m, x))"

definition civil :: "int \<Rightarrow> int \<times> nat \<times> nat" where
  "civil days =
     (let D = days + 719162;
          n = D div 146097; d0 = nat (D mod 146097);
          c = min 3 (d0 div 36524); d1 = d0 - 36524 * c;
          q = d1 div 1461; d2 = d1 - 1461 * q;
          r = min 3 (d2 div 365); yday = d2 - 365 * r;
          year = 1 + 400 * n + int (100 * c + 4 * q + r);
          (m, d) = split_month (month_lengths (leap year)) yday
      in (year, m, d))"

definition days_of_civil :: "int \<Rightarrow> nat \<Rightarrow> nat \<Rightarrow> int" where
  "days_of_civil year m d =
     (let y = year - 1; n = y div 400; y0 = y mod 400;
          c = y0 div 100; y1 = y0 mod 100; q = y1 div 4; r = y1 mod 4
      in 146097 * n + 36524 * c + 1461 * q + 365 * r
         + int (sum_list (take (m - 1) (month_lengths (leap year)))) + int d - 1 - 719162)"

lemma split_month_spec:
  assumes "d < sum_list ls" "split_month ls d = (m, x)"
  shows "1 \<le> m \<and> m \<le> length ls \<and> 1 \<le> x \<and> x \<le> ls ! (m - 1)
       \<and> sum_list (take (m - 1) ls) + x = Suc d"
  using assms
proof (induction ls arbitrary: d m x)
  case (Cons l ls)
  show ?case
  proof (cases "d < l")
    case True
    with Cons.prems show ?thesis by auto
  next
    case False
    obtain m' where m': "split_month ls (d - l) = (m', x)" "m = Suc m'"
      using False Cons.prems by (auto split: prod.splits)
    have "d - l < sum_list ls" using Cons.prems False by simp
    from Cons.IH [OF this m'(1)] m' False show ?thesis by (cases m') auto
  qed
qed simp

lemma sum_month_lengths: "sum_list (month_lengths l) = (if l then 366 else 365)"
  by (simp add: month_lengths_def)

lemma civil_spec:
  assumes "civil days = (y, m, d)"
  shows "days_of_civil y m d = days"
    and "1 \<le> m \<and> m \<le> 12 \<and> 1 \<le> d \<and> d \<le> month_lengths (leap y) ! (m - 1)"
    and "d \<le> 31"
    and "y = 1 + 400 * ((days + 719162) div 146097) + (y - 1) mod 400"
    and "\<exists>c q r yday. c \<le> 3 \<and> q \<le> 24 \<and> r \<le> 3 \<and> yday \<le> 365 \<and> (r < 3 \<longrightarrow> yday < 365)
      \<and> (days + 719162) mod 146097 = int (36524 * c + 1461 * q + 365 * r + yday)
      \<and> (y - 1) mod 400 = int (100 * c + 4 * q + r)"
proof -
  define D n d0 where "D = days + 719162" and "n = D div 146097" and "d0 = nat (D mod 146097)"
  define c d1 where "c = min 3 (d0 div 36524)" and "d1 = d0 - 36524 * c"
  define q d2 where "q = d1 div 1461" and "d2 = d1 - 1461 * q"
  define r yday where "r = min 3 (d2 div 365)" and "yday = d2 - 365 * r"
  define Y where "Y = 100 * c + 4 * q + r"
  note defs = D_def n_def d0_def c_def d1_def q_def d2_def r_def yday_def Y_def
  have "civil days = (case split_month (month_lengths (leap (1 + 400 * n + int Y))) yday of
      (m, d) \<Rightarrow> (1 + 400 * n + int Y, m, d))"
    unfolding civil_def Let_def defs by (rule refl)
  with assms have md: "split_month (month_lengths (leap y)) yday = (m, d)" and y: "y = 1 + 400 * n + int Y"
    by (auto split: prod.splits)
  have d0: "d0 < 146097" unfolding d0_def by simp
  have D: "D = 146097 * n + int d0" unfolding n_def d0_def by simp
  have c: "c \<le> 3" "36524 * c \<le> d0" unfolding c_def by auto
  have d1: "d0 = 36524 * c + d1" "d1 < (if c = 3 then 36525 else 36524)"
    using d0 unfolding d1_def c_def by auto
  have q: "q \<le> 24" "d1 = 1461 * q + d2" "d2 < 1461"
    using d1 unfolding q_def d2_def by (auto split: if_splits)
  have qlast: "d2 < 1460" if "q = 24" "c \<noteq> 3" using that d1 q by auto
  have r: "r \<le> 3" "d2 = 365 * r + yday" "yday < 366" "yday = 365 \<Longrightarrow> d2 = 1460 \<and> r = 3"
    using q unfolding r_def yday_def by auto
  define x where "x = int (4 * q + r)"
  have x: "0 \<le> x" "x < 100" "x div 4 = int q" "x mod 4 = int r"
    using q(1) r(1) unfolding x_def by auto
  have "int Y = x + 100 * int c" unfolding Y_def x_def by simp
  then have Y: "int Y mod 400 = int Y" "int Y div 100 = int c" "int Y mod 100 = x"
    using x(1,2) c(1) by auto
  have mod: "(y - 1) mod 400 = int Y" "(y - 1) div 400 = n"
    using y Y by auto
  have leap: "leap y" if "yday = 365"
  proof -
    have "r = 3" and ql: "q \<noteq> 24 \<or> c = 3" using r(4) that qlast by auto
    then have y': "y = 400 * n + 100 * int c + 4 * int q + 4" using y Y_def by simp
    have "y = 4 * (100 * n + 25 * int c + int q + 1)" using y' by simp
    then have 4: "y mod 4 = 0" by (metis mod_mult_self1_is_0)
    show ?thesis
    proof (cases "q = 24")
      case False
      have "y = (4 * int q + 4) + 100 * (4 * n + int c)" using y' by simp
      then have "y mod 100 = (4 * int q + 4) mod 100" by (metis mod_mult_self2)
      then have "y mod 100 \<noteq> 0" using False q(1) by auto
      with 4 show ?thesis by (simp add: leap_def)
    next
      case True
      then have "y = 400 * (n + 1)" using y' ql by simp
      with 4 show ?thesis by (simp add: leap_def)
    qed
  qed
  have "yday < sum_list (month_lengths (leap y))"
    using r(3) leap by (cases "yday = 365") (auto simp: sum_month_lengths)
  note sp = split_month_spec [OF this md]
  show "days_of_civil y m d = days"
    unfolding days_of_civil_def Let_def mod Y x
    using sp D d1 q r D_def by (simp add: of_nat_diff)
  show md': "1 \<le> m \<and> m \<le> 12 \<and> 1 \<le> d \<and> d \<le> month_lengths (leap y) ! (m - 1)"
    using sp by (simp add: month_lengths_def)
  have "\<forall>l \<in> set (month_lengths b). l \<le> 31" for b by (simp add: month_lengths_def)
  then show "d \<le> 31" using md' sp by (metis One_nat_def Suc_le_eq diff_less le_trans less_le_trans
      nth_mem zero_less_one)
  show "y = 1 + 400 * ((days + 719162) div 146097) + (y - 1) mod 400"
    using y mod by (simp add: n_def D_def)
  have "(days + 719162) mod 146097 = int (36524 * c + 1461 * q + 365 * r + yday)"
    using d1(1) q(2) r(2) unfolding d0_def D_def by simp
  moreover have "r < 3 \<longrightarrow> yday < 365" "yday \<le> 365" using r(3,4) by (cases "yday = 365"; simp)+
  ultimately show "\<exists>c q r yday. c \<le> 3 \<and> q \<le> 24 \<and> r \<le> 3 \<and> yday \<le> 365 \<and> (r < 3 \<longrightarrow> yday < 365)
      \<and> (days + 719162) mod 146097 = int (36524 * c + 1461 * q + 365 * r + yday)
      \<and> (y - 1) mod 400 = int (100 * c + 4 * q + r)"
    using c(1) q(1) r(1) mod(1) unfolding Y_def by blast
qed

section \<open>Formatting\<close>

text \<open>A number in a fixed number of decimal digits.\<close>

fun pad :: "nat \<Rightarrow> nat \<Rightarrow> string" where
  "pad 0 n = []"
| "pad (Suc k) n = pad k (n div 10) @ [digit_char (n mod 10)]"

lemma length_pad [simp]: "length (pad k n) = k"
  by (induction k arbitrary: n) auto

lemma pad_digits: "list_all is_digit (pad k n)"
  by (induction k arbitrary: n) auto

lemma nat_of_digits_pad: "n < 10 ^ k \<Longrightarrow> nat_of_digits (pad k n) = n"
proof (induction k arbitrary: n)
  case 0
  then show ?case by (simp add: nat_of_digits_def)
next
  case (Suc k)
  then have "n div 10 < 10 ^ k" by (simp add: div_less_iff_less_mult mult.commute)
  with Suc.IH show ?case by simp
qed

definition time_ok :: "time \<Rightarrow> bool" where
  "time_ok t \<longleftrightarrow> - 62167219200 * second \<le> t \<and> t < 253402300800 * second"

definition format_frac :: "nat \<Rightarrow> string" where
  "format_frac n =
     (if n = 0 then [] else CHR ''.'' # rev (dropWhile (\<lambda>c. c = CHR ''0'') (rev (pad 9 n))))"

definition format_time :: "time \<Rightarrow> string" where
  "format_time t =
     (let secs = t div second; n = nat (t mod second);
          sod = nat (secs mod 86400);
          (y, m, d) = civil (secs div 86400)
      in pad 4 (nat y) @ ''-'' @ pad 2 m @ ''-'' @ pad 2 d @ ''T'' @
         pad 2 (sod div 3600) @ '':'' @ pad 2 (sod div 60 mod 60) @ '':'' @ pad 2 (sod mod 60) @
         format_frac n @ ''Z'')"

section \<open>Parsing\<close>

definition parse_num :: "nat \<Rightarrow> string \<Rightarrow> nat option" where
  "parse_num k s =
     (if length s = k \<and> list_all is_digit s then Some (nat_of_digits s) else None)"

definition parse_date :: "string \<Rightarrow> int option" where
  "parse_date s =
     (if length s = 10 \<and> s ! 4 = CHR ''-'' \<and> s ! 7 = CHR ''-'' then
        (case (parse_num 4 (take 4 s), parse_num 2 (take 2 (drop 5 s)), parse_num 2 (drop 8 s)) of
           (Some y, Some m, Some d) \<Rightarrow>
             (if 1 \<le> m \<and> m \<le> 12 \<and> 1 \<le> d \<and> d \<le> month_lengths (leap (int y)) ! (m - 1)
              then Some (days_of_civil (int y) m d) else None)
         | _ \<Rightarrow> None)
      else None)"

text \<open>\<open>:MM:SS\<close> after the hour.\<close>

definition parse_min_sec :: "string \<Rightarrow> (nat \<times> nat) option" where
  "parse_min_sec s =
     (if length s = 6 \<and> s ! 0 = CHR '':'' \<and> s ! 3 = CHR '':'' then
        (case (parse_num 2 (take 2 (drop 1 s)), parse_num 2 (drop 4 s)) of
           (Some m, Some x) \<Rightarrow> (if m < 60 \<and> x < 60 then Some (m, x) else None)
         | _ \<Rightarrow> None)
      else None)"

text \<open>The fraction: nanoseconds, further digits ignored, and the rest of the text.\<close>

definition parse_frac :: "bool \<Rightarrow> string \<Rightarrow> nat \<times> string" where
  "parse_frac strict s = (case s of
     c # t \<Rightarrow>
       (if (c = CHR ''.'' \<or> (\<not> strict \<and> c = CHR '','')) \<and> takeWhile is_digit t \<noteq> []
        then (let f = take 9 (takeWhile is_digit t)
              in (nat_of_digits (f @ replicate (9 - length f) (CHR ''0'')), dropWhile is_digit t))
        else (0, s))
   | [] \<Rightarrow> (0, []))"

text \<open>The zone: seconds east of UTC.\<close>

definition parse_zone :: "bool \<Rightarrow> string \<Rightarrow> int option" where
  "parse_zone strict s =
     (if s = ''Z'' then Some 0
      else if length s = 6 \<and> (s ! 0 = CHR ''+'' \<or> s ! 0 = CHR ''-'') \<and> s ! 3 = CHR '':'' then
        (case (parse_num 2 (take 2 (drop 1 s)), parse_num 2 (drop 4 s)) of
           (Some h, Some m) \<Rightarrow>
             (if (if strict then h < 24 \<and> m < 60 else h \<le> 24 \<and> m \<le> 60)
              then Some ((if s ! 0 = CHR ''-'' then - 1 else 1) * (int h * 3600 + int m * 60))
              else None)
         | _ \<Rightarrow> None)
      else None)"

definition parse_time :: "bool \<Rightarrow> string \<Rightarrow> time option" where
  "parse_time strict s =
     (if length s < 11 \<or> s ! 10 \<noteq> CHR ''T'' then None
      else
        let hs = takeWhile is_digit (drop 11 s); r = dropWhile is_digit (drop 11 s);
            (n, z) = parse_frac strict (drop 6 r)
        in if length hs = 2 \<or> (\<not> strict \<and> length hs = 1) then
             (case (parse_date (take 10 s), parse_min_sec (take 6 r), parse_zone strict z) of
                (Some days, Some (m, x), Some off) \<Rightarrow>
                  (let h = nat_of_digits hs in
                   if h < 24 then
                     Some ((days * 86400 + int (h * 3600 + m * 60 + x) - off) * second + int n)
                   else None)
              | _ \<Rightarrow> None)
           else None)"

subsection \<open>Parsing a formatted instant\<close>

lemma parse_num_pad: "n < 10 ^ k \<Longrightarrow> parse_num k (pad k n) = Some n"
  by (simp add: parse_num_def pad_digits nat_of_digits_pad)

lemma trim_zeros:
  "\<exists>k. s = rev (dropWhile (\<lambda>c. c = x) (rev s)) @ replicate k x"
proof -
  have "rev s = takeWhile (\<lambda>c. c = x) (rev s) @ dropWhile (\<lambda>c. c = x) (rev s)" by simp
  moreover have "takeWhile (\<lambda>c. c = x) (rev s) = replicate (length (takeWhile (\<lambda>c. c = x) (rev s))) x"
    by (rule replicate_length_same [symmetric]) (auto dest: set_takeWhileD)
  ultimately have "rev (rev s) = rev (dropWhile (\<lambda>c. c = x) (rev s)) @
      rev (replicate (length (takeWhile (\<lambda>c. c = x) (rev s))) x)"
    by (metis rev_append)
  then show ?thesis by auto
qed

lemma pad_nonzero: "n < 10 ^ k \<Longrightarrow> n \<noteq> 0 \<Longrightarrow> \<exists>c \<in> set (pad k n). c \<noteq> CHR ''0''"
proof (induction k arbitrary: n)
  case (Suc k)
  show ?case
  proof (cases "n div 10 = 0")
    case True
    with Suc.prems have "n < 10" "n \<noteq> 0" by auto
    then have "digit_char (n mod 10) \<noteq> CHR ''0''"
      using digit_char_inject [of n 0] by (auto simp: digit_char_0)
    then show ?thesis by simp
  next
    case False
    have "n div 10 < 10 ^ k" using Suc.prems by (simp add: div_less_iff_less_mult mult.commute)
    with Suc.IH False show ?thesis by simp
  qed
qed simp

lemma not_digit_Z: "\<not> is_digit (CHR ''Z'')" "\<not> is_digit (CHR '':'')" "is_digit (CHR ''0'')"
  by (simp_all add: is_digit_def byte_def)

lemma parse_format_frac:
  assumes "n < 10 ^ 9"
  shows "parse_frac strict (format_frac n @ ''Z'') = (n, ''Z'')"
proof (cases "n = 0")
  case True
  then show ?thesis by (simp add: format_frac_def parse_frac_def)
next
  case False
  define f where "f = rev (dropWhile (\<lambda>c. c = CHR ''0'') (rev (pad 9 n)))"
  obtain k where k: "pad 9 n = f @ replicate k (CHR ''0'')"
    using trim_zeros [of "pad 9 n" "CHR ''0''"] f_def by auto
  have len: "length f + k = 9" using k by (metis length_append length_pad length_replicate)
  have "f \<noteq> []" using pad_nonzero [OF assms False] k by auto
  have "list_all is_digit f" using pad_digits [of 9 n] k by simp
  then have "takeWhile is_digit (f @ ''Z'') = f" "dropWhile is_digit (f @ ''Z'') = ''Z''"
    by (auto simp: list_all_iff takeWhile_append dropWhile_append not_digit_Z)
  moreover have "take 9 f = f" "9 - length f = k" using len by auto
  moreover have "nat_of_digits (f @ replicate k (CHR ''0'')) = n"
    using nat_of_digits_pad [OF assms] k by simp
  ultimately show ?thesis
    using False \<open>f \<noteq> []\<close> by (simp add: format_frac_def f_def [symmetric] parse_frac_def Let_def)
qed

lemma year_range:
  assumes "civil (t div second div 86400) = (y, m, d)" "time_ok t"
  shows "0 \<le> y \<and> y < 10000"
proof -
  let ?D = "t div second div 86400 + 719162"
  have lo: "- 366 \<le> ?D" and hi: "?D < 3652059"
    using assms(2) unfolding time_ok_def by linarith+
  define n where "n = ?D div 146097"
  have n: "- 1 \<le> n" "n \<le> 24" using lo hi unfolding n_def by linarith+
  have D: "?D = 146097 * n + ?D mod 146097" unfolding n_def by simp
  obtain c q r yday where *: "c \<le> 3" "q \<le> 24" "r \<le> 3" "yday \<le> 365" "r < 3 \<longrightarrow> yday < 365"
    and m: "?D mod 146097 = int (36524 * c + 1461 * q + 365 * r + yday)"
    and y: "(y - 1) mod 400 = int (100 * c + 4 * q + r)"
    using civil_spec(5) [OF assms(1)] by blast
  have yn: "y = 1 + 400 * n + int (100 * c + 4 * q + r)"
    using civil_spec(4) [OF assms(1)] y n_def by simp
  show ?thesis
  proof (cases "c = 3 \<and> q = 24 \<and> r = 3")
    case True
    then have "n \<noteq> 24" using D m hi by auto
    with n yn True show ?thesis by simp
  next
    case False
    then have "36524 * c + 1461 * q + 365 * r + yday < 145731 \<and> 100 * c + 4 * q + r < 399"
      using * by (cases "c = 3"; cases "q = 24"; cases "r = 3") auto
    moreover from this have "n \<noteq> - 1" using D m lo by auto
    ultimately show ?thesis using n yn by auto
  qed
qed

theorem parse_format_time:
  assumes "time_ok t"
  shows "parse_time strict (format_time t) = Some t"
proof -
  define secs n sod where "secs = t div second" and "n = nat (t mod second)" and "sod = nat (secs mod 86400)"
  obtain y m d where c: "civil (secs div 86400) = (y, m, d)" by (metis prod_cases3)
  have yr: "0 \<le> y" "y < 10000" using year_range [of t y m d] c assms secs_def by auto
  note cs = civil_spec [OF c]
  have m: "m < 100" and d: "d < 100" using cs(2,3) by auto
  define date where "date = pad 4 (nat y) @ ''-'' @ pad 2 m @ ''-'' @ pad 2 d"
  define ms where "ms = '':'' @ pad 2 (sod div 60 mod 60) @ '':'' @ pad 2 (sod mod 60)"
  have f: "format_time t = date @ ''T'' @ pad 2 (sod div 3600) @ ms @ format_frac n @ ''Z''"
    using c by (simp add: format_time_def Let_def secs_def n_def sod_def date_def ms_def)
  have ld: "length date = 10" and lm: "length ms = 6" by (simp_all add: date_def ms_def)
  have pd: "parse_date date = Some (secs div 86400)"
    using cs(1,2) yr m d
    by (simp add: parse_date_def ld) (simp add: date_def nth_append parse_num_pad nat_less_iff)
  have pm: "parse_min_sec ms = Some (sod div 60 mod 60, sod mod 60)"
    by (simp add: parse_min_sec_def lm) (simp add: ms_def nth_append parse_num_pad)
  have sod: "sod < 86400" unfolding sod_def by simp
  then have h: "sod div 3600 < 24" by (simp add: div_less_iff_less_mult)
  have n: "n < 10 ^ 9" unfolding n_def by simp
  have tw: "takeWhile is_digit (pad 2 (sod div 3600) @ ms @ u) = pad 2 (sod div 3600)"
    "dropWhile is_digit (pad 2 (sod div 3600) @ ms @ u) = ms @ u" for u
    using pad_digits [of 2 "sod div 3600"]
    by (auto simp: ms_def takeWhile_append dropWhile_append not_digit_Z list_all_iff)
  have "sod div 60 = sod div 3600 * 60 + sod div 60 mod 60"
    using div_mult_mod_eq [of "sod div 60" 60] by (simp add: div_mult2_eq [symmetric])
  then have "sod div 3600 * 3600 + sod div 60 mod 60 * 60 + sod mod 60 = sod"
    using div_mult_mod_eq [of sod 60] by linarith
  then have "(secs div 86400 * 86400 + int (sod div 3600 * 3600 + sod div 60 mod 60 * 60 + sod mod 60) - 0)
      * second + int n = t"
    unfolding sod_def n_def secs_def by simp
  then show ?thesis
    unfolding f parse_time_def
    using pd pm h n by (simp add: ld lm tw nth_append parse_format_frac parse_zone_def Let_def
        nat_of_digits_pad)
qed

text \<open>Formatting is injective on those instants, and its text is plain ASCII.\<close>

lemma format_time_inject: "time_ok t \<Longrightarrow> time_ok u \<Longrightarrow> format_time t = format_time u \<Longrightarrow> t = u"
  by (metis option.inject parse_format_time)

section \<open>Instants in JSON\<close>

text \<open>
  \<open>Time.MarshalJSON\<close> refuses years outside 0 to 9999; \<open>Time.UnmarshalJSON\<close> reads the literal as
  it stands, without resolving escapes.
\<close>

definition jtime :: "time \<Rightarrow> json" where
  "jtime t = JStr (format_time t)"

definition dec_time :: "json \<Rightarrow> time \<Rightarrow> time option" where
  "dec_time j old = (case j of JStr r \<Rightarrow> parse_time True r | JNull \<Rightarrow> Some old | _ \<Rightarrow> None)"

lemma format_time_chars: "c \<in> set (format_time t) \<Longrightarrow> is_digit c \<or> c \<in> set ''-T:.Z''"
proof -
  have p: "c \<in> set (pad k n) \<Longrightarrow> is_digit c" for k n using pad_digits [of k n] by (auto simp: list_all_iff)
  have "c \<in> set (format_frac n) \<Longrightarrow> is_digit c \<or> c = CHR ''.''" for n
    using p [of 9 n] by (auto simp: format_frac_def split: if_splits dest!: set_dropWhileD)
  with p show "c \<in> set (format_time t) \<Longrightarrow> ?thesis"
    by (auto simp: format_time_def Let_def split: prod.splits)
qed

lemma raw_ok_safe:
  "(\<And>c. c \<in> set s \<Longrightarrow> 32 \<le> byte c \<and> c \<noteq> bslash \<and> c \<noteq> dquote) \<Longrightarrow> raw_ok s"
proof (induction s)
  case (Cons a s)
  then have "\<not> byte a < 32" "a \<noteq> bslash" "a \<noteq> dquote" using leD by auto
  moreover have "raw_ok s" using Cons by simp
  ultimately show ?case by (simp add: raw_ok.simps(2))
qed simp

lemma canonical_jtime [json_simps]: "canonical (jtime t)"
proof -
  have "32 \<le> byte c \<and> c \<noteq> bslash \<and> c \<noteq> dquote \<and> html_plain c" if "is_digit c \<or> c \<in> set ''-T:.Z''" for c
    using that by (auto simp: is_digit_def byte_def html_plain_def)
  then have *: "32 \<le> byte c \<and> c \<noteq> bslash \<and> c \<noteq> dquote \<and> html_plain c" if "c \<in> set (format_time t)" for c
    using that format_time_chars by blast
  then have "raw_ok (format_time t)" by (intro raw_ok_safe) blast
  moreover have "html_raw (format_time t) = format_time t"
    using html_raw_plain [of "format_time t" "[]"] * by simp
  ultimately show ?thesis by (simp add: canonical_def jtime_def)
qed

lemma dec_time_jtime [json_simps]: "time_ok t \<Longrightarrow> dec_time (jtime t) old = Some t"
  by (simp add: dec_time_def jtime_def parse_format_time)

end
