(* ===== verification/Core.thy ===== *)
theory Core
  imports Go_Time
begin

text \<open>
  Package \<open>internal/core\<close>: the domain types with their JSON encodings (the struct tags of
  \<open>types.go\<close>), the terminal states, and \<open>DescribeRequest\<close> of \<open>summary.go\<close>.

  A \<open>Status\<close> is a string in the source; the snapshots only ever hold the declared constants, so
  it is a datatype here with \<open>status_string\<close> for the wire. A \<open>Mode\<close> comes from the wire unchecked
  and stays a string. User and group ids are 32-bit words, the process id a signed 32-bit word.
  Every encoder is inverted by its decoder on values with valid UTF-8 texts and printable
  instants; the encodings are canonical (compaction leaves them unchanged).
\<close>

section \<open>Types\<close>

abbreviation (input) ModePoll :: string where "ModePoll \<equiv> ''poll''"
abbreviation (input) ModeWait :: string where "ModeWait \<equiv> ''wait''"

datatype status = StatusPending | StatusApproved | StatusDenied | StatusExpired | StatusExecuting
  | StatusExecuted | StatusFailed | StatusRevoked | StatusRejected | StatusError

fun status_string :: "status \<Rightarrow> string" where
  "status_string StatusPending = ''pending''"
| "status_string StatusApproved = ''approved''"
| "status_string StatusDenied = ''denied''"
| "status_string StatusExpired = ''expired''"
| "status_string StatusExecuting = ''executing''"
| "status_string StatusExecuted = ''executed''"
| "status_string StatusFailed = ''failed''"
| "status_string StatusRevoked = ''revoked''"
| "status_string StatusRejected = ''rejected''"
| "status_string StatusError = ''error''"

lemma status_string_inject [simp]: "status_string s = status_string t \<longleftrightarrow> s = t"
  by (cases s; cases t) simp_all

definition Terminal :: "status \<Rightarrow> bool" where
  "Terminal s = (case s of
     StatusDenied \<Rightarrow> True | StatusExpired \<Rightarrow> True | StatusExecuted \<Rightarrow> True
   | StatusFailed \<Rightarrow> True | StatusRevoked \<Rightarrow> True
   | _ \<Rightarrow> False)"

record actor =
  actor_Kind :: string
  actor_ID :: string

record peer_identity =
  peer_UID :: "32 word"
  peer_GID :: "32 word"
  peer_PID :: "32 word"
  peer_Username :: string

record execution_spec =
  spec_Argv :: "string list"
  spec_Env :: "string gomap"
  spec_Cwd :: string

record approval_summary =
  sum_Requester :: string
  sum_Host :: string
  sum_ExactCommand :: string
  sum_Reason :: string
  sum_Effect :: string
  sum_Risk :: string

record request =
  req_ID :: string
  req_Argv :: "string list"
  req_Reason :: string
  req_Mode :: string
  req_Requester :: peer_identity
  req_Host :: string
  req_CreatedAt :: time
  req_ExpiresAt :: time
  req_Digest :: string
  req_Spec :: execution_spec
  req_Summary :: approval_summary

record execution_result =
  res_StartedAt :: time
  res_FinishedAt :: time
  res_ExitCode :: int
  res_Stdout :: string
  res_Stderr :: string

record snapshot =
  snap_Request :: request
  snap_Status :: status
  snap_Approver :: "actor option"
  snap_DenyReason :: string
  snap_Execution :: "execution_result option"
  snap_LastEventType :: string
  snap_LastEventAt :: time
  snap_LastEventHash :: string

section \<open>Describing a request\<close>

text \<open>\<open>fmt.Sprintf("uid:%d", uid)\<close>, used wherever a user has no name.\<close>

definition uid_label :: "32 word \<Rightarrow> string" where
  "uid_label uid = ''uid:'' @ string_of_nat (unat uid)"

definition effect_risk :: "string list \<Rightarrow> string \<times> string" where
  "effect_risk argv =
     (let default = (''run a privileged command'',
                     ''privileged action requested; review exact argv before approval'')
      in case argv of
        [] \<Rightarrow> default
      | cmd # _ \<Rightarrow>
          (if cmd = ''systemctl'' then
             (''change the lifecycle of a system service'',
              ''may interrupt or restart a service if approved'')
           else if cmd \<in> {''apt'', ''apt-get'', ''dnf'', ''yum''} then
             (''change installed system packages'',
              ''may alter package state or install new software'')
           else if cmd \<in> {''cp'', ''mv'', ''rm'', ''ln''} then
             (''change filesystem state'',
              ''may overwrite, remove, or relink files'')
           else if cmd \<in> {''tee'', ''sed'', ''sh'', ''bash''} then
             (''mutate system configuration or execute shell logic'',
              ''shell-level changes deserve close review before approval'')
           else default))"

definition DescribeRequest :: "string \<Rightarrow> peer_identity \<Rightarrow> string list \<Rightarrow> string \<Rightarrow> approval_summary" where
  "DescribeRequest host requester argv reason =
     \<lparr>sum_Requester = (if peer_Username requester = [] then uid_label (peer_UID requester)
                       else peer_Username requester),
      sum_Host = host,
      sum_ExactCommand = Join argv '' '',
      sum_Reason = (if TrimSpace reason = [] then ''No requester reason supplied.'' else reason),
      sum_Effect = fst (effect_risk argv),
      sum_Risk = snd (effect_risk argv)\<rparr>"

section \<open>JSON encodings\<close>

subsection \<open>Actor\<close>

definition json_of_actor :: "actor \<Rightarrow> json" where
  "json_of_actor a = JObj [(''kind'', jstring (actor_Kind a)), (''id'', jstring (actor_ID a))]"

definition actor_fields :: "actor fields" where
  "actor_fields =
     [(''kind'', dec_field (\<lambda>x r. r\<lparr>actor_Kind := x\<rparr>) actor_Kind dec_string),
      (''id'', dec_field (\<lambda>x r. r\<lparr>actor_ID := x\<rparr>) actor_ID dec_string)]"

definition zero_actor :: actor where
  "zero_actor = \<lparr>actor_Kind = [], actor_ID = []\<rparr>"

definition utf8_actor :: "actor \<Rightarrow> bool" where
  "utf8_actor a \<longleftrightarrow> valid_utf8 (actor_Kind a) \<and> valid_utf8 (actor_ID a)"

lemma dec_actor [json_simps]:
  "utf8_actor a \<Longrightarrow> dec_struct actor_fields (json_of_actor a) r = Some a"
  by (simp add: json_of_actor_def actor_fields_def utf8_actor_def codec_simps json_simps)

lemma canonical_actor [json_simps]: "canonical (json_of_actor a)"
  by (simp add: json_of_actor_def canon_simps json_simps)

subsection \<open>PeerIdentity\<close>

definition dec_int32 :: "json \<Rightarrow> 32 word \<Rightarrow> 32 word option" where
  "dec_int32 j old = map_option word_of_int (dec_int 32 j (sint old))"

lemma dec_int32_jint [json_simps]: "dec_int32 (jint (sint w)) old = Some w"
proof -
  have "- (2 ^ 31) \<le> sint w" "sint w < 2 ^ 31"
    using sint_greater_eq [of w] sint_less [of w] by simp_all
  then show ?thesis by (simp add: dec_int32_def dec_int_jint)
qed

definition json_of_peer :: "peer_identity \<Rightarrow> json" where
  "json_of_peer p = JObj
     ([(''uid'', juint (peer_UID p)), (''gid'', juint (peer_GID p)), (''pid'', jint (sint (peer_PID p)))]
      @ omit_if (peer_Username p = []) ''username'' (jstring (peer_Username p)))"

definition peer_fields :: "peer_identity fields" where
  "peer_fields =
     [(''uid'', dec_field (\<lambda>x r. r\<lparr>peer_UID := x\<rparr>) peer_UID dec_uint32),
      (''gid'', dec_field (\<lambda>x r. r\<lparr>peer_GID := x\<rparr>) peer_GID dec_uint32),
      (''pid'', dec_field (\<lambda>x r. r\<lparr>peer_PID := x\<rparr>) peer_PID dec_int32),
      (''username'', dec_field (\<lambda>x r. r\<lparr>peer_Username := x\<rparr>) peer_Username dec_string)]"

definition zero_peer :: peer_identity where
  "zero_peer = \<lparr>peer_UID = 0, peer_GID = 0, peer_PID = 0, peer_Username = []\<rparr>"

lemma dec_peer [json_simps]:
  "valid_utf8 (peer_Username p) \<Longrightarrow> dec_struct peer_fields (json_of_peer p) zero_peer = Some p"
  by (simp add: json_of_peer_def peer_fields_def zero_peer_def codec_simps json_simps)

lemma canonical_peer [json_simps]: "canonical (json_of_peer p)"
  by (simp add: json_of_peer_def canon_simps json_simps)

subsection \<open>ExecutionSpec and ApprovalSummary\<close>

definition json_of_spec :: "execution_spec \<Rightarrow> json" where
  "json_of_spec x = JObj
     [(''argv'', jstrings (spec_Argv x)), (''env'', jmap (spec_Env x)), (''cwd'', jstring (spec_Cwd x))]"

definition spec_fields :: "execution_spec fields" where
  "spec_fields =
     [(''argv'', dec_field (\<lambda>x r. r\<lparr>spec_Argv := x\<rparr>) spec_Argv dec_strings),
      (''env'', dec_field (\<lambda>x r. r\<lparr>spec_Env := x\<rparr>) spec_Env dec_map),
      (''cwd'', dec_field (\<lambda>x r. r\<lparr>spec_Cwd := x\<rparr>) spec_Cwd dec_string)]"

definition zero_spec :: execution_spec where
  "zero_spec = \<lparr>spec_Argv = [], spec_Env = [], spec_Cwd = []\<rparr>"

definition utf8_spec :: "execution_spec \<Rightarrow> bool" where
  "utf8_spec x \<longleftrightarrow> list_all valid_utf8 (spec_Argv x) \<and> key_ordered (spec_Env x)
     \<and> utf8_map (spec_Env x) \<and> valid_utf8 (spec_Cwd x)"

lemma dec_spec [json_simps]:
  "utf8_spec x \<Longrightarrow> dec_struct spec_fields (json_of_spec x) zero_spec = Some x"
  by (simp add: json_of_spec_def spec_fields_def zero_spec_def utf8_spec_def codec_simps json_simps)

lemma canonical_spec [json_simps]: "canonical (json_of_spec x)"
  by (simp add: json_of_spec_def canon_simps json_simps)

definition json_of_summary :: "approval_summary \<Rightarrow> json" where
  "json_of_summary x = JObj
     ([(''requester'', jstring (sum_Requester x)), (''host'', jstring (sum_Host x)),
       (''exact_command'', jstring (sum_ExactCommand x))]
      @ omit_if (sum_Reason x = []) ''reason'' (jstring (sum_Reason x))
      @ [(''effect'', jstring (sum_Effect x)), (''risk'', jstring (sum_Risk x))])"

definition summary_fields :: "approval_summary fields" where
  "summary_fields =
     [(''requester'', dec_field (\<lambda>x r. r\<lparr>sum_Requester := x\<rparr>) sum_Requester dec_string),
      (''host'', dec_field (\<lambda>x r. r\<lparr>sum_Host := x\<rparr>) sum_Host dec_string),
      (''exact_command'', dec_field (\<lambda>x r. r\<lparr>sum_ExactCommand := x\<rparr>) sum_ExactCommand dec_string),
      (''reason'', dec_field (\<lambda>x r. r\<lparr>sum_Reason := x\<rparr>) sum_Reason dec_string),
      (''effect'', dec_field (\<lambda>x r. r\<lparr>sum_Effect := x\<rparr>) sum_Effect dec_string),
      (''risk'', dec_field (\<lambda>x r. r\<lparr>sum_Risk := x\<rparr>) sum_Risk dec_string)]"

definition zero_summary :: approval_summary where
  "zero_summary = \<lparr>sum_Requester = [], sum_Host = [], sum_ExactCommand = [], sum_Reason = [],
     sum_Effect = [], sum_Risk = []\<rparr>"

definition utf8_summary :: "approval_summary \<Rightarrow> bool" where
  "utf8_summary x \<longleftrightarrow> valid_utf8 (sum_Requester x) \<and> valid_utf8 (sum_Host x)
     \<and> valid_utf8 (sum_ExactCommand x) \<and> valid_utf8 (sum_Reason x)
     \<and> valid_utf8 (sum_Effect x) \<and> valid_utf8 (sum_Risk x)"

lemma dec_summary [json_simps]:
  "utf8_summary x \<Longrightarrow> dec_struct summary_fields (json_of_summary x) zero_summary = Some x"
  by (simp add: json_of_summary_def summary_fields_def zero_summary_def utf8_summary_def
      codec_simps json_simps)

lemma canonical_summary [json_simps]: "canonical (json_of_summary x)"
  by (simp add: json_of_summary_def canon_simps json_simps)

subsection \<open>Request\<close>

definition json_of_request :: "request \<Rightarrow> json" where
  "json_of_request x = JObj
     ([(''id'', jstring (req_ID x)), (''argv'', jstrings (req_Argv x))]
      @ omit_if (req_Reason x = []) ''reason'' (jstring (req_Reason x))
      @ [(''mode'', jstring (req_Mode x)), (''requester'', json_of_peer (req_Requester x)),
         (''host'', jstring (req_Host x)), (''created_at'', jtime (req_CreatedAt x)),
         (''expires_at'', jtime (req_ExpiresAt x)), (''digest'', jstring (req_Digest x)),
         (''spec'', json_of_spec (req_Spec x)), (''summary'', json_of_summary (req_Summary x))])"

definition request_fields :: "request fields" where
  "request_fields =
     [(''id'', dec_field (\<lambda>x r. r\<lparr>req_ID := x\<rparr>) req_ID dec_string),
      (''argv'', dec_field (\<lambda>x r. r\<lparr>req_Argv := x\<rparr>) req_Argv dec_strings),
      (''reason'', dec_field (\<lambda>x r. r\<lparr>req_Reason := x\<rparr>) req_Reason dec_string),
      (''mode'', dec_field (\<lambda>x r. r\<lparr>req_Mode := x\<rparr>) req_Mode dec_string),
      (''requester'', dec_field (\<lambda>x r. r\<lparr>req_Requester := x\<rparr>) req_Requester (dec_struct peer_fields)),
      (''host'', dec_field (\<lambda>x r. r\<lparr>req_Host := x\<rparr>) req_Host dec_string),
      (''created_at'', dec_field (\<lambda>x r. r\<lparr>req_CreatedAt := x\<rparr>) req_CreatedAt dec_time),
      (''expires_at'', dec_field (\<lambda>x r. r\<lparr>req_ExpiresAt := x\<rparr>) req_ExpiresAt dec_time),
      (''digest'', dec_field (\<lambda>x r. r\<lparr>req_Digest := x\<rparr>) req_Digest dec_string),
      (''spec'', dec_field (\<lambda>x r. r\<lparr>req_Spec := x\<rparr>) req_Spec (dec_struct spec_fields)),
      (''summary'', dec_field (\<lambda>x r. r\<lparr>req_Summary := x\<rparr>) req_Summary (dec_struct summary_fields))]"

definition zero_request :: request where
  "zero_request = \<lparr>req_ID = [], req_Argv = [], req_Reason = [], req_Mode = [], req_Requester = zero_peer,
     req_Host = [], req_CreatedAt = zero_time, req_ExpiresAt = zero_time, req_Digest = [],
     req_Spec = zero_spec, req_Summary = zero_summary\<rparr>"

text \<open>The requests whose JSON text decodes to the request itself.\<close>

definition utf8_request :: "request \<Rightarrow> bool" where
  "utf8_request x \<longleftrightarrow> valid_utf8 (req_ID x) \<and> list_all valid_utf8 (req_Argv x)
     \<and> valid_utf8 (req_Reason x) \<and> valid_utf8 (req_Mode x)
     \<and> valid_utf8 (peer_Username (req_Requester x)) \<and> valid_utf8 (req_Host x)
     \<and> valid_utf8 (req_Digest x) \<and> utf8_spec (req_Spec x) \<and> utf8_summary (req_Summary x)"

definition times_request :: "request \<Rightarrow> bool" where
  "times_request x \<longleftrightarrow> time_ok (req_CreatedAt x) \<and> time_ok (req_ExpiresAt x)"

lemma dec_request [json_simps]:
  "utf8_request x \<Longrightarrow> times_request x \<Longrightarrow>
   dec_struct request_fields (json_of_request x) zero_request = Some x"
  by (simp add: json_of_request_def request_fields_def zero_request_def utf8_request_def
      times_request_def codec_simps json_simps)

lemma canonical_request [json_simps]: "times_request x \<Longrightarrow> canonical (json_of_request x)"
  by (simp add: json_of_request_def times_request_def canon_simps json_simps)

subsection \<open>ExecutionResult\<close>

definition json_of_result :: "execution_result \<Rightarrow> json" where
  "json_of_result x = JObj
     ([(''started_at'', jtime (res_StartedAt x)), (''finished_at'', jtime (res_FinishedAt x)),
       (''exit_code'', jint (res_ExitCode x))]
      @ omit_if (res_Stdout x = []) ''stdout'' (jstring (res_Stdout x))
      @ omit_if (res_Stderr x = []) ''stderr'' (jstring (res_Stderr x)))"

definition result_fields :: "execution_result fields" where
  "result_fields =
     [(''started_at'', dec_field (\<lambda>x r. r\<lparr>res_StartedAt := x\<rparr>) res_StartedAt dec_time),
      (''finished_at'', dec_field (\<lambda>x r. r\<lparr>res_FinishedAt := x\<rparr>) res_FinishedAt dec_time),
      (''exit_code'', dec_field (\<lambda>x r. r\<lparr>res_ExitCode := x\<rparr>) res_ExitCode (dec_int 64)),
      (''stdout'', dec_field (\<lambda>x r. r\<lparr>res_Stdout := x\<rparr>) res_Stdout dec_string),
      (''stderr'', dec_field (\<lambda>x r. r\<lparr>res_Stderr := x\<rparr>) res_Stderr dec_string)]"

definition zero_result :: execution_result where
  "zero_result = \<lparr>res_StartedAt = zero_time, res_FinishedAt = zero_time, res_ExitCode = 0,
     res_Stdout = [], res_Stderr = []\<rparr>"

definition utf8_result :: "execution_result \<Rightarrow> bool" where
  "utf8_result x \<longleftrightarrow> - (2 ^ 63) \<le> res_ExitCode x \<and> res_ExitCode x < 2 ^ 63
     \<and> valid_utf8 (res_Stdout x) \<and> valid_utf8 (res_Stderr x)"

definition times_result :: "execution_result \<Rightarrow> bool" where
  "times_result x \<longleftrightarrow> time_ok (res_StartedAt x) \<and> time_ok (res_FinishedAt x)"

lemma dec_result [json_simps]:
  "utf8_result x \<Longrightarrow> times_result x \<Longrightarrow>
   dec_struct result_fields (json_of_result x) zero_result = Some x"
  by (simp add: json_of_result_def result_fields_def zero_result_def utf8_result_def
      times_result_def codec_simps json_simps)

lemma canonical_result [json_simps]: "times_result x \<Longrightarrow> canonical (json_of_result x)"
  by (simp add: json_of_result_def times_result_def canon_simps json_simps)

end
