(* ===== verification/Events.thy ===== *)
theory Events
  imports Core
begin

text \<open>
  Package \<open>internal/events\<close>: the event record with its typed details (\<open>types.go\<close>) and the
  hash-chained, append-only log (\<open>log.go\<close>).

  The log file is a byte string. What the environment answers during one \<open>Append\<close> (random
  bytes, clock, outcome of the file operations) is an explicit argument, so a failed open, a
  torn write and a failed sync are ordinary branches. SHA-256 is not code of the repository:
  it is the parameter \<open>sha\<close> of the definitions, and the theorems that need it name what they
  need (32 bytes of output, or a collision in the conclusion). The details of an event are held
  as a JSON tree: the source keeps the raw text and only ever re-encodes or decodes it, and
  both depend on the tree alone.
\<close>

section \<open>Events and their details\<close>

abbreviation (input) TypeRequestCreated :: string where "TypeRequestCreated \<equiv> ''request_created''"
abbreviation (input) TypeRequestApproved :: string where "TypeRequestApproved \<equiv> ''request_approved''"
abbreviation (input) TypeRequestDenied :: string where "TypeRequestDenied \<equiv> ''request_denied''"
abbreviation (input) TypeRequestExpired :: string where "TypeRequestExpired \<equiv> ''request_expired''"
abbreviation (input) TypeRequestRevoked :: string where "TypeRequestRevoked \<equiv> ''request_revoked''"
abbreviation (input) TypeExecutionStarted :: string where "TypeExecutionStarted \<equiv> ''execution_started''"
abbreviation (input) TypeExecutionSucceeded :: string where "TypeExecutionSucceeded \<equiv> ''execution_succeeded''"
abbreviation (input) TypeExecutionFailed :: string where "TypeExecutionFailed \<equiv> ''execution_failed''"
abbreviation (input) TypeRecoveryMarkedFailed :: string where
  "TypeRecoveryMarkedFailed \<equiv> ''recovery_marked_failed''"

record event =
  ev_EventID :: string
  ev_PrevHash :: string
  ev_Hash :: string
  ev_RequestID :: string
  ev_Timestamp :: time
  ev_Actor :: actor
  ev_Type :: string
  ev_Details :: "json option"

definition zero_event :: event where
  "zero_event = \<lparr>ev_EventID = [], ev_PrevHash = [], ev_Hash = [], ev_RequestID = [],
     ev_Timestamp = zero_time, ev_Actor = zero_actor, ev_Type = [], ev_Details = None\<rparr>"

datatype details =
    RequestCreatedDetails request
  | ApprovalDetails actor string
  | DenialDetails actor string
  | ExecutionStartedDetails string string
  | ExecutionFinishedDetails execution_result
  | RecoveryMarkedFailedDetails string

fun json_of_details :: "details \<Rightarrow> json" where
  "json_of_details (RequestCreatedDetails r) = JObj [(''request'', json_of_request r)]"
| "json_of_details (ApprovalDetails a code) = JObj
     ((''approver'', json_of_actor a) # omit_if (code = []) ''approval_code'' (jstring code))"
| "json_of_details (DenialDetails a reason) = JObj
     ((''approver'', json_of_actor a) # omit_if (reason = []) ''reason'' (jstring reason))"
| "json_of_details (ExecutionStartedDetails x d) = JObj
     [(''executor'', jstring x), (''digest'', jstring d)]"
| "json_of_details (ExecutionFinishedDetails r) = JObj [(''result'', json_of_result r)]"
| "json_of_details (RecoveryMarkedFailedDetails m) = JObj [(''message'', jstring m)]"

text \<open>\<open>time.Time\<close> refuses to marshal years outside 0 to 9999: the only way encoding fails.\<close>

fun times_details :: "details \<Rightarrow> bool" where
  "times_details (RequestCreatedDetails r) = times_request r"
| "times_details (ExecutionFinishedDetails r) = times_result r"
| "times_details _ = True"

definition MarshalDetails :: "details option \<Rightarrow> json option result" where
  "MarshalDetails v = (case v of
     None \<Rightarrow> Inr None
   | Some d \<Rightarrow> (if times_details d then Inr (Some (json_of_details d)) else Inl ErrMarshal))"

text \<open>\<open>json.Unmarshal(event.Details, ...)\<close>: absent details are an empty input, hence an error.\<close>

definition unmarshal_details :: "'r fields \<Rightarrow> 'r \<Rightarrow> json option \<Rightarrow> 'r result" where
  "unmarshal_details fs zero d = (case d of
     None \<Rightarrow> Inl ErrDecode
   | Some j \<Rightarrow> (case dec_struct fs j zero of None \<Rightarrow> Inl ErrDecode | Some r \<Rightarrow> Inr r))"

definition created_fields :: "request fields" where
  "created_fields = [(''request'', dec_struct request_fields)]"

definition approval_fields :: "(actor \<times> string) fields" where
  "approval_fields =
     [(''approver'', dec_field (\<lambda>x r. (x, snd r)) fst (dec_struct actor_fields)),
      (''approval_code'', dec_field (\<lambda>x r. (fst r, x)) snd dec_string)]"

definition denial_fields :: "(actor \<times> string) fields" where
  "denial_fields =
     [(''approver'', dec_field (\<lambda>x r. (x, snd r)) fst (dec_struct actor_fields)),
      (''reason'', dec_field (\<lambda>x r. (fst r, x)) snd dec_string)]"

definition finished_fields :: "execution_result fields" where
  "finished_fields = [(''result'', dec_struct result_fields)]"

lemma canonical_details [json_simps]: "times_details d \<Longrightarrow> canonical (json_of_details d)"
  by (cases d) (simp_all add: canon_simps json_simps)

lemma MarshalDetails_canonical: "MarshalDetails v = Inr (Some j) \<Longrightarrow> canonical j"
  by (auto simp: MarshalDetails_def json_simps split: option.splits if_splits)

lemma unmarshal_created [json_simps]:
  "utf8_request r \<Longrightarrow> times_request r \<Longrightarrow>
   unmarshal_details created_fields zero_request (Some (json_of_details (RequestCreatedDetails r))) = Inr r"
  by (simp add: unmarshal_details_def created_fields_def codec_simps json_simps)

lemma unmarshal_approval [json_simps]:
  "utf8_actor a \<Longrightarrow> valid_utf8 c \<Longrightarrow>
   unmarshal_details approval_fields (zero_actor, []) (Some (json_of_details (ApprovalDetails a c)))
     = Inr (a, c)"
  by (simp add: unmarshal_details_def approval_fields_def codec_simps json_simps)

lemma unmarshal_denial [json_simps]:
  "utf8_actor a \<Longrightarrow> valid_utf8 c \<Longrightarrow>
   unmarshal_details denial_fields (zero_actor, []) (Some (json_of_details (DenialDetails a c)))
     = Inr (a, c)"
  by (simp add: unmarshal_details_def denial_fields_def codec_simps json_simps)

lemma unmarshal_finished [json_simps]:
  "utf8_result r \<Longrightarrow> times_result r \<Longrightarrow>
   unmarshal_details finished_fields zero_result (Some (json_of_details (ExecutionFinishedDetails r)))
     = Inr r"
  by (simp add: unmarshal_details_def finished_fields_def codec_simps json_simps)

section \<open>Encoding of an event\<close>

definition details_member :: "json option \<Rightarrow> (string \<times> json) list" where
  "details_member d = (case d of None \<Rightarrow> [] | Some j \<Rightarrow> [(''details'', html_json j)])"

definition json_of_event :: "event \<Rightarrow> json" where
  "json_of_event e = JObj
     ((''event_id'', jstring (ev_EventID e))
      # omit_if (ev_PrevHash e = []) ''prev_hash'' (jstring (ev_PrevHash e))
      @ [(''hash'', jstring (ev_Hash e)), (''request_id'', jstring (ev_RequestID e)),
         (''timestamp'', jtime (ev_Timestamp e)), (''actor'', json_of_actor (ev_Actor e)),
         (''type'', jstring (ev_Type e))]
      @ details_member (ev_Details e))"

definition event_fields :: "event fields" where
  "event_fields =
     [(''event_id'', dec_field (\<lambda>x r. r\<lparr>ev_EventID := x\<rparr>) ev_EventID dec_string),
      (''prev_hash'', dec_field (\<lambda>x r. r\<lparr>ev_PrevHash := x\<rparr>) ev_PrevHash dec_string),
      (''hash'', dec_field (\<lambda>x r. r\<lparr>ev_Hash := x\<rparr>) ev_Hash dec_string),
      (''request_id'', dec_field (\<lambda>x r. r\<lparr>ev_RequestID := x\<rparr>) ev_RequestID dec_string),
      (''timestamp'', dec_field (\<lambda>x r. r\<lparr>ev_Timestamp := x\<rparr>) ev_Timestamp dec_time),
      (''actor'', dec_field (\<lambda>x r. r\<lparr>ev_Actor := x\<rparr>) ev_Actor (dec_struct actor_fields)),
      (''type'', dec_field (\<lambda>x r. r\<lparr>ev_Type := x\<rparr>) ev_Type dec_string),
      (''details'', \<lambda>j r. Some (r\<lparr>ev_Details := Some j\<rparr>))]"

definition marshal_event :: "event \<Rightarrow> string result" where
  "marshal_event e =
     (if time_ok (ev_Timestamp e) then Inr (json_print (json_of_event e)) else Inl ErrMarshal)"

definition unmarshal_event :: "string \<Rightarrow> event option" where
  "unmarshal_event line = (case json_parse line of
     None \<Rightarrow> None
   | Some j \<Rightarrow> dec_struct event_fields j zero_event)"

section \<open>Hashing\<close>

definition hashEnvelope :: "event \<Rightarrow> json" where
  "hashEnvelope e = JObj
     ((''event_id'', jstring (ev_EventID e))
      # omit_if (ev_PrevHash e = []) ''prev_hash'' (jstring (ev_PrevHash e))
      @ [(''request_id'', jstring (ev_RequestID e)), (''timestamp'', jtime (ev_Timestamp e)),
         (''actor'', json_of_actor (ev_Actor e)), (''type'', jstring (ev_Type e))]
      @ details_member (ev_Details e))"

definition hashEvent :: "(string \<Rightarrow> string) \<Rightarrow> event \<Rightarrow> string result" where
  "hashEvent sha e =
     (if time_ok (ev_Timestamp e) then Inr (hex_encode (sha (json_print (hashEnvelope e))))
      else Inl ErrMarshal)"

definition randomID :: "string \<Rightarrow> string option \<Rightarrow> int \<Rightarrow> string" where
  "randomID prefix rand nanos = (case rand of
     Some buf \<Rightarrow> prefix @ ''_'' @ hex_encode buf
   | None \<Rightarrow> prefix @ ''_'' @ string_of_int nanos)"

section \<open>The log\<close>

record log =
  lg_file :: string
  lg_lastHash :: string

text \<open>
  Outcome of the file operations of one \<open>Append\<close>. A failing write may have put a proper
  prefix of the line into the file; a failing sync leaves the whole line in the page cache and
  the file.
\<close>

datatype fs_outcome = FsOk | FsOpenErr string | FsWriteErr nat string | FsSyncErr string

record io =
  io_rand :: "string option"
  io_nanos :: int
  io_now :: time
  io_fs :: fs_outcome

definition stamp :: "io \<Rightarrow> string \<Rightarrow> event \<Rightarrow> event" where
  "stamp w prev e =
     (let e = (if ev_EventID e = [] then e\<lparr>ev_EventID := randomID ''evt'' (io_rand w) (io_nanos w)\<rparr> else e);
          e = (if ev_Timestamp e = zero_time then e\<lparr>ev_Timestamp := io_now w\<rparr> else e)
      in e\<lparr>ev_PrevHash := prev\<rparr>)"

definition Append :: "(string \<Rightarrow> string) \<Rightarrow> io \<Rightarrow> event \<Rightarrow> log \<Rightarrow> event result \<times> log" where
  "Append sha w e l =
     (let e = stamp w (lg_lastHash l) e in
      case hashEvent sha e of
        Inl err \<Rightarrow> (Inl err, l)
      | Inr hash \<Rightarrow>
          (let e = e\<lparr>ev_Hash := hash\<rparr> in
           case io_fs w of
             FsOpenErr m \<Rightarrow> (Inl (ErrOs m), l)
           | fs \<Rightarrow>
               (case marshal_event e of
                  Inl err \<Rightarrow> (Inl err, l)
                | Inr line \<Rightarrow>
                    (case fs of
                       FsWriteErr n m \<Rightarrow> (Inl (ErrOs m), l\<lparr>lg_file := lg_file l @ take n line\<rparr>)
                     | FsSyncErr m \<Rightarrow> (Inl (ErrOs m), l\<lparr>lg_file := lg_file l @ line @ [newline]\<rparr>)
                     | _ \<Rightarrow> (Inr e, l\<lparr>lg_file := lg_file l @ line @ [newline], lg_lastHash := hash\<rparr>)))))"

definition max_line :: nat where
  "max_line = 2 * 1024 * 1024"

text \<open>One iteration of the scanning loop; the accumulator is the event list and \<open>prevHash\<close>.\<close>

definition replay_line :: "(string \<Rightarrow> string) \<Rightarrow> string \<Rightarrow> event list \<times> string \<Rightarrow> (event list \<times> string) result" where
  "replay_line sha line acc =
     (if line = [] then Inr acc
      else case unmarshal_event line of
        None \<Rightarrow> Inl ErrDecode
      | Some e \<Rightarrow>
          (if ev_PrevHash e \<noteq> snd acc then Inl (ErrChain (ev_EventID e) (ev_PrevHash e) (snd acc))
           else result_bind (hashEvent sha e) (\<lambda>wantHash.
             if ev_Hash e \<noteq> wantHash then Inl (ErrHash (ev_EventID e))
             else Inr (fst acc @ [e], ev_Hash e))))"

definition replayUnlocked :: "(string \<Rightarrow> string) \<Rightarrow> string \<Rightarrow> event list result" where
  "replayUnlocked sha file =
     (let (lines, too_long) = scan_lines max_line file in
      result_bind (result_fold (replay_line sha) lines ([], []))
        (\<lambda>acc. if too_long then Inl ErrTooLong else Inr (fst acc)))"

text \<open>The argument of \<open>Replay\<close> is what \<open>os.Open\<close> gives: an error or the contents of the file.\<close>

definition Replay :: "(string \<Rightarrow> string) \<Rightarrow> string result \<Rightarrow> event list result" where
  "Replay sha opened = result_bind opened (replayUnlocked sha)"

definition last_hash :: "event list \<Rightarrow> string" where
  "last_hash es = (if es = [] then [] else ev_Hash (last es))"

text \<open>
  \<open>setup\<close> is the outcome of \<open>os.MkdirAll\<close> and of the creating \<open>os.OpenFile\<close>; a file that did not
  exist is empty afterwards.
\<close>

definition NewLog :: "(string \<Rightarrow> string) \<Rightarrow> unit result \<Rightarrow> string result \<Rightarrow> log result" where
  "NewLog sha setup opened =
     result_bind setup (\<lambda>_.
       result_bind opened (\<lambda>file.
         result_bind (Replay sha opened) (\<lambda>es.
           Inr \<lparr>lg_file = file, lg_lastHash = last_hash es\<rparr>)))"

section \<open>Files of encoded lines\<close>

definition file_lines :: "('e \<Rightarrow> string) \<Rightarrow> 'e list \<Rightarrow> string" where
  "file_lines enc es = concat (map (\<lambda>e. enc e @ [newline]) es)"

lemma file_lines_simps [simp]:
  "file_lines enc [] = []"
  "file_lines enc (e # es) = enc e @ newline # file_lines enc es"
  "file_lines enc (es @ fs) = file_lines enc es @ file_lines enc fs"
  by (simp_all add: file_lines_def)

text \<open>
  What a line-oriented file relies on: an encoder of records to non-empty lines without a
  terminator, inverted by the decoder.
\<close>

locale line_codec =
  fixes ok :: "'e \<Rightarrow> bool"
    and enc :: "'e \<Rightarrow> string"
    and dec :: "string \<Rightarrow> 'e option"
  assumes dec_enc: "ok e \<Longrightarrow> dec (enc e) = Some e"
    and enc_newline: "ok e \<Longrightarrow> newline \<notin> set (enc e)"
    and enc_last: "ok e \<Longrightarrow> enc e \<noteq> [] \<and> last (enc e) \<noteq> CHR 0x0D"
begin

lemma drop_cr_enc: "ok e \<Longrightarrow> drop_cr (enc e) = enc e"
  using enc_last [of e] by (simp add: drop_cr_def)

lemma file_boundary: "at_boundary (file_lines enc es)"
  by (induction es rule: rev_induct) (simp_all add: at_boundary_def)

lemma scan_file:
  "list_all ok es \<Longrightarrow> list_all (\<lambda>e. length (enc e) < limit) es \<Longrightarrow>
   scan_lines limit (file_lines enc es) = (map enc es, False)"
  by (induction es) (auto simp: scan_lines_line enc_newline drop_cr_enc Let_def)

lemma scan_file_long:
  assumes "list_all ok (es @ e # fs)" and "list_all (\<lambda>e. length (enc e) < limit) es"
    and "limit \<le> length (enc e)"
  shows "scan_lines limit (file_lines enc (es @ e # fs)) = (map enc es, True)"
  using assms
  by (induction es) (auto simp: scan_lines_line scan_lines_long enc_newline drop_cr_enc Let_def)

lemma enc_inject: "ok e \<Longrightarrow> ok f \<Longrightarrow> enc e = enc f \<Longrightarrow> e = f"
  by (metis dec_enc option.inject)

end

section \<open>The event codec\<close>

definition details_ok :: "json option \<Rightarrow> bool" where
  "details_ok d \<longleftrightarrow> (case d of None \<Rightarrow> True | Some j \<Rightarrow> canonical j)"

text \<open>The events whose line decodes to the event itself.\<close>

definition event_ok :: "event \<Rightarrow> bool" where
  "event_ok e \<longleftrightarrow> valid_utf8 (ev_EventID e) \<and> valid_utf8 (ev_PrevHash e) \<and> valid_utf8 (ev_Hash e)
     \<and> valid_utf8 (ev_RequestID e) \<and> time_ok (ev_Timestamp e) \<and> utf8_actor (ev_Actor e)
     \<and> valid_utf8 (ev_Type e) \<and> details_ok (ev_Details e)"

definition event_line :: "event \<Rightarrow> string" where
  "event_line e = json_print (json_of_event e)"

lemma wf_details_member:
  "(\<And>j. d = Some j \<Longrightarrow> wf_json j) \<Longrightarrow> wf_json (JObj (details_member d))"
  by (auto simp: details_member_def plain_key_eval byte_def raw_ok_plain_key wf_html_mutual
      split: option.splits)

lemma canonical_details_member [json_simps]:
  "details_ok d \<Longrightarrow> canonical (JObj (details_member d))"
  by (auto simp: details_member_def details_ok_def canonical_def raw_ok_plain_key html_raw_plain_key
      plain_key_eval byte_def split: option.splits)

lemma dec_details_member:
  "details_ok d \<Longrightarrow> ev_Details r = None \<Longrightarrow>
   dec_members event_fields (details_member d) r = Some (r\<lparr>ev_Details := d\<rparr>)"
  by (auto simp: details_member_def details_ok_def event_fields_def codec_simps canonical_def
      split: option.splits)

lemma canonical_event: "details_ok (ev_Details e) \<Longrightarrow> canonical (json_of_event e)"
  by (simp add: json_of_event_def canon_simps json_simps)

lemma unmarshal_event_line: "event_ok e \<Longrightarrow> unmarshal_event (event_line e) = Some e"
proof -
  assume ok: "event_ok e"
  then have "wf_json (json_of_event e)"
    using canonical_event [of e] by (simp add: event_ok_def canonical_def)
  then have "json_parse (event_line e) = Some (json_of_event e)"
    by (simp add: event_line_def json_parse_print)
  moreover have "dec_struct event_fields (json_of_event e) zero_event = Some e"
    using ok dec_details_member [of "ev_Details e", unfolded event_fields_def]
    by (simp add: event_ok_def json_of_event_def event_fields_def zero_event_def codec_simps json_simps)
  ultimately show ?thesis by (simp add: unmarshal_event_def)
qed

lemma event_line_newline: "event_ok e \<Longrightarrow> newline \<notin> set (event_line e)"
  using canonical_event [of e]
  by (simp add: event_ok_def canonical_def event_line_def json_print_no_newline del: json_print.simps)

lemma event_line_last: "event_ok e \<Longrightarrow> event_line e \<noteq> [] \<and> last (event_line e) \<noteq> CHR 0x0D"
proof -
  assume ok: "event_ok e"
  obtain ms where ms: "json_of_event e = JObj ms" by (simp add: json_of_event_def)
  have "wf_json (JObj ms)"
    using ok canonical_event [of e] by (simp add: event_ok_def canonical_def ms [symmetric])
  then have "last (json_print (JObj ms)) = CHR ''}''" by (rule json_print_last)
  then show ?thesis unfolding event_line_def ms by simp
qed

interpretation ev: line_codec event_ok event_line unmarshal_event
  by unfold_locales (simp_all add: unmarshal_event_line event_line_newline event_line_last)

lemma marshal_event_ok: "event_ok e \<Longrightarrow> marshal_event e = Inr (event_line e)"
  by (simp add: marshal_event_def event_ok_def event_line_def)

end
