(* ===== verification/Json_Scan.thy ===== *)
theory Json_Scan
  imports Go_Json
begin

text \<open>
  A lexical view of JSON texts: quotes and brackets. A text that parses returns to bracket depth
  zero exactly at its end. The consequence for files of JSON lines is \<open>torn_text\<close>: if an
  interrupted write left any text starting with a brace, an object appended directly after it
  does not make the combined line parse.
\<close>

datatype lex_state = Out nat | Str nat | Esc nat | Bad

definition out_char :: "char \<Rightarrow> bool" where
  "out_char c \<longleftrightarrow> is_ws c \<or> num_char c \<or> c \<in> set ''truefalsn:,''"

fun lex :: "lex_state \<Rightarrow> char \<Rightarrow> lex_state" where
  "lex (Out d) c =
     (if d = 0 then (if is_ws c then Out 0 else Bad)
      else if c = CHR ''{'' \<or> c = CHR ''['' then Out (Suc d)
      else if c = CHR ''}'' \<or> c = CHR '']'' then Out (d - 1)
      else if c = dquote then Str d
      else if out_char c then Out d
      else Bad)"
| "lex (Str d) c = (if c = dquote then Out d else if c = bslash then Esc d else Str d)"
| "lex (Esc d) c = Str d"
| "lex Bad c = Bad"

abbreviation lexes :: "lex_state \<Rightarrow> string \<Rightarrow> lex_state" where
  "lexes \<equiv> foldl lex"

lemma lexes_Bad [simp]: "lexes Bad s = Bad"
  by (induction s) auto

lemma not_bracket:
  "out_char c \<Longrightarrow> c \<noteq> CHR ''{'' \<and> c \<noteq> CHR ''['' \<and> c \<noteq> CHR ''}'' \<and> c \<noteq> CHR '']'' \<and> c \<noteq> dquote"
  by (auto simp: out_char_def is_ws_def num_char_def is_digit_def byte_def)

lemma lexes_out: "(\<And>c. c \<in> set s \<Longrightarrow> out_char c) \<Longrightarrow> 0 < d \<Longrightarrow> lexes (Out d) s = Out d"
  by (induction s) (auto dest: not_bracket)

lemma lexes_ws: "(\<And>c. c \<in> set s \<Longrightarrow> is_ws c) \<Longrightarrow> lexes (Out d) s = Out d"
proof (cases "d = 0")
  case True
  then show "(\<And>c. c \<in> set s \<Longrightarrow> is_ws c) \<Longrightarrow> ?thesis" by (induction s) auto
qed (auto intro: lexes_out simp: out_char_def)

lemma skip_ws_split: obtains w where "s = w @ skip_ws s" "\<And>d. lexes (Out d) w = Out d"
proof
  show "s = takeWhile is_ws s @ skip_ws s" by (simp add: skip_ws_def)
  show "lexes (Out d) (takeWhile is_ws s) = Out d" for d
    by (rule lexes_ws) (auto dest: set_takeWhileD)
qed

lemma hex_val_inner: "hex_val c = Some n \<Longrightarrow> c \<noteq> dquote \<and> c \<noteq> bslash"
  by (auto simp: hex_val_def is_digit_def byte_def split: if_splits)

lemma lexes_hex4: "hex4_val s \<noteq> None \<Longrightarrow> lexes (Str d) s = Str d"
proof -
  assume "hex4_val s \<noteq> None"
  then obtain a b c e w x y z where s: "s = [a, b, c, e]"
    and h: "hex_val a = Some w" "hex_val b = Some x" "hex_val c = Some y" "hex_val e = Some z"
    by (cases s rule: hex4_val.cases) (auto split: option.splits)
  show ?thesis using h [THEN hex_val_inner] s by simp
qed

lemma lexes_raw: "raw_ok r \<Longrightarrow> lexes (Str d) r = Str d"
proof (induction r rule: raw_ok.induct)
  case (2 c s)
  show ?case
  proof (cases "c = bslash")
    case True
    with "2.prems" obtain e t where s: "s = e # t" by (auto simp: raw_ok.simps(2) split: list.splits)
    show ?thesis
    proof (cases "e = CHR ''u''")
      case u: True
      with "2.prems" True s have h: "hex4_val (take 4 t) \<noteq> None" and r: "raw_ok (drop 4 t)"
        by (simp_all add: raw_ok.simps(2))
      have "lexes (Str d) t = lexes (lexes (Str d) (take 4 t)) (drop 4 t)"
        by (metis append_take_drop_id foldl_append)
      also have "\<dots> = Str d" using lexes_hex4 [OF h] "2.IH"(1) True s u r by simp
      finally show ?thesis using True s by simp
    next
      case False
      with 2 True s show ?thesis by (simp add: raw_ok.simps(2))
    qed
  next
    case False
    with 2 show ?thesis by (simp add: raw_ok.simps(2))
  qed
qed simp

lemma lexes_str: "scan_str s = Some (k, t) \<Longrightarrow> 0 < d \<Longrightarrow>
  \<exists>p. s = p @ t \<and> lexes (Str d) p = Out d"
  using scan_str_sound [of s k t] lexes_raw [of k d] by (intro exI [of _ "k @ [dquote]"]) simp

lemma lexes_num: "scan_num s = Some (v, t) \<Longrightarrow> 0 < d \<Longrightarrow>
  \<exists>p. s = p @ t \<and> lexes (Out d) p = Out d"
  by (intro exI [of _ "takeWhile num_char s"])
     (auto simp: scan_num_def Let_def out_char_def split: if_splits intro!: lexes_out dest: set_takeWhileD)

lemma lexes_word: "scan_word w v s = Some (v', t) \<Longrightarrow> set w \<subseteq> set ''truefalsn'' \<Longrightarrow> 0 < d \<Longrightarrow>
  \<exists>p. s = p @ t \<and> lexes (Out d) p = Out d"
  by (intro exI [of _ w]) (auto simp: scan_word_def HasPrefix_iff out_char_def split: if_splits intro!: lexes_out)


text \<open>What a parser consumes leaves the bracket depth as it was.\<close>

lemma lexes_Cons_ws:
  assumes "skip_ws s = c # r" and "r = p @ t" and "lexes (lex (Out d) c) p = st"
  shows "\<exists>q. s = q @ t \<and> lexes (Out d) q = st"
proof -
  obtain w where "s = w @ skip_ws s" "lexes (Out d) w = Out d" using skip_ws_split [of s] by blast
  with assms show ?thesis by (intro exI [of _ "w @ c # p"]) auto
qed

lemma parse_lexes_mutual:
  shows "pvalue n s = Some (j, t) \<Longrightarrow> 0 < d \<Longrightarrow> \<exists>p. s = p @ t \<and> lexes (Out d) p = Out d"
    and "pelems n s = Some (xs, t) \<Longrightarrow> \<exists>p. s = p @ t \<and> lexes (Out (Suc d)) p = Out d"
    and "pmembers n s = Some (ms, t) \<Longrightarrow> \<exists>p. s = p @ t \<and> lexes (Out (Suc d)) p = Out d"
proof (induction n s and n s and n s arbitrary: j t d and xs t d and ms t d
    rule: pvalue_pelems_pmembers.induct)
  case (2 n s)
  from "2.prems" obtain c r where s: "skip_ws s = c # r" by (auto split: list.splits)
  have "\<exists>p. r = p @ t \<and> lexes (lex (Out d) c) p = Out d"
    if "c = CHR ''{'' \<or> c = CHR ''[''"
  proof -
    from that "2.prems" s obtain a u where a: "skip_ws r = a # u" by (auto split: list.splits)
    show ?thesis
    proof (cases "a = CHR ''}'' \<and> c = CHR ''{'' \<or> a = CHR '']'' \<and> c = CHR ''[''")
      case True
      with "2.prems" s a have "u = [] @ t" by auto
      with lexes_Cons_ws [OF a this, of "Suc d" "Out d"] True that "2.prems" show ?thesis by auto
    next
      case False
      obtain w where w: "r = w @ skip_ws r" "lexes (Out (Suc d)) w = Out (Suc d)"
        using skip_ws_split [of r] by blast
      have "\<exists>p. a # u = p @ t \<and> lexes (Out (Suc d)) p = Out d"
        using that
      proof
        assume c: "c = CHR ''{''"
        with "2.prems" s a False obtain ms where "pmembers n (a # u) = Some (ms, t)" by auto
        with "2.IH"(1) [OF s c a] False c show ?thesis by auto
      next
        assume c: "c = CHR ''[''"
        with "2.prems" s a False obtain xs where "pelems n (a # u) = Some (xs, t)" by auto
        with "2.IH"(2) [OF s _ c a] False c show ?thesis by auto
      qed
      then obtain p where "a # u = p @ t" "lexes (Out (Suc d)) p = Out d" by blast
      with w a that "2.prems" show ?thesis by (intro exI [of _ "w @ p"]) auto
    qed
  qed
  moreover have "\<exists>p. r = p @ t \<and> lexes (lex (Out d) c) p = Out d" if "c = dquote"
    using that "2.prems" s lexes_str [of r _ t d] by auto
  moreover have "\<exists>p. c # r = p @ t \<and> lexes (Out d) p = Out d"
    if "c \<noteq> CHR ''{''" "c \<noteq> CHR ''[''" "c \<noteq> dquote"
    using that "2.prems" s lexes_num [of "c # r" j t d] lexes_word [of _ _ "c # r" _ t d]
    by (auto split: if_splits)
  moreover obtain w where "s = w @ c # r" "lexes (Out d) w = Out d" using skip_ws_split [of s] s by metis
  ultimately show ?case
    using lexes_Cons_ws [OF s, of _ t d "Out d"] by (cases "c = CHR ''{'' \<or> c = CHR ''['' \<or> c = dquote")
      (blast, metis append.assoc foldl_append)
next
  case (4 n s)
  from "4.prems" obtain v u where v: "pvalue n s = Some (v, u)" by (auto split: option.splits)
  from "4.prems" v obtain a w where a: "skip_ws u = a # w" by (auto split: list.splits)
  from "4.IH"(1) v obtain p where p: "s = p @ u" "lexes (Out (Suc d)) p = Out (Suc d)" by blast
  have "\<exists>q. u = q @ t \<and> lexes (Out (Suc d)) q = Out d"
  proof (cases "a = CHR '']''")
    case True
    with "4.prems" v a have "w = [] @ t" by auto
    with lexes_Cons_ws [OF a this, of "Suc d" "Out d"] True show ?thesis by auto
  next
    case False
    with "4.prems" v a obtain xs' where c: "a = CHR '',''" and x: "pelems n w = Some (xs', t)"
      by (auto split: if_splits)
    from "4.IH"(2) v a c x obtain q where q: "w = q @ t" "lexes (Out (Suc d)) q = Out d" by fastforce
    with lexes_Cons_ws [OF a q(1), of "Suc d" "Out d"] c show ?thesis by (simp add: out_char_def)
  qed
  with p show ?case by (metis append.assoc foldl_append)
next
  case (6 n s)
  from "6.prems" obtain r where r: "skip_ws s = dquote # r" by (auto split: list.splits if_splits)
  from "6.prems" r obtain k u where k: "scan_str r = Some (k, u)" by (auto split: option.splits)
  from "6.prems" r k obtain w where w: "skip_ws u = CHR '':'' # w" by (auto split: list.splits if_splits)
  from "6.prems" r k w obtain v x where v: "pvalue n w = Some (v, x)" by (auto split: option.splits)
  from "6.prems" r k w v obtain a y where a: "skip_ws x = a # y" by (auto split: list.splits)
  from lexes_str [OF k, of "Suc d"] obtain p1 where p1: "r = p1 @ u" "lexes (Str (Suc d)) p1 = Out (Suc d)" by auto
  from lexes_Cons_ws [OF r p1(1), of "Suc d" "Out (Suc d)"] p1(2)
  obtain q1 where q1: "s = q1 @ u" "lexes (Out (Suc d)) q1 = Out (Suc d)" by auto
  from "6.IH"(1) [OF r _ k refl w _ v, of "Suc d"]
  obtain p2 where p2: "w = p2 @ x" "lexes (Out (Suc d)) p2 = Out (Suc d)" by auto
  from lexes_Cons_ws [OF w p2(1), of "Suc d" "Out (Suc d)"] p2(2)
  obtain q2 where q2: "u = q2 @ x" "lexes (Out (Suc d)) q2 = Out (Suc d)" by (auto simp: out_char_def)
  have "\<exists>q. x = q @ t \<and> lexes (Out (Suc d)) q = Out d"
  proof (cases "a = CHR ''}''")
    case True
    with "6.prems" r k w v a have "y = [] @ t" by auto
    with lexes_Cons_ws [OF a this, of "Suc d" "Out d"] True show ?thesis by auto
  next
    case False
    with "6.prems" r k w v a obtain ms' where c: "a = CHR '',''" and m: "pmembers n y = Some (ms', t)"
      by (auto split: if_splits)
    from "6.IH"(2) [OF r _ k refl w _ v refl a _ c m, of d]
    obtain q where q: "y = q @ t" "lexes (Out (Suc d)) q = Out d" by (auto simp: c)
    with lexes_Cons_ws [OF a q(1), of "Suc d" "Out d"] c show ?thesis by (simp add: out_char_def)
  qed
  then obtain q3 where "x = q3 @ t" "lexes (Out (Suc d)) q3 = Out d" by blast
  with q1 q2 show ?case by (intro exI [of _ "q1 @ q2 @ q3"]) simp
qed simp_all

lemma json_parse_lexes:
  assumes "json_parse s = Some j" and "0 < d"
  shows "lexes (Out d) s = Out d"
proof -
  obtain t where t: "pvalue (Suc (length s)) s = Some (j, t)" "skip_ws t = []"
    using assms(1) by (auto simp: json_parse_def simp del: pvalue.simps split: option.splits if_splits)
  obtain p where "s = p @ t" "lexes (Out d) p = Out d"
    using parse_lexes_mutual(1) [OF t(1) assms(2)] by blast
  moreover have "lexes (Out d) t = Out d"
    by (rule lexes_ws) (use t(2) in \<open>auto simp: skip_ws_def dropWhile_eq_Nil_conv\<close>)
  ultimately show ?thesis by simp
qed

lemma json_parse_object_lexes:
  assumes "json_parse (CHR ''{'' # u) = Some j"
  shows "lexes (Out 1) u = Out 0"
proof -
  let ?n = "length (CHR ''{'' # u)"
  obtain t where t: "pvalue (Suc ?n) (CHR ''{'' # u) = Some (j, t)" "skip_ws t = []"
    using assms by (auto simp: json_parse_def simp del: pvalue.simps split: option.splits if_splits)
  have "\<not> is_ws (CHR ''{'')" by (simp add: is_ws_def)
  then have s: "skip_ws (CHR ''{'' # u) = CHR ''{'' # u" by simp
  obtain a r where a: "skip_ws u = a # r" using t(1) s by (auto split: list.splits)
  have ws: "lexes (Out 0) t = Out 0"
    by (rule lexes_ws) (use t(2) in \<open>auto simp: skip_ws_def dropWhile_eq_Nil_conv\<close>)
  obtain w where w: "u = w @ a # r" "lexes (Out 1) w = Out 1" using skip_ws_split [of u] a by metis
  show ?thesis
  proof (cases "a = CHR ''}''")
    case True
    with t(1) s a have "r = t" by simp
    with True w ws show ?thesis by simp
  next
    case False
    with t(1) s a obtain ms where "pmembers ?n (a # r) = Some (ms, t)" by auto
    from parse_lexes_mutual(3) [OF this, of 0] obtain p where "a # r = p @ t" "lexes (Out 1) p = Out 0" by auto
    with w ws show ?thesis by simp
  qed
qed

lemma lexes_Out0: "lexes (Out 0) s = Out d \<Longrightarrow> d = 0 \<and> (\<forall>c \<in> set s. is_ws c)"
proof (induction s)
  case (Cons c s)
  then show ?case by (cases "is_ws c") auto
qed simp

fun inner_depth :: "lex_state \<Rightarrow> bool" where
  "inner_depth (Str d) \<longleftrightarrow> 0 < d"
| "inner_depth (Esc d) \<longleftrightarrow> 0 < d"
| "inner_depth _ \<longleftrightarrow> True"

lemma inner_depth_lexes: "inner_depth st \<Longrightarrow> inner_depth (lexes st s)"
proof (induction s arbitrary: st)
  case (Cons c s)
  have "inner_depth (lex st c)" using Cons.prems by (cases st) auto
  with Cons.IH show ?case by simp
qed simp

text \<open>
  An object text whose first member name has a character that cannot stand outside strings: after any
  text starting with a brace, no non-empty initial part of it completes a value.
\<close>

theorem torn_object:
  assumes line: "line = CHR ''{'' # dquote # a @ c # r" and "json_parse line = Some i"
    and a: "\<forall>x \<in> set a. out_char x" and c: "\<not> out_char c" "\<not> is_ws c" "c \<notin> {dquote, bslash} \<union> set ''{}[]''" and "0 < n"
  shows "json_parse ((CHR ''{'' # u) @ take n line) = None"
proof (rule ccontr)
  assume "json_parse ((CHR ''{'' # u) @ take n line) \<noteq> None"
  then obtain j where "json_parse (CHR ''{'' # u @ take n line) = Some j" by auto
  then have e: "lexes (lexes (Out 1) u) (take n line) = Out 0" by (auto dest: json_parse_object_lexes)
  obtain m where n: "n = Suc m" using assms(7) by (cases n) auto
  have bad: "lexes (Out d) (take k (a @ c # r)) \<noteq> Out 0" if "0 < d" for d k
  proof (cases "k \<le> length a")
    case True
    with a have "\<And>x. x \<in> set (take k a) \<Longrightarrow> out_char x" by (auto dest: in_set_takeD)
    from lexes_out [OF this that] True that show ?thesis by simp
  next
    case False
    then obtain k' where "take k (a @ c # r) = a @ c # take k' r" by (cases "k - length a") auto
    moreover have "lexes (Out d) a = Out d" using lexes_out [of a d] a that by simp
    ultimately show ?thesis using c that by simp
  qed
  have str: "lexes (Str d) (take n line) \<noteq> Out 0" if "0 < d" for d
    using bad [OF that] that by (cases m; cases "m - 1") (auto simp: line n)
  have esc: "lexes (Esc d) (take n line) \<noteq> Out 0" if "0 < d" for d
    using bad [OF that] that by (cases m; cases "m - 1") (auto simp: line n)
  have inner: "inner_depth (lexes (Out 1) u)" by (rule inner_depth_lexes) simp
  show False
  proof (cases "lexes (Out 1) u")
    case (Out d)
    show ?thesis
    proof (cases "d = 0")
      case True
      then show ?thesis using e Out n by (simp add: line is_ws_def)
    next
      case False
      then have "lexes (lexes (Out d) (take n line)) (drop n line) = Out d"
        using json_parse_lexes [OF assms(2), of d] by (metis append_take_drop_id foldl_append gr0I)
      with e Out False show ?thesis using lexes_Out0 by auto
    qed
  next
    case (Str d)
    with e str [of d] inner show ?thesis by simp
  next
    case (Esc d)
    with e esc [of d] inner show ?thesis by simp
  qed (use e in simp)
qed

text \<open>The same where the first member name starts with \<open>ev\<close>; and no proper initial part of such a text is a value.\<close>

theorem torn_text:
  assumes "line = CHR ''{'' # dquote # CHR ''e'' # CHR ''v'' # r" "json_parse line = Some i" "0 < n"
  shows "json_parse ((CHR ''{'' # u) @ take n line) = None"
  using torn_object [of line "''e''" "CHR ''v''" r i n u] assms
  by (simp add: out_char_def is_ws_def num_char_def is_digit_def byte_def)

theorem torn_prefix:
  assumes line: "line = CHR ''{'' # r" and "json_parse line = Some i"
    and "\<not> is_ws (last line)" and "n < length line"
  shows "json_parse (take n line) = None"
proof (rule ccontr)
  assume "json_parse (take n line) \<noteq> None"
  then obtain j where j: "json_parse (take n line) = Some j" by auto
  have "json_parse [] = None" by (simp add: json_parse_def)
  with j obtain m where n: "n = Suc m" by (cases n) auto
  with j line have "lexes (Out 1) (take m r) = Out 0" by (auto dest: json_parse_object_lexes)
  moreover have "lexes (lexes (Out 1) (take m r)) (drop m r) = Out 0"
    using json_parse_object_lexes [of r i] assms(2) line by (metis append_take_drop_id foldl_append)
  ultimately have "\<forall>c \<in> set (drop m r). is_ws c" using lexes_Out0 by metis
  moreover have "drop m r \<noteq> []" "last (drop m r) = last line" using assms(4) n line by auto
  ultimately show False using assms(3) last_in_set by metis
qed

end
