(* ===== verification/Event_Log.thy ===== *)
theory Event_Log
  imports Events Json_Scan
begin

text \<open>
  What the event log promises: \<open>Append\<close> followed by \<open>Replay\<close> gives the events back, \<open>Replay\<close>
  accepts exactly the unbroken hash chains, two accepted logs with the same last hash hold the
  same history or exhibit a collision of the hash function, and the failure modes of \<open>Append\<close>
  (torn writes, failed syncs, oversized lines) are detected at the next \<open>Replay\<close>.
\<close>

section \<open>Hash chains\<close>

fun chained :: "(string \<Rightarrow> string) \<Rightarrow> string \<Rightarrow> event list \<Rightarrow> bool" where
  "chained sha prev [] \<longleftrightarrow> True"
| "chained sha prev (e # es) \<longleftrightarrow>
     ev_PrevHash e = prev \<and> hashEvent sha e = Inr (ev_Hash e) \<and> chained sha (ev_Hash e) es"

lemma last_hash_simps [simp]:
  "last_hash [] = []" "last_hash (es @ [e]) = ev_Hash e"
  by (simp_all add: last_hash_def)

lemma last_hash_Cons: "last_hash (e # es) = (if es = [] then ev_Hash e else last_hash es)"
  by (simp add: last_hash_def)

lemma chained_append:
  "chained sha prev (es @ fs) \<longleftrightarrow>
     chained sha prev es \<and> chained sha (if es = [] then prev else last_hash es) fs"
  by (induction es arbitrary: prev) (auto simp: last_hash_Cons)

lemma chained_snoc:
  "chained sha [] (es @ [e]) \<longleftrightarrow>
     chained sha [] es \<and> ev_PrevHash e = last_hash es \<and> hashEvent sha e = Inr (ev_Hash e)"
  by (auto simp: chained_append)

lemma hashEvent_Hash [simp]: "hashEvent sha (e\<lparr>ev_Hash := h\<rparr>) = hashEvent sha e"
  by (simp add: hashEvent_def hashEnvelope_def)

lemma hashEvent_Inr:
  "hashEvent sha e = Inr h \<longleftrightarrow> time_ok (ev_Timestamp e) \<and> h = hex_encode (sha (json_print (hashEnvelope e)))"
  by (auto simp: hashEvent_def)

section \<open>Replay of encoded events\<close>

lemma replay_line_ok:
  "event_ok e \<Longrightarrow> replay_line sha (event_line e) (es, prev) =
     (if ev_PrevHash e \<noteq> prev then Inl (ErrChain (ev_EventID e) (ev_PrevHash e) prev)
      else if hashEvent sha e \<noteq> Inr (ev_Hash e) then Inl (ErrHash (ev_EventID e))
      else Inr (es @ [e], ev_Hash e))"
  using ev.enc_last [of e]
  by (auto simp: replay_line_def ev.dec_enc event_ok_def hashEvent_def)

lemma fold_replay_chained:
  "list_all event_ok es \<Longrightarrow> chained sha prev es \<Longrightarrow>
   result_fold (replay_line sha) (map event_line es) (acc, prev)
     = Inr (acc @ es, if es = [] then prev else last_hash es)"
  by (induction es arbitrary: acc prev) (auto simp: replay_line_ok last_hash_Cons)

lemma fold_replay_broken:
  "list_all event_ok es \<Longrightarrow> \<not> chained sha prev es \<Longrightarrow>
   \<exists>err. result_fold (replay_line sha) (map event_line es) (acc, prev) = Inl err"
  by (induction es arbitrary: acc prev) (auto simp: replay_line_ok)

definition short_line :: "event \<Rightarrow> bool" where
  "short_line e \<longleftrightarrow> length (event_line e) < max_line"

lemma replay_lines:
  assumes "list_all event_ok es" "list_all short_line es"
  shows "replayUnlocked sha (file_lines event_line es) = Inr fs \<longleftrightarrow> fs = es \<and> chained sha [] es"
proof -
  have "scan_lines max_line (file_lines event_line es) = (map event_line es, False)"
    using assms by (intro ev.scan_file) (simp_all add: short_line_def list_all_iff)
  with fold_replay_chained [OF assms(1), of sha "[]" "[]"] fold_replay_broken [OF assms(1), of sha "[]" "[]"]
  show ?thesis by (cases "chained sha [] es") (auto simp: replayUnlocked_def)
qed


text \<open>The abstract log: the list of events the file and the cached hash stand for.\<close>

definition log_holds :: "(string \<Rightarrow> string) \<Rightarrow> log \<Rightarrow> event list \<Rightarrow> bool" where
  "log_holds sha l es \<longleftrightarrow> lg_file l = file_lines event_line es \<and> list_all event_ok es
     \<and> chained sha [] es \<and> lg_lastHash l = last_hash es"

lemma valid_utf8_hex [simp]: "valid_utf8 (hex_encode s)"
  by (rule valid_utf8_ascii_only) (rule hex_encode_ascii)

lemma chained_last_utf8: "chained sha [] es \<Longrightarrow> valid_utf8 (last_hash es)"
  by (cases es rule: rev_cases) (auto simp: chained_snoc hashEvent_Inr)

lemma valid_utf8_digits: "list_all is_digit s \<Longrightarrow> valid_utf8 s"
  by (rule valid_utf8_ascii_only) (auto simp: list_all_iff is_digit_def)

lemma valid_utf8_string_of_int [simp]: "valid_utf8 (string_of_int i)"
  using valid_utf8_digits string_of_nat_all_digits by (simp add: string_of_int_def byte_def)

lemma valid_utf8_randomID [simp]: "valid_utf8 p \<Longrightarrow> valid_utf8 (randomID p r n)"
  by (auto simp: randomID_def byte_def intro!: valid_utf8_append split: option.splits)

text \<open>What \<open>Append\<close> needs of its arguments: decoded texts, and a clock within range.\<close>

definition append_ok :: "io \<Rightarrow> event \<Rightarrow> bool" where
  "append_ok w e \<longleftrightarrow> valid_utf8 (ev_EventID e) \<and> valid_utf8 (ev_RequestID e)
     \<and> time_ok (if ev_Timestamp e = zero_time then io_now w else ev_Timestamp e)
     \<and> utf8_actor (ev_Actor e) \<and> valid_utf8 (ev_Type e) \<and> details_ok (ev_Details e)"

definition appended :: "(string \<Rightarrow> string) \<Rightarrow> io \<Rightarrow> log \<Rightarrow> event \<Rightarrow> event" where
  "appended sha w l e = (let e = stamp w (lg_lastHash l) e in
     e\<lparr>ev_Hash := hex_encode (sha (json_print (hashEnvelope e)))\<rparr>)"

lemma appended_fields [simp]:
  "ev_RequestID (appended sha w l e) = ev_RequestID e"
  "ev_Actor (appended sha w l e) = ev_Actor e"
  "ev_Type (appended sha w l e) = ev_Type e"
  "ev_Details (appended sha w l e) = ev_Details e"
  "ev_PrevHash (appended sha w l e) = lg_lastHash l"
  by (simp_all add: appended_def stamp_def Let_def)

lemma Append_success: "Append sha w e l = (Inr e', l') \<Longrightarrow> e' = appended sha w l e"
  by (auto simp: Append_def appended_def hashEvent_def Let_def split: if_splits sum.splits fs_outcome.splits)

lemma log_holds_utf8: "log_holds sha l es \<Longrightarrow> valid_utf8 (lg_lastHash l)"
  by (auto simp: log_holds_def intro: chained_last_utf8)

lemma appended_ok:
  assumes "valid_utf8 (lg_lastHash l)" and "append_ok w e"
  shows "event_ok (appended sha w l e)"
    and "hashEvent sha (appended sha w l e) = Inr (ev_Hash (appended sha w l e))"
proof -
  from assms show ok: "event_ok (appended sha w l e)"
    by (auto simp: event_ok_def append_ok_def appended_def stamp_def Let_def byte_def)
  then show "hashEvent sha (appended sha w l e) = Inr (ev_Hash (appended sha w l e))"
    by (auto simp: hashEvent_Inr event_ok_def appended_def Let_def hashEnvelope_def)
qed

text \<open>All outcomes of \<open>Append\<close>.\<close>

lemma Append_cases:
  assumes "valid_utf8 (lg_lastHash l)" and "append_ok w e"
  shows "Append sha w e l =
    (let e' = appended sha w l e; line = event_line e' in
     case io_fs w of
       FsOk \<Rightarrow> (Inr e', l\<lparr>lg_file := lg_file l @ line @ [newline], lg_lastHash := ev_Hash e'\<rparr>)
     | FsOpenErr m \<Rightarrow> (Inl (ErrOs m), l)
     | FsWriteErr n m \<Rightarrow> (Inl (ErrOs m), l\<lparr>lg_file := lg_file l @ take n line\<rparr>)
     | FsSyncErr m \<Rightarrow> (Inl (ErrOs m), l\<lparr>lg_file := lg_file l @ line @ [newline]\<rparr>))"
proof -
  let ?e = "stamp w (lg_lastHash l) e" and ?a = "appended sha w l e"
  have h: "hashEvent sha ?e = Inr (ev_Hash ?a)"
    using appended_ok(2) [OF assms] by (simp add: appended_def Let_def)
  then have "?e\<lparr>ev_Hash := ev_Hash ?a\<rparr> = ?a" by (simp add: appended_def Let_def)
  moreover have "marshal_event ?a = Inr (event_line ?a)"
    using appended_ok(1) [OF assms] by (rule marshal_event_ok)
  ultimately show ?thesis
    using h by (simp add: Append_def Let_def split: fs_outcome.splits)
qed

lemma log_holds_Append:
  assumes "log_holds sha l es" and "append_ok w e" and "Append sha w e l = (Inr e', l')"
  shows "log_holds sha l' (es @ [e'])" and "e' = appended sha w l e"
proof -
  from Append_success [OF assms(3)] show e': "e' = appended sha w l e" .
  have "l' = l\<lparr>lg_file := lg_file l @ event_line e' @ [newline], lg_lastHash := ev_Hash e'\<rparr>"
    using assms(3) unfolding Append_cases [OF log_holds_utf8 [OF assms(1)] assms(2)]
    by (auto simp: Let_def split: fs_outcome.splits)
  moreover have "event_ok e'" "hashEvent sha e' = Inr (ev_Hash e')"
    using appended_ok [OF log_holds_utf8 [OF assms(1)] assms(2)] e' by simp_all
  ultimately show "log_holds sha l' (es @ [e'])"
    using assms(1) e' by (simp add: log_holds_def chained_snoc)
qed

section \<open>Decoded events\<close>

text \<open>An invariant of struct decoding: every field decoder keeps it.\<close>

lemma dec_members_invariant:
  assumes "dec_members fs ms r = Some r'" and "I r" and "wf_members ms"
    and "\<And>k d j r r'. (k, d) \<in> set fs \<Longrightarrow> wf_json j \<Longrightarrow> I r \<Longrightarrow> d j r = Some r' \<Longrightarrow> I r'"
  shows "I r'"
  using assms(1-3)
proof (induction ms arbitrary: r)
  case (Cons m ms)
  obtain k v where m: "m = (k, v)" by (cases m)
  have wf: "wf_json v" "wf_members ms" using Cons.prems(3) m by simp_all
  from Cons.prems(1) m obtain k' where k': "json_unquote k = Some k'"
    by (auto simp: dec_members.simps(2) split: option.splits)
  show ?case
  proof (cases "find_field fs k'")
    case None
    with Cons m k' wf show ?thesis by (simp add: dec_members.simps(2))
  next
    case (Some d)
    then obtain n where "(n, d) \<in> set fs"
      by (auto simp: find_field_def find_Some_iff dest: map_of_SomeD split: option.splits)
        (metis nth_mem surj_pair)
    moreover from Cons.prems(1) m k' Some obtain r1 where r1: "d v r = Some r1" "dec_members fs ms r1 = Some r'"
      by (auto simp: dec_members.simps(2) split: option.splits)
    ultimately have "I r1" using assms(4) wf(1) Cons.prems(2) by blast
    with Cons.IH r1(2) wf(2) show ?thesis by blast
  qed
qed simp

lemma dec_struct_invariant:
  assumes "dec_struct fs j r = Some r'" and "I r" and "wf_json j"
    and "\<And>k d j r r'. (k, d) \<in> set fs \<Longrightarrow> wf_json j \<Longrightarrow> I r \<Longrightarrow> d j r = Some r' \<Longrightarrow> I r'"
  shows "I r'"
  using assms(1-3) dec_members_invariant [OF _ _ _ assms(4)]
  by (cases j) (auto simp: dec_struct_def)

lemma dec_string_valid: "dec_string j old = Some s \<Longrightarrow> valid_utf8 old \<Longrightarrow> valid_utf8 s"
  by (cases j) (auto simp: dec_string_def dest: json_unquote_valid)

lemma dec_actor_utf8:
  "dec_struct actor_fields j a = Some a' \<Longrightarrow> utf8_actor a \<Longrightarrow> wf_json j \<Longrightarrow> utf8_actor a'"
  by (erule dec_struct_invariant)
     (auto simp: actor_fields_def dec_field_def utf8_actor_def dest!: dec_string_valid)

definition decoded_ok :: "event \<Rightarrow> bool" where
  "decoded_ok e \<longleftrightarrow> valid_utf8 (ev_EventID e) \<and> valid_utf8 (ev_PrevHash e) \<and> valid_utf8 (ev_Hash e)
     \<and> valid_utf8 (ev_RequestID e) \<and> utf8_actor (ev_Actor e) \<and> valid_utf8 (ev_Type e)
     \<and> (\<forall>j. ev_Details e = Some j \<longrightarrow> wf_json j)"

lemma unmarshal_event_decoded: "unmarshal_event line = Some e \<Longrightarrow> decoded_ok e"
proof -
  assume "unmarshal_event line = Some e"
  then obtain j where j: "json_parse line = Some j" "dec_struct event_fields j zero_event = Some e"
    by (auto simp: unmarshal_event_def split: option.splits)
  have "wf_json j" using j(1) by (rule json_parse_wf)
  from j(2) _ this show ?thesis
  proof (rule dec_struct_invariant)
    show "decoded_ok zero_event"
      by (simp add: decoded_ok_def zero_event_def zero_actor_def utf8_actor_def)
  qed (auto simp: event_fields_def dec_field_def decoded_ok_def dest!: dec_string_valid dec_actor_utf8)
qed

lemma replay_line_decoded:
  assumes "replay_line sha line (es, prev) = Inr (es', prev')"
  shows "es' = es \<and> prev' = prev
    \<or> (\<exists>e. es' = es @ [e] \<and> prev' = ev_Hash e \<and> ev_PrevHash e = prev
          \<and> hashEvent sha e = Inr (ev_Hash e) \<and> decoded_ok e)"
  using assms
  by (auto simp: replay_line_def result_bind_eq_Inr split: if_splits option.splits
      dest: unmarshal_event_decoded)

lemma fold_replay_sound:
  assumes "result_fold (replay_line sha) lines ([], []) = Inr acc"
  shows "chained sha [] (fst acc) \<and> list_all decoded_ok (fst acc) \<and> snd acc = last_hash (fst acc)"
  using assms
proof (rule result_fold_invariant)
  fix line b b'
  assume "chained sha [] (fst b) \<and> list_all decoded_ok (fst b) \<and> snd b = last_hash (fst b)"
    and "replay_line sha line b = Inr b'"
  then show "chained sha [] (fst b') \<and> list_all decoded_ok (fst b') \<and> snd b' = last_hash (fst b')"
    using replay_line_decoded [of sha line "fst b" "snd b" "fst b'" "snd b'"]
    by (cases b; cases b') (auto simp: chained_snoc)
qed simp

lemma replay_sound:
  assumes "replayUnlocked sha file = Inr es"
  shows "chained sha [] es" "list_all decoded_ok es"
  using assms fold_replay_sound [of sha]
  by (auto simp: replayUnlocked_def Let_def result_bind_eq_Inr split: prod.splits if_splits)

section \<open>Tamper evidence\<close>

lemma jstring_inject: "valid_utf8 s \<Longrightarrow> valid_utf8 t \<Longrightarrow> jstring s = jstring t \<longleftrightarrow> s = t"
  by (metis dec_string_jstring option.inject)

lemma jtime_inject: "time_ok s \<Longrightarrow> time_ok t \<Longrightarrow> jtime s = jtime t \<longleftrightarrow> s = t"
  by (metis dec_time_jtime option.inject)

lemma json_of_actor_inject:
  "utf8_actor a \<Longrightarrow> utf8_actor b \<Longrightarrow> json_of_actor a = json_of_actor b \<longleftrightarrow> a = b"
  by (metis dec_actor option.inject)

text \<open>The event as the hash sees it: its details compacted.\<close>

definition event_view :: "event \<Rightarrow> event" where
  "event_view e = e\<lparr>ev_Details := map_option html_json (ev_Details e)\<rparr>"

lemma details_member_inject: "details_member d = details_member d' \<longleftrightarrow> map_option html_json d = map_option html_json d'"
  by (auto simp: details_member_def split: option.splits)

lemma hashEnvelope_inject:
  assumes "decoded_ok e" "decoded_ok f" "time_ok (ev_Timestamp e)" "time_ok (ev_Timestamp f)"
    and "hashEnvelope e = hashEnvelope f" and "ev_Hash e = ev_Hash f"
  shows "event_view e = event_view f"
  using assms
  by (auto simp: decoded_ok_def hashEnvelope_def event_view_def omit_if_def jstring_inject jtime_inject
      json_of_actor_inject details_member_inject split: if_splits)

lemma wf_hashEnvelope: "decoded_ok e \<Longrightarrow> wf_json (hashEnvelope e)"
  using canonical_scalars canonical_jtime canonical_actor wf_details_member [of "ev_Details e"]
  by (auto simp: hashEnvelope_def decoded_ok_def omit_if_def canonical_def wf_members_iff
      plain_key_eval byte_def raw_ok_plain_key)

definition hash_payload :: "event \<Rightarrow> string" where
  "hash_payload e = json_print (hashEnvelope e)"

definition collision :: "(string \<Rightarrow> string) \<Rightarrow> event list \<Rightarrow> event list \<Rightarrow> bool" where
  "collision sha es fs \<longleftrightarrow>
     (\<exists>e \<in> set es. \<exists>f \<in> set fs. hash_payload e \<noteq> hash_payload f \<and> sha (hash_payload e) = sha (hash_payload f))"

lemma hex_encode_inject: "hex_encode s = hex_encode t \<longleftrightarrow> s = t"
proof
  assume "hex_encode s = hex_encode t"
  then show "s = t"
  proof (induction s arbitrary: t)
    case Nil
    then show ?case by (cases t) (simp_all add: hex_encode_def)
  next
    case (Cons c s)
    then obtain d u where t: "t = d # u" by (cases t) (auto simp: hex_encode_def)
    from Cons.prems t have h: "hex_digit (byte c div 16) = hex_digit (byte d div 16)"
      "hex_digit (byte c mod 16) = hex_digit (byte d mod 16)" and "hex_encode s = hex_encode u"
      by (simp_all add: hex_encode_def)
    from h have "byte c div 16 = byte d div 16" "byte c mod 16 = byte d mod 16"
      using hex_val_hex_digit by (metis byte_div16 option.inject,
        metis mod_less_divisor option.inject zero_less_numeral)
    then have "byte c = byte d" by (metis div_mult_mod_eq)
    with Cons.IH \<open>hex_encode s = hex_encode u\<close> t show ?case by simp
  qed
qed simp

lemma collision_snoc: "collision sha es fs \<Longrightarrow> collision sha (es @ [e]) (fs @ [f])"
  by (auto simp: collision_def)

lemma chains_agree:
  assumes "chained sha [] es" "chained sha [] fs" "list_all decoded_ok es" "list_all decoded_ok fs"
    and "last_hash es = last_hash fs" and len: "\<And>p. sha p \<noteq> []"
  shows "map event_view es = map event_view fs \<or> collision sha es fs"
  using assms(1-5)
proof (induction es arbitrary: fs rule: rev_induct)
  case Nil
  then show ?case
    using len by (cases fs rule: rev_cases) (auto simp: chained_snoc hashEvent_Inr hex_encode_def)
next
  case (snoc e es)
  have "hex_encode (sha p) \<noteq> []" for p
    using len [of p] length_hex_encode [of "sha p"] by (metis length_0_conv mult_is_0 zero_neq_numeral)
  then obtain f gs where fs: "fs = gs @ [f]"
    using snoc.prems by (cases fs rule: rev_cases) (auto simp: chained_snoc hashEvent_Inr)
  from snoc.prems fs have eq: "sha (hash_payload e) = sha (hash_payload f)" "ev_Hash e = ev_Hash f"
    and t: "time_ok (ev_Timestamp e)" "time_ok (ev_Timestamp f)" and d: "decoded_ok e" "decoded_ok f"
    by (auto simp: chained_snoc hashEvent_Inr hex_encode_inject hash_payload_def)
  show ?case
  proof (cases "hash_payload e = hash_payload f")
    case True
    then have "hashEnvelope e = hashEnvelope f"
      using d wf_hashEnvelope json_print_inject by (simp add: hash_payload_def)
    then have v: "event_view e = event_view f" using d t eq(2) hashEnvelope_inject by blast
    then have "ev_PrevHash e = ev_PrevHash f"
      by (metis event.ext_inject event.surjective event.update_convs(8) event_view_def)
    then have "map event_view es = map event_view gs \<or> collision sha es gs"
      using snoc.prems fs by (intro snoc.IH) (simp_all add: chained_snoc)
    with v fs collision_snoc show ?thesis by auto
  next
    case False
    with eq fs show ?thesis by (auto simp: collision_def)
  qed
qed

section \<open>Growing files\<close>

text \<open>A file that no appended text can repair: every extension of it is rejected.\<close>

definition doomed :: "(string \<Rightarrow> string) \<Rightarrow> string \<Rightarrow> bool" where
  "doomed sha f \<longleftrightarrow> (\<forall>g. \<exists>err. replayUnlocked sha (f @ g) = Inl err)"

lemma doomed_append: "doomed sha f \<Longrightarrow> doomed sha (f @ g)"
  by (simp add: doomed_def)

lemma doomed_replay: "doomed sha f \<Longrightarrow> \<exists>err. replayUnlocked sha f = Inl err"
  unfolding doomed_def by (drule spec [of _ "[]"]) simp

definition replay_from :: "(string \<Rightarrow> string) \<Rightarrow> event list \<Rightarrow> string \<Rightarrow> event list result" where
  "replay_from sha es g =
     (let (lines, too_long) = scan_lines max_line g in
      result_bind (result_fold (replay_line sha) lines (es, last_hash es))
        (\<lambda>acc. if too_long then Inl ErrTooLong else Inr (fst acc)))"

lemma not_short_split:
  assumes "\<not> list_all short_line es"
  obtains as e bs where "es = as @ e # bs" "list_all short_line as" "\<not> short_line e"
  using assms split_list_first_prop [of es "\<lambda>e. \<not> short_line e"] by (auto simp: list_all_iff)

lemma replay_lines_then:
  assumes ok: "list_all event_ok es"
  shows "doomed sha (file_lines event_line es)
    \<or> chained sha [] es \<and> list_all short_line es
      \<and> (\<forall>g. replayUnlocked sha (file_lines event_line es @ g) = replay_from sha es g)"
proof (cases "list_all short_line es")
  case True
  have scan: "scan_lines max_line (file_lines event_line es) = (map event_line es, False)"
    using ok True by (intro ev.scan_file) (simp_all add: short_line_def list_all_iff)
  show ?thesis
  proof (cases "chained sha [] es")
    case c: True
    have "result_fold (replay_line sha) (map event_line es) ([], []) = Inr (es, last_hash es)"
      using fold_replay_chained [OF ok c, of "[]"] by (auto simp: last_hash_def)
    with scan c True show ?thesis
      by (auto simp: replayUnlocked_def replay_from_def scan_lines_append [OF ev.file_boundary]
          result_fold_append Let_def split: prod.splits)
  next
    case False
    from fold_replay_broken [OF ok this, of "[]"] scan show ?thesis
      by (auto simp: doomed_def replayUnlocked_def scan_lines_append [OF ev.file_boundary]
          result_fold_append Let_def split: prod.splits)
  qed
next
  case False
  then obtain as e bs where es: "es = as @ e # bs" "list_all short_line as" "\<not> short_line e"
    by (rule not_short_split)
  have "scan_lines max_line (file_lines event_line (as @ e # bs)) = (map event_line as, True)"
    using ok es by (intro ev.scan_file_long) (simp_all add: short_line_def list_all_iff)
  then have "scan_lines max_line (file_lines event_line es @ g) = (map event_line as, True)" for g
    using scan_lines_append [OF ev.file_boundary, of max_line es g] es(1)
    by (simp only: Let_def split: prod.splits) simp
  then have "doomed sha (file_lines event_line es)"
    by (simp add: doomed_def replayUnlocked_def result_bind_def split: sum.splits)
  then show ?thesis ..
qed

lemma replay_from_extends: "replay_from sha es g = Inr es' \<Longrightarrow> \<exists>fs. es' = es @ fs"
proof -
  assume "replay_from sha es g = Inr es'"
  then obtain ls acc where "result_fold (replay_line sha) ls (es, last_hash es) = Inr acc" "es' = fst acc"
    by (auto simp: replay_from_def Let_def result_bind_eq_Inr split: prod.splits if_splits)
  moreover have "\<exists>fs. fst acc = es @ fs"
    using calculation(1)
  proof (rule result_fold_invariant)
    fix line b b'
    assume "\<exists>fs. fst b = es @ fs" "replay_line sha line b = Inr b'"
    then show "\<exists>fs. fst b' = es @ fs"
      using replay_line_decoded [of sha line "fst b" "snd b" "fst b'" "snd b'"] by auto
  qed simp
  ultimately show ?thesis by simp
qed

text \<open>What stood in the file as complete lines is the beginning of every later replay.\<close>

lemma replay_keeps_lines:
  assumes "list_all event_ok es" and "replayUnlocked sha (file_lines event_line es @ g) = Inr es'"
  shows "\<exists>fs. es' = es @ fs"
  using replay_lines_then [OF assms(1), of sha] assms(2) replay_from_extends [of sha es g es']
  unfolding doomed_def by (metis Inl_Inr_False)

lemma broken_chain_doomed: "list_all event_ok es \<Longrightarrow> \<not> chained sha [] es \<Longrightarrow> doomed sha (file_lines event_line es)"
  using replay_lines_then by blast

lemma event_line_front: "\<exists>r. event_line e = CHR ''{'' # dquote # CHR ''e'' # CHR ''v'' # r"
  by (simp add: event_line_def json_of_event_def)

lemma torn_line_rejected:
  assumes "event_ok e" and "0 < n"
  shows "unmarshal_event ((CHR ''{'' # u) @ take n (event_line e)) = None"
proof -
  obtain r where r: "event_line e = CHR ''{'' # dquote # CHR ''e'' # CHR ''v'' # r"
    using event_line_front by blast
  have "wf_json (json_of_event e)"
    using assms canonical_event [of e] by (simp add: event_ok_def canonical_def)
  then have "json_parse (event_line e) = Some (json_of_event e)"
    by (simp add: event_line_def json_parse_print)
  from torn_text [OF r this assms(2)] show ?thesis by (simp add: unmarshal_event_def)
qed

lemma torn_prefix_rejected:
  assumes "event_ok e" and "n < length (event_line e)"
  shows "unmarshal_event (take n (event_line e)) = None"
proof -
  obtain r where r: "event_line e = CHR ''{'' # r" using event_line_front by blast
  obtain ms where ms: "json_of_event e = JObj ms" by (simp add: json_of_event_def)
  have wf: "wf_json (JObj ms)"
    using assms(1) canonical_event [of e] by (simp add: event_ok_def canonical_def ms [symmetric])
  have "last (event_line e) = CHR ''}''" using json_print_last [OF wf] by (simp add: event_line_def ms)
  then have "\<not> is_ws (last (event_line e))" by (simp add: is_ws_def)
  moreover have "json_parse (event_line e) = Some (JObj ms)"
    using json_parse_print [OF wf] by (simp add: event_line_def ms)
  ultimately show ?thesis using torn_prefix [OF r _ _ assms(2)] by (simp add: unmarshal_event_def)
qed

lemma torn_line_doomed:
  assumes "list_all event_ok es" "event_ok e" and tail: "tail = CHR ''{'' # u" "newline \<notin> set tail"
  shows "doomed sha (file_lines event_line es @ tail @ event_line e @ [newline])"
proof -
  let ?l = "tail @ event_line e"
  have l: "newline \<notin> set ?l" "drop_cr ?l = ?l" "?l \<noteq> []"
    using tail ev.enc_newline [OF assms(2)] ev.enc_last [OF assms(2)] by (auto simp: drop_cr_def)
  have "event_line e \<noteq> []" using ev.enc_last [OF assms(2)] by simp
  then have "unmarshal_event ?l = None"
    using torn_line_rejected [OF assms(2), of "length (event_line e)" u] tail(1) by simp
  then have "\<exists>err. replay_from sha es (?l @ newline # g) = Inl err" for g
    using l scan_lines_line [OF l(1), of max_line g] scan_lines_long [OF l(1), of max_line g]
    by (cases "length ?l < max_line")
       (auto simp: replay_from_def replay_line_def Let_def result_bind_def split: prod.splits sum.splits)
  with replay_lines_then [OF assms(1), of sha] show ?thesis by (auto simp: doomed_def)
qed

text \<open>The last line may lack its terminator.\<close>

lemma scan_lines_last:
  "newline \<notin> set s \<Longrightarrow> s \<noteq> [] \<Longrightarrow> scan_lines limit s = (if length s < limit then ([drop_cr s], False) else ([], True))"
  by (subst scan_lines.simps) (simp add: IndexByte_None [THEN iffD2])

lemma unended_line_accepted:
  assumes "log_holds sha l es" "append_ok w e" "list_all short_line (es @ [appended sha w l e])"
  shows "replayUnlocked sha (lg_file l @ event_line (appended sha w l e)) = Inr (es @ [appended sha w l e])"
proof -
  let ?a = "appended sha w l e"
  note a = appended_ok [OF log_holds_utf8 [OF assms(1)] assms(2), of sha]
  have h: "list_all event_ok es" "chained sha [] es" "lg_file l = file_lines event_line es" "lg_lastHash l = last_hash es"
    using assms(1) by (simp_all add: log_holds_def)
  have "ev_PrevHash ?a = last_hash es" using h(4) by (simp add: appended_def stamp_def Let_def)
  with a have "replay_line sha (event_line ?a) (es, last_hash es) = Inr (es @ [?a], ev_Hash ?a)" by (simp add: replay_line_ok)
  moreover have "event_line ?a \<noteq> []" "newline \<notin> set (event_line ?a)" "drop_cr (event_line ?a) = event_line ?a"
    using ev.enc_last ev.enc_newline ev.drop_cr_enc a(1) by blast+
  ultimately have "replay_from sha es (event_line ?a) = Inr (es @ [?a])"
    using assms(3) scan_lines_last [of "event_line ?a" max_line] by (simp add: replay_from_def short_line_def)
  moreover have "\<not> doomed sha (file_lines event_line es)"
    using replay_lines [OF h(1), of sha es] assms(3) h(2) doomed_replay by fastforce
  ultimately show ?thesis using replay_lines_then [OF h(1), of sha] h(3) by simp
qed

section \<open>Length of a line\<close>

lemma length_json_quote: "length (json_quote s) \<le> 6 * length s"
proof (induction s rule: json_quote.induct)
  case (2 c s)
  have q: "length (quote_byte c) \<le> 6" by (simp add: quote_byte_def u_escape_def)
  show ?case
  proof (cases "byte c < 128 \<or> rune_size (c # s) = 0")
    case True
    with 2 q show ?thesis by (auto simp: json_quote.simps(2) u_escape_def)
  next
    case False
    let ?n = "rune_size (c # s)"
    let ?r = "take ?n (c # s)"
    have n: "?n \<le> length (c # s)" "0 < ?n" using rune_size_le [of "c # s"] False by simp_all
    have "length (json_quote (drop ?n (c # s))) \<le> 6 * length (drop ?n (c # s))"
      using "2.IH"(3) False by auto
    moreover have "length (if ?r = line_sep then u_escape 8232 else if ?r = para_sep then u_escape 8233 else ?r) \<le> 6 * ?n"
      using n by (auto simp: u_escape_def)
    ultimately show ?thesis using False n by (simp add: json_quote.simps(2) Let_def del: drop_Cons' take_Cons')
  qed
qed (simp add: json_quote.simps)

lemma length_format_time: "length (format_time t) \<le> 30"
proof -
  have "length (dropWhile P (rev (pad 9 n))) \<le> 9" for P n
    using length_dropWhile_le [of P "rev (pad 9 n)"] by simp
  then show ?thesis by (auto simp: format_time_def format_frac_def Let_def split: prod.splits)
qed

lemma length_event_line:
  "length (event_line e) \<le> 6 * (length (ev_EventID e) + length (ev_PrevHash e) + length (ev_Hash e)
     + length (ev_RequestID e) + length (actor_Kind (ev_Actor e)) + length (actor_ID (ev_Actor e))
     + length (ev_Type e))
   + (case ev_Details e of None \<Rightarrow> 0 | Some j \<Rightarrow> length (json_print (html_json j))) + 200"
  using length_json_quote [of "ev_EventID e"] length_json_quote [of "ev_PrevHash e"]
    length_json_quote [of "ev_Hash e"] length_json_quote [of "ev_RequestID e"]
    length_json_quote [of "actor_Kind (ev_Actor e)"] length_json_quote [of "actor_ID (ev_Actor e)"]
    length_json_quote [of "ev_Type e"] length_format_time [of "ev_Timestamp e"]
  by (simp add: event_line_def json_of_event_def json_of_actor_def jstring_def jtime_def omit_if_def
      details_member_def split: option.splits)

lemma length_json_quote_ge: "length s \<le> length (json_quote s)"
proof (induction s rule: json_quote.induct)
  case (2 c s)
  have q: "1 \<le> length (quote_byte c)" by (simp add: quote_byte_def u_escape_def)
  show ?case
  proof (cases "byte c < 128 \<or> rune_size (c # s) = 0")
    case True
    with 2 q show ?thesis by (auto simp: json_quote.simps(2) u_escape_def)
  next
    case False
    let ?n = "rune_size (c # s)"
    let ?r = "take ?n (c # s)"
    have n: "?n \<le> length (c # s)" using rune_size_le [of "c # s"] by simp
    then have r: "length ?r = ?n" by simp
    have six: "?n \<le> 6" if "?r = line_sep \<or> ?r = para_sep"
    proof -
      have "length line_sep = 3" "length para_sep = 3" by (simp_all add: line_sep_def para_sep_def)
      with that have "length ?r = 3" by metis
      with r show ?thesis by linarith
    qed
    have "length (drop ?n (c # s)) \<le> length (json_quote (drop ?n (c # s)))"
      using "2.IH"(3) False by auto
    moreover have "?n \<le> length (if ?r = line_sep then u_escape 8232 else if ?r = para_sep then u_escape 8233 else ?r)"
      using r six by (auto simp: u_escape_def)
    ultimately show ?thesis using False n by (simp add: json_quote.simps(2) Let_def del: drop_Cons' take_Cons')
  qed
qed simp

lemma length_event_details:
  "ev_Details e = Some j \<Longrightarrow> length (json_print (html_json j)) \<le> length (event_line e)"
  by (simp add: event_line_def json_of_event_def details_member_def omit_if_def)

section \<open>Properties of the log\<close>

text \<open>A sequence of \<open>Append\<close> calls: the events returned, in order, and the final log.\<close>

fun append_all :: "(string \<Rightarrow> string) \<Rightarrow> (io \<times> event) list \<Rightarrow> log \<Rightarrow> event list \<times> log" where
  "append_all sha [] l = ([], l)"
| "append_all sha ((w, e) # calls) l =
     (let (r, l1) = Append sha w e l; (es, l2) = append_all sha calls l1
      in ((case r of Inr e' \<Rightarrow> e' # es | Inl _ \<Rightarrow> es), l2))"

definition empty_log :: log where
  "empty_log = \<lparr>lg_file = [], lg_lastHash = []\<rparr>"

definition clean_call :: "io \<times> event \<Rightarrow> bool" where
  "clean_call c \<longleftrightarrow> append_ok (fst c) (snd c)
     \<and> (case io_fs (fst c) of FsOk \<Rightarrow> True | FsOpenErr _ \<Rightarrow> True | _ \<Rightarrow> False)"

lemma log_holds_empty [simp]: "log_holds sha empty_log []"
  by (simp add: log_holds_def empty_log_def)

lemma append_all_holds:
  "log_holds sha l es \<Longrightarrow> list_all clean_call calls \<Longrightarrow> append_all sha calls l = (fs, l') \<Longrightarrow>
   log_holds sha l' (es @ fs)"
proof (induction calls arbitrary: l es fs)
  case (Cons c calls)
  obtain w e where c: "c = (w, e)" by (cases c)
  have ok: "append_ok w e" and fs: "io_fs w = FsOk \<or> (\<exists>m. io_fs w = FsOpenErr m)"
    using Cons.prems(2) c by (auto simp: clean_call_def split: fs_outcome.splits)
  obtain r l1 where a: "Append sha w e l = (r, l1)" by (cases "Append sha w e l")
  obtain gs where g: "append_all sha calls l1 = (gs, l')"
    and f: "fs = (case r of Inr e' \<Rightarrow> e' # gs | Inl _ \<Rightarrow> gs)"
    using Cons.prems(3) c a by (auto split: prod.splits)
  show ?case
  proof (cases r)
    case (Inl err)
    then have "l1 = l" using a fs Append_cases [OF log_holds_utf8 [OF Cons.prems(1)] ok] by (auto simp: Let_def)
    with Inl f g Cons.IH Cons.prems show ?thesis by simp
  next
    case (Inr e')
    then have "log_holds sha l1 (es @ [e'])" using log_holds_Append(1) [OF Cons.prems(1) ok] a by simp
    from Cons.IH [OF this _ g] Cons.prems(2) Inr f show ?thesis by simp
  qed
qed simp

lemma log_holds_NewLog:
  assumes "log_holds sha l es" "list_all short_line es"
  shows "Replay sha (Inr (lg_file l)) = Inr es" "NewLog sha (Inr ()) (Inr (lg_file l)) = Inr l"
proof -
  show r: "Replay sha (Inr (lg_file l)) = Inr es"
    using assms replay_lines [of es sha es] by (simp add: Replay_def log_holds_def)
  with assms(1) show "NewLog sha (Inr ()) (Inr (lg_file l)) = Inr l"
    by (simp add: NewLog_def log_holds_def)
qed

text \<open>
  C12 (round trip). Start from a fresh log and issue any sequence of \<open>Append\<close> calls whose file
  operations succeed or fail at the open. Replaying the file gives exactly the events that
  \<open>Append\<close> returned, in order, and reopening the log gives the in-memory log back, cached hash
  included, as long as no line reaches the scanner limit of 2 MiB.
\<close>

theorem append_replay_roundtrip:
  assumes "list_all clean_call calls" and "append_all sha calls empty_log = (es, l)"
    and "list_all short_line es"
  shows "Replay sha (Inr (lg_file l)) = Inr es \<and> NewLog sha (Inr ()) (Inr (lg_file l)) = Inr l"
  using log_holds_NewLog [of sha l es] append_all_holds [OF log_holds_empty assms(1,2)] assms(3)
  by simp_all

text \<open>
  C8 (tamper evidence). If two files are both accepted by \<open>Replay\<close> and end in the same event
  hash, they hold the same history: every event agrees in every field, the details up to the
  compaction the hash is computed on. The only way out is a collision of the hash function on the
  hashed texts of two of these events.
\<close>

theorem replay_tamper_evident:
  assumes "\<And>p. length (sha p) = 32"
    and "Replay sha (Inr f) = Inr es" and "Replay sha (Inr f') = Inr es'"
    and "last_hash es = last_hash es'"
  shows "map event_view es = map event_view es' \<or> collision sha es es'"
proof -
  have "sha p \<noteq> []" for p using assms(1) [of p] by auto
  then show ?thesis
    using assms(2-4) replay_sound [of sha f es] replay_sound [of sha f' es']
    by (intro chains_agree) (simp_all add: Replay_def)
qed

text \<open>
  C13 (what is accepted). A file of encoded events, each below the line limit, is accepted exactly
  when it is an unbroken hash chain, and then the result is that list of events; so deleting,
  reordering, inserting or altering an event without recomputing the chain is rejected.
\<close>

theorem replay_accepts_exactly_chains:
  assumes "list_all event_ok es" and "list_all short_line es"
  shows "Replay sha (Inr (file_lines event_line es)) = Inr fs \<longleftrightarrow> fs = es \<and> chained sha [] es"
  using replay_lines [OF assms, of sha fs] by (simp add: Replay_def)

lemma event_line_no_cr: "event_ok e \<Longrightarrow> CHR 0x0D \<notin> set (event_line e)"
  using canonical_event [of e] json_print_bytes_mutual(1) [of "json_of_event e" "CHR 0x0D"]
  by (auto simp: event_ok_def canonical_def event_line_def byte_def)

text \<open>
  A log whose last line was begun and not ended, on top of complete lines. The flag says that the line does not
  decode as it stands.
\<close>

definition half_written :: "bool \<Rightarrow> (string \<Rightarrow> string) \<Rightarrow> event list \<Rightarrow> log \<Rightarrow> bool" where
  "half_written broken sha es l \<longleftrightarrow> valid_utf8 (lg_lastHash l) \<and> (doomed sha (lg_file l)
     \<or> (\<exists>u. lg_file l = file_lines event_line es @ CHR ''{'' # u \<and> newline \<notin> set u \<and> CHR 0x0D \<notin> set u
          \<and> (broken \<longrightarrow> unmarshal_event (CHR ''{'' # u) = None)))"

lemma half_written_append:
  assumes "half_written b sha es l" "list_all event_ok es" "append_ok w e" "Append sha w e l = (r, l')"
  shows "half_written b sha es l'" and "r = Inr e' \<Longrightarrow> doomed sha (lg_file l')"
proof -
  let ?a = "appended sha w l e"
  have v: "valid_utf8 (lg_lastHash l)" using assms(1) by (simp add: half_written_def)
  note a = appended_ok [OF v assms(3), of sha]
  have v': "valid_utf8 (ev_Hash ?a)" using a(2) by (auto simp: hashEvent_Inr)
  have c: "newline \<notin> set (event_line ?a)" "CHR 0x0D \<notin> set (event_line ?a)" using ev.enc_newline event_line_no_cr a(1) by blast+
  note l' = assms(4) [unfolded Append_cases [OF v assms(3)], symmetric]
  show "half_written b sha es l'" "r = Inr e' \<Longrightarrow> doomed sha (lg_file l')"
  proof (atomize (full), cases "doomed sha (lg_file l)")
    case True
    then show "half_written b sha es l' \<and> (r = Inr e' \<longrightarrow> doomed sha (lg_file l'))"
      using l' v v' doomed_append [of sha "lg_file l"] by (auto simp: half_written_def Let_def split: fs_outcome.splits)
  next
    case False
    then obtain u where u: "lg_file l = file_lines event_line es @ CHR ''{'' # u" "newline \<notin> set u" "CHR 0x0D \<notin> set u"
      "b \<longrightarrow> unmarshal_event (CHR ''{'' # u) = None" using assms(1) by (auto simp: half_written_def)
    have d: "doomed sha (lg_file l @ event_line ?a @ [newline])"
      using torn_line_doomed [OF assms(2) a(1), of "CHR ''{'' # u" u] u(1,2) by (simp add: newline_def byte_def)
    have t: "half_written b sha es (l\<lparr>lg_file := lg_file l @ take n (event_line ?a)\<rparr>)" for n
    proof (cases "n = 0")
      case True
      with assms(1) show ?thesis by simp
    next
      case n: False
      let ?u = "u @ take n (event_line ?a)"
      have "newline \<notin> set ?u" "CHR 0x0D \<notin> set ?u" using u(2,3) c by (auto dest: in_set_takeD)
      moreover have "unmarshal_event (CHR ''{'' # ?u) = None" using torn_line_rejected [OF a(1), of n u] n by simp
      ultimately show ?thesis using v u(1) unfolding half_written_def by (intro conjI disjI2 exI [of _ ?u]) simp_all
    qed
    show "half_written b sha es l' \<and> (r = Inr e' \<longrightarrow> doomed sha (lg_file l'))"
      using l' assms(1) d t v v' by (auto simp: half_written_def [of _ _ _ "_\<lparr>lg_file := _, lg_lastHash := _\<rparr>"]
          half_written_def [of _ _ _ "_\<lparr>lg_file := _ @ event_line _ @ [newline]\<rparr>"] Let_def split: fs_outcome.splits)
  qed
qed

lemma half_written_append_all:
  "half_written b sha es l \<Longrightarrow> list_all event_ok es \<Longrightarrow> list_all (\<lambda>c. append_ok (fst c) (snd c)) calls \<Longrightarrow> append_all sha calls l = (fs, l')
   \<Longrightarrow> half_written b sha es l' \<and> ((fs \<noteq> [] \<or> doomed sha (lg_file l)) \<longrightarrow> doomed sha (lg_file l'))"
proof (induction calls arbitrary: l fs)
  case (Cons c calls)
  obtain w e where c: "c = (w, e)" by (cases c)
  obtain r l1 where a: "Append sha w e l = (r, l1)" by (cases "Append sha w e l")
  obtain gs where g: "append_all sha calls l1 = (gs, l')" and f: "fs = (case r of Inr e' \<Rightarrow> e' # gs | Inl _ \<Rightarrow> gs)"
    using Cons.prems(4) c a by (auto split: prod.splits)
  have ok: "append_ok w e" using Cons.prems(3) c by simp
  have v: "valid_utf8 (lg_lastHash l)" using Cons.prems(1) by (simp add: half_written_def)
  have grows: "doomed sha (lg_file l1)" if "doomed sha (lg_file l)"
    using doomed_append [OF that] a [unfolded Append_cases [OF v ok], symmetric] that by (auto simp: Let_def split: fs_outcome.splits)
  note h = half_written_append [OF Cons.prems(1,2) ok a]
  from Cons.IH [OF h(1) Cons.prems(2) _ g] Cons.prems(3) h(2) grows f show ?case by (cases r) auto
qed simp

lemma half_written_replay:
  assumes "half_written True sha es l" "list_all event_ok es"
  shows "\<exists>err. replayUnlocked sha (lg_file l) = Inl err"
proof (cases "doomed sha (lg_file l)")
  case False
  then obtain u where u: "lg_file l = file_lines event_line es @ CHR ''{'' # u" "newline \<notin> set u" "CHR 0x0D \<notin> set u"
    "unmarshal_event (CHR ''{'' # u) = None" using assms(1) by (auto simp: half_written_def)
  have "u \<noteq> [] \<Longrightarrow> last u \<noteq> CHR 0x0D" using u(3) last_in_set by metis
  then have "drop_cr (CHR ''{'' # u) = CHR ''{'' # u" by (auto simp: drop_cr_def)
  moreover have "newline \<notin> set (CHR ''{'' # u)" using u(2) by (simp add: newline_def byte_def)
  ultimately have "\<exists>err. replay_from sha es (CHR ''{'' # u) = Inl err"
    using u(4) scan_lines_last [of "CHR ''{'' # u" max_line] by (auto simp: replay_from_def replay_line_def result_bind_def)
  with replay_lines_then [OF assms(2), of sha] doomed_append u(1) show ?thesis by (metis doomed_replay)
qed (rule doomed_replay)

text \<open>
  C29 (torn writes). Let the write of an \<open>Append\<close> fail after n > 0 bytes of its line, and let any further
  calls of \<open>Append\<close> follow, with any outcomes of their own. If the text of the line was cut, the log is
  rejected when it is next read: nothing is cut off or repaired. If one of the later calls reports success, no further text
  can make the file acceptable: the joined line never decodes. Only when the text was complete,
  its terminator alone missing, and nothing was appended since, is the file accepted, and
  then with the event whose \<open>Append\<close> had reported an error.
\<close>

theorem torn_write_detected:
  assumes "log_holds sha l es" and "append_ok w e" and "io_fs w = FsWriteErr n m" and "0 < n"
    and "Append sha w e l = (r, l1)"
    and "list_all (\<lambda>c. append_ok (fst c) (snd c)) calls" and "append_all sha calls l1 = (fs, l2)"
  shows "(n < length (event_line (appended sha w l e)) \<longrightarrow> (\<exists>err. Replay sha (Inr (lg_file l2)) = Inl err))
    \<and> (fs \<noteq> [] \<longrightarrow> (\<forall>g. \<exists>err. Replay sha (Inr (lg_file l2 @ g)) = Inl err))
    \<and> (length (event_line (appended sha w l e)) \<le> n \<and> list_all short_line (es @ [appended sha w l e])
         \<longrightarrow> Replay sha (Inr (lg_file l1)) = Inr (es @ [appended sha w l e]))"
proof (intro conjI impI allI)
  let ?a = "appended sha w l e" and ?b = "n < length (event_line (appended sha w l e))"
  note v = log_holds_utf8 [OF assms(1)]
  have l1: "l1 = l\<lparr>lg_file := lg_file l @ take n (event_line ?a)\<rparr>"
    using assms(3,5) unfolding Append_cases [OF v assms(2)] by (simp add: Let_def)
  have es: "list_all event_ok es" "lg_file l = file_lines event_line es" using assms(1) by (simp_all add: log_holds_def)
  note ok = appended_ok(1) [OF v assms(2), of sha]
  obtain u where u: "take n (event_line ?a) = CHR ''{'' # u" using event_line_front [of ?a] assms(4) by (cases n) auto
  have "newline \<notin> set (take n (event_line ?a))" "CHR 0x0D \<notin> set (take n (event_line ?a))"
    using ev.enc_newline [OF ok] event_line_no_cr [OF ok] by (auto dest: in_set_takeD)
  moreover have "?b \<longrightarrow> unmarshal_event (CHR ''{'' # u) = None" using torn_prefix_rejected [OF ok, of n] u by simp
  ultimately have "half_written ?b sha es l1"
    using v u es(2) unfolding half_written_def l1 by (intro conjI disjI2 exI [of _ u]) simp_all
  from half_written_append_all [OF this es(1) assms(6,7)]
  have h: "half_written ?b sha es l2" "fs \<noteq> [] \<Longrightarrow> doomed sha (lg_file l2)" by blast+
  show "\<exists>err. Replay sha (Inr (lg_file l2)) = Inl err" if ?b
    using half_written_replay [of sha es l2] h(1) es(1) that by (simp add: Replay_def)
  show "\<exists>err. Replay sha (Inr (lg_file l2 @ g)) = Inl err" if "fs \<noteq> []" for g
    using h(2) [OF that] by (simp add: Replay_def doomed_def)
  assume s: "length (event_line ?a) \<le> n \<and> list_all short_line (es @ [?a])"
  show "Replay sha (Inr (lg_file l1)) = Inr (es @ [?a])"
    using unended_line_accepted [OF assms(1,2)] s by (simp add: l1 Replay_def)
qed

text \<open>
  C30 (failed sync). If the sync of an \<open>Append\<close> fails, the line is in the file but the cached
  hash stays behind. The next \<open>Append\<close> reports success with a stale predecessor hash, and from
  then on \<open>Replay\<close> rejects the file with a chain mismatch at that event: the log cannot be
  reopened.
\<close>

theorem failed_sync_breaks_chain:
  assumes "log_holds sha l es" and "append_ok w e" and "io_fs w = FsSyncErr m"
    and "append_ok w' e'" and "io_fs w' = FsOk"
    and "Append sha w e l = (r, l1)" and "Append sha w' e' l1 = (r', l2)"
    and "ev_Hash (appended sha w l e) \<noteq> last_hash es"
    and "list_all short_line (es @ [appended sha w l e, appended sha w' l1 e'])"
  shows "r = Inl (ErrOs m) \<and> r' = Inr (appended sha w' l1 e')
    \<and> Replay sha (Inr (lg_file l2)) = Inl (ErrChain (ev_EventID (appended sha w' l1 e')) (last_hash es)
        (ev_Hash (appended sha w l e)))"
proof -
  let ?a = "appended sha w l e" and ?b = "appended sha w' l1 e'"
  from assms(3,6) have r: "r = Inl (ErrOs m)" and l1: "l1 = l\<lparr>lg_file := lg_file l @ event_line ?a @ [newline]\<rparr>"
    unfolding Append_cases [OF log_holds_utf8 [OF assms(1)] assms(2)] by (simp_all add: Let_def)
  have a: "event_ok ?a" "hashEvent sha ?a = Inr (ev_Hash ?a)" using appended_ok [OF log_holds_utf8 [OF assms(1)] assms(2)] .
  have eq: "?b = appended sha w' l e'" by (simp add: appended_def l1)
  then have b: "event_ok ?b" using appended_ok(1) [OF log_holds_utf8 [OF assms(1)] assms(4)] by simp
  have e: "list_all event_ok es" "chained sha [] es" "lg_lastHash l = last_hash es"
    "lg_file l = file_lines event_line es"
    using assms(1) by (simp_all add: log_holds_def)
  have p: "ev_PrevHash ?b = last_hash es" using e(3) by (simp add: l1)
  have h: "hashEvent sha (stamp w' (lg_lastHash l1) e') = Inr (ev_Hash ?b)"
    using appended_ok(2) [OF log_holds_utf8 [OF assms(1)] assms(4)] by (simp add: appended_def Let_def l1)
  then have m: "marshal_event (stamp w' (lg_lastHash l1) e'\<lparr>ev_Hash := ev_Hash ?b\<rparr>) = Inr (event_line ?b)"
    using marshal_event_ok [OF b] by (simp add: appended_def Let_def)
  from assms(5,7) h m have r': "r' = Inr ?b"
    and l2: "lg_file l2 = lg_file l1 @ event_line ?b @ [newline]"
    by (auto simp: Append_def Let_def appended_def)
  have "lg_file l2 = file_lines event_line (es @ [?a, ?b])" using l2 l1 e(4) by simp
  moreover have "scan_lines max_line (file_lines event_line (es @ [?a, ?b]))
      = (map event_line (es @ [?a, ?b]), False)"
    using e(1) a(1) b assms(9) by (intro ev.scan_file) (simp_all add: short_line_def list_all_iff)
  moreover have "result_fold (replay_line sha) (map event_line (es @ [?a])) ([], []) = Inr (es @ [?a], ev_Hash ?a)"
    using fold_replay_chained [of "es @ [?a]" sha "[]" "[]"] e a by (simp add: chained_snoc)
  then have "result_fold (replay_line sha) (map event_line (es @ [?a]) @ [event_line ?b]) ([], [])
      = Inl (ErrChain (ev_EventID ?b) (last_hash es) (ev_Hash ?a))"
    using assms(8) p by (simp only: result_fold_snoc result_bind_simps) (simp add: replay_line_ok [OF b])
  ultimately show ?thesis
    using r r' by (simp add: Replay_def replayUnlocked_def)
qed

text \<open>
  C31 (oversized line). \<open>Append\<close> has no size limit but the scanner of \<open>Replay\<close> stops at 2 MiB:
  once an event with a line of at least that length has been appended successfully, the log
  cannot be opened again, whatever is appended later.
\<close>

theorem oversized_line_blocks_replay:
  assumes "log_holds sha l es" and "append_ok w e" and "Append sha w e l = (Inr e', l')"
    and "max_line \<le> length (event_line e')"
  shows "\<exists>err. Replay sha (Inr (lg_file l' @ g)) = Inl err"
proof -
  have h: "log_holds sha l' (es @ [e'])" using log_holds_Append(1) [OF assms(1-3)] .
  then have "doomed sha (file_lines event_line (es @ [e']))"
    using replay_lines_then [of "es @ [e']" sha] assms(4) by (auto simp: log_holds_def short_line_def)
  with h show ?thesis by (simp add: doomed_def Replay_def log_holds_def)
qed

section \<open>A concrete instance\<close>

text \<open>A hash of 32 bytes, an environment and an event, used to instantiate the theorems.\<close>

definition sample_sha :: "string \<Rightarrow> string" where
  "sample_sha p = take 32 (rev p @ replicate 32 (CHR ''0''))"

definition sample_io :: "fs_outcome \<Rightarrow> io" where
  "sample_io fs = \<lparr>io_rand = Some ''abcdefgh'', io_nanos = 7, io_now = 1000, io_fs = fs\<rparr>"

definition sample_event :: "string \<Rightarrow> event" where
  "sample_event t = zero_event\<lparr>ev_RequestID := ''req_1'',
     ev_Actor := \<lparr>actor_Kind = ''broker'', actor_ID = ''d''\<rparr>, ev_Type := t\<rparr>"

lemma length_sample_sha [simp]: "length (sample_sha p) = 32"
  by (simp add: sample_sha_def)

lemma sample_append_ok [simp]: "valid_utf8 t \<Longrightarrow> append_ok (sample_io fs) (sample_event t)"
  by (simp add: append_ok_def sample_io_def sample_event_def zero_event_def utf8_actor_def
      byte_def time_ok_def details_ok_def)

lemma sample_short [simp]:
  assumes "length (lg_lastHash l) \<le> 64" "length t \<le> 100"
  shows "short_line (appended sample_sha (sample_io fs) l (sample_event t))"
  using length_event_line [of "appended sample_sha (sample_io fs) l (sample_event t)"] assms
  by (simp add: short_line_def max_line_def appended_def stamp_def sample_io_def sample_event_def
      zero_event_def randomID_def Let_def)

lemma io_fs_sample [simp]: "io_fs (sample_io fs) = fs"
  by (simp add: sample_io_def)

theorem append_replay_roundtrip_witness:
  "let calls = [(sample_io FsOk, sample_event TypeRequestExpired),
                (sample_io (FsOpenErr ''EMFILE''), sample_event TypeRequestRevoked)];
       (es, l) = append_all sample_sha calls empty_log
   in length es = 1 \<and> Replay sample_sha (Inr (lg_file l)) = Inr es
     \<and> NewLog sample_sha (Inr ()) (Inr (lg_file l)) = Inr l"
proof -
  let ?w = "sample_io FsOk" and ?e = "sample_event TypeRequestExpired"
  let ?w' = "sample_io (FsOpenErr ''EMFILE'')" and ?e' = "sample_event TypeRequestRevoked"
  let ?a = "appended sample_sha ?w empty_log ?e"
  have a: "append_ok ?w ?e" "append_ok ?w' ?e'" by (simp_all add: byte_def)
  obtain l where l: "Append sample_sha ?w ?e empty_log = (Inr ?a, l)"
    using Append_cases [OF log_holds_utf8 [OF log_holds_empty] a(1)] by (simp add: Let_def)
  have h: "log_holds sample_sha l [?a]" using log_holds_Append(1) [OF log_holds_empty a(1) l] by simp
  have all: "append_all sample_sha [(?w, ?e), (?w', ?e')] empty_log = ([?a], l)"
    using Append_cases [OF log_holds_utf8 [OF h] a(2)] l by (simp add: Let_def)
  have "short_line ?a" by (rule sample_short) (simp_all add: empty_log_def)
  then show ?thesis
    using append_replay_roundtrip [of "[(?w, ?e), (?w', ?e')]" sample_sha "[?a]" l] all a
    by (simp add: clean_call_def)
qed

lemma sample_first:
  assumes "valid_utf8 t" "length t \<le> 100"
  defines "a \<equiv> appended sample_sha (sample_io FsOk) empty_log (sample_event t)"
  shows "event_ok a" "short_line a" "chained sample_sha [] [a]" "ev_Hash a \<noteq> []"
proof -
  have ok: "append_ok (sample_io FsOk) (sample_event t)" using assms(1) by simp
  show "event_ok a" using appended_ok(1) [OF log_holds_utf8 [OF log_holds_empty] ok] by (simp add: a_def)
  show "short_line a" unfolding a_def by (rule sample_short) (simp_all add: assms(2) empty_log_def)
  show "chained sample_sha [] [a]"
    using appended_ok(2) [OF log_holds_utf8 [OF log_holds_empty] ok, of sample_sha] by (simp add: a_def) (simp add: empty_log_def)
  have "length (ev_Hash a) = 64" by (simp add: a_def appended_def Let_def)
  then show "ev_Hash a \<noteq> []" by auto
qed

theorem replay_tamper_evident_witness:
  "\<exists>a f f'. Replay sample_sha (Inr f) = Inr [a] \<and> Replay sample_sha (Inr f') = Inr [a] \<and> f \<noteq> f'
     \<and> (map event_view [a] = map event_view [a] \<or> collision sample_sha [a] [a])"
proof -
  let ?a = "appended sample_sha (sample_io FsOk) empty_log (sample_event TypeRequestCreated)"
  let ?f = "file_lines event_line [?a]"
  have v: "valid_utf8 TypeRequestCreated" "length TypeRequestCreated \<le> 100" by (simp_all add: byte_def)
  note s = sample_first [OF v]
  have r: "Replay sample_sha (Inr ?f) = Inr [?a]"
    using replay_lines [of "[?a]" sample_sha "[?a]"] s by (simp add: Replay_def)
  have "replay_from sample_sha [?a] [newline] = Inr [?a]"
    using scan_lines_line [of "[]" max_line "[]"]
    by (simp add: replay_from_def replay_line_def drop_cr_def max_line_def)
  moreover have "\<not> doomed sample_sha ?f" using doomed_replay [of sample_sha ?f] r by (auto simp: Replay_def)
  ultimately have r': "Replay sample_sha (Inr (?f @ [newline])) = Inr [?a]"
    using replay_lines_then [of "[?a]" sample_sha] s(1) by (simp add: Replay_def)
  show ?thesis
    using replay_tamper_evident [OF length_sample_sha r r'] r r' by blast
qed

theorem replay_accepts_exactly_chains_witness:
  "let a = appended sample_sha (sample_io FsOk) empty_log (sample_event TypeRequestCreated)
   in Replay sample_sha (Inr (file_lines event_line [a])) = Inr [a]
     \<and> (\<forall>fs. Replay sample_sha (Inr (file_lines event_line [a, a])) \<noteq> Inr fs)"
proof -
  let ?a = "appended sample_sha (sample_io FsOk) empty_log (sample_event TypeRequestCreated)"
  have v: "valid_utf8 TypeRequestCreated" "length TypeRequestCreated \<le> 100" by (simp_all add: byte_def)
  note s = sample_first [OF v]
  have "\<not> chained sample_sha [] [?a, ?a]" using s(3,4) by simp
  then show ?thesis
    using replay_accepts_exactly_chains [of "[?a]" sample_sha] s
      replay_accepts_exactly_chains [of "[?a, ?a]" sample_sha]
    by simp
qed

theorem torn_write_detected_witness:
  "let w = sample_io (FsWriteErr 5 ''ENOSPC''); e = sample_event TypeRequestCreated;
       l1 = snd (Append sample_sha w e empty_log);
       l2 = snd (Append sample_sha (sample_io FsOk) e l1)
   in (\<exists>err. Replay sample_sha (Inr (lg_file l1)) = Inl err) \<and> (\<exists>err. Replay sample_sha (Inr (lg_file l2 @ ''{}'')) = Inl err)"
proof -
  let ?w = "sample_io (FsWriteErr 5 ''ENOSPC'')" and ?w' = "sample_io FsOk"
  let ?e = "sample_event TypeRequestCreated" and ?l1 = "snd (Append sample_sha (sample_io (FsWriteErr 5 ''ENOSPC'')) (sample_event TypeRequestCreated) empty_log)"
  have ok: "append_ok ?w ?e" "append_ok ?w' ?e" by (simp_all add: byte_def)
  obtain r where 1: "Append sample_sha ?w ?e empty_log = (r, ?l1)" by (metis prod.collapse)
  have "lg_lastHash ?l1 = lg_lastHash empty_log"
    using Append_cases [OF log_holds_utf8 [OF log_holds_empty] ok(1), of sample_sha] by (auto simp: Let_def)
  then have "valid_utf8 (lg_lastHash ?l1)" by (simp only:) (simp add: empty_log_def)
  from Append_cases [OF this ok(2), of sample_sha] obtain e'' l2 where 2: "Append sample_sha ?w' ?e ?l1 = (Inr e'', l2)"
    by (simp add: Let_def)
  have n: "5 < length (event_line (appended sample_sha ?w empty_log ?e))"
    by (simp add: event_line_def json_of_event_def)
  have f: "io_fs ?w = FsWriteErr 5 ''ENOSPC''" "(0 :: nat) < 5" by (simp_all add: sample_io_def)
  have none: "append_all sample_sha [] ?l1 = ([], ?l1)" and one: "append_all sample_sha [(?w', ?e)] ?l1 = ([e''], l2)" using 2 by simp_all
  note t = torn_write_detected [OF log_holds_empty ok(1) f 1]
  have "\<exists>err. Replay sample_sha (Inr (lg_file ?l1)) = Inl err" using t [OF _ none] n by simp
  moreover have "\<exists>err. Replay sample_sha (Inr (lg_file l2 @ ''{}'')) = Inl err" using t [OF _ one] ok(2) by simp
  ultimately show ?thesis using 2 by (simp add: Let_def)
qed

theorem failed_sync_breaks_chain_witness:
  "let w = sample_io (FsSyncErr ''EIO''); e = sample_event TypeRequestCreated;
       l1 = snd (Append sample_sha w e empty_log);
       (r, l2) = Append sample_sha (sample_io FsOk) e l1
   in (\<exists>a. r = Inr a) \<and> (\<exists>i p q. Replay sample_sha (Inr (lg_file l2)) = Inl (ErrChain i p q))"
proof -
  let ?w = "sample_io (FsSyncErr ''EIO'')" and ?w' = "sample_io FsOk"
  let ?e = "sample_event TypeRequestCreated"
  have ok: "append_ok ?w ?e" "append_ok ?w' ?e" by (simp_all add: byte_def)
  obtain r l1 where 1: "Append sample_sha ?w ?e empty_log = (r, l1)" by fastforce
  obtain r' l2 where 2: "Append sample_sha ?w' ?e l1 = (r', l2)" by fastforce
  have "lg_lastHash l1 = []"
    using 1 Append_cases [OF log_holds_utf8 [OF log_holds_empty] ok(1), of sample_sha] by (auto simp: Let_def empty_log_def)
  then have "short_line (appended sample_sha ?w empty_log ?e)" "short_line (appended sample_sha ?w' l1 ?e)"
    by (auto intro!: sample_short simp: empty_log_def)
  moreover have "length (ev_Hash (appended sample_sha ?w empty_log ?e)) = 64"
    by (simp add: appended_def Let_def)
  then have "ev_Hash (appended sample_sha ?w empty_log ?e) \<noteq> []" by auto
  ultimately have "r' = Inr (appended sample_sha ?w' l1 ?e) \<and> (\<exists>i p q. Replay sample_sha (Inr (lg_file l2)) = Inl (ErrChain i p q))"
    using failed_sync_breaks_chain [OF log_holds_empty ok(1) _ ok(2) _ 1 2] by auto
  with 1 2 show ?thesis by (simp add: Let_def)
qed

theorem oversized_line_blocks_replay_witness:
  "\<exists>e l'. Append sample_sha (sample_io FsOk) e empty_log = (Inr (appended sample_sha (sample_io FsOk) empty_log e), l')
     \<and> (\<exists>err. Replay sample_sha (Inr (lg_file l')) = Inl err)"
proof -
  let ?w = "sample_io FsOk"
  let ?j = "jstring (replicate max_line (CHR ''x''))"
  let ?e = "sample_event TypeExecutionFailed\<lparr>ev_Details := Some ?j\<rparr>"
  let ?a = "appended sample_sha ?w empty_log ?e"
  have "append_ok ?w (sample_event TypeExecutionFailed)" by (simp add: byte_def)
  then have ok: "append_ok ?w ?e"
    by (simp add: append_ok_def details_ok_def canonical_scalars split: if_splits)
  have "html_json ?j = ?j" using canonical_scalars(1) by (simp add: canonical_def)
  then have "length (json_print ?j) \<le> length (event_line ?a)"
    using length_event_details [of ?a ?j] by simp
  moreover have "max_line \<le> length (json_print ?j)"
    using length_json_quote_ge [of "replicate max_line (CHR ''x'')"] by (simp add: jstring_def)
  ultimately have big: "max_line \<le> length (event_line ?a)" by linarith
  obtain l' where l': "Append sample_sha ?w ?e empty_log = (Inr ?a, l')"
    using Append_cases [OF log_holds_utf8 [OF log_holds_empty] ok, of sample_sha] by (simp add: Let_def)
  from oversized_line_blocks_replay [OF log_holds_empty ok l' big, of "[]"] l' show ?thesis by auto
qed

end
