(* ===== verification/Projection.thy ===== *)
theory Projection
  imports Event_Log
begin

text \<open>
  Package \<open>internal/projection\<close>: the current state of every request as a fold over the event
  history. \<open>Apply\<close> is the whole method, one branch per event type with its guard, its decoding and
  its updates. The abstract specification is the life cycle of the design document as a step
  relation on states; \<open>Apply\<close> refines it, and the facts about accepted histories (terminal states
  are final, the request never changes, every execution start is the only one and follows an
  approval) are read off it.
\<close>

section \<open>Operations\<close>

type_synonym projection = "snapshot gomap"

definition New :: projection where
  "New = []"

text \<open>The part of \<open>Apply\<close> that handles an existing request: the new snapshot or an error.\<close>

definition apply_existing :: "event \<Rightarrow> snapshot \<Rightarrow> snapshot result" where
  "apply_existing e snap =
     (let t = ev_Type e; invalid = (\<lambda>what. Inl (ErrInvalidFrom what (status_string (snap_Status snap)))) in
      if t = TypeRequestApproved then
        (if snap_Status snap \<noteq> StatusPending then invalid ''approve''
         else result_bind (unmarshal_details approval_fields (zero_actor, []) (ev_Details e)) (\<lambda>d.
           Inr (snap\<lparr>snap_Status := StatusApproved, snap_Approver := Some (fst d)\<rparr>)))
      else if t = TypeRequestDenied then
        (if snap_Status snap \<noteq> StatusPending then invalid ''deny''
         else result_bind (unmarshal_details denial_fields (zero_actor, []) (ev_Details e)) (\<lambda>d.
           Inr (snap\<lparr>snap_Status := StatusDenied, snap_Approver := Some (fst d), snap_DenyReason := snd d\<rparr>)))
      else if t = TypeRequestExpired then
        (if snap_Status snap \<noteq> StatusPending then invalid ''expire''
         else Inr (snap\<lparr>snap_Status := StatusExpired\<rparr>))
      else if t = TypeRequestRevoked then
        (if snap_Status snap \<noteq> StatusPending \<and> snap_Status snap \<noteq> StatusApproved then invalid ''revoke''
         else Inr (snap\<lparr>snap_Status := StatusRevoked\<rparr>))
      else if t = TypeExecutionStarted then
        (if snap_Status snap \<noteq> StatusApproved then invalid ''execution start''
         else Inr (snap\<lparr>snap_Status := StatusExecuting\<rparr>))
      else if t = TypeExecutionSucceeded then
        (if snap_Status snap \<noteq> StatusExecuting then invalid ''execution success''
         else result_bind (unmarshal_details finished_fields zero_result (ev_Details e)) (\<lambda>r.
           Inr (snap\<lparr>snap_Status := StatusExecuted, snap_Execution := Some r\<rparr>)))
      else if t = TypeExecutionFailed \<or> t = TypeRecoveryMarkedFailed then
        (if snap_Status snap \<noteq> StatusExecuting then invalid ''execution failure''
         else if ev_Details e \<noteq> None \<and> t = TypeExecutionFailed then
           result_bind (unmarshal_details finished_fields zero_result (ev_Details e)) (\<lambda>r.
             Inr (snap\<lparr>snap_Execution := Some r, snap_Status := StatusFailed\<rparr>))
         else Inr (snap\<lparr>snap_Status := StatusFailed\<rparr>))
      else Inl (ErrUnsupported t))"

definition created_snapshot :: "event \<Rightarrow> request \<Rightarrow> snapshot" where
  "created_snapshot e request =
     \<lparr>snap_Request = request, snap_Status = StatusPending, snap_Approver = None,
      snap_DenyReason = [], snap_Execution = None, snap_LastEventType = ev_Type e,
      snap_LastEventAt = ev_Timestamp e, snap_LastEventHash = ev_Hash e\<rparr>"

definition Apply :: "event \<Rightarrow> projection \<Rightarrow> projection result" where
  "Apply e p =
     (let id = ev_RequestID e; t = ev_Type e in
      if t = TypeRequestCreated then
        (if gget p id \<noteq> None then Inl (ErrExists id)
         else result_bind (unmarshal_details created_fields zero_request (ev_Details e)) (\<lambda>request.
           Inr (gput id (created_snapshot e request) p)))
      else case gget p id of
        None \<Rightarrow> Inl (ErrNotFound id t)
      | Some snap \<Rightarrow>
          result_bind (apply_existing e snap) (\<lambda>snap.
            Inr (gput id (snap\<lparr>snap_LastEventType := t, snap_LastEventAt := ev_Timestamp e,
                               snap_LastEventHash := ev_Hash e\<rparr>) p)))"

definition Rebuild :: "event list \<Rightarrow> projection result" where
  "Rebuild history = result_fold Apply history New"

definition Get :: "projection \<Rightarrow> string \<Rightarrow> snapshot option" where
  "Get p requestID = gget p requestID"

definition All :: "projection \<Rightarrow> snapshot list" where
  "All p = map (\<lambda>key. the (gget p key)) (gkeys p)"

section \<open>The life cycle\<close>

text \<open>The transitions the design document allows.\<close>

inductive lifecycle :: "status \<Rightarrow> status \<Rightarrow> bool" where
  approve: "lifecycle StatusPending StatusApproved"
| deny: "lifecycle StatusPending StatusDenied"
| expire: "lifecycle StatusPending StatusExpired"
| start: "lifecycle StatusApproved StatusExecuting"
| success: "lifecycle StatusExecuting StatusExecuted"
| failure: "lifecycle StatusExecuting StatusFailed"
| revoke_approved: "lifecycle StatusApproved StatusRevoked"
| revoke_pending: "lifecycle StatusPending StatusRevoked"

inductive_simps lifecycle_from [status_simps]:
  "lifecycle StatusPending t" "lifecycle StatusApproved t" "lifecycle StatusExecuting t"
  "lifecycle StatusDenied t" "lifecycle StatusExpired t" "lifecycle StatusExecuted t"
  "lifecycle StatusFailed t" "lifecycle StatusRevoked t" "lifecycle StatusRejected t" "lifecycle StatusError t"

lemma lifecycle_terminal: "Terminal s \<Longrightarrow> \<not> lifecycle s t"
  by (cases s) (simp_all add: Terminal_def status_simps)

definition status_of :: "projection \<Rightarrow> string \<Rightarrow> status option" where
  "status_of p rid = map_option snap_Status (gget p rid)"

section \<open>One event\<close>

lemma apply_existing_step:
  assumes "apply_existing e snap = Inr snap'"
  shows "lifecycle (snap_Status snap) (snap_Status snap')" and "snap_Request snap' = snap_Request snap"
    and "snap_Status snap' = StatusExecuting \<longleftrightarrow> ev_Type e = TypeExecutionStarted"
    and "snap_Status snap' = StatusApproved \<longleftrightarrow> ev_Type e = TypeRequestApproved"
  using assms
  by (auto simp: apply_existing_def Let_def result_bind_eq_Inr lifecycle.simps split: if_splits)

text \<open>The two shapes of a successful \<open>Apply\<close>.\<close>

lemma Apply_cases:
  assumes "Apply e p = Inr p'"
  obtains (created) r where "ev_Type e = TypeRequestCreated" "gget p (ev_RequestID e) = None"
      "unmarshal_details created_fields zero_request (ev_Details e) = Inr r"
      "p' = gput (ev_RequestID e) (created_snapshot e r) p"
  | (existing) snap snap' where "ev_Type e \<noteq> TypeRequestCreated" "gget p (ev_RequestID e) = Some snap"
      "lifecycle (snap_Status snap) (snap_Status snap')" "snap_Request snap' = snap_Request snap"
      "snap_Status snap' = StatusExecuting \<longleftrightarrow> ev_Type e = TypeExecutionStarted"
      "snap_Status snap' = StatusApproved \<longleftrightarrow> ev_Type e = TypeRequestApproved"
      "p' = gput (ev_RequestID e) snap' p"
proof (cases "ev_Type e = TypeRequestCreated")
  case True
  with assms show thesis
    by (auto simp: Apply_def Let_def result_bind_eq_Inr intro: created split: if_splits)
next
  case False
  with assms obtain snap snap1 where "gget p (ev_RequestID e) = Some snap"
    and 1: "apply_existing e snap = Inr snap1"
    and "p' = gput (ev_RequestID e) (snap1\<lparr>snap_LastEventType := ev_Type e,
           snap_LastEventAt := ev_Timestamp e, snap_LastEventHash := ev_Hash e\<rparr>) p"
    by (auto simp: Apply_def Let_def result_bind_eq_Inr split: option.splits)
  with False apply_existing_step [OF 1] show thesis by (intro existing) auto
qed

lemma Apply_other: "Apply e p = Inr p' \<Longrightarrow> rid \<noteq> ev_RequestID e \<Longrightarrow> gget p' rid = gget p rid"
  by (erule Apply_cases) simp_all

lemma Apply_present: "Apply e p = Inr p' \<Longrightarrow> gget p rid \<noteq> None \<Longrightarrow> gget p' rid \<noteq> None"
  by (erule Apply_cases) auto

lemma Apply_request:
  "Apply e p = Inr p' \<Longrightarrow> gget p rid = Some s \<Longrightarrow> \<exists>s'. gget p' rid = Some s' \<and> snap_Request s' = snap_Request s"
  by (erule Apply_cases) auto

lemma created_snapshot_simps [simp]:
  "snap_Request (created_snapshot e r) = r" "snap_Status (created_snapshot e r) = StatusPending"
  by (simp_all add: created_snapshot_def)

lemma Rebuild_Nil [simp]: "Rebuild [] = Inr New"
  by (simp add: Rebuild_def)

lemma Rebuild_snoc: "Rebuild (es @ [e]) = result_bind (Rebuild es) (Apply e)"
  by (simp add: Rebuild_def result_fold_snoc)

lemma gget_New [simp]: "gget New rid = None"
  by (simp add: New_def)

section \<open>Accepted histories\<close>

definition started_ids :: "event list \<Rightarrow> string list" where
  "started_ids es = map ev_RequestID (filter (\<lambda>e. ev_Type e = TypeExecutionStarted) es)"

definition approved_ids :: "event list \<Rightarrow> string list" where
  "approved_ids es = map ev_RequestID (filter (\<lambda>e. ev_Type e = TypeRequestApproved) es)"

definition creation_ids :: "event list \<Rightarrow> string list" where
  "creation_ids es = map ev_RequestID (filter (\<lambda>e. ev_Type e = TypeRequestCreated) es)"

definition launched_status :: "status \<Rightarrow> bool" where
  "launched_status s \<longleftrightarrow> s \<in> {StatusExecuting, StatusExecuted, StatusFailed}"

definition approved_status :: "status \<Rightarrow> bool" where
  "approved_status s \<longleftrightarrow> s \<in> {StatusApproved, StatusExecuting, StatusExecuted, StatusFailed}"

lemma ids_snoc [simp]:
  "started_ids (es @ [e]) = started_ids es @ (if ev_Type e = TypeExecutionStarted then [ev_RequestID e] else [])"
  "approved_ids (es @ [e]) = approved_ids es @ (if ev_Type e = TypeRequestApproved then [ev_RequestID e] else [])"
  "creation_ids (es @ [e]) = creation_ids es @ (if ev_Type e = TypeRequestCreated then [ev_RequestID e] else [])"
  "started_ids [] = []" "approved_ids [] = []" "creation_ids [] = []"
  by (simp_all add: started_ids_def approved_ids_def creation_ids_def)

lemma launched_step:
  "lifecycle s t \<Longrightarrow> launched_status t \<longleftrightarrow> launched_status s \<or> t = StatusExecuting"
  "lifecycle s t \<Longrightarrow> t = StatusExecuting \<Longrightarrow> \<not> launched_status s \<and> s = StatusApproved"
  "lifecycle s t \<Longrightarrow> approved_status t \<Longrightarrow> approved_status s \<or> t = StatusApproved"
  by (auto simp: launched_status_def approved_status_def lifecycle.simps)

lemma Rebuild_started:
  "Rebuild es = Inr p \<Longrightarrow> rid \<in> set (started_ids es) \<longleftrightarrow> (\<exists>s. status_of p rid = Some s \<and> launched_status s)"
proof (induction es arbitrary: p rule: rev_induct)
  case (snoc e es)
  then obtain q where q: "Rebuild es = Inr q" "Apply e q = Inr p" by (auto simp: Rebuild_snoc result_bind_eq_Inr)
  from q(2) show ?case
  proof (cases rule: Apply_cases)
    case (created r)
    then show ?thesis
      using snoc.IH [OF q(1)] by (auto simp: status_of_def launched_status_def)
  next
    case (existing snap snap')
    then show ?thesis
      using snoc.IH [OF q(1)] launched_step(1) [OF existing(3)] by (auto simp: status_of_def)
  qed
qed (simp add: status_of_def)

lemma Rebuild_started_distinct: "Rebuild es = Inr p \<Longrightarrow> distinct (started_ids es)"
proof (induction es arbitrary: p rule: rev_induct)
  case (snoc e es)
  then obtain q where q: "Rebuild es = Inr q" "Apply e q = Inr p" by (auto simp: Rebuild_snoc result_bind_eq_Inr)
  from q(2) show ?case
  proof (cases rule: Apply_cases)
    case (existing snap snap')
    then show ?thesis
      using snoc.IH [OF q(1)] Rebuild_started [OF q(1)] launched_step(2) [OF existing(3)]
      by (auto simp: status_of_def)
  qed (use snoc.IH [OF q(1)] in auto)
qed simp

lemma Rebuild_approved:
  "Rebuild es = Inr p \<Longrightarrow> status_of p rid = Some s \<Longrightarrow> approved_status s \<Longrightarrow> rid \<in> set (approved_ids es)"
proof (induction es arbitrary: p s rule: rev_induct)
  case (snoc e es)
  then obtain q where q: "Rebuild es = Inr q" "Apply e q = Inr p" by (auto simp: Rebuild_snoc result_bind_eq_Inr)
  from q(2) show ?case
  proof (cases rule: Apply_cases)
    case (created r)
    then show ?thesis
      using snoc.IH [OF q(1)] snoc.prems by (auto simp: status_of_def approved_status_def split: if_splits)
  next
    case (existing snap snap')
    then show ?thesis
      using snoc.IH [OF q(1)] snoc.prems launched_step(3) [OF existing(3)]
      by (auto simp: status_of_def split: if_splits)
  qed
qed (simp add: status_of_def)

lemma lifecycle_not_pending: "lifecycle s t \<Longrightarrow> t \<noteq> StatusPending" "lifecycle s StatusApproved \<Longrightarrow> s = StatusPending"
  by (auto simp: lifecycle.simps)

text \<open>The requests of the projection are the created ones, each created once; a second approval finds no pending request.\<close>

lemma Rebuild_creation_ids:
  "Rebuild es = Inr p \<Longrightarrow> distinct (creation_ids es) \<and> (gget p rid \<noteq> None \<longleftrightarrow> rid \<in> set (creation_ids es))"
proof (induction es arbitrary: p rid rule: rev_induct)
  case (snoc e es)
  then obtain q where q: "Rebuild es = Inr q" "Apply e q = Inr p" by (auto simp: Rebuild_snoc result_bind_eq_Inr)
  note ih = snoc.IH [OF q(1)]
  from q(2) show ?case
  proof (cases rule: Apply_cases)
    case (created r)
    then show ?thesis using ih [of rid] ih [of "ev_RequestID e"] by auto
  next
    case (existing s s')
    then show ?thesis using ih [of rid] ih [of "ev_RequestID e"] by auto
  qed
qed simp

lemma Rebuild_approved_once:
  "Rebuild es = Inr p \<Longrightarrow> distinct (approved_ids es) \<and> (rid \<in> set (approved_ids es) \<longrightarrow> (\<exists>s. status_of p rid = Some s \<and> s \<noteq> StatusPending))"
proof (induction es arbitrary: p rid rule: rev_induct)
  case (snoc e es)
  then obtain q where q: "Rebuild es = Inr q" "Apply e q = Inr p" by (auto simp: Rebuild_snoc result_bind_eq_Inr)
  note ih = snoc.IH [OF q(1)]
  from q(2) show ?case
  proof (cases rule: Apply_cases)
    case (created r)
    then show ?thesis using ih [of rid] by (auto simp: status_of_def)
  next
    case (existing s s')
    then show ?thesis using ih [of rid] ih [of "ev_RequestID e"] lifecycle_not_pending by (auto simp: status_of_def)
  qed
qed simp

text \<open>Every prefix of an accepted history is accepted, so each event was applied to what came before it.\<close>

lemma Rebuild_split:
  assumes "Rebuild (as @ e # bs) = Inr p"
  obtains q q' where "Rebuild as = Inr q" "Apply e q = Inr q'"
proof -
  have "Rebuild (as @ e # bs) = result_bind (Rebuild (as @ [e])) (result_fold Apply bs)"
    by (simp only: Rebuild_def result_fold_append [symmetric]) simp
  with assms obtain q' where "Rebuild (as @ [e]) = Inr q'" by (auto simp: result_bind_eq_Inr)
  then show thesis by (auto simp: Rebuild_snoc result_bind_eq_Inr intro: that)
qed

lemma Rebuild_event_in_place:
  assumes "Rebuild (as @ e # bs) = Inr p"
  shows "ev_Type e = TypeRequestCreated \<longleftrightarrow> ev_RequestID e \<notin> set (creation_ids as)"
    and "ev_Type e = TypeExecutionStarted \<Longrightarrow> ev_RequestID e \<in> set (approved_ids as)"
proof -
  obtain q q' where q: "Rebuild as = Inr q" "Apply e q = Inr q'" by (rule Rebuild_split [OF assms])
  note c = Rebuild_creation_ids [OF q(1), of "ev_RequestID e"]
  from q(2) show "ev_Type e = TypeRequestCreated \<longleftrightarrow> ev_RequestID e \<notin> set (creation_ids as)"
    by (cases rule: Apply_cases) (use c in auto)
  assume "ev_Type e = TypeExecutionStarted"
  with q(2) obtain s where s: "gget q (ev_RequestID e) = Some s" "lifecycle (snap_Status s) StatusExecuting"
    by (cases rule: Apply_cases) auto
  have "snap_Status s = StatusApproved" using launched_step(2) [OF s(2) refl] by simp
  with s(1) show "ev_RequestID e \<in> set (approved_ids as)"
    using Rebuild_approved [OF q(1), of "ev_RequestID e" StatusApproved] by (simp add: status_of_def approved_status_def)
qed

text \<open>The request of a snapshot is the one its creation event carries.\<close>

definition created_request :: "event list \<Rightarrow> string \<Rightarrow> request option" where
  "created_request es rid =
     (case find (\<lambda>e. ev_Type e = TypeRequestCreated \<and> ev_RequestID e = rid) es of
        None \<Rightarrow> None
      | Some e \<Rightarrow> (case unmarshal_details created_fields zero_request (ev_Details e) of
            Inl _ \<Rightarrow> None | Inr r \<Rightarrow> Some r))"

lemma find_append: "find P (xs @ ys) = (case find P xs of None \<Rightarrow> find P ys | Some x \<Rightarrow> Some x)"
  by (induction xs) auto

lemma Rebuild_created:
  "Rebuild es = Inr p \<Longrightarrow> map_option snap_Request (gget p rid) = created_request es rid
     \<and> (gget p rid = None \<longleftrightarrow> find (\<lambda>e. ev_Type e = TypeRequestCreated \<and> ev_RequestID e = rid) es = None)"
proof (induction es arbitrary: p rule: rev_induct)
  case (snoc e es)
  then obtain q where q: "Rebuild es = Inr q" "Apply e q = Inr p" by (auto simp: Rebuild_snoc result_bind_eq_Inr)
  from q(2) show ?case
  proof (cases rule: Apply_cases)
    case (created r)
    then show ?thesis
      using snoc.IH [OF q(1)] by (auto simp: created_request_def find_append split: option.splits)
  next
    case (existing snap snap')
    then show ?thesis
      using snoc.IH [OF q(1)] by (auto simp: created_request_def find_append split: option.splits)
  qed
qed (simp add: created_request_def)

section \<open>Properties of the projection\<close>

text \<open>
  C14 (refinement of the life cycle). A successful \<open>Apply\<close> either creates a request that did not
  exist, in state pending, or moves the event's request along one transition of the life cycle,
  keeping its request record; every other request keeps its whole snapshot. An event that is not
  a creation and names an unknown request, and a second creation, are errors.
\<close>

theorem Apply_refines_lifecycle:
  "case Apply e p of
     Inl _ \<Rightarrow> True
   | Inr p' \<Rightarrow>
      (\<forall>rid. rid = ev_RequestID e \<or> Get p' rid = Get p rid)
      \<and> (case Get p (ev_RequestID e) of
           None \<Rightarrow> ev_Type e = TypeRequestCreated
             \<and> (\<exists>snap. Get p' (ev_RequestID e) = Some snap \<and> snap_Status snap = StatusPending)
         | Some snap \<Rightarrow> ev_Type e \<noteq> TypeRequestCreated
             \<and> (\<exists>snap'. Get p' (ev_RequestID e) = Some snap' \<and> snap_Request snap' = snap_Request snap
                  \<and> lifecycle (snap_Status snap) (snap_Status snap')))"
proof (cases "Apply e p")
  case (Inr p')
  then show ?thesis by (cases rule: Apply_cases [OF Inr]) (simp_all add: Get_def)
qed simp

text \<open>
  Completeness of \<open>Apply\<close>. Every transition of the life cycle is taken by some event type:
  for a request in the source state, the event of that type with well-formed details is accepted
  and leads to the target state. No state is stuck that the design lets move.
\<close>

definition event_for :: "status \<Rightarrow> status \<Rightarrow> string \<times> details option" where
  "event_for s t = (case t of
     StatusApproved \<Rightarrow> (TypeRequestApproved, Some (ApprovalDetails zero_actor []))
   | StatusDenied \<Rightarrow> (TypeRequestDenied, Some (DenialDetails zero_actor []))
   | StatusExpired \<Rightarrow> (TypeRequestExpired, None)
   | StatusRevoked \<Rightarrow> (TypeRequestRevoked, None)
   | StatusExecuting \<Rightarrow> (TypeExecutionStarted, None)
   | StatusExecuted \<Rightarrow> (TypeExecutionSucceeded, Some (ExecutionFinishedDetails zero_result))
   | _ \<Rightarrow> (TypeExecutionFailed, None))"

lemma zero_details_ok:
  "unmarshal_details approval_fields (zero_actor, []) (Some (json_of_details (ApprovalDetails zero_actor [])))
     = Inr (zero_actor, [])"
  "unmarshal_details denial_fields (zero_actor, []) (Some (json_of_details (DenialDetails zero_actor [])))
     = Inr (zero_actor, [])"
  "unmarshal_details finished_fields zero_result (Some (json_of_details (ExecutionFinishedDetails zero_result)))
     = Inr zero_result"
  by (subst unmarshal_approval unmarshal_denial unmarshal_finished;
      simp add: utf8_actor_def zero_actor_def utf8_result_def times_result_def zero_result_def
        time_ok_def zero_time_def)+

theorem Apply_covers_lifecycle:
  assumes "lifecycle s t" and "status_of p rid = Some s"
  shows "\<exists>p'. Apply (zero_event\<lparr>ev_RequestID := rid, ev_Type := fst (event_for s t),
                ev_Details := map_option json_of_details (snd (event_for s t))\<rparr>) p = Inr p'
              \<and> status_of p' rid = Some t"
proof -
  obtain snap where snap: "gget p rid = Some snap" "snap_Status snap = s"
    using assms(2) by (auto simp: status_of_def)
  from assms(1) show ?thesis
    by cases (use snap in \<open>simp_all add: Apply_def apply_existing_def event_for_def zero_details_ok
        status_of_def del: json_of_details.simps\<close>)
qed

text \<open>
  Terminal states are final. Once an accepted history has brought a request into a terminal
  state, every accepted extension of the history leaves that request's snapshot exactly as it is.
\<close>

lemma fold_terminal:
  "result_fold Apply fs p = Inr q \<Longrightarrow> gget p rid = Some snap \<Longrightarrow> Terminal (snap_Status snap) \<Longrightarrow>
   gget q rid = Some snap"
proof (induction fs arbitrary: p)
  case (Cons e fs)
  then obtain p1 where p1: "Apply e p = Inr p1" "result_fold Apply fs p1 = Inr q"
    by (auto simp: result_bind_eq_Inr)
  from p1(1) have "gget p1 rid = Some snap"
  proof (cases rule: Apply_cases)
    case (created r)
    then show ?thesis using Cons.prems(2) by auto
  next
    case (existing s s')
    then show ?thesis using Cons.prems(2,3) lifecycle_terminal by auto
  qed
  with Cons.IH p1(2) Cons.prems(3) show ?case by blast
qed simp

theorem terminal_states_are_final:
  assumes "Rebuild es = Inr p" and "Get p rid = Some snap" and "Terminal (snap_Status snap)"
    and "Rebuild (es @ fs) = Inr q"
  shows "Get q rid = Some snap"
  using assms fold_terminal [of fs p q rid snap]
  by (simp add: Rebuild_def result_fold_append Get_def)

text \<open>
  C23 (what an accepted history guarantees). In every history \<open>Rebuild\<close> accepts, no request
  is created, approved or started twice. Wherever an event stands in the history, it is a creation exactly
  if no creation of its request stands before it, and if it is an execution start, an approval of
  its request stands before it. The requests of the projection are the created ones, and
  the request a snapshot shows is the one its creation event recorded.
\<close>

theorem accepted_history:
  assumes "Rebuild es = Inr p"
  shows "distinct (creation_ids es) \<and> distinct (approved_ids es) \<and> distinct (started_ids es)
    \<and> (\<forall>as e bs. es = as @ e # bs \<longrightarrow>
         (ev_Type e = TypeRequestCreated \<longleftrightarrow> ev_RequestID e \<notin> set (creation_ids as))
         \<and> (ev_Type e = TypeExecutionStarted \<longrightarrow> ev_RequestID e \<in> set (approved_ids as)))
    \<and> (\<forall>rid. Get p rid \<noteq> None \<longleftrightarrow> rid \<in> set (creation_ids es))
    \<and> (\<forall>rid. map_option snap_Request (Get p rid) = created_request es rid)"
proof (intro conjI allI impI)
  show "distinct (creation_ids es)" "distinct (approved_ids es)" "distinct (started_ids es)"
    using Rebuild_creation_ids [OF assms] Rebuild_approved_once [OF assms] Rebuild_started_distinct [OF assms] by blast+
  show "Get p rid \<noteq> None \<longleftrightarrow> rid \<in> set (creation_ids es)" for rid
    using Rebuild_creation_ids [OF assms] by (simp add: Get_def)
  show "map_option snap_Request (Get p rid) = created_request es rid" for rid
    using Rebuild_created [OF assms] by (simp add: Get_def)
  fix as e bs
  assume "es = as @ e # bs"
  note p = Rebuild_event_in_place [OF assms [unfolded this]]
  show "ev_Type e = TypeRequestCreated \<longleftrightarrow> ev_RequestID e \<notin> set (creation_ids as)" by (rule p(1))
  show "ev_Type e = TypeExecutionStarted \<Longrightarrow> ev_RequestID e \<in> set (approved_ids as)" by (rule p(2))
qed

text \<open>How many events a request in a given state may have behind it.\<close>

fun events_spent :: "status \<Rightarrow> nat" where
  "events_spent StatusPending = 1"
| "events_spent StatusApproved = 2"
| "events_spent StatusExecuting = 3"
| "events_spent _ = 4"

lemma lifecycle_spends: "lifecycle s t \<Longrightarrow> events_spent s < events_spent t"
  by (auto simp: lifecycle.simps)

lemma events_spent_le: "events_spent s \<le> 4"
  by (cases s) simp_all

lemma Rebuild_events_spent:
  "Rebuild es = Inr p \<Longrightarrow> length (filter (\<lambda>e. ev_RequestID e = rid) es)
     \<le> (case status_of p rid of None \<Rightarrow> 0 | Some s \<Rightarrow> events_spent s)"
proof (induction es arbitrary: p rule: rev_induct)
  case (snoc e es)
  then obtain q where q: "Rebuild es = Inr q" "Apply e q = Inr p" by (auto simp: Rebuild_snoc result_bind_eq_Inr)
  note ih = snoc.IH [OF q(1)]
  show ?case
  proof (cases "ev_RequestID e = rid")
    case False
    then show ?thesis using ih Apply_other [OF q(2), of rid] by (simp add: status_of_def)
  next
    case True
    from q(2) show ?thesis
    proof (cases rule: Apply_cases)
      case (created r)
      then show ?thesis using ih True by (simp add: status_of_def)
    next
      case (existing snap snap')
      then show ?thesis using ih True lifecycle_spends [OF existing(3)] by (simp add: status_of_def)
    qed
  qed
qed simp

text \<open>
  Histories are short. In an accepted history no request has more than four events, and a
  request that is not in the projection has none: the log grows by at most four events per
  submission.
\<close>

theorem at_most_four_events:
  assumes "Rebuild es = Inr p"
  shows "length (filter (\<lambda>e. ev_RequestID e = rid) es) \<le> (if Get p rid = None then 0 else 4)"
  using Rebuild_events_spent [OF assms, of rid] events_spent_le
  by (auto simp: Get_def status_of_def split: option.splits intro: order_trans)

section \<open>Well-typed snapshots\<close>

text \<open>
  Which optional fields of a snapshot are set in which state: an approver exactly after a verdict, a
  result only after an execution, a reason only after a denial. The states \<open>rejected\<close> and \<open>error\<close> are
  answers on the wire and never states of a request.
\<close>

fun snapshot_typed :: "status \<Rightarrow> actor option \<Rightarrow> string \<Rightarrow> execution_result option \<Rightarrow> bool" where
  "snapshot_typed StatusPending a reason r \<longleftrightarrow> a = None \<and> reason = [] \<and> r = None"
| "snapshot_typed StatusApproved a reason r \<longleftrightarrow> a \<noteq> None \<and> reason = [] \<and> r = None"
| "snapshot_typed StatusExecuting a reason r \<longleftrightarrow> a \<noteq> None \<and> reason = [] \<and> r = None"
| "snapshot_typed StatusExecuted a reason r \<longleftrightarrow> a \<noteq> None \<and> reason = [] \<and> r \<noteq> None"
| "snapshot_typed StatusFailed a reason r \<longleftrightarrow> a \<noteq> None \<and> reason = []"
| "snapshot_typed StatusDenied a reason r \<longleftrightarrow> a \<noteq> None \<and> r = None"
| "snapshot_typed StatusExpired a reason r \<longleftrightarrow> a = None \<and> reason = [] \<and> r = None"
| "snapshot_typed StatusRevoked a reason r \<longleftrightarrow> reason = [] \<and> r = None"
| "snapshot_typed StatusRejected a reason r \<longleftrightarrow> False"
| "snapshot_typed StatusError a reason r \<longleftrightarrow> False"

definition wf_snapshot :: "snapshot \<Rightarrow> bool" where
  "wf_snapshot s \<longleftrightarrow> snapshot_typed (snap_Status s) (snap_Approver s) (snap_DenyReason s) (snap_Execution s)"

lemma apply_existing_typed:
  "apply_existing e snap = Inr snap' \<Longrightarrow> wf_snapshot snap \<Longrightarrow> wf_snapshot snap'"
  by (auto simp: apply_existing_def Let_def result_bind_eq_Inr wf_snapshot_def split: if_splits)

lemma wf_snapshot_stamp [simp]:
  "wf_snapshot (s\<lparr>snap_LastEventType := t, snap_LastEventAt := at, snap_LastEventHash := h\<rparr>) = wf_snapshot s"
  by (simp add: wf_snapshot_def)

lemma Apply_typed:
  assumes "Apply e p = Inr p'" and "\<And>rid s. gget p rid = Some s \<Longrightarrow> wf_snapshot s" and "gget p' rid = Some s"
  shows "wf_snapshot s"
proof (cases "ev_Type e = TypeRequestCreated")
  case True
  with assms show ?thesis
    by (auto simp: Apply_def Let_def result_bind_eq_Inr created_snapshot_def wf_snapshot_def split: if_splits)
next
  case False
  with assms(1) obtain snap snap' where e: "gget p (ev_RequestID e) = Some snap" "apply_existing e snap = Inr snap'"
    "p' = gput (ev_RequestID e) (snap'\<lparr>snap_LastEventType := ev_Type e, snap_LastEventAt := ev_Timestamp e,
       snap_LastEventHash := ev_Hash e\<rparr>) p"
    by (auto simp: Apply_def Let_def result_bind_eq_Inr split: option.splits)
  have "wf_snapshot snap'" using apply_existing_typed [OF e(2) assms(2) [OF e(1)]] .
  with assms(3) show ?thesis unfolding e(3) by (auto split: if_splits intro: assms(2))
qed

text \<open>
  C18 (snapshots are well-typed). In the projection of every accepted history the optional fields of
  a snapshot agree with its state: in particular an executed request has both an approver and a
  result, a pending one neither, and no request is in one of the states that are only answers.
\<close>

theorem snapshots_well_typed:
  assumes "Rebuild es = Inr p" and "Get p rid = Some s"
  shows "wf_snapshot s"
proof -
  have "\<forall>rid s. gget p rid = Some s \<longrightarrow> wf_snapshot s"
    using assms(1) unfolding Rebuild_def
    by (rule result_fold_invariant) (simp, metis Apply_typed)
  with assms(2) show ?thesis by (simp add: Get_def)
qed

lemma length_All: "length (All p) = length (gkeys p)"
  by (simp add: All_def)

lemma set_All: "set (All p) = {snap. \<exists>rid. gget p rid = Some snap}"
proof -
  have "x \<in> set (gkeys p) \<longleftrightarrow> (\<exists>s. gget p x = Some s)" for x using gm.keys_iff [of x p] by auto
  then show ?thesis by (force simp: All_def image_iff)
qed

section \<open>Concrete histories\<close>

definition sample_step :: "string \<Rightarrow> details option \<Rightarrow> event" where
  "sample_step t d = zero_event\<lparr>ev_RequestID := ''req_1'', ev_Type := t, ev_Details := map_option json_of_details d\<rparr>"

lemma zero_request_ok: "utf8_request zero_request" "times_request zero_request"
  by (simp_all add: utf8_request_def zero_request_def zero_peer_def utf8_spec_def zero_spec_def
      key_ordered_def utf8_map_def utf8_summary_def zero_summary_def times_request_def time_ok_def zero_time_def)

definition sample_history :: "event list" where
  "sample_history =
     [sample_step TypeRequestCreated (Some (RequestCreatedDetails zero_request)),
      sample_step TypeRequestApproved (Some (ApprovalDetails zero_actor [])),
      sample_step TypeExecutionStarted None,
      sample_step TypeExecutionFailed None]"

lemmas sample_step_simps = sample_step_def Apply_def apply_existing_def zero_details_ok
  unmarshal_created [OF zero_request_ok] Get_def Let_def

lemma Rebuild_sample: "\<exists>p snap. Rebuild sample_history = Inr p \<and> Get p ''req_1'' = Some snap \<and> snap_Status snap = StatusFailed"
  by (simp add: sample_history_def Rebuild_def sample_step_simps del: json_of_details.simps)

theorem Apply_covers_lifecycle_witness:
  "let p = [(''req_1'', created_snapshot zero_event zero_request)] in
   \<exists>p'. Apply (zero_event\<lparr>ev_RequestID := ''req_1'', ev_Type := TypeRequestApproved,
            ev_Details := Some (json_of_details (ApprovalDetails zero_actor []))\<rparr>) p = Inr p'
        \<and> status_of p' ''req_1'' = Some StatusApproved"
  using Apply_covers_lifecycle [OF lifecycle.approve, of "[(''req_1'', created_snapshot zero_event zero_request)]" "''req_1''"]
  by (simp add: status_of_def gget_def event_for_def del: json_of_details.simps)

theorem terminal_states_are_final_witness:
  "\<exists>p q snap. Rebuild sample_history = Inr p \<and> Get p ''req_1'' = Some snap \<and> snap_Status snap = StatusFailed
     \<and> Rebuild (sample_history
         @ [sample_step TypeRequestCreated (Some (RequestCreatedDetails zero_request))\<lparr>ev_RequestID := ''req_2''\<rparr>]) = Inr q
     \<and> Get q ''req_1'' = Some snap"
proof -
  let ?e = "sample_step TypeRequestCreated (Some (RequestCreatedDetails zero_request))\<lparr>ev_RequestID := ''req_2''\<rparr>"
  obtain p snap where p: "Rebuild sample_history = Inr p" "Get p ''req_1'' = Some snap" "snap_Status snap = StatusFailed"
    using Rebuild_sample by blast
  have "\<exists>q. Rebuild (sample_history @ [?e]) = Inr q"
    by (simp add: sample_history_def Rebuild_def sample_step_simps del: json_of_details.simps)
  then obtain q where q: "Rebuild (sample_history @ [?e]) = Inr q" by blast
  from terminal_states_are_final [OF p(1,2) _ q] p q show ?thesis by (auto simp: Terminal_def)
qed

theorem accepted_history_witness:
  "distinct (creation_ids sample_history) \<and> distinct (started_ids sample_history)
   \<and> creation_ids sample_history = [''req_1''] \<and> started_ids sample_history = [''req_1'']
   \<and> (\<exists>as e bs. sample_history = as @ e # bs \<and> ev_Type e = TypeExecutionStarted \<and> ev_RequestID e \<in> set (approved_ids as))"
proof -
  obtain p where p: "Rebuild sample_history = Inr p" using Rebuild_sample by blast
  have ids: "started_ids sample_history = [''req_1'']" "creation_ids sample_history = [''req_1'']"
    by (simp_all add: sample_history_def started_ids_def creation_ids_def sample_step_def)
  have "\<exists>e \<in> set sample_history. ev_Type e = TypeExecutionStarted" by (simp add: sample_history_def sample_step_def)
  then obtain as e bs where e: "sample_history = as @ e # bs" "ev_Type e = TypeExecutionStarted" by (meson split_list)
  with accepted_history [OF p] ids show ?thesis by blast
qed

theorem at_most_four_events_witness:
  "length (filter (\<lambda>e. ev_RequestID e = ''req_1'') sample_history) \<le> 4
   \<and> length (filter (\<lambda>e. ev_RequestID e = ''req_1'') sample_history) = length sample_history"
proof -
  obtain p snap where "Rebuild sample_history = Inr p" "Get p ''req_1'' = Some snap" using Rebuild_sample by blast
  with at_most_four_events [of sample_history p "''req_1''"] show ?thesis by (simp add: sample_history_def sample_step_def)
qed

theorem snapshots_well_typed_witness:
  "\<exists>p snap. Rebuild sample_history = Inr p \<and> Get p ''req_1'' = Some snap \<and> wf_snapshot snap
     \<and> snap_Status snap = StatusFailed \<and> snap_Approver snap \<noteq> None"
proof -
  obtain p snap where p: "Rebuild sample_history = Inr p" "Get p ''req_1'' = Some snap" "snap_Status snap = StatusFailed"
    using Rebuild_sample by blast
  from snapshots_well_typed [OF p(1,2)] p show ?thesis by (auto simp: wf_snapshot_def)
qed

end
