(* ===== verification/Protocol.thy ===== *)
theory Protocol
  imports Core
begin

text \<open>
  Package \<open>internal/protocol\<close>: the messages of the two sockets with their JSON encodings, and the
  response made from a snapshot. A message is one JSON value on the connection: \<open>Encode\<close> is
  \<open>json.Encoder.Encode\<close> (the value and a newline), \<open>Decode\<close> is \<open>json.Decoder.Decode\<close> (the first
  value of the stream; what follows it is not looked at).
\<close>

section \<open>Messages\<close>

abbreviation (input) ActionRequestSubmit :: string where "ActionRequestSubmit \<equiv> ''request.submit''"
abbreviation (input) ActionRequestStatus :: string where "ActionRequestStatus \<equiv> ''request.status''"
abbreviation (input) ActionRequestExecute :: string where "ActionRequestExecute \<equiv> ''request.execute''"
abbreviation (input) ActionReviewApprove :: string where "ActionReviewApprove \<equiv> ''review.approve''"
abbreviation (input) ActionReviewDeny :: string where "ActionReviewDeny \<equiv> ''review.deny''"

record wire_request =
  wr_Action :: string
  wr_Argv :: "string list"
  wr_Reason :: string
  wr_Mode :: string
  wr_RequestID :: string
  wr_Approver :: actor
  wr_ApprovalCode :: string
  wr_Cwd :: string

record response =
  rs_RequestID :: string
  rs_Status :: string
  rs_Message :: string
  rs_Summary :: "approval_summary option"
  rs_ExitCode :: "int option"
  rs_Stdout :: string
  rs_Stderr :: string
  rs_Digest :: string

definition zero_response :: response where
  "zero_response = \<lparr>rs_RequestID = [], rs_Status = [], rs_Message = [], rs_Summary = None,
     rs_ExitCode = None, rs_Stdout = [], rs_Stderr = [], rs_Digest = []\<rparr>"

definition FromSnapshot :: "snapshot \<Rightarrow> string \<Rightarrow> response" where
  "FromSnapshot snap message =
     (let resp = zero_response\<lparr>rs_RequestID := req_ID (snap_Request snap),
            rs_Status := status_string (snap_Status snap), rs_Message := message,
            rs_Summary := Some (req_Summary (snap_Request snap)),
            rs_Digest := req_Digest (snap_Request snap)\<rparr>
      in case snap_Execution snap of
           None \<Rightarrow> resp
         | Some x \<Rightarrow> resp\<lparr>rs_ExitCode := Some (res_ExitCode x), rs_Stdout := res_Stdout x,
                          rs_Stderr := res_Stderr x\<rparr>)"

section \<open>Encodings\<close>

definition json_of_wire_request :: "wire_request \<Rightarrow> json" where
  "json_of_wire_request r = JObj
     ((''action'', jstring (wr_Action r))
      # omit_if (wr_Argv r = []) ''argv'' (jstrings (wr_Argv r))
      @ omit_if (wr_Reason r = []) ''reason'' (jstring (wr_Reason r))
      @ omit_if (wr_Mode r = []) ''mode'' (jstring (wr_Mode r))
      @ omit_if (wr_RequestID r = []) ''request_id'' (jstring (wr_RequestID r))
      @ (''approver'', json_of_actor (wr_Approver r))
      # omit_if (wr_ApprovalCode r = []) ''approval_code'' (jstring (wr_ApprovalCode r))
      @ omit_if (wr_Cwd r = []) ''cwd'' (jstring (wr_Cwd r)))"

definition wire_request_fields :: "wire_request fields" where
  "wire_request_fields =
     [(''action'', dec_field (\<lambda>x r. r\<lparr>wr_Action := x\<rparr>) wr_Action dec_string),
      (''argv'', dec_field (\<lambda>x r. r\<lparr>wr_Argv := x\<rparr>) wr_Argv dec_strings),
      (''reason'', dec_field (\<lambda>x r. r\<lparr>wr_Reason := x\<rparr>) wr_Reason dec_string),
      (''mode'', dec_field (\<lambda>x r. r\<lparr>wr_Mode := x\<rparr>) wr_Mode dec_string),
      (''request_id'', dec_field (\<lambda>x r. r\<lparr>wr_RequestID := x\<rparr>) wr_RequestID dec_string),
      (''approver'', dec_field (\<lambda>x r. r\<lparr>wr_Approver := x\<rparr>) wr_Approver (dec_struct actor_fields)),
      (''approval_code'', dec_field (\<lambda>x r. r\<lparr>wr_ApprovalCode := x\<rparr>) wr_ApprovalCode dec_string),
      (''cwd'', dec_field (\<lambda>x r. r\<lparr>wr_Cwd := x\<rparr>) wr_Cwd dec_string)]"

definition zero_wire_request :: wire_request where
  "zero_wire_request = \<lparr>wr_Action = [], wr_Argv = [], wr_Reason = [], wr_Mode = [], wr_RequestID = [],
     wr_Approver = zero_actor, wr_ApprovalCode = [], wr_Cwd = []\<rparr>"

definition json_of_response :: "response \<Rightarrow> json" where
  "json_of_response r = JObj
     (omit_if (rs_RequestID r = []) ''request_id'' (jstring (rs_RequestID r))
      @ (''status'', jstring (rs_Status r))
      # omit_if (rs_Message r = []) ''message'' (jstring (rs_Message r))
      @ omit_if (rs_Summary r = None) ''summary''
          (case rs_Summary r of None \<Rightarrow> JNull | Some x \<Rightarrow> json_of_summary x)
      @ omit_if (rs_ExitCode r = None) ''exit_code''
          (case rs_ExitCode r of None \<Rightarrow> JNull | Some i \<Rightarrow> jint i)
      @ omit_if (rs_Stdout r = []) ''stdout'' (jstring (rs_Stdout r))
      @ omit_if (rs_Stderr r = []) ''stderr'' (jstring (rs_Stderr r))
      @ omit_if (rs_Digest r = []) ''digest'' (jstring (rs_Digest r)))"

definition response_fields :: "response fields" where
  "response_fields =
     [(''request_id'', dec_field (\<lambda>x r. r\<lparr>rs_RequestID := x\<rparr>) rs_RequestID dec_string),
      (''status'', dec_field (\<lambda>x r. r\<lparr>rs_Status := x\<rparr>) rs_Status dec_string),
      (''message'', dec_field (\<lambda>x r. r\<lparr>rs_Message := x\<rparr>) rs_Message dec_string),
      (''summary'', dec_field (\<lambda>x r. r\<lparr>rs_Summary := x\<rparr>) rs_Summary
          (dec_pointer zero_summary (dec_struct summary_fields))),
      (''exit_code'', dec_field (\<lambda>x r. r\<lparr>rs_ExitCode := x\<rparr>) rs_ExitCode (dec_pointer 0 (dec_int 64))),
      (''stdout'', dec_field (\<lambda>x r. r\<lparr>rs_Stdout := x\<rparr>) rs_Stdout dec_string),
      (''stderr'', dec_field (\<lambda>x r. r\<lparr>rs_Stderr := x\<rparr>) rs_Stderr dec_string),
      (''digest'', dec_field (\<lambda>x r. r\<lparr>rs_Digest := x\<rparr>) rs_Digest dec_string)]"

definition utf8_wire_request :: "wire_request \<Rightarrow> bool" where
  "utf8_wire_request r \<longleftrightarrow> valid_utf8 (wr_Action r) \<and> list_all valid_utf8 (wr_Argv r)
     \<and> valid_utf8 (wr_Reason r) \<and> valid_utf8 (wr_Mode r) \<and> valid_utf8 (wr_RequestID r)
     \<and> utf8_actor (wr_Approver r) \<and> valid_utf8 (wr_ApprovalCode r) \<and> valid_utf8 (wr_Cwd r)"

definition utf8_response :: "response \<Rightarrow> bool" where
  "utf8_response r \<longleftrightarrow> valid_utf8 (rs_RequestID r) \<and> valid_utf8 (rs_Status r) \<and> valid_utf8 (rs_Message r)
     \<and> (\<forall>x. rs_Summary r = Some x \<longrightarrow> utf8_summary x)
     \<and> (\<forall>i. rs_ExitCode r = Some i \<longrightarrow> - (2 ^ 63) \<le> i \<and> i < 2 ^ 63)
     \<and> valid_utf8 (rs_Stdout r) \<and> valid_utf8 (rs_Stderr r) \<and> valid_utf8 (rs_Digest r)"

lemma canonical_wire_request: "canonical (json_of_wire_request r)"
  by (simp add: json_of_wire_request_def canon_simps json_simps)

lemma canonical_response: "canonical (json_of_response r)"
  by (simp add: json_of_response_def canon_simps json_simps split: option.splits)

lemma dec_wire_request:
  "utf8_wire_request r \<Longrightarrow>
   dec_struct wire_request_fields (json_of_wire_request r) zero_wire_request = Some r"
  by (simp add: json_of_wire_request_def wire_request_fields_def zero_wire_request_def
      utf8_wire_request_def codec_simps json_simps)

lemma dec_pointer_not_null: "j \<noteq> JNull \<Longrightarrow> dec_pointer z d j old = map_option Some (d j (case old of None \<Rightarrow> z | Some a \<Rightarrow> a))"
  by (cases j) (simp_all add: dec_pointer_def)

lemma not_null [simp]: "json_of_summary x \<noteq> JNull" "jint i \<noteq> JNull"
  by (simp_all add: json_of_summary_def jint_def)

lemma dec_response:
  "utf8_response r \<Longrightarrow> dec_struct response_fields (json_of_response r) zero_response = Some r"
  by (cases "rs_Summary r"; cases "rs_ExitCode r")
     (simp_all add: json_of_response_def response_fields_def zero_response_def
      utf8_response_def dec_pointer_not_null codec_simps json_simps)

section \<open>The connection\<close>

definition Encode :: "json \<Rightarrow> string" where
  "Encode j = json_print j @ [newline]"

definition Decode :: "string \<Rightarrow> json option" where
  "Decode s = map_option fst (pvalue (Suc (length s)) s)"

lemma Decode_Encode: "wf_json j \<Longrightarrow> Decode (Encode j @ rest) = Some j"
  using parse_print_mutual(1) [of j "Suc (length (Encode j @ rest))" "newline # rest"]
  by (simp add: Decode_def Encode_def stops_def num_char_def newline_def is_digit_def byte_def del: pvalue.simps)

text \<open>
  Wire round trip. A request and a response with valid UTF-8 texts survive the connection:
  what the other side decodes is what was encoded, whatever bytes follow on the stream.
\<close>

theorem wire_roundtrip:
  assumes "utf8_wire_request q" and "utf8_response r"
  shows "Option.bind (Decode (Encode (json_of_wire_request q) @ rest))
           (\<lambda>j. dec_struct wire_request_fields j zero_wire_request) = Some q
       \<and> Option.bind (Decode (Encode (json_of_response r) @ rest))
           (\<lambda>j. dec_struct response_fields j zero_response) = Some r"
  using dec_wire_request [OF assms(1)] dec_response [OF assms(2)]
    canonical_wire_request [of q] canonical_response [of r]
  by (simp add: Decode_Encode canonical_def)

theorem wire_roundtrip_witness:
  "let q = zero_wire_request\<lparr>wr_Action := ActionRequestExecute, wr_RequestID := ''req_1''\<rparr>;
       r = zero_response\<lparr>rs_Status := ''executed'', rs_ExitCode := Some 0, rs_Stdout := ''ok''\<rparr>
   in Option.bind (Decode (Encode (json_of_wire_request q) @ ''trailing''))
        (\<lambda>j. dec_struct wire_request_fields j zero_wire_request) = Some q
    \<and> Option.bind (Decode (Encode (json_of_response r) @ ''trailing''))
        (\<lambda>j. dec_struct response_fields j zero_response) = Some r"
  unfolding Let_def
  by (rule wire_roundtrip)
     (simp_all add: utf8_wire_request_def utf8_response_def zero_wire_request_def zero_response_def
       utf8_actor_def zero_actor_def byte_def)

end
