(* ===== verification/Execution.thy ===== *)
theory Execution
  imports Core
begin

text \<open>
  Package \<open>internal/execution\<close>: the sanitised environment, the execution spec frozen at submission,
  path normalisation, and \<open>LocalExecutor.Execute\<close>. Starting a process is not code of the
  repository: it is the parameter \<open>exec\<close>, from argv, environment and working directory to an
  outcome.
\<close>

section \<open>filepath.Clean\<close>

text \<open>
  The path components, without empty and dot components; a dot-dot removes the component before
  it, disappears at the root and stays at the front of a relative path.
\<close>

definition clean_step :: "bool \<Rightarrow> string \<Rightarrow> string list \<Rightarrow> string list" where
  "clean_step rooted c stack =
     (if c = [] \<or> c = ''.'' then stack
      else if c = ''..'' then
        (case stack of
           [] \<Rightarrow> (if rooted then [] else [c])
         | d # ds \<Rightarrow> (if d = ''..'' then c # stack else ds))
      else c # stack)"

definition IsAbs :: "string \<Rightarrow> bool" where
  "IsAbs path \<longleftrightarrow> HasPrefix path ''/''"

definition clean_parts :: "string \<Rightarrow> string list" where
  "clean_parts path = rev (fold (clean_step (IsAbs path)) (SplitByte (CHR ''/'') path) [])"

definition Clean :: "string \<Rightarrow> string" where
  "Clean path =
     (let parts = clean_parts path in
      if IsAbs path then ''/'' @ Join parts ''/''
      else if parts = [] then ''.'' else Join parts ''/'')"

section \<open>The execution spec\<close>

definition DefaultSanitizedEnv :: "string gomap" where
  "DefaultSanitizedEnv =
     [(''LANG'', ''C''), (''LC_ALL'', ''C''), (''PATH'', ''/usr/sbin:/usr/bin:/sbin:/bin'')]"

definition normalizeCwd :: "string \<Rightarrow> string" where
  "normalizeCwd cwd =
     (if cwd = [] then ''/''
      else if \<not> IsAbs cwd then ''/''
      else let clean = Clean cwd in if TrimSpace clean = [] then ''/'' else clean)"

definition BuildExecutionSpec :: "string list \<Rightarrow> string \<Rightarrow> execution_spec" where
  "BuildExecutionSpec argv cwd =
     \<lparr>spec_Argv = argv, spec_Env = DefaultSanitizedEnv, spec_Cwd = normalizeCwd cwd\<rparr>"

definition envSlice :: "string gomap \<Rightarrow> string list" where
  "envSlice env = map (\<lambda>key. key @ ''='' @ (case gget env key of None \<Rightarrow> [] | Some v \<Rightarrow> v)) (gkeys env)"

section \<open>Running the command\<close>

text \<open>How \<open>cmd.Run\<close> may fail: the process ran and exited with a status, or anything else.\<close>

datatype run_error = ExitError int string | RunError string

record run_outcome =
  ro_Stdout :: string
  ro_Stderr :: string
  ro_Err :: "run_error option"

type_synonym runner = "string list \<Rightarrow> string list \<Rightarrow> string \<Rightarrow> run_outcome"

definition LocalExecutor_Name :: string where
  "LocalExecutor_Name = ''local-exec''"

fun run_error_text :: "run_error \<Rightarrow> string" where
  "run_error_text (ExitError _ m) = m"
| "run_error_text (RunError m) = m"

definition exit_code :: "run_error option \<Rightarrow> int" where
  "exit_code err = (case err of None \<Rightarrow> 0 | Some (ExitError c _) \<Rightarrow> c | Some (RunError _) \<Rightarrow> - 1)"

text \<open>
  The result and the error of \<open>LocalExecutor.Execute\<close>; \<open>started\<close> and \<open>finished\<close> are what the clock
  reads before and after the run.
\<close>

definition LocalExecutor_Execute ::
    "runner \<Rightarrow> time \<Rightarrow> time \<Rightarrow> request \<Rightarrow> execution_result \<times> go_error option" where
  "LocalExecutor_Execute exec started finished req =
     (if spec_Argv (req_Spec req) = [] then
        (\<lparr>res_StartedAt = started, res_FinishedAt = finished, res_ExitCode = - 1, res_Stdout = [],
          res_Stderr = ''empty argv''\<rparr>, Some (ErrText ''empty argv''))
      else
        let out = exec (spec_Argv (req_Spec req)) (envSlice (spec_Env (req_Spec req)))
                    (normalizeCwd (spec_Cwd (req_Spec req)))
        in (\<lparr>res_StartedAt = started, res_FinishedAt = finished, res_ExitCode = exit_code (ro_Err out),
             res_Stdout = ro_Stdout out, res_Stderr = ro_Stderr out\<rparr>,
            map_option (\<lambda>e. ErrText (run_error_text e)) (ro_Err out)))"

section \<open>Clean paths\<close>

definition plain_part :: "string \<Rightarrow> bool" where
  "plain_part c \<longleftrightarrow> c \<noteq> [] \<and> c \<noteq> ''.'' \<and> c \<noteq> ''..'' \<and> CHR ''/'' \<notin> set c"

lemma fold_clean_rooted:
  "list_all plain_part stack \<Longrightarrow> (\<And>c. c \<in> set cs \<Longrightarrow> CHR ''/'' \<notin> set c) \<Longrightarrow>
   list_all plain_part (fold (clean_step True) cs stack)"
proof (induction cs arbitrary: stack)
  case (Cons c cs)
  have "list_all plain_part (clean_step True c stack)"
    using Cons.prems(1) Cons.prems(2) [of c]
    by (cases stack) (auto simp: clean_step_def plain_part_def [of c] plain_part_def [of "''..''"])
  with Cons show ?case by simp
qed simp

lemma clean_parts_plain: "IsAbs path \<Longrightarrow> list_all plain_part (clean_parts path)"
  using fold_clean_rooted [of "[]" "SplitByte (CHR ''/'') path"] SplitByte_no_sep
  by (simp add: clean_parts_def)

lemma fold_clean_plain:
  "list_all plain_part cs \<Longrightarrow> fold (clean_step r) cs stack = rev cs @ stack"
  by (induction cs arbitrary: stack) (auto simp: clean_step_def plain_part_def)

lemma IsAbs_Cons [simp]: "IsAbs (CHR ''/'' # s)"
  by (simp add: IsAbs_def)

lemma clean_parts_joined:
  assumes "list_all plain_part cs"
  shows "clean_parts (''/'' @ Join cs ''/'') = cs"
proof (cases "cs = []")
  case True
  then show ?thesis by (simp add: clean_parts_def clean_step_def)
next
  case False
  have "SplitByte (CHR ''/'') (Join cs ''/'') = cs"
    using False assms by (intro Split_Join) (auto simp: list_all_iff plain_part_def)
  then show ?thesis
    using fold_clean_plain [OF assms] by (simp add: clean_parts_def clean_step_def)
qed

lemma trim_while_keeps:
  "(\<And>t. c \<notin> set (take (f t) t)) \<Longrightarrow> c \<in> set s \<Longrightarrow> c \<in> set (trim_while f s)"
proof (induction f s rule: trim_while.induct)
  case (1 f s)
  have "set s = set (take (f s) s) \<union> set (drop (f s) s)"
    by (metis append_take_drop_id set_append)
  with "1.prems" have d: "c \<in> set (drop (f s) s)" by blast
  show ?case
  proof (cases "f s = 0 \<or> s = []")
    case False
    then have "trim_while f s = trim_while f (drop (f s) s)" by (subst trim_while.simps) simp
    with "1.IH" False "1.prems"(1) d show ?thesis by simp
  qed (use "1.prems"(2) in \<open>auto simp: trim_while.simps\<close>)
qed

lemma space_not_slash: "CHR ''/'' \<notin> set (take (space_size_rev t) t)"
proof (cases t)
  case (Cons a r)
  show ?thesis
  proof (cases "ascii_space a")
    case True
    then show ?thesis using Cons by (auto simp: ascii_space_def byte_def)
  next
    case a: False
    show ?thesis
    proof (cases r)
      case r: (Cons b u)
      show ?thesis
      proof (cases "space2 (byte b) (byte a)")
        case True
        then have "128 \<le> byte a \<and> 128 \<le> byte b" by (auto simp: space2_def)
        then have "a \<noteq> CHR ''/'' \<and> b \<noteq> CHR ''/''" by (auto simp: byte_def)
        then show ?thesis using Cons r a True by auto
      next
        case False
        show ?thesis
        proof (cases u)
          case (Cons c v)
          have "space3 (byte c) (byte b) (byte a) \<Longrightarrow> 128 \<le> byte a \<and> 128 \<le> byte b \<and> 128 \<le> byte c"
            by (auto simp: space3_def)
          then have "space3 (byte c) (byte b) (byte a) \<Longrightarrow> a \<noteq> CHR ''/'' \<and> b \<noteq> CHR ''/'' \<and> c \<noteq> CHR ''/''"
            by (auto simp: byte_def)
          then show ?thesis using \<open>t = a # r\<close> r a False Cons by auto
        qed (use \<open>t = a # r\<close> r a False in simp)
      qed
    qed (use Cons a in simp)
  qed
qed simp

lemma TrimSpace_slash: "TrimSpace (CHR ''/'' # s) \<noteq> []"
proof -
  have "space_size (CHR ''/'' # s) = 0"
    by (simp add: ascii_space_def space2_def space3_def byte_def split: list.splits)
  then have "TrimSpace (CHR ''/'' # s) = rev (trim_while space_size_rev (rev (CHR ''/'' # s)))"
    by (simp add: TrimSpace_def)
  moreover have "CHR ''/'' \<in> set (trim_while space_size_rev (rev (CHR ''/'' # s)))"
    by (rule trim_while_keeps [OF space_not_slash]) simp
  ultimately show ?thesis by auto
qed

lemma normalizeCwd_abs: "IsAbs cwd \<Longrightarrow> normalizeCwd cwd = Clean cwd"
  using TrimSpace_slash by (auto simp: normalizeCwd_def Let_def Clean_def IsAbs_def)

lemma normalizeCwd_shape: "\<exists>cs. list_all plain_part cs \<and> normalizeCwd cwd = ''/'' @ Join cs ''/''"
proof (cases "IsAbs cwd")
  case True
  with clean_parts_plain [OF True] show ?thesis by (auto simp: normalizeCwd_abs Clean_def Let_def)
next
  case False
  then have "normalizeCwd cwd = ''/'' @ Join [] ''/''" by (simp add: normalizeCwd_def)
  then show ?thesis by (intro exI [of _ "[]"]) simp
qed

section \<open>Properties of execution\<close>

text \<open>
  Working directory. The normalised working directory is a rooted path all of whose
  components are proper names: no empty component, no dot, no dot-dot. Normalising again changes
  nothing, so the directory shown at submission is the directory the executor changes to.
\<close>

theorem normalizeCwd_clean:
  "\<exists>cs. normalizeCwd cwd = ''/'' @ Join cs ''/'' \<and> list_all plain_part cs
     \<and> normalizeCwd (normalizeCwd cwd) = normalizeCwd cwd"
proof -
  obtain cs where cs: "list_all plain_part cs" "normalizeCwd cwd = ''/'' @ Join cs ''/''"
    using normalizeCwd_shape by blast
  then have "normalizeCwd (normalizeCwd cwd) = normalizeCwd cwd"
    using clean_parts_joined [OF cs(1)] by (simp add: normalizeCwd_abs Clean_def Let_def)
  with cs show ?thesis by blast
qed

text \<open>
  What is launched. For a spec built at submission, the executor runs the submitted argv
  unchanged, with exactly the three sanitised environment entries in sorted order and the
  normalised directory; nothing of the requester's environment reaches the process. The recorded
  exit code is 0 without an error, the process's own code for an exit error and -1 for any other
  failure, and the output is recorded either way.
\<close>

theorem LocalExecutor_runs_spec:
  assumes "argv \<noteq> []" and "req_Spec req = BuildExecutionSpec argv cwd"
  shows "LocalExecutor_Execute exec started finished req =
    (let out = exec argv [''LANG=C'', ''LC_ALL=C'', ''PATH=/usr/sbin:/usr/bin:/sbin:/bin''] (normalizeCwd cwd)
     in (\<lparr>res_StartedAt = started, res_FinishedAt = finished,
          res_ExitCode = (case ro_Err out of None \<Rightarrow> 0 | Some (ExitError c _) \<Rightarrow> c | Some (RunError _) \<Rightarrow> - 1),
          res_Stdout = ro_Stdout out, res_Stderr = ro_Stderr out\<rparr>,
         map_option (\<lambda>e. ErrText (run_error_text e)) (ro_Err out)))"
proof -
  have "normalizeCwd (normalizeCwd cwd) = normalizeCwd cwd"
    using normalizeCwd_shape [of cwd] clean_parts_joined by (auto simp: normalizeCwd_abs Clean_def Let_def)
  moreover have "gkeys DefaultSanitizedEnv = [''LANG'', ''LC_ALL'', ''PATH'']"
    unfolding DefaultSanitizedEnv_def by code_simp
  then have "envSlice DefaultSanitizedEnv = [''LANG=C'', ''LC_ALL=C'', ''PATH=/usr/sbin:/usr/bin:/sbin:/bin'']"
    by (simp add: envSlice_def gget_def DefaultSanitizedEnv_def)
  ultimately show ?thesis
    using assms by (simp add: LocalExecutor_Execute_def BuildExecutionSpec_def exit_code_def Let_def)
qed

theorem LocalExecutor_runs_spec_witness:
  "let req = zero_request\<lparr>req_Spec := BuildExecutionSpec [''id'', ''-u''] ''/srv/./app/../data''\<rparr>;
       exec = (\<lambda>argv env cwd. \<lparr>ro_Stdout = cwd, ro_Stderr = Join argv '' '', ro_Err = Some (ExitError 3 ''exit status 3'')\<rparr>)
   in LocalExecutor_Execute exec 0 1 req =
        (\<lparr>res_StartedAt = 0, res_FinishedAt = 1, res_ExitCode = 3, res_Stdout = ''/srv/data'',
          res_Stderr = ''id -u''\<rparr>, Some (ErrText ''exit status 3''))"
proof -
  have "normalizeCwd ''/srv/./app/../data'' = ''/srv/data''"
    by (simp add: normalizeCwd_abs Clean_def clean_parts_def clean_step_def)
  then show ?thesis
    using LocalExecutor_runs_spec [of "[''id'', ''-u'']"
        "zero_request\<lparr>req_Spec := BuildExecutionSpec [''id'', ''-u''] ''/srv/./app/../data''\<rparr>" "''/srv/./app/../data''"
        "\<lambda>argv env cwd. \<lparr>ro_Stdout = cwd, ro_Stderr = Join argv '' '', ro_Err = Some (ExitError 3 ''exit status 3'')\<rparr>" 0 1]
    by simp
qed

end
