(* ===== verification/Broker.thy ===== *)
theory Broker
  imports Projection Protocol Execution
begin

text \<open>
  Package \<open>internal/broker\<close>: the service that owns the log and the projection. Each method is the
  code between its lock and its unlock; \<open>Execute\<close> releases the lock while the command runs and is
  therefore two definitions, \<open>execute_begin\<close> and \<open>execute_finish\<close>, with \<open>Execute\<close> their
  composition. Answers of the environment are arguments: the clock (\<open>now\<close>), random bytes and one
  \<open>io\<close> per possible \<open>Append\<close>. A method returns its result and the service afterwards, so the
  state after an error is explicit.
\<close>

section \<open>State and helpers\<close>

record service =
  sv_log :: log
  sv_projection :: projection
  sv_executor :: string
  sv_ttl :: int
  sv_hostname :: string

definition DefaultTTL :: int where
  "DefaultTTL = 5 * 60 * second"

record submit_input =
  si_Argv :: "string list"
  si_Reason :: string
  si_Mode :: string
  si_Requester :: peer_identity
  si_Cwd :: string

record review_input =
  ri_RequestID :: string
  ri_Approver :: actor
  ri_ApprovalCode :: string
  ri_Reason :: string

definition broker_randomID :: "string \<Rightarrow> string option \<Rightarrow> int \<Rightarrow> string" where
  "broker_randomID prefix rand nanos = (case rand of
     None \<Rightarrow> prefix @ ''_'' @ string_of_int nanos
   | Some buf \<Rightarrow> prefix @ ''_'' @ hex_encode buf)"

definition broker_actor :: actor where
  "broker_actor = \<lparr>actor_Kind = ''broker'', actor_ID = ''request-sudod''\<rparr>"

definition actorIDForPeer :: "peer_identity \<Rightarrow> string" where
  "actorIDForPeer peer = (if peer_Username peer \<noteq> [] then peer_Username peer else uid_label (peer_UID peer))"

definition validateApprover :: "actor \<Rightarrow> peer_identity \<Rightarrow> string option" where
  "validateApprover approver requester =
     (if actor_Kind approver = [] \<or> actor_ID approver = [] then Some ''approver identity is required''
      else let requesterUID = string_of_nat (unat (peer_UID requester)) in
        if actor_ID approver = peer_Username requester \<or> actor_ID approver = requesterUID
           \<or> actor_ID approver = ''uid:'' @ requesterUID
        then Some ''self-approval is forbidden''
        else None)"

definition digestRequest :: "(string \<Rightarrow> string) \<Rightarrow> string \<Rightarrow> execution_spec \<Rightarrow> peer_identity \<Rightarrow> time \<Rightarrow> string" where
  "digestRequest sha requestID spec requester expiry =
     (let payload = json_print (JObj
        [(''argv'', jstrings (spec_Argv spec)),
         (''env'', JArr (map jstring (envSlice (spec_Env spec)))),
         (''cwd'', jstring (spec_Cwd spec)),
         (''requester_uid'', juint (peer_UID requester)),
         (''request_id'', jstring requestID),
         (''expiry'', jstring (format_time expiry))])
      in hex_encode (sha payload))"

text \<open>A new event as the methods pass it to \<open>Append\<close>.\<close>

definition new_event :: "string \<Rightarrow> actor \<Rightarrow> string \<Rightarrow> json option \<Rightarrow> event" where
  "new_event requestID a t d =
     zero_event\<lparr>ev_RequestID := requestID, ev_Actor := a, ev_Type := t, ev_Details := d\<rparr>"

text \<open>The recurring sequence: append the event to the log, then apply it to the projection.\<close>

definition append_apply :: "(string \<Rightarrow> string) \<Rightarrow> io \<Rightarrow> event \<Rightarrow> service \<Rightarrow> unit result \<times> service" where
  "append_apply sha w e s =
     (case Append sha w e (sv_log s) of
        (Inl err, l) \<Rightarrow> (Inl err, s\<lparr>sv_log := l\<rparr>)
      | (Inr e', l) \<Rightarrow>
          (case Apply e' (sv_projection s) of
             Inl err \<Rightarrow> (Inl err, s\<lparr>sv_log := l\<rparr>)
           | Inr p \<Rightarrow> (Inr (), s\<lparr>sv_log := l, sv_projection := p\<rparr>)))"

definition not_found :: "string \<Rightarrow> response" where
  "not_found requestID = zero_response\<lparr>rs_RequestID := requestID,
     rs_Status := status_string StatusError, rs_Message := ''request not found''\<rparr>"

text \<open>The answer made from the snapshot after a successful operation.\<close>

definition answer :: "string \<Rightarrow> string \<Rightarrow> service \<Rightarrow> response result" where
  "answer requestID message s =
     Inr (case Get (sv_projection s) requestID of
            Some snap \<Rightarrow> FromSnapshot snap message
          | None \<Rightarrow> zero_response\<lparr>rs_Message := message, rs_Summary := Some zero_summary\<rparr>)"

section \<open>Expiry and recovery\<close>

definition expireIfNeededLocked ::
    "(string \<Rightarrow> string) \<Rightarrow> time \<Rightarrow> io \<Rightarrow> string \<Rightarrow> service \<Rightarrow> unit result \<times> service" where
  "expireIfNeededLocked sha now w requestID s =
     (case Get (sv_projection s) requestID of
        None \<Rightarrow> (Inr (), s)
      | Some snap \<Rightarrow>
          (if snap_Status snap \<noteq> StatusPending then (Inr (), s)
           else if now < req_ExpiresAt (snap_Request snap) then (Inr (), s)
           else append_apply sha w (new_event requestID broker_actor TypeRequestExpired None) s))"

definition recovery_event :: "snapshot \<Rightarrow> event" where
  "recovery_event snap = new_event (req_ID (snap_Request snap)) broker_actor TypeRecoveryMarkedFailed
     (Some (json_of_details (RecoveryMarkedFailedDetails ''broker restarted while execution was in flight'')))"

text \<open>
  The loop over the snapshots present when recovery starts; \<open>ws\<close> gives the environment of the
  append for each request id.
\<close>

fun recover_loop :: "(string \<Rightarrow> string) \<Rightarrow> (string \<Rightarrow> io) \<Rightarrow> snapshot list \<Rightarrow> service \<Rightarrow> unit result \<times> service" where
  "recover_loop sha ws [] s = (Inr (), s)"
| "recover_loop sha ws (snap # snaps) s =
     (if snap_Status snap \<noteq> StatusExecuting then recover_loop sha ws snaps s
      else case append_apply sha (ws (req_ID (snap_Request snap))) (recovery_event snap) s of
        (Inl err, s') \<Rightarrow> (Inl err, s')
      | (Inr _, s') \<Rightarrow> recover_loop sha ws snaps s')"

definition recoverExecutingLocked ::
    "(string \<Rightarrow> string) \<Rightarrow> (string \<Rightarrow> io) \<Rightarrow> service \<Rightarrow> unit result \<times> service" where
  "recoverExecutingLocked sha ws s = recover_loop sha ws (All (sv_projection s)) s"

text \<open>
  \<open>NewService\<close> with the options folded into \<open>ttl\<close> and the host name; \<open>hostname\<close> is what
  \<open>os.Hostname\<close> gave. The second component is the log afterwards, which recovery may have extended
  even when it fails.
\<close>

definition NewService ::
    "(string \<Rightarrow> string) \<Rightarrow> (string \<Rightarrow> io) \<Rightarrow> string \<Rightarrow> int \<Rightarrow> string option \<Rightarrow> log \<Rightarrow> service result \<times> log" where
  "NewService sha ws executor ttl hostname l =
     (case result_bind (Replay sha (Inr (lg_file l))) Rebuild of
        Inl err \<Rightarrow> (Inl err, l)
      | Inr proj \<Rightarrow>
          (case recoverExecutingLocked sha ws
                  \<lparr>sv_log = l, sv_projection = proj, sv_executor = executor, sv_ttl = ttl,
                   sv_hostname = (case hostname of None \<Rightarrow> ''localhost'' | Some h \<Rightarrow> h)\<rparr> of
             (Inl err, s) \<Rightarrow> (Inl err, sv_log s)
           | (Inr _, s) \<Rightarrow> (Inr s, sv_log s)))"

section \<open>Requester operations\<close>

definition build_request :: "(string \<Rightarrow> string) \<Rightarrow> time \<Rightarrow> string \<Rightarrow> submit_input \<Rightarrow> service \<Rightarrow> request" where
  "build_request sha now requestID input s =
     (let spec = BuildExecutionSpec (si_Argv input) (si_Cwd input);
          expiresAt = now + sv_ttl s
      in \<lparr>req_ID = requestID, req_Argv = si_Argv input, req_Reason = si_Reason input,
          req_Mode = si_Mode input, req_Requester = si_Requester input, req_Host = sv_hostname s,
          req_CreatedAt = now, req_ExpiresAt = expiresAt,
          req_Digest = digestRequest sha requestID spec (si_Requester input) expiresAt,
          req_Spec = spec,
          req_Summary = DescribeRequest (sv_hostname s) (si_Requester input) (si_Argv input) (si_Reason input)\<rparr>)"

definition default_mode :: "submit_input \<Rightarrow> submit_input" where
  "default_mode input = (if si_Mode input = [] then input\<lparr>si_Mode := ModePoll\<rparr> else input)"

definition Submit ::
    "(string \<Rightarrow> string) \<Rightarrow> time \<Rightarrow> string option \<Rightarrow> int \<Rightarrow> io \<Rightarrow> submit_input \<Rightarrow> service \<Rightarrow> response result \<times> service" where
  "Submit sha now rand nanos w input s =
     (if si_Argv input = [] then
        (Inr (zero_response\<lparr>rs_Status := status_string StatusError, rs_Message := ''argv is required''\<rparr>), s)
      else
        let input = default_mode input;
            requestID = broker_randomID ''req'' rand nanos;
            request = build_request sha now requestID input s
        in case MarshalDetails (Some (RequestCreatedDetails request)) of
             Inl err \<Rightarrow> (Inl err, s)
           | Inr details \<Rightarrow>
               (case append_apply sha w
                       (new_event requestID
                         \<lparr>actor_Kind = ''requester'', actor_ID = actorIDForPeer (si_Requester input)\<rparr>
                         TypeRequestCreated details) s of
                  (Inl err, s') \<Rightarrow> (Inl err, s')
                | (Inr _, s') \<Rightarrow> (answer requestID ''Approval required'' s', s')))"

definition Status :: "(string \<Rightarrow> string) \<Rightarrow> time \<Rightarrow> io \<Rightarrow> string \<Rightarrow> service \<Rightarrow> response result \<times> service" where
  "Status sha now w requestID s =
     (case expireIfNeededLocked sha now w requestID s of
        (Inl err, s) \<Rightarrow> (Inl err, s)
      | (Inr _, s) \<Rightarrow>
          (case Get (sv_projection s) requestID of
             None \<Rightarrow> (Inr (not_found requestID), s)
           | Some snap \<Rightarrow> (Inr (FromSnapshot snap ''status retrieved''), s)))"

section \<open>Reviewer operations\<close>

definition Approve ::
    "(string \<Rightarrow> string) \<Rightarrow> time \<Rightarrow> io \<Rightarrow> io \<Rightarrow> review_input \<Rightarrow> service \<Rightarrow> response result \<times> service" where
  "Approve sha now w1 w2 input s =
     (case expireIfNeededLocked sha now w1 (ri_RequestID input) s of
        (Inl err, s) \<Rightarrow> (Inl err, s)
      | (Inr _, s) \<Rightarrow>
          (case Get (sv_projection s) (ri_RequestID input) of
             None \<Rightarrow> (Inr (not_found (ri_RequestID input)), s)
           | Some snap \<Rightarrow>
               (if snap_Status snap \<noteq> StatusPending then (Inr (FromSnapshot snap ''request is not pending''), s)
                else case validateApprover (ri_Approver input) (req_Requester (snap_Request snap)) of
                  Some m \<Rightarrow> (Inr (zero_response\<lparr>rs_RequestID := ri_RequestID input,
                      rs_Status := status_string StatusRejected, rs_Message := m\<rparr>), s)
                | None \<Rightarrow>
                    (case MarshalDetails (Some (ApprovalDetails (ri_Approver input) (ri_ApprovalCode input))) of
                       Inl err \<Rightarrow> (Inl err, s)
                     | Inr details \<Rightarrow>
                         (case append_apply sha w2
                                 (new_event (ri_RequestID input) (ri_Approver input) TypeRequestApproved details) s of
                            (Inl err, s) \<Rightarrow> (Inl err, s)
                          | (Inr _, s) \<Rightarrow> (answer (ri_RequestID input) ''request approved'' s, s))))))"

definition Deny ::
    "(string \<Rightarrow> string) \<Rightarrow> time \<Rightarrow> io \<Rightarrow> io \<Rightarrow> review_input \<Rightarrow> service \<Rightarrow> response result \<times> service" where
  "Deny sha now w1 w2 input s =
     (case expireIfNeededLocked sha now w1 (ri_RequestID input) s of
        (Inl err, s) \<Rightarrow> (Inl err, s)
      | (Inr _, s) \<Rightarrow>
          (case Get (sv_projection s) (ri_RequestID input) of
             None \<Rightarrow> (Inr (not_found (ri_RequestID input)), s)
           | Some snap \<Rightarrow>
               (if snap_Status snap \<noteq> StatusPending then (Inr (FromSnapshot snap ''request is not pending''), s)
                else case validateApprover (ri_Approver input) (req_Requester (snap_Request snap)) of
                  Some m \<Rightarrow> (Inr (zero_response\<lparr>rs_RequestID := ri_RequestID input,
                      rs_Status := status_string StatusRejected, rs_Message := m\<rparr>), s)
                | None \<Rightarrow>
                    (case MarshalDetails (Some (DenialDetails (ri_Approver input) (ri_Reason input))) of
                       Inl err \<Rightarrow> (Inl err, s)
                     | Inr details \<Rightarrow>
                         (case append_apply sha w2
                                 (new_event (ri_RequestID input) (ri_Approver input) TypeRequestDenied details) s of
                            (Inl err, s) \<Rightarrow> (Inl err, s)
                          | (Inr _, s) \<Rightarrow> (answer (ri_RequestID input) ''request denied'' s, s))))))"

section \<open>Execution\<close>

text \<open>What the first critical section of \<open>Execute\<close> decides: an answer, or a request to launch.\<close>

datatype begin_outcome = Reply "response result" | Launch request

definition execute_begin ::
    "(string \<Rightarrow> string) \<Rightarrow> time \<Rightarrow> io \<Rightarrow> io \<Rightarrow> string \<Rightarrow> service \<Rightarrow> begin_outcome \<times> service" where
  "execute_begin sha now w1 w2 requestID s =
     (case expireIfNeededLocked sha now w1 requestID s of
        (Inl err, s) \<Rightarrow> (Reply (Inl err), s)
      | (Inr _, s) \<Rightarrow>
          (case Get (sv_projection s) requestID of
             None \<Rightarrow> (Reply (Inr (not_found requestID)), s)
           | Some snap \<Rightarrow>
               (if snap_Status snap = StatusExecuting then
                  (Reply (Inr (FromSnapshot snap ''request is already executing'')), s)
                else if snap_Status snap = StatusExecuted \<or> snap_Status snap = StatusFailed then
                  (Reply (Inr (FromSnapshot snap ''request already reached a terminal execution state'')), s)
                else if snap_Status snap = StatusPending then
                  (Reply (Inr ((FromSnapshot snap ''request is not approved'')\<lparr>rs_Status := status_string StatusRejected\<rparr>)), s)
                else if snap_Status snap \<noteq> StatusApproved then
                  (Reply (Inr (FromSnapshot snap ''request is not approved'')), s)
                else
                  case MarshalDetails (Some (ExecutionStartedDetails (sv_executor s) (req_Digest (snap_Request snap)))) of
                    Inl err \<Rightarrow> (Reply (Inl err), s)
                  | Inr details \<Rightarrow>
                      (case append_apply sha w2 (new_event requestID broker_actor TypeExecutionStarted details) s of
                         (Inl err, s) \<Rightarrow> (Reply (Inl err), s)
                       | (Inr _, s) \<Rightarrow> (Launch (snap_Request snap), s)))))"

text \<open>The second critical section, with what the executor returned.\<close>

definition execute_finish ::
    "(string \<Rightarrow> string) \<Rightarrow> io \<Rightarrow> string \<Rightarrow> execution_result \<times> string option \<Rightarrow> service \<Rightarrow> response result \<times> service" where
  "execute_finish sha w requestID outcome s =
     (case MarshalDetails (Some (ExecutionFinishedDetails (fst outcome))) of
        Inl err \<Rightarrow> (Inl err, s)
      | Inr details \<Rightarrow>
          (let finalType = (case snd outcome of None \<Rightarrow> TypeExecutionSucceeded | Some _ \<Rightarrow> TypeExecutionFailed);
               message = (case snd outcome of None \<Rightarrow> ''request executed'' | Some m \<Rightarrow> m)
           in case append_apply sha w (new_event requestID broker_actor finalType details) s of
                (Inl err, s) \<Rightarrow> (Inl err, s)
              | (Inr _, s) \<Rightarrow> (answer requestID message s, s)))"

definition Execute ::
    "(string \<Rightarrow> string) \<Rightarrow> time \<Rightarrow> io \<Rightarrow> io \<Rightarrow> io \<Rightarrow> (request \<Rightarrow> execution_result \<times> string option) \<Rightarrow>
     string \<Rightarrow> service \<Rightarrow> response result \<times> service" where
  "Execute sha now w1 w2 w3 executor requestID s =
     (case execute_begin sha now w1 w2 requestID s of
        (Reply r, s) \<Rightarrow> (r, s)
      | (Launch request, s) \<Rightarrow> execute_finish sha w3 requestID (executor request) s)"

end
