(* ===== verification/Broker_Disk.thy ===== *)
theory Broker_Disk
  imports Broker
begin

text \<open>
  The invariant that ties the broker's memory to what is on disk, for every outcome of the file
  operations: successful appends, failed opens, torn writes and failed syncs. A file is either
  beyond repair (every extension is rejected by \<open>Replay\<close>) or consists of complete lines of lawful
  events, possibly followed by one torn line. Lawful means: a creation carries a request the broker
  built, and an approval was requested by a reviewer whom \<open>validateApprover\<close> accepts for the
  requester on record.
\<close>

section \<open>Outcomes of an append\<close>

definition text_ok :: "event \<Rightarrow> bool" where
  "text_ok e \<longleftrightarrow> ev_EventID e = [] \<and> ev_Timestamp e = zero_time \<and> valid_utf8 (ev_RequestID e)
     \<and> utf8_actor (ev_Actor e) \<and> valid_utf8 (ev_Type e) \<and> details_ok (ev_Details e)"

definition same_content :: "event \<Rightarrow> event \<Rightarrow> bool" where
  "same_content a e \<longleftrightarrow> ev_RequestID a = ev_RequestID e \<and> ev_Type a = ev_Type e \<and> ev_Details a = ev_Details e"

lemma same_content_appended [simp]: "same_content (appended sha w l e) e"
  by (simp add: same_content_def)

lemma Append_outcomes:
  assumes "valid_utf8 (lg_lastHash l)" and "text_ok e" and "Append sha w e l = (r, l')"
  obtains (unchanged) err where "r = Inl err" "l' = l"
  | (torn) a n err where "event_ok a" "same_content a e" "r = Inl err"
      "l' = l\<lparr>lg_file := lg_file l @ take n (event_line a)\<rparr>"
  | (unsynced) a err where "event_ok a" "same_content a e" "r = Inl err"
      "l' = l\<lparr>lg_file := lg_file l @ event_line a @ [newline]\<rparr>"
  | (written) a where "event_ok a" "same_content a e" "r = Inr a"
      "l' = l\<lparr>lg_file := lg_file l @ event_line a @ [newline], lg_lastHash := ev_Hash a\<rparr>"
proof (cases "time_ok (io_now w)")
  case True
  then have ok: "append_ok w e" using assms(2) by (simp add: append_ok_def text_ok_def)
  note c = Append_cases [OF assms(1) ok, of sha] and a = appended_ok(1) [OF assms(1) ok, of sha]
  show thesis
  proof (cases "io_fs w")
    case FsOk
    with assms(3) c a show thesis by (intro written [of "appended sha w l e"]) (auto simp: Let_def)
  next
    case (FsOpenErr m)
    with assms(3) c show thesis by (intro unchanged) (auto simp: Let_def)
  next
    case (FsWriteErr n m)
    with assms(3) c a show thesis by (intro torn [of "appended sha w l e"]) (auto simp: Let_def)
  next
    case (FsSyncErr m)
    with assms(3) c a show thesis by (intro unsynced [of "appended sha w l e"]) (auto simp: Let_def)
  qed
next
  case False
  have "hashEvent sha (stamp w (lg_lastHash l) e) = Inl ErrMarshal"
    using assms(2) False by (simp add: hashEvent_def stamp_def text_ok_def Let_def)
  with assms(3) show thesis by (intro unchanged) (auto simp: Append_def Let_def)
qed

section \<open>Lawful histories\<close>

type_synonym submissions = "(string \<times> request) set"
type_synonym reviews = "(string \<times> actor) set"

definition subs_ok :: "submissions \<Rightarrow> bool" where
  "subs_ok subs \<longleftrightarrow> (\<forall>(rid, r) \<in> subs. utf8_request r \<and> times_request r \<and> req_ID r = rid)"

definition lawful_event :: "submissions \<Rightarrow> reviews \<Rightarrow> event list \<Rightarrow> event \<Rightarrow> bool" where
  "lawful_event subs revs es e \<longleftrightarrow>
     (ev_Type e = TypeRequestCreated \<longrightarrow>
        (\<exists>r. ev_Details e = Some (json_of_details (RequestCreatedDetails r)) \<and> (ev_RequestID e, r) \<in> subs))
   \<and> (ev_Type e = TypeRequestApproved \<longrightarrow>
        (\<exists>a c r. ev_Details e = Some (json_of_details (ApprovalDetails a c)) \<and> (ev_RequestID e, a) \<in> revs
           \<and> created_request es (ev_RequestID e) = Some r \<and> validateApprover a (req_Requester r) = None))"

inductive lawful :: "submissions \<Rightarrow> reviews \<Rightarrow> event list \<Rightarrow> bool" for subs revs where
  lawful_nil: "lawful subs revs []"
| lawful_snoc: "lawful subs revs es \<Longrightarrow> lawful_event subs revs es e \<Longrightarrow> lawful subs revs (es @ [e])"
| lawful_dead: "Rebuild es = Inl err \<Longrightarrow> lawful subs revs es"

lemma lawful_event_mono:
  "lawful_event subs revs es e \<Longrightarrow> subs \<subseteq> subs' \<Longrightarrow> revs \<subseteq> revs' \<Longrightarrow> lawful_event subs' revs' es e"
  unfolding lawful_event_def by blast

lemma lawful_mono:
  "lawful subs revs es \<Longrightarrow> subs \<subseteq> subs' \<Longrightarrow> revs \<subseteq> revs' \<Longrightarrow> lawful subs' revs' es"
  by (induction rule: lawful.induct) (auto intro: lawful.intros lawful_event_mono)

definition authorised :: "reviews \<Rightarrow> string \<Rightarrow> request \<Rightarrow> bool" where
  "authorised revs rid r \<longleftrightarrow> (\<exists>a. (rid, a) \<in> revs \<and> validateApprover a (req_Requester r) = None)"

definition good :: "submissions \<Rightarrow> reviews \<Rightarrow> projection \<Rightarrow> bool" where
  "good subs revs p \<longleftrightarrow> (\<forall>rid snap. gget p rid = Some snap \<longrightarrow>
     (rid, snap_Request snap) \<in> subs
     \<and> (approved_status (snap_Status snap) \<longrightarrow> authorised revs rid (snap_Request snap)))"

lemma good_mono: "good subs revs p \<Longrightarrow> subs \<subseteq> subs' \<Longrightarrow> revs \<subseteq> revs' \<Longrightarrow> good subs' revs' p"
  unfolding good_def authorised_def by blast

text \<open>What the broker knows when it appends an event, in terms of its own memory.\<close>

definition backed :: "submissions \<Rightarrow> reviews \<Rightarrow> projection \<Rightarrow> event \<Rightarrow> bool" where
  "backed subs revs p e \<longleftrightarrow>
     (ev_Type e = TypeRequestCreated \<longrightarrow>
        (\<exists>r. ev_Details e = Some (json_of_details (RequestCreatedDetails r)) \<and> (ev_RequestID e, r) \<in> subs))
   \<and> (ev_Type e = TypeRequestApproved \<longrightarrow>
        (\<exists>a c snap. ev_Details e = Some (json_of_details (ApprovalDetails a c)) \<and> (ev_RequestID e, a) \<in> revs
           \<and> gget p (ev_RequestID e) = Some snap
           \<and> validateApprover a (req_Requester (snap_Request snap)) = None))"

lemma unmarshal_submitted:
  "subs_ok subs \<Longrightarrow> (rid, r) \<in> subs \<Longrightarrow>
   unmarshal_details created_fields zero_request (Some (json_of_details (RequestCreatedDetails r))) = Inr r"
  by (rule unmarshal_created) (auto simp: subs_ok_def)

lemma Apply_good:
  assumes "subs_ok subs" "good subs revs p" "Apply e p = Inr p'" "backed subs revs p e"
  shows "good subs revs p'"
  using assms(3)
proof (cases rule: Apply_cases)
  case (created r)
  with assms(1,4) have "(ev_RequestID e, r) \<in> subs"
    using unmarshal_submitted [OF assms(1)] by (fastforce simp: backed_def)
  with assms(2) created show ?thesis by (auto simp: good_def approved_status_def)
next
  case (existing snap snap')
  have "authorised revs (ev_RequestID e) (snap_Request snap)" if "approved_status (snap_Status snap')"
  proof (cases "approved_status (snap_Status snap)")
    case True
    with assms(2) existing(2) show ?thesis by (simp add: good_def)
  next
    case False
    with launched_step(3) [OF existing(3) that] existing(6) have "ev_Type e = TypeRequestApproved" by simp
    with assms(4) existing(2) show ?thesis by (auto simp: backed_def authorised_def)
  qed
  with assms(2) existing show ?thesis by (auto simp: good_def)
qed

lemma Rebuild_good:
  assumes "lawful subs revs es" "subs_ok subs" "Rebuild es = Inr p"
  shows "good subs revs p"
  using assms
proof (induction arbitrary: p rule: lawful.induct)
  case (lawful_snoc es e)
  then obtain q where q: "Rebuild es = Inr q" "Apply e q = Inr p"
    by (auto simp: Rebuild_snoc result_bind_eq_Inr)
  have "backed subs revs q e"
    using lawful_snoc.hyps(2) Rebuild_created [OF q(1), of "ev_RequestID e"]
    by (fastforce simp: lawful_event_def backed_def)
  with q lawful_snoc show ?case using Apply_good by blast
qed (simp_all add: good_def)

section \<open>The disk\<close>

text \<open>Every request the memory knows has the same creation on disk, unless the disk is unusable.\<close>

definition mem_in :: "projection option \<Rightarrow> event list \<Rightarrow> bool" where
  "mem_in mem es \<longleftrightarrow> (\<forall>p q rid snap. mem = Some p \<longrightarrow> Rebuild es = Inr q \<longrightarrow> gget p rid = Some snap \<longrightarrow>
     created_request es rid = Some (snap_Request snap))"

definition torn_tail :: "submissions \<Rightarrow> reviews \<Rightarrow> event list \<Rightarrow> string \<Rightarrow> bool" where
  "torn_tail subs revs es tail \<longleftrightarrow>
     (\<exists>u. tail = CHR ''{'' # u) \<and> (\<forall>c \<in> set tail. 32 \<le> byte c)
     \<and> (\<forall>e. unmarshal_event tail = Some e \<longrightarrow> tail = event_line e \<and> event_ok e \<and> lawful subs revs (es @ [e]))"

definition disk_inv ::
    "(string \<Rightarrow> string) \<Rightarrow> submissions \<Rightarrow> reviews \<Rightarrow> string set \<Rightarrow> projection option \<Rightarrow> string \<Rightarrow> bool" where
  "disk_inv sha subs revs rids mem f \<longleftrightarrow> doomed sha f
     \<or> (\<exists>es tail. f = file_lines event_line es @ tail \<and> list_all event_ok es \<and> lawful subs revs es
          \<and> rids \<subseteq> set (started_ids es)
          \<and> (tail = [] \<and> mem_in mem es \<or> torn_tail subs revs es tail))"

lemma disk_inv_cases:
  assumes "disk_inv sha subs revs rids mem f"
  obtains (doomed) "doomed sha f"
  | (clean) es where "f = file_lines event_line es" "list_all event_ok es" "lawful subs revs es"
      "rids \<subseteq> set (started_ids es)" "mem_in mem es"
  | (torn) es tail where "f = file_lines event_line es @ tail" "list_all event_ok es" "lawful subs revs es"
      "rids \<subseteq> set (started_ids es)" "torn_tail subs revs es tail"
  using assms unfolding disk_inv_def by auto

lemma disk_inv_doomed: "doomed sha f \<Longrightarrow> disk_inv sha subs revs rids mem f"
  by (simp add: disk_inv_def)

lemma disk_inv_clean:
  "list_all event_ok es \<Longrightarrow> lawful subs revs es \<Longrightarrow> rids \<subseteq> set (started_ids es) \<Longrightarrow> mem_in mem es \<Longrightarrow>
   disk_inv sha subs revs rids mem (file_lines event_line es)"
  unfolding disk_inv_def by (metis append_Nil2)

lemma disk_inv_torn:
  "list_all event_ok es \<Longrightarrow> lawful subs revs es \<Longrightarrow> rids \<subseteq> set (started_ids es) \<Longrightarrow> torn_tail subs revs es tail \<Longrightarrow>
   disk_inv sha subs revs rids mem (file_lines event_line es @ tail)"
  unfolding disk_inv_def by blast

lemma torn_tail_mono:
  "torn_tail subs revs es tail \<Longrightarrow> subs \<subseteq> subs' \<Longrightarrow> revs \<subseteq> revs' \<Longrightarrow> torn_tail subs' revs' es tail"
  unfolding torn_tail_def using lawful_mono by blast

lemma disk_inv_mono:
  assumes "disk_inv sha subs revs rids mem f" "subs \<subseteq> subs'" "revs \<subseteq> revs'"
  shows "disk_inv sha subs' revs' rids mem f"
  using assms(1)
proof (cases rule: disk_inv_cases)
  case (clean es)
  with assms(2,3) show ?thesis by (simp add: disk_inv_clean lawful_mono)
next
  case (torn es tail)
  with assms(2,3) show ?thesis by (simp add: disk_inv_torn lawful_mono torn_tail_mono)
qed (rule disk_inv_doomed)

lemma printable_ends:
  assumes "\<forall>c \<in> set s. 32 \<le> byte c"
  shows "newline \<notin> set s" "drop_cr s = s"
proof -
  have "\<not> 32 \<le> byte newline" "\<not> 32 \<le> byte (CHR 0x0D)" by (simp_all add: newline_def byte_def)
  with assms show "newline \<notin> set s" "drop_cr s = s" by (auto simp: drop_cr_def dest: last_in_set)
qed

lemma event_line_bytes: "event_ok a \<Longrightarrow> c \<in> set (take n (event_line a)) \<Longrightarrow> 32 \<le> byte c"
  using canonical_event [of a] json_print_bytes_mutual(1) [of "json_of_event a" c]
  by (auto simp: event_ok_def canonical_def event_line_def dest: in_set_takeD)

lemma torn_tail_start:
  assumes "event_ok a" "lawful subs revs (es @ [a])" "0 < n"
  shows "torn_tail subs revs es (take n (event_line a))"
proof -
  obtain r where r: "event_line a = CHR ''{'' # r" using event_line_front by blast
  have "\<exists>u. take n (event_line a) = CHR ''{'' # u" using assms(3) r by (cases n) auto
  moreover have "unmarshal_event (take n (event_line a)) = (if n < length (event_line a) then None else Some a)"
    using torn_prefix_rejected [OF assms(1)] ev.dec_enc [OF assms(1)] by simp
  ultimately show ?thesis
    using assms event_line_bytes [OF assms(1)] by (auto simp: torn_tail_def)
qed

lemma torn_tail_extend:
  assumes "torn_tail subs revs es tail" "event_ok a" "0 < n"
  shows "torn_tail subs revs es (tail @ take n (event_line a))"
  using assms torn_line_rejected [OF assms(2,3)] event_line_bytes [OF assms(2)]
  by (auto simp: torn_tail_def)

text \<open>A torn write keeps the invariant.\<close>

lemma disk_inv_write_torn:
  assumes "disk_inv sha subs revs rids mem f" "event_ok a"
    and law: "\<And>es. lawful subs revs es \<Longrightarrow> mem_in mem es \<Longrightarrow> lawful subs revs (es @ [a])"
  shows "disk_inv sha subs revs rids mem (f @ take n (event_line a))"
proof (cases "n = 0")
  case False
  from assms(1) show ?thesis
  proof (cases rule: disk_inv_cases)
    case doomed
    then show ?thesis by (intro disk_inv_doomed doomed_append)
  next
    case (clean es)
    with False assms(2) law show ?thesis by (auto intro!: disk_inv_torn torn_tail_start)
  next
    case (torn es tail)
    with False assms(2) disk_inv_torn [OF torn(2-4) torn_tail_extend] show ?thesis by simp
  qed
qed (use assms(1) in simp)

text \<open>A complete line keeps the invariant; after a torn line it makes the file unusable.\<close>

lemma disk_inv_write_line:
  assumes "disk_inv sha subs revs rids mem f" "event_ok a"
    and law: "\<And>es. lawful subs revs es \<Longrightarrow> mem_in mem es \<Longrightarrow> lawful subs revs (es @ [a])"
    and mem: "\<And>es. mem_in mem es \<Longrightarrow> mem_in mem' (es @ [a])"
    and rids: "rids' \<subseteq> rids \<union> set (started_ids [a])"
  shows "disk_inv sha subs revs rids' mem' (f @ event_line a @ [newline])"
  using assms(1)
proof (cases rule: disk_inv_cases)
  case doomed
  then show ?thesis by (intro disk_inv_doomed doomed_append)
next
  case (clean es)
  have "rids' \<subseteq> set (started_ids (es @ [a]))" using rids clean(4) by (auto simp: started_ids_def)
  with clean assms(2) law mem disk_inv_clean [of "es @ [a]" subs revs rids' mem' sha] show ?thesis by simp
next
  case (torn es tail)
  have "newline \<notin> set tail" using printable_ends(1) [of tail] torn(5) by (simp add: torn_tail_def)
  with torn(5) obtain u where u: "tail = CHR ''{'' # u" "newline \<notin> set tail"
    by (auto simp: torn_tail_def)
  from torn_line_doomed [OF torn(2) assms(2) u] torn(1) show ?thesis by (simp add: disk_inv_doomed)
qed

section \<open>The effect of one append on memory and disk\<close>

lemma created_request_append:
  "created_request es rid = Some r \<Longrightarrow> created_request (es @ fs) rid = Some r"
  by (auto simp: created_request_def find_append split: option.splits)

lemma mem_in_same: "mem_in mem es \<Longrightarrow> mem_in mem (es @ [a])"
  by (auto simp: mem_in_def Rebuild_snoc result_bind_eq_Inr intro!: created_request_append)

lemma mem_in_Apply:
  assumes "mem_in (Some p) es" "Apply a p = Inr p'"
  shows "mem_in (Some p') (es @ [a])"
  unfolding mem_in_def
proof (intro allI impI)
  fix p1 q rid snap
  assume "Some p' = Some p1" and q: "Rebuild (es @ [a]) = Inr q" and s: "gget p1 rid = Some snap"
  then have s: "gget p' rid = Some snap" by simp
  from q obtain q0 where q0: "Rebuild es = Inr q0" "Apply a q0 = Inr q"
    by (auto simp: Rebuild_snoc result_bind_eq_Inr)
  have old: "gget p rid = Some x \<Longrightarrow> created_request (es @ [a]) rid = Some (snap_Request x)" for x
    using assms(1) q0(1) created_request_append by (fastforce simp: mem_in_def)
  from assms(2) show "created_request (es @ [a]) rid = Some (snap_Request snap)"
  proof (cases rule: Apply_cases)
    case (created r)
    show ?thesis
    proof (cases "rid = ev_RequestID a")
      case True
      from q0(2) created(1) have "gget q0 rid = None" using True by (cases rule: Apply_cases) auto
      then have "find (\<lambda>e. ev_Type e = TypeRequestCreated \<and> ev_RequestID e = rid) es = None"
        using Rebuild_created [OF q0(1)] by blast
      with created True s show ?thesis by (auto simp: created_request_def find_append)
    next
      case False
      with created s old show ?thesis by simp
    qed
  next
    case (existing x x')
    with s old show ?thesis by (cases "rid = ev_RequestID a") auto
  qed
qed

lemma lawful_backed:
  assumes "lawful subs revs es" "mem_in (Some p) es" "backed subs revs p e" "same_content a e"
  shows "lawful subs revs (es @ [a])"
proof (cases "Rebuild (es @ [a])")
  case (Inr q)
  then obtain q0 where "Rebuild es = Inr q0" by (auto simp: Rebuild_snoc result_bind_eq_Inr)
  with assms(2-4) have "lawful_event subs revs es a"
    by (fastforce simp: lawful_event_def backed_def same_content_def mem_in_def)
  with assms(1) show ?thesis by (rule lawful_snoc)
qed (rule lawful_dead)

section \<open>The invariant of a running service\<close>

definition launched_in :: "projection \<Rightarrow> string \<Rightarrow> bool" where
  "launched_in p rid \<longleftrightarrow> (\<exists>st. status_of p rid = Some st \<and> launched_status st)"

definition svc_ok :: "(string \<Rightarrow> string) \<Rightarrow> submissions \<Rightarrow> reviews \<Rightarrow> string set \<Rightarrow> service \<Rightarrow> bool" where
  "svc_ok sha subs revs rids s \<longleftrightarrow> subs_ok subs \<and> valid_utf8 (lg_lastHash (sv_log s))
     \<and> good subs revs (sv_projection s) \<and> (\<forall>rid \<in> rids. launched_in (sv_projection s) rid)
     \<and> disk_inv sha subs revs rids (Some (sv_projection s)) (lg_file (sv_log s))"

lemma svc_ok_mono:
  "svc_ok sha subs revs rids s \<Longrightarrow> subs_ok subs' \<Longrightarrow> subs \<subseteq> subs' \<Longrightarrow> revs \<subseteq> revs' \<Longrightarrow> svc_ok sha subs' revs' rids s"
  by (auto simp: svc_ok_def intro: good_mono disk_inv_mono)

lemma Apply_launched:
  assumes "Apply e p = Inr p'" "launched_in p rid"
  shows "launched_in p' rid"
  using assms(1)
proof (cases rule: Apply_cases)
  case (created r)
  with assms(2) show ?thesis by (auto simp: launched_in_def status_of_def)
next
  case (existing snap snap')
  with assms(2) launched_step(1) [OF existing(3)] show ?thesis
    by (auto simp: launched_in_def status_of_def)
qed

lemma Apply_started: "Apply e p = Inr p' \<Longrightarrow> ev_Type e = TypeExecutionStarted \<Longrightarrow> launched_in p' (ev_RequestID e)"
  by (erule Apply_cases) (auto simp: launched_in_def status_of_def launched_status_def)

definition new_start :: "event \<Rightarrow> string set" where
  "new_start e = (if ev_Type e = TypeExecutionStarted then {ev_RequestID e} else {})"

lemma same_content_started: "same_content a e \<Longrightarrow> set (started_ids [a]) = new_start e"
  by (simp add: same_content_def started_ids_def new_start_def)

lemma append_apply_ok:
  assumes inv: "svc_ok sha subs revs rids s" and e: "text_ok e" "backed subs revs (sv_projection s) e"
    and app: "append_apply sha w e s = (r, s')"
  shows "svc_ok sha subs revs rids s'"
    and "r = Inr () \<Longrightarrow> svc_ok sha subs revs (rids \<union> new_start e) s'"
proof -
  let ?p = "sv_projection s"
  obtain r0 l' where a0: "Append sha w e (sv_log s) = (r0, l')" by fastforce
  have hash: "valid_utf8 (lg_lastHash (sv_log s))" and disk: "disk_inv sha subs revs rids (Some ?p) (lg_file (sv_log s))"
    using inv by (simp_all add: svc_ok_def)
  have law: "lawful subs revs (es @ [a])" if "same_content a e" "lawful subs revs es" "mem_in (Some ?p) es" for a es
    using lawful_backed [OF that(2,3) e(2) that(1)] .
  from hash e(1) a0 have "svc_ok sha subs revs rids s' \<and> (r = Inr () \<longrightarrow> svc_ok sha subs revs (rids \<union> new_start e) s')"
  proof (cases rule: Append_outcomes)
    case (unchanged err)
    with app a0 inv show ?thesis by (auto simp: append_apply_def)
  next
    case (torn a n err)
    with app a0 have s': "s' = s\<lparr>sv_log := l'\<rparr>" "r = Inl err" by (auto simp: append_apply_def)
    have "disk_inv sha subs revs rids (Some ?p) (lg_file l')"
      using disk_inv_write_torn [OF disk torn(1) law] torn by simp
    with inv s' torn show ?thesis by (simp add: svc_ok_def)
  next
    case (unsynced a err)
    with app a0 have s': "s' = s\<lparr>sv_log := l'\<rparr>" "r = Inl err" by (auto simp: append_apply_def)
    have "disk_inv sha subs revs rids (Some ?p) (lg_file l')"
      using disk_inv_write_line [OF disk unsynced(1) law mem_in_same, where rids' = rids] unsynced by simp
    with inv s' unsynced show ?thesis by (simp add: svc_ok_def)
  next
    case (written a)
    have h: "valid_utf8 (ev_Hash a)" using written(1) by (simp add: event_ok_def)
    show ?thesis
    proof (cases "Apply a ?p")
      case (Inl err)
      with app a0 written have s': "s' = s\<lparr>sv_log := l'\<rparr>" "r = Inl err" by (auto simp: append_apply_def)
      have "disk_inv sha subs revs rids (Some ?p) (lg_file l')"
        using disk_inv_write_line [OF disk written(1) law mem_in_same, where rids' = rids] written by simp
      with inv s' written h show ?thesis by (simp add: svc_ok_def)
    next
      case (Inr p')
      with app a0 written have s': "s' = s\<lparr>sv_log := l', sv_projection := p'\<rparr>" by (auto simp: append_apply_def)
      have "disk_inv sha subs revs R (Some p') (lg_file l')" if "R \<subseteq> rids \<union> new_start e" for R
        using disk_inv_write_line [OF disk written(1) law mem_in_Apply [OF _ Inr], where rids' = R] written that
          same_content_started [OF written(2)] by simp
      moreover have "backed subs revs ?p a" using e(2) written(2) by (simp add: backed_def same_content_def)
      with inv Inr have "good subs revs p'" using Apply_good by (auto simp: svc_ok_def)
      moreover have "launched_in p' rid" if "rid \<in> rids \<union> new_start e" for rid
        using that inv Apply_launched [OF Inr] Apply_started [OF Inr] written(2)
        by (auto simp: svc_ok_def new_start_def same_content_def split: if_splits)
      ultimately show ?thesis using inv s' written h by (simp add: svc_ok_def)
    qed
  qed
  then show "svc_ok sha subs revs rids s'" and "r = Inr () \<Longrightarrow> svc_ok sha subs revs (rids \<union> new_start e) s'"
    by simp_all
qed

section \<open>Every operation keeps the invariant\<close>

lemma text_ok_new_event:
  "valid_utf8 rid \<Longrightarrow> utf8_actor a \<Longrightarrow> valid_utf8 t \<Longrightarrow> details_ok d \<Longrightarrow> text_ok (new_event rid a t d)"
  by (simp add: text_ok_def new_event_def zero_event_def)

lemma new_event_simps [simp]:
  "ev_RequestID (new_event rid a t d) = rid" "ev_Type (new_event rid a t d) = t"
  "ev_Details (new_event rid a t d) = d" "ev_Actor (new_event rid a t d) = a"
  by (simp_all add: new_event_def)

lemma utf8_broker_actor [simp]: "utf8_actor broker_actor"
  by (simp add: utf8_actor_def broker_actor_def byte_def)

lemma details_ok_None [simp]: "details_ok None"
  by (simp add: details_ok_def)

lemma details_ok_Marshal: "MarshalDetails v = Inr d \<Longrightarrow> details_ok d"
  by (cases d) (auto simp: details_ok_def dest: MarshalDetails_canonical)

lemma backed_other: "ev_Type e \<noteq> TypeRequestCreated \<Longrightarrow> ev_Type e \<noteq> TypeRequestApproved \<Longrightarrow> backed subs revs p e"
  by (simp add: backed_def)

lemma expire_ok:
  assumes "svc_ok sha subs revs rids s" "valid_utf8 rid" "expireIfNeededLocked sha now w rid s = (r, s')"
  shows "svc_ok sha subs revs rids s'"
  using assms append_apply_ok(1) [OF assms(1), of "new_event rid broker_actor TypeRequestExpired None" w r s']
  by (auto simp: expireIfNeededLocked_def text_ok_new_event backed_other byte_def split: option.splits if_splits)

lemma Status_ok:
  assumes "svc_ok sha subs revs rids s" "valid_utf8 rid" "Status sha now w rid s = (r, s')"
  shows "svc_ok sha subs revs rids s'"
  using assms expire_ok [OF assms(1,2)]
  by (auto simp: Status_def split: prod.splits sum.splits option.splits)

lemma Submit_ok:
  assumes "svc_ok sha subs revs rids s" and "Submit sha now rand nanos w input s = (r, s')"
    and "valid_utf8 (actorIDForPeer (si_Requester input))" "valid_utf8 (broker_randomID ''req'' rand nanos)"
    and sub: "si_Argv input \<noteq> [] \<Longrightarrow>
      (broker_randomID ''req'' rand nanos,
       build_request sha now (broker_randomID ''req'' rand nanos) (default_mode input) s) \<in> subs"
  shows "svc_ok sha subs revs rids s'"
proof (cases "si_Argv input = []")
  case True
  with assms(1,2) show ?thesis by (simp add: Submit_def)
next
  case False
  let ?rid = "broker_randomID ''req'' rand nanos"
  let ?r = "build_request sha now ?rid (default_mode input) s"
  let ?d = "Some (json_of_details (RequestCreatedDetails ?r))"
  let ?a = "\<lparr>actor_Kind = ''requester'', actor_ID = actorIDForPeer (si_Requester (default_mode input))\<rparr>"
  have "times_request ?r" using sub [OF False] assms(1) by (auto simp: svc_ok_def subs_ok_def)
  then have m: "MarshalDetails (Some (RequestCreatedDetails ?r)) = Inr ?d" by (simp add: MarshalDetails_def)
  have "si_Requester (default_mode input) = si_Requester input" by (simp add: default_mode_def)
  then have "text_ok (new_event ?rid ?a TypeRequestCreated ?d)"
    using assms(3,4) details_ok_Marshal [OF m]
    by (intro text_ok_new_event) (simp_all add: utf8_actor_def byte_def)
  moreover have "backed subs revs (sv_projection s) (new_event ?rid ?a TypeRequestCreated ?d)"
    using sub [OF False] by (auto simp: backed_def)
  ultimately show ?thesis
    using assms(2) False m append_apply_ok(1) [OF assms(1), of "new_event ?rid ?a TypeRequestCreated ?d" w]
    by (auto simp: Submit_def Let_def split: prod.splits sum.splits)
qed

lemma Approve_ok:
  assumes "svc_ok sha subs revs rids s" "Approve sha now w1 w2 input s = (r, s')"
    and "valid_utf8 (ri_RequestID input)" "utf8_actor (ri_Approver input)"
    and "(ri_RequestID input, ri_Approver input) \<in> revs"
  shows "svc_ok sha subs revs rids s'"
proof -
  let ?rid = "ri_RequestID input"
  obtain r1 s1 where e: "expireIfNeededLocked sha now w1 ?rid s = (r1, s1)" by fastforce
  have s1: "svc_ok sha subs revs rids s1" using expire_ok [OF assms(1,3) e] .
  let ?e = "new_event ?rid (ri_Approver input) TypeRequestApproved
    (Some (json_of_details (ApprovalDetails (ri_Approver input) (ri_ApprovalCode input))))"
  have m: "MarshalDetails (Some (ApprovalDetails (ri_Approver input) (ri_ApprovalCode input)))
      = Inr (Some (json_of_details (ApprovalDetails (ri_Approver input) (ri_ApprovalCode input))))"
    by (simp add: MarshalDetails_def)
  have t: "text_ok ?e"
    using assms(3,4) details_ok_Marshal [OF m] by (intro text_ok_new_event) (simp_all add: byte_def)
  have b: "backed subs revs (sv_projection s1) ?e"
    if "Get (sv_projection s1) ?rid = Some snap" "validateApprover (ri_Approver input) (req_Requester (snap_Request snap)) = None" for snap
    using that assms(5) unfolding backed_def Get_def by fastforce
  show ?thesis
    using assms(2) e s1 m append_apply_ok(1) [OF s1 t b, of _ w2]
    by (auto simp: Approve_def split: sum.splits option.splits if_splits prod.splits)
qed

lemma Deny_ok:
  assumes "svc_ok sha subs revs rids s" "Deny sha now w1 w2 input s = (r, s')"
    and "valid_utf8 (ri_RequestID input)" "utf8_actor (ri_Approver input)"
  shows "svc_ok sha subs revs rids s'"
proof -
  let ?rid = "ri_RequestID input"
  obtain r1 s1 where e: "expireIfNeededLocked sha now w1 ?rid s = (r1, s1)" by fastforce
  have s1: "svc_ok sha subs revs rids s1" using expire_ok [OF assms(1,3) e] .
  let ?e = "new_event ?rid (ri_Approver input) TypeRequestDenied
    (Some (json_of_details (DenialDetails (ri_Approver input) (ri_Reason input))))"
  have m: "MarshalDetails (Some (DenialDetails (ri_Approver input) (ri_Reason input)))
      = Inr (Some (json_of_details (DenialDetails (ri_Approver input) (ri_Reason input))))"
    by (simp add: MarshalDetails_def)
  have t: "text_ok ?e"
    using assms(3,4) details_ok_Marshal [OF m] by (intro text_ok_new_event) (simp_all add: byte_def)
  have b: "backed subs revs (sv_projection s1) ?e" by (simp add: backed_other)
  show ?thesis
    using assms(2) e s1 m append_apply_ok(1) [OF s1 t b, of w2]
    by (auto simp: Deny_def split: sum.splits option.splits if_splits prod.splits)
qed

lemma execute_begin_ok:
  assumes "svc_ok sha subs revs rids s" "valid_utf8 rid"
    and "execute_begin sha now w1 w2 rid s = (outcome, s')"
  shows "svc_ok sha subs revs rids s'"
    and "outcome = Launch req \<Longrightarrow> svc_ok sha subs revs (insert rid rids) s' \<and> rid \<notin> rids
           \<and> (rid, req) \<in> subs \<and> authorised revs rid req"
proof -
  obtain r1 s1 where e: "expireIfNeededLocked sha now w1 rid s = (r1, s1)" by fastforce
  have s1: "svc_ok sha subs revs rids s1" using expire_ok [OF assms(1,2) e] .
  define ev where "ev snap = new_event rid broker_actor TypeExecutionStarted
    (Some (json_of_details (ExecutionStartedDetails (sv_executor s1) (req_Digest (snap_Request snap)))))" for snap :: snapshot
  have m: "MarshalDetails (Some (ExecutionStartedDetails x d)) = Inr (Some (json_of_details (ExecutionStartedDetails x d)))" for x d
    by (simp add: MarshalDetails_def)
  have t: "text_ok (ev snap)" and b: "backed subs revs (sv_projection s1) (ev snap)"
    and n: "new_start (ev snap) = {rid}" for snap
    using assms(2) details_ok_Marshal [OF m]
    by (simp_all add: ev_def text_ok_new_event backed_other new_start_def byte_def)
  note ok = append_apply_ok [OF s1 t b, where w = w2]
  show "svc_ok sha subs revs rids s'"
    using assms(3) e s1
    by (auto simp: execute_begin_def m simp del: json_of_details.simps
        split: sum.splits option.splits if_splits prod.splits dest!: ok(1) [unfolded ev_def])
  assume l: "outcome = Launch req"
  obtain snap where snap: "Get (sv_projection s1) rid = Some snap" "snap_Status snap = StatusApproved"
    "snap_Request snap = req" and a: "append_apply sha w2 (ev snap) s1 = (Inr (), s')"
    using assms(3) e l
    by (auto simp: execute_begin_def ev_def m simp del: json_of_details.simps
        split: sum.splits option.splits if_splits prod.splits)
  have "rid \<notin> rids"
    using s1 snap by (auto simp: svc_ok_def launched_in_def status_of_def Get_def launched_status_def)
  moreover have "(rid, req) \<in> subs \<and> authorised revs rid req"
    using s1 snap by (auto simp: svc_ok_def good_def Get_def approved_status_def)
  ultimately show "svc_ok sha subs revs (insert rid rids) s' \<and> rid \<notin> rids \<and> (rid, req) \<in> subs \<and> authorised revs rid req"
    using ok(2) [OF a] n by simp
qed

lemma execute_finish_ok:
  assumes "svc_ok sha subs revs rids s" "valid_utf8 rid" "execute_finish sha w rid outcome s = (r, s')"
  shows "svc_ok sha subs revs rids s'"
proof (cases "MarshalDetails (Some (ExecutionFinishedDetails (fst outcome)))")
  case (Inl err)
  with assms(1,3) show ?thesis by (simp add: execute_finish_def)
next
  case (Inr d)
  have *: "svc_ok sha subs revs rids s2" if "append_apply sha w (new_event rid broker_actor t d) s = (r2, s2)"
    "t = TypeExecutionSucceeded \<or> t = TypeExecutionFailed" for t r2 s2
    using append_apply_ok(1) [OF assms(1) _ _ that(1)] that(2) assms(2) details_ok_Marshal [OF Inr]
    by (auto simp: text_ok_new_event backed_other byte_def)
  show ?thesis
    using assms(3) Inr
    by (auto simp: execute_finish_def Let_def split: sum.splits option.splits prod.splits intro: *)
qed

section \<open>Restart\<close>

lemma recover_loop_ok:
  "svc_ok sha subs revs rids s \<Longrightarrow> (\<And>snap. snap \<in> set snaps \<Longrightarrow> valid_utf8 (req_ID (snap_Request snap))) \<Longrightarrow>
   recover_loop sha ws snaps s = (r, s') \<Longrightarrow> svc_ok sha subs revs rids s'"
proof (induction snaps arbitrary: s)
  case (Cons snap snaps)
  show ?case
  proof (cases "snap_Status snap = StatusExecuting")
    case True
    have d: "details_ok (Some (json_of_details (RecoveryMarkedFailedDetails m)))" for m
      by (rule details_ok_Marshal [of "Some (RecoveryMarkedFailedDetails m)"]) (simp add: MarshalDetails_def)
    have t: "text_ok (recovery_event snap)"
      unfolding recovery_event_def using Cons.prems(2) [of snap] d
      by (intro text_ok_new_event) (simp_all add: byte_def del: json_of_details.simps)
    have b: "backed subs revs (sv_projection s) (recovery_event snap)"
      by (simp add: backed_other recovery_event_def)
    obtain r1 s1 where a: "append_apply sha (ws (req_ID (snap_Request snap))) (recovery_event snap) s = (r1, s1)"
      by fastforce
    have "svc_ok sha subs revs rids s1" using append_apply_ok(1) [OF Cons.prems(1) t b a] .
    with Cons.prems(2,3) True a Cons.IH [of s1] show ?thesis by (auto split: sum.splits)
  qed (use Cons in auto)
qed simp

lemma recover_ok:
  assumes "svc_ok sha subs revs rids s" "recoverExecutingLocked sha ws s = (r, s')"
  shows "svc_ok sha subs revs rids s'"
proof (rule recover_loop_ok [OF assms(1)])
  show "recover_loop sha ws (All (sv_projection s)) s = (r, s')"
    using assms(2) by (simp add: recoverExecutingLocked_def)
  fix snap assume "snap \<in> set (All (sv_projection s))"
  then obtain rid where "gget (sv_projection s) rid = Some snap" by (auto simp: set_All)
  then have "(rid, snap_Request snap) \<in> subs" using assms(1) by (auto simp: svc_ok_def good_def)
  then have "utf8_request (snap_Request snap)" using assms(1) by (auto simp: svc_ok_def subs_ok_def)
  then show "valid_utf8 (req_ID (snap_Request snap))" by (simp add: utf8_request_def)
qed

text \<open>What a start reads from the disk: the complete lines, and a torn line only if it is whole.\<close>

lemma replay_disk:
  assumes "list_all event_ok es" "tail = [] \<or> torn_tail subs revs es tail"
    and r: "replayUnlocked sha (file_lines event_line es @ tail) = Inr es'"
  shows "es' = es \<and> tail = [] \<or> (\<exists>e. es' = es @ [e] \<and> tail = event_line e \<and> event_ok e \<and> lawful subs revs (es @ [e]))"
proof -
  have from_es: "replay_from sha es tail = Inr es'"
    using replay_lines_then [OF assms(1), of sha] r by (auto simp: doomed_def) (metis Inl_Inr_False)
  show ?thesis
  proof (cases "tail = []")
    case True
    with from_es show ?thesis by (simp add: replay_from_def)
  next
    case False
    with assms(2) have t: "torn_tail subs revs es tail" by simp
    then have p: "newline \<notin> set tail" "drop_cr tail = tail"
      using printable_ends [of tail] by (simp_all add: torn_tail_def)
    have "scan_lines max_line tail = (if length tail < max_line then ([tail], False) else ([], True))"
      using p False IndexByte_None [of tail newline] by (subst scan_lines.simps) simp
    with from_es False obtain acc where "replay_line sha tail (es, last_hash es) = Inr acc" "es' = fst acc"
      by (auto simp: replay_from_def result_bind_eq_Inr split: if_splits)
    with False obtain e where "unmarshal_event tail = Some e" "es' = es @ [e]"
      by (auto simp: replay_line_def result_bind_eq_Inr split: option.splits if_splits)
    with t show ?thesis by (auto simp: torn_tail_def)
  qed
qed

lemma restart_ok:
  assumes "subs_ok subs" "disk_inv sha subs revs rids mem f" "replayUnlocked sha f = Inr es'" "Rebuild es' = Inr p"
    and s: "sv_log s = \<lparr>lg_file = f, lg_lastHash = last_hash es'\<rparr>" "sv_projection s = p"
  shows "svc_ok sha subs revs rids s"
proof -
  have hash: "valid_utf8 (last_hash es')"
    using chained_last_utf8 [OF replay_sound(1) [OF assms(3)]] .
  have *: "svc_ok sha subs revs rids s"
    if "lawful subs revs es'" "rids \<subseteq> set (started_ids es')" "disk_inv sha subs revs rids (Some p) f"
    using that hash s Rebuild_good [OF that(1) assms(1,4)] Rebuild_started [OF assms(4)] assms(1)
    by (auto simp: svc_ok_def launched_in_def)
  have mem: "mem_in (Some p) es'"
    unfolding mem_in_def using Rebuild_created [OF assms(4)] by (metis option.inject option.simps(9))
  from assms(2) show ?thesis
  proof (cases rule: disk_inv_cases)
    case doomed
    then show ?thesis using doomed_replay [of sha f] assms(3) by auto
  next
    case (clean es)
    then have "es' = es"
      using replay_disk [OF clean(2), of "[]" subs revs sha es'] assms(3) by (auto dest: ev.enc_last)
    with clean mem show ?thesis by (auto intro!: * disk_inv_clean)
  next
    case (torn es tail)
    have "es' = es \<and> tail = [] \<or> (\<exists>e. es' = es @ [e] \<and> tail = event_line e \<and> event_ok e \<and> lawful subs revs (es @ [e]))"
      using replay_disk [OF torn(2), of tail subs revs sha es'] torn(1,5) assms(3) by simp
    moreover have "tail \<noteq> []" using torn(5) by (auto simp: torn_tail_def)
    ultimately obtain e where e: "es' = es @ [e]" "lawful subs revs (es @ [e])" by blast
    then show ?thesis using torn disk_inv_torn [OF torn(2-5)] by (intro *) (auto split: if_splits)
  qed
qed

lemma NewService_ok:
  assumes "subs_ok subs" "disk_inv sha subs revs rids mem f"
    and "NewLog sha (Inr ()) (Inr f) = Inr l" "NewService sha ws executor ttl hostname l = (r, l')"
  shows "(case r of Inl _ \<Rightarrow> disk_inv sha subs revs rids None (lg_file l')
           | Inr s \<Rightarrow> svc_ok sha subs revs rids s \<and> sv_log s = l')"
proof -
  obtain es where es: "replayUnlocked sha f = Inr es" and l: "l = \<lparr>lg_file = f, lg_lastHash = last_hash es\<rparr>"
    using assms(3) by (auto simp: NewLog_def Replay_def result_bind_eq_Inr)
  have none: "disk_inv sha subs revs rids None g" if "disk_inv sha subs revs rids m g" for g m
    using that unfolding disk_inv_def mem_in_def by blast
  show ?thesis
  proof (cases "Rebuild es")
    case (Inl err)
    then show ?thesis using assms(2,4) es l none by (auto simp: NewService_def Replay_def)
  next
    case (Inr p)
    define s0 where "s0 = \<lparr>sv_log = l, sv_projection = p, sv_executor = executor, sv_ttl = ttl,
        sv_hostname = (case hostname of None \<Rightarrow> ''localhost'' | Some h \<Rightarrow> h)\<rparr>"
    obtain r1 s1 where rec: "recoverExecutingLocked sha ws s0 = (r1, s1)" by fastforce
    have "svc_ok sha subs revs rids s0"
      using restart_ok [OF assms(1,2) es Inr, of s0] l by (simp add: s0_def)
    then have "svc_ok sha subs revs rids s1" using rec by (rule recover_ok)
    moreover have "NewService sha ws executor ttl hostname l
        = (case r1 of Inl err \<Rightarrow> (Inl err, sv_log s1) | Inr _ \<Rightarrow> (Inr s1, sv_log s1))"
      using es l Inr rec by (simp add: NewService_def Replay_def s0_def split: sum.splits)
    ultimately show ?thesis
      using assms(4) none by (auto simp: svc_ok_def split: sum.splits)
  qed
qed

end
