(* ===== verification/Broker_Behaviour.thy ===== *)
theory Broker_Behaviour
  imports Broker_Disk
begin

text \<open>
  What the broker's methods do, branch by branch: submission, review verdicts, expiry, the two
  halves of an execution, recovery after a restart, and what the request digest binds.
\<close>

section \<open>A successful append\<close>

definition healthy :: "io \<Rightarrow> bool" where
  "healthy w \<longleftrightarrow> io_fs w = FsOk \<and> time_ok (io_now w)"

lemma append_apply_healthy:
  assumes "valid_utf8 (lg_lastHash (sv_log s))" "text_ok e" "healthy w"
    and "Apply (appended sha w (sv_log s) e) (sv_projection s) = Inr p"
  shows "\<exists>s'. append_apply sha w e s = (Inr (), s') \<and> sv_projection s' = p
    \<and> valid_utf8 (lg_lastHash (sv_log s')) \<and> sv_ttl s' = sv_ttl s \<and> sv_hostname s' = sv_hostname s
    \<and> sv_executor s' = sv_executor s"
proof -
  have ok: "append_ok w e" using assms(2,3) by (simp add: append_ok_def text_ok_def healthy_def)
  have "event_ok (appended sha w (sv_log s) e)" using appended_ok(1) [OF assms(1) ok] .
  then show ?thesis
    using Append_cases [OF assms(1) ok, of sha] assms(3,4)
    by (simp add: append_apply_def healthy_def Let_def event_ok_def)
qed

text \<open>The snapshot after an event that \<open>Apply\<close> accepts.\<close>

definition stamped :: "event \<Rightarrow> snapshot \<Rightarrow> snapshot" where
  "stamped e snap = snap\<lparr>snap_LastEventType := ev_Type e, snap_LastEventAt := ev_Timestamp e,
     snap_LastEventHash := ev_Hash e\<rparr>"

lemma Apply_existing_ok:
  assumes "gget p (ev_RequestID e) = Some snap" "ev_Type e \<noteq> TypeRequestCreated" "apply_existing e snap = Inr snap'"
  shows "Apply e p = Inr (gput (ev_RequestID e) (stamped e snap') p)"
  using assms by (simp add: Apply_def Let_def stamped_def)

section \<open>Submission\<close>

lemma Submit_healthy:
  assumes "valid_utf8 (lg_lastHash (sv_log s))" "healthy w" "si_Argv input \<noteq> []"
    and "valid_utf8 (actorIDForPeer (si_Requester input))"
    and rid: "rid = broker_randomID ''req'' rand nanos" "Get (sv_projection s) rid = None"
    and r: "r = build_request sha now rid (default_mode input) s" "utf8_request r" "times_request r"
  shows "\<exists>s' snap. Submit sha now rand nanos w input s = (Inr (FromSnapshot snap ''Approval required''), s')
    \<and> Get (sv_projection s') rid = Some snap \<and> snap_Request snap = r \<and> snap_Status snap = StatusPending
    \<and> (\<forall>k. k = rid \<or> Get (sv_projection s') k = Get (sv_projection s) k)
    \<and> valid_utf8 (lg_lastHash (sv_log s')) \<and> snap_Execution snap = None"
proof -
  let ?a = "\<lparr>actor_Kind = ''requester'', actor_ID = actorIDForPeer (si_Requester (default_mode input))\<rparr>"
  let ?d = "Some (json_of_details (RequestCreatedDetails r))"
  let ?e = "new_event rid ?a TypeRequestCreated ?d"
  have m: "MarshalDetails (Some (RequestCreatedDetails r)) = Inr ?d" using r(3) by (simp add: MarshalDetails_def)
  have dm: "si_Requester (default_mode input) = si_Requester input" by (simp add: default_mode_def)
  have vr: "valid_utf8 rid" by (auto simp: rid(1) broker_randomID_def byte_def split: option.splits)
  have t: "text_ok ?e"
    using assms(4) details_ok_Marshal [OF m] vr dm by (intro text_ok_new_event) (simp_all add: utf8_actor_def byte_def)
  let ?A = "appended sha w (sv_log s) ?e"
  have "Apply ?A (sv_projection s) = Inr (gput rid (created_snapshot ?A r) (sv_projection s))"
    using rid(2) unmarshal_created [OF r(2,3)] by (simp add: Apply_def Get_def Let_def)
  from append_apply_healthy [OF assms(1) t assms(2) this] obtain s' where s':
    "append_apply sha w ?e s = (Inr (), s')" "sv_projection s' = gput rid (created_snapshot ?A r) (sv_projection s)"
    "valid_utf8 (lg_lastHash (sv_log s'))" by blast
  then have "Submit sha now rand nanos w input s = (Inr (FromSnapshot (created_snapshot ?A r) ''Approval required''), s')"
    using assms(3) m by (simp add: Submit_def Let_def rid(1) [symmetric] r(1) [symmetric] answer_def Get_def)
  with s' show ?thesis by (auto simp: Get_def created_snapshot_def)
qed

text \<open>
  C27 (submission). A submission with a non-empty argv, a fresh id and working storage answers
  "pending", stores under its id exactly the request built from the submitted argv, reason, mode,
  requester, host and normalised directory, expiring one TTL after now, and touches no other
  request. An empty argv is answered with an error and changes nothing.
\<close>

theorem submit_creates_pending:
  assumes "valid_utf8 (lg_lastHash (sv_log s))" "healthy w"
    and "valid_utf8 (actorIDForPeer (si_Requester input))"
    and "rid = broker_randomID ''req'' rand nanos" "Get (sv_projection s) rid = None"
    and "r = build_request sha now rid (default_mode input) s" "utf8_request r" "times_request r"
  shows "if si_Argv input = []
    then Submit sha now rand nanos w input s =
      (Inr (zero_response\<lparr>rs_Status := ''error'', rs_Message := ''argv is required''\<rparr>), s)
    else \<exists>s' resp snap. Submit sha now rand nanos w input s = (Inr resp, s')
      \<and> rs_Status resp = ''pending'' \<and> rs_RequestID resp = rid \<and> rs_Digest resp = req_Digest r
      \<and> Get (sv_projection s') rid = Some snap \<and> snap_Status snap = StatusPending \<and> snap_Request snap = r
      \<and> req_Argv r = si_Argv input \<and> spec_Argv (req_Spec r) = si_Argv input
      \<and> req_Requester r = si_Requester input \<and> req_ExpiresAt r = now + sv_ttl s
      \<and> (\<forall>k. k = rid \<or> Get (sv_projection s') k = Get (sv_projection s) k)"
proof (cases "si_Argv input = []")
  case True
  then show ?thesis by (simp add: Submit_def)
next
  case False
  from Submit_healthy [OF assms(1,2) False assms(3-8)] obtain s' snap where
    "Submit sha now rand nanos w input s = (Inr (FromSnapshot snap ''Approval required''), s')"
    "Get (sv_projection s') rid = Some snap" "snap_Request snap = r" "snap_Status snap = StatusPending"
    "\<forall>k. k = rid \<or> Get (sv_projection s') k = Get (sv_projection s) k" by blast
  moreover have "req_ID r = rid" "req_Argv r = si_Argv input" "spec_Argv (req_Spec r) = si_Argv input"
    "req_Requester r = si_Requester input" "req_ExpiresAt r = now + sv_ttl s"
    by (simp_all add: assms(6) build_request_def BuildExecutionSpec_def default_mode_def Let_def)
  moreover have "rs_Status (FromSnapshot snap m) = status_string (snap_Status snap)
      \<and> rs_RequestID (FromSnapshot snap m) = req_ID (snap_Request snap)
      \<and> rs_Digest (FromSnapshot snap m) = req_Digest (snap_Request snap)" for m
    by (simp add: FromSnapshot_def Let_def split: option.splits)
  ultimately show ?thesis using False by auto
qed

section \<open>Expiry\<close>

definition expires :: "time \<Rightarrow> snapshot \<Rightarrow> bool" where
  "expires now snap \<longleftrightarrow> snap_Status snap = StatusPending \<and> \<not> now < req_ExpiresAt (snap_Request snap)"

lemma apply_existing_expired:
  "ev_Type e = TypeRequestExpired \<Longrightarrow> snap_Status snap = StatusPending \<Longrightarrow>
   apply_existing e snap = Inr (snap\<lparr>snap_Status := StatusExpired\<rparr>)"
  by (simp add: apply_existing_def)

lemma expire_healthy:
  assumes "valid_utf8 (lg_lastHash (sv_log s))" "healthy w" "valid_utf8 rid"
  shows "\<exists>s'. expireIfNeededLocked sha now w rid s = (Inr (), s') \<and> valid_utf8 (lg_lastHash (sv_log s'))
    \<and> sv_executor s' = sv_executor s
    \<and> (case Get (sv_projection s) rid of
         None \<Rightarrow> s' = s
       | Some snap \<Rightarrow> (if expires now snap
           then \<exists>e. Get (sv_projection s') rid = Some (stamped e (snap\<lparr>snap_Status := StatusExpired\<rparr>))
           else s' = s))
    \<and> (\<forall>k. k = rid \<or> Get (sv_projection s') k = Get (sv_projection s) k)"
proof (cases "\<exists>snap. Get (sv_projection s) rid = Some snap \<and> expires now snap")
  case False
  then show ?thesis
    using assms(1) by (auto simp: expireIfNeededLocked_def expires_def split: option.splits)
next
  case True
  then obtain snap where snap: "Get (sv_projection s) rid = Some snap" "expires now snap" by blast
  let ?e = "new_event rid broker_actor TypeRequestExpired None"
  let ?A = "appended sha w (sv_log s) ?e"
  have t: "text_ok ?e" using assms(3) by (intro text_ok_new_event) (simp_all add: byte_def)
  have "Apply ?A (sv_projection s) = Inr (gput rid (stamped ?A (snap\<lparr>snap_Status := StatusExpired\<rparr>)) (sv_projection s))"
    using snap Apply_existing_ok [of "sv_projection s" ?A snap] apply_existing_expired [of ?A snap]
    by (simp add: Get_def expires_def)
  from append_apply_healthy [OF assms(1) t assms(2) this] show ?thesis
    using snap by (auto simp: expireIfNeededLocked_def expires_def Get_def)
qed

section \<open>Review\<close>

text \<open>The state of a request after a review, and the status the reviewer is told.\<close>

definition review_status :: "time \<Rightarrow> actor \<Rightarrow> status \<Rightarrow> snapshot \<Rightarrow> status" where
  "review_status now a granted snap =
     (if snap_Status snap \<noteq> StatusPending then snap_Status snap
      else if \<not> now < req_ExpiresAt (snap_Request snap) then StatusExpired
      else if validateApprover a (req_Requester (snap_Request snap)) \<noteq> None then StatusPending
      else granted)"

definition review_verdict :: "time \<Rightarrow> actor \<Rightarrow> status \<Rightarrow> snapshot option \<Rightarrow> string" where
  "review_verdict now a granted found = (case found of
     None \<Rightarrow> ''error''
   | Some snap \<Rightarrow>
       (if snap_Status snap = StatusPending \<and> now < req_ExpiresAt (snap_Request snap)
           \<and> validateApprover a (req_Requester (snap_Request snap)) \<noteq> None
        then ''rejected'' else status_string (review_status now a granted snap)))"

definition reviewed ::
    "time \<Rightarrow> actor \<Rightarrow> status \<Rightarrow> string \<Rightarrow> service \<Rightarrow> response result \<times> service \<Rightarrow> bool" where
  "reviewed now a granted rid s out \<longleftrightarrow>
     (\<exists>resp s'. out = (Inr resp, s')
        \<and> rs_Status resp = review_verdict now a granted (Get (sv_projection s) rid)
        \<and> status_of (sv_projection s') rid = map_option (review_status now a granted) (Get (sv_projection s) rid)
        \<and> (\<forall>k. k = rid \<or> Get (sv_projection s') k = Get (sv_projection s) k))"

lemma FromSnapshot_status [simp]: "rs_Status (FromSnapshot snap m) = status_string (snap_Status snap)"
  by (simp add: FromSnapshot_def Let_def split: option.splits)

lemma stamped_simps [simp]:
  "snap_Status (stamped e snap) = snap_Status snap" "snap_Request (stamped e snap) = snap_Request snap"
  by (simp_all add: stamped_def)

lemma apply_existing_review:
  assumes "snap_Status snap = StatusPending" "utf8_actor a" "valid_utf8 c"
  shows "ev_Type e = TypeRequestApproved \<Longrightarrow> ev_Details e = Some (json_of_details (ApprovalDetails a c)) \<Longrightarrow>
      apply_existing e snap = Inr (snap\<lparr>snap_Status := StatusApproved, snap_Approver := Some a\<rparr>)"
    and "ev_Type e = TypeRequestDenied \<Longrightarrow> ev_Details e = Some (json_of_details (DenialDetails a c)) \<Longrightarrow>
      apply_existing e snap = Inr (snap\<lparr>snap_Status := StatusDenied, snap_Approver := Some a, snap_DenyReason := c\<rparr>)"
  using assms by (simp_all add: apply_existing_def unmarshal_approval unmarshal_denial del: json_of_details.simps)

text \<open>The granted case: the answer shows the approved snapshot, which is what is stored.\<close>

lemma Approve_granted:
  assumes "valid_utf8 (lg_lastHash (sv_log s))" "healthy w2" "valid_utf8 (ri_RequestID input)"
    "utf8_actor (ri_Approver input)" "valid_utf8 (ri_ApprovalCode input)"
    and snap: "Get (sv_projection s) (ri_RequestID input) = Some snap" "snap_Status snap = StatusPending"
      "now < req_ExpiresAt (snap_Request snap)" "validateApprover (ri_Approver input) (req_Requester (snap_Request snap)) = None"
  shows "\<exists>e s'. let snap' = stamped e (snap\<lparr>snap_Status := StatusApproved, snap_Approver := Some (ri_Approver input)\<rparr>) in
    Approve sha now w1 w2 input s = (Inr (FromSnapshot snap' ''request approved''), s')
    \<and> sv_projection s' = gput (ri_RequestID input) snap' (sv_projection s) \<and> valid_utf8 (lg_lastHash (sv_log s'))"
proof -
  let ?rid = "ri_RequestID input" and ?a = "ri_Approver input" and ?c = "ri_ApprovalCode input"
  let ?d = "Some (json_of_details (ApprovalDetails ?a ?c))"
  let ?e = "new_event ?rid ?a TypeRequestApproved ?d"
  let ?A = "appended sha w2 (sv_log s) ?e"
  let ?snap = "stamped ?A (snap\<lparr>snap_Status := StatusApproved, snap_Approver := Some ?a\<rparr>)"
  have m: "MarshalDetails (Some (ApprovalDetails ?a ?c)) = Inr ?d" by (simp add: MarshalDetails_def)
  have t: "text_ok ?e"
    using assms(3,4) details_ok_Marshal [OF m] by (intro text_ok_new_event) (simp_all add: byte_def)
  have "Apply ?A (sv_projection s) = Inr (gput ?rid ?snap (sv_projection s))"
    using snap(1) apply_existing_review(1) [OF snap(2) assms(4,5), of ?A]
      Apply_existing_ok [of "sv_projection s" ?A snap] by (simp add: Get_def)
  from append_apply_healthy [OF assms(1) t assms(2) this] obtain s' where
    "append_apply sha w2 ?e s = (Inr (), s')" "valid_utf8 (lg_lastHash (sv_log s'))"
    "sv_projection s' = gput ?rid ?snap (sv_projection s)" by blast
  moreover have "expireIfNeededLocked sha now w1 ?rid s = (Inr (), s)"
    using snap by (simp add: expireIfNeededLocked_def)
  ultimately show ?thesis
    using snap m by (intro exI [of _ ?A] exI [of _ s']) (simp add: Approve_def answer_def Get_def)
qed

lemma Approve_healthy:
  assumes "valid_utf8 (lg_lastHash (sv_log s))" "healthy w1" "healthy w2" "valid_utf8 (ri_RequestID input)"
    "utf8_actor (ri_Approver input)" "valid_utf8 (ri_ApprovalCode input)"
  shows "\<exists>resp s'. Approve sha now w1 w2 input s = (Inr resp, s')
    \<and> reviewed now (ri_Approver input) StatusApproved (ri_RequestID input) s (Inr resp, s')
    \<and> valid_utf8 (lg_lastHash (sv_log s'))
    \<and> (\<forall>snap. Get (sv_projection s) (ri_RequestID input) = Some snap \<longrightarrow>
         (\<exists>snap'. Get (sv_projection s') (ri_RequestID input) = Some snap' \<and> snap_Request snap' = snap_Request snap))"
proof -
  let ?rid = "ri_RequestID input" and ?a = "ri_Approver input" and ?c = "ri_ApprovalCode input"
  from expire_healthy [OF assms(1,2,4), of sha now] obtain s1 where s1:
    "expireIfNeededLocked sha now w1 ?rid s = (Inr (), s1)" "valid_utf8 (lg_lastHash (sv_log s1))"
    "case Get (sv_projection s) ?rid of None \<Rightarrow> s1 = s
       | Some snap \<Rightarrow> (if expires now snap
           then \<exists>e. Get (sv_projection s1) ?rid = Some (stamped e (snap\<lparr>snap_Status := StatusExpired\<rparr>)) else s1 = s)"
    "\<forall>k. k = ?rid \<or> Get (sv_projection s1) k = Get (sv_projection s) k" by blast
  show ?thesis
  proof (cases "Get (sv_projection s) ?rid")
    case None
    with s1 show ?thesis
      by (auto simp: Approve_def reviewed_def review_verdict_def not_found_def status_of_def Get_def)
  next
    case (Some snap)
    show ?thesis
    proof (cases "snap_Status snap \<noteq> StatusPending \<or> expires now snap
        \<or> validateApprover ?a (req_Requester (snap_Request snap)) \<noteq> None")
      case True
      with s1 Some show ?thesis
        by (cases "expires now snap")
           (auto simp: Approve_def reviewed_def review_verdict_def review_status_def expires_def
             status_of_def Get_def split: option.splits)
    next
      case False
      then have s: "s1 = s" "snap_Status snap = StatusPending"
        "validateApprover ?a (req_Requester (snap_Request snap)) = None" "now < req_ExpiresAt (snap_Request snap)"
        using s1(3) Some by (auto simp: expires_def)
      from Approve_granted [OF assms(1,3-6) Some s(2,4,3), of sha w1] show ?thesis
        using s Some
        by (auto simp: reviewed_def review_verdict_def review_status_def status_of_def Get_def Let_def)
    qed
  qed
qed

lemma Deny_healthy:
  assumes "valid_utf8 (lg_lastHash (sv_log s))" "healthy w1" "healthy w2" "valid_utf8 (ri_RequestID input)"
    "utf8_actor (ri_Approver input)" "valid_utf8 (ri_Reason input)"
  shows "reviewed now (ri_Approver input) StatusDenied (ri_RequestID input) s (Deny sha now w1 w2 input s)"
proof -
  let ?rid = "ri_RequestID input" and ?a = "ri_Approver input" and ?c = "ri_Reason input"
  from expire_healthy [OF assms(1,2,4), of sha now] obtain s1 where s1:
    "expireIfNeededLocked sha now w1 ?rid s = (Inr (), s1)" "valid_utf8 (lg_lastHash (sv_log s1))"
    "case Get (sv_projection s) ?rid of None \<Rightarrow> s1 = s
       | Some snap \<Rightarrow> (if expires now snap
           then \<exists>e. Get (sv_projection s1) ?rid = Some (stamped e (snap\<lparr>snap_Status := StatusExpired\<rparr>)) else s1 = s)"
    "\<forall>k. k = ?rid \<or> Get (sv_projection s1) k = Get (sv_projection s) k" by blast
  show ?thesis
  proof (cases "Get (sv_projection s) ?rid")
    case None
    with s1 show ?thesis
      by (auto simp: Deny_def reviewed_def review_verdict_def not_found_def status_of_def Get_def)
  next
    case (Some snap)
    show ?thesis
    proof (cases "snap_Status snap \<noteq> StatusPending \<or> expires now snap
        \<or> validateApprover ?a (req_Requester (snap_Request snap)) \<noteq> None")
      case True
      with s1 Some show ?thesis
        by (cases "expires now snap")
           (auto simp: Deny_def reviewed_def review_verdict_def review_status_def expires_def
             status_of_def Get_def split: option.splits)
    next
      case False
      then have s: "s1 = s" "snap_Status snap = StatusPending"
        "validateApprover ?a (req_Requester (snap_Request snap)) = None" "now < req_ExpiresAt (snap_Request snap)"
        using s1(3) Some by (auto simp: expires_def)
      let ?d = "Some (json_of_details (DenialDetails ?a ?c))"
      let ?e = "new_event ?rid ?a TypeRequestDenied ?d"
      let ?A = "appended sha w2 (sv_log s) ?e"
      have m: "MarshalDetails (Some (DenialDetails ?a ?c)) = Inr ?d" by (simp add: MarshalDetails_def)
      have t: "text_ok ?e"
        using assms(4,5) details_ok_Marshal [OF m] by (intro text_ok_new_event) (simp_all add: byte_def)
      have "Apply ?A (sv_projection s) = Inr (gput ?rid (stamped ?A
          (snap\<lparr>snap_Status := StatusDenied, snap_Approver := Some ?a, snap_DenyReason := ?c\<rparr>)) (sv_projection s))"
        using Some apply_existing_review(2) [OF s(2) assms(5,6), of ?A]
          Apply_existing_ok [of "sv_projection s" ?A snap] by (simp add: Get_def)
      from append_apply_healthy [OF assms(1) t assms(3) this] s1(1) s Some m show ?thesis
        by (auto simp: Deny_def reviewed_def review_verdict_def review_status_def answer_def
            status_of_def Get_def)
    qed
  qed
qed

text \<open>
  C24 (review verdicts). With working storage, \<open>Approve\<close> and \<open>Deny\<close> decide exactly by the
  specification: unknown request, error; not pending, the current status; past its expiry, it is
  expired now; an approver that is missing or is the requester, rejected and still pending;
  otherwise approved or denied. The answer reports the verdict and no other request changes. So any
  approver name that is not one of the requester's is accepted: the service knows no approver set and does
  not look at the approval code, against \<open>CONTEXT.md\<close>, ADR-0002 (T6) and section 8 of \<open>PROTOCOL.md\<close>, which
  have the broker accept only members of the requester's approver set and check the token. Who may
  ask at all is decided by the review socket (\<open>verdicts_only_on_review_lane\<close>).
\<close>

theorem review_verdicts:
  assumes "valid_utf8 (lg_lastHash (sv_log s))" "healthy w1" "healthy w2"
    and "valid_utf8 (ri_RequestID input)" "utf8_actor (ri_Approver input)"
    and "valid_utf8 (ri_ApprovalCode input)" "valid_utf8 (ri_Reason input)"
  shows "reviewed now (ri_Approver input) StatusApproved (ri_RequestID input) s (Approve sha now w1 w2 input s)
       \<and> reviewed now (ri_Approver input) StatusDenied (ri_RequestID input) s (Deny sha now w1 w2 input s)"
  using Approve_healthy [OF assms(1-6), of sha now] Deny_healthy [OF assms(1-5,7), of now sha] by auto

section \<open>Approval under failing storage\<close>

text \<open>Whatever the storage does, the projection changes only by an accepted event.\<close>

lemma validateApprover_None:
  "validateApprover a q = None \<longleftrightarrow> actor_Kind a \<noteq> [] \<and> actor_ID a \<noteq> [] \<and> actor_ID a \<noteq> peer_Username q
     \<and> actor_ID a \<noteq> string_of_nat (unat (peer_UID q)) \<and> actor_ID a \<noteq> ''uid:'' @ string_of_nat (unat (peer_UID q))"
  by (auto simp: validateApprover_def Let_def)

lemma append_apply_effect:
  assumes "append_apply sha w e s = (r, s')"
  shows "sv_projection s' = sv_projection s \<and> (\<exists>err. r = Inl err)
    \<or> r = Inr () \<and> (\<exists>a. same_content a e \<and> Apply a (sv_projection s) = Inr (sv_projection s'))"
proof (cases "Append sha w e (sv_log s)")
  case (Pair r0 l)
  then show ?thesis
    using assms Append_success [of sha w e "sv_log s" _ l]
    by (auto simp: append_apply_def split: sum.splits)
qed

lemma Apply_status_approved:
  assumes "Apply a p = Inr p'" "gget p rid = Some snap" "gget p' rid = Some snap'"
    "snap_Status snap' = StatusApproved" "snap_Status snap \<noteq> StatusApproved"
  shows "ev_Type a = TypeRequestApproved \<and> ev_RequestID a = rid"
  using assms(1)
proof (cases rule: Apply_cases)
  case (created r)
  with assms show ?thesis by (auto split: if_splits)
next
  case (existing x x')
  with assms show ?thesis by (cases "rid = ev_RequestID a") auto
qed

lemma Apply_request_same:
  "Apply a p = Inr p' \<Longrightarrow> gget p rid = Some snap \<Longrightarrow> gget p' rid = Some snap' \<Longrightarrow> snap_Request snap' = snap_Request snap"
  using Apply_request by fastforce

lemma expire_effect:
  assumes "expireIfNeededLocked sha now w rid s = (r, s1)" "gget (sv_projection s) rid = Some snap"
    "snap_Status snap = StatusPending"
  shows "sv_projection s1 = sv_projection s \<and> (now < req_ExpiresAt (snap_Request snap) \<or> (\<exists>err. r = Inl err))
    \<or> status_of (sv_projection s1) rid = Some StatusExpired"
proof (cases "now < req_ExpiresAt (snap_Request snap)")
  case True
  with assms show ?thesis by (simp add: expireIfNeededLocked_def Get_def)
next
  case False
  with assms have a: "append_apply sha w (new_event rid broker_actor TypeRequestExpired None) s = (r, s1)"
    by (simp add: expireIfNeededLocked_def Get_def)
  have "status_of (sv_projection s1) rid = Some StatusExpired"
    if "same_content b (new_event rid broker_actor TypeRequestExpired None)" "Apply b (sv_projection s) = Inr (sv_projection s1)" for b
  proof -
    have b: "ev_Type b = TypeRequestExpired" "ev_RequestID b = rid" using that(1) by (simp_all add: same_content_def)
    then have "sv_projection s1 = gput rid (stamped b (snap\<lparr>snap_Status := StatusExpired\<rparr>)) (sv_projection s)"
      using assms(2) that(2) Apply_existing_ok [of "sv_projection s" b snap]
        apply_existing_expired [OF b(1) assms(3)] by simp
    then show ?thesis by (simp add: status_of_def)
  qed
  with append_apply_effect [OF a] show ?thesis by blast
qed

text \<open>
  No approval without authority. Whatever the storage does: if \<open>Approve\<close> turns a pending
  request into an approved one, then the request had not expired, the approver has a kind and an
  id, and the id is neither the requester's user name nor the requester's uid in either spelling.
\<close>

theorem approval_requires_authority:
  assumes "Get (sv_projection s) (ri_RequestID input) = Some snap" "snap_Status snap = StatusPending"
    and "Approve sha now w1 w2 input s = (r, s')"
    and "Get (sv_projection s') (ri_RequestID input) = Some snap'" "snap_Status snap' = StatusApproved"
  shows "now < req_ExpiresAt (snap_Request snap)
    \<and> actor_Kind (ri_Approver input) \<noteq> [] \<and> actor_ID (ri_Approver input) \<noteq> []
    \<and> actor_ID (ri_Approver input) \<noteq> peer_Username (req_Requester (snap_Request snap))
    \<and> actor_ID (ri_Approver input) \<noteq> string_of_nat (unat (peer_UID (req_Requester (snap_Request snap))))
    \<and> actor_ID (ri_Approver input) \<noteq> ''uid:'' @ string_of_nat (unat (peer_UID (req_Requester (snap_Request snap))))
    \<and> snap_Request snap' = snap_Request snap"
proof -
  let ?rid = "ri_RequestID input"
  obtain r1 s1 where e: "expireIfNeededLocked sha now w1 ?rid s = (r1, s1)" by fastforce
  have g: "gget (sv_projection s) ?rid = Some snap" "gget (sv_projection s') ?rid = Some snap'"
    using assms(1,4) by (simp_all add: Get_def)
  from expire_effect [OF e g(1) assms(2)] show ?thesis
  proof
    assume "status_of (sv_projection s1) ?rid = Some StatusExpired"
    then obtain x where "gget (sv_projection s1) ?rid = Some x" "snap_Status x = StatusExpired"
      by (auto simp: status_of_def)
    then show ?thesis
      using assms(3,5) e g by (auto simp: Approve_def Get_def split: sum.splits)
  next
    assume p: "sv_projection s1 = sv_projection s
      \<and> (now < req_ExpiresAt (snap_Request snap) \<or> (\<exists>err. r1 = Inl err))"
    have v: "validateApprover (ri_Approver input) (req_Requester (snap_Request snap)) = None" and r1: "r1 = Inr ()"
      using assms(2,3,5) e g p
      by (auto simp: Approve_def Get_def split: sum.splits option.splits)
    then obtain d r2 where "append_apply sha w2 (new_event ?rid (ri_Approver input) TypeRequestApproved d) s1 = (r2, s')"
      using assms(2,3,5) e g p by (auto simp: Approve_def Get_def split: sum.splits prod.splits)
    from append_apply_effect [OF this] have "snap_Request snap' = snap_Request snap"
    proof
      assume "sv_projection s' = sv_projection s1 \<and> (\<exists>err. r2 = Inl err)"
      with p g show ?thesis by simp
    next
      assume "r2 = Inr () \<and> (\<exists>a. same_content a (new_event ?rid (ri_Approver input) TypeRequestApproved d)
        \<and> Apply a (sv_projection s1) = Inr (sv_projection s'))"
      then obtain b where "Apply b (sv_projection s) = Inr (sv_projection s')" using p by auto
      from Apply_request_same [OF this g] show ?thesis .
    qed
    moreover have "now < req_ExpiresAt (snap_Request snap)" using p r1 by auto
    ultimately show ?thesis using v by (simp add: validateApprover_None)
  qed
qed

section \<open>Execution\<close>

lemma apply_existing_execution:
  "ev_Type e = TypeExecutionStarted \<Longrightarrow> snap_Status snap = StatusApproved \<Longrightarrow>
   apply_existing e snap = Inr (snap\<lparr>snap_Status := StatusExecuting\<rparr>)"
  by (simp add: apply_existing_def)

lemma apply_existing_finished:
  assumes "snap_Status snap = StatusExecuting" "utf8_result x" "times_result x"
    and "ev_Details e = Some (json_of_details (ExecutionFinishedDetails x))"
  shows "ev_Type e = TypeExecutionSucceeded \<Longrightarrow>
      apply_existing e snap = Inr (snap\<lparr>snap_Status := StatusExecuted, snap_Execution := Some x\<rparr>)"
    and "ev_Type e = TypeExecutionFailed \<Longrightarrow>
      apply_existing e snap = Inr (snap\<lparr>snap_Execution := Some x, snap_Status := StatusFailed\<rparr>)"
  using assms by (simp_all add: apply_existing_def unmarshal_finished del: json_of_details.simps)

lemma execute_begin_healthy:
  assumes "valid_utf8 (lg_lastHash (sv_log s))" "healthy w2" "valid_utf8 rid"
    and "Get (sv_projection s) rid = Some snap" "snap_Status snap = StatusApproved"
  shows "\<exists>s' e. execute_begin sha now w1 w2 rid s = (Launch (snap_Request snap), s')
    \<and> Get (sv_projection s') rid = Some (stamped e (snap\<lparr>snap_Status := StatusExecuting\<rparr>))
    \<and> valid_utf8 (lg_lastHash (sv_log s')) \<and> (\<forall>k. k = rid \<or> Get (sv_projection s') k = Get (sv_projection s) k)"
proof -
  let ?d = "Some (json_of_details (ExecutionStartedDetails (sv_executor s) (req_Digest (snap_Request snap))))"
  let ?e = "new_event rid broker_actor TypeExecutionStarted ?d"
  let ?A = "appended sha w2 (sv_log s) ?e"
  have m: "MarshalDetails (Some (ExecutionStartedDetails (sv_executor s) (req_Digest (snap_Request snap)))) = Inr ?d"
    by (simp add: MarshalDetails_def)
  have t: "text_ok ?e"
    using assms(3) details_ok_Marshal [OF m] by (intro text_ok_new_event) (simp_all add: byte_def)
  have "expireIfNeededLocked sha now w1 rid s = (Inr (), s)"
    using assms(4,5) by (simp add: expireIfNeededLocked_def)
  moreover have "Apply ?A (sv_projection s)
      = Inr (gput rid (stamped ?A (snap\<lparr>snap_Status := StatusExecuting\<rparr>)) (sv_projection s))"
    using assms(4) apply_existing_execution [OF _ assms(5), of ?A] Apply_existing_ok [of "sv_projection s" ?A snap]
    by (simp add: Get_def)
  from append_apply_healthy [OF assms(1) t assms(2) this] obtain s' where
    "append_apply sha w2 ?e s = (Inr (), s')" "valid_utf8 (lg_lastHash (sv_log s'))"
    "sv_projection s' = gput rid (stamped ?A (snap\<lparr>snap_Status := StatusExecuting\<rparr>)) (sv_projection s)" by blast
  ultimately show ?thesis
    using assms(4,5) m by (auto simp: execute_begin_def Get_def)
qed

lemma execute_finish_healthy:
  assumes "valid_utf8 (lg_lastHash (sv_log s))" "healthy w" "valid_utf8 rid" "utf8_result x" "times_result x"
    and "Get (sv_projection s) rid = Some snap" "snap_Status snap = StatusExecuting"
  shows "\<exists>s' snap'. execute_finish sha w rid (x, err) s
        = (Inr (FromSnapshot snap' (case err of None \<Rightarrow> ''request executed'' | Some m \<Rightarrow> m)), s')
    \<and> Get (sv_projection s') rid = Some snap' \<and> snap_Execution snap' = Some x
    \<and> snap_Request snap' = snap_Request snap
    \<and> snap_Status snap' = (if err = None then StatusExecuted else StatusFailed)
    \<and> (\<forall>k. k = rid \<or> Get (sv_projection s') k = Get (sv_projection s) k)"
proof -
  let ?t = "case err of None \<Rightarrow> TypeExecutionSucceeded | Some _ \<Rightarrow> TypeExecutionFailed"
  let ?d = "Some (json_of_details (ExecutionFinishedDetails x))"
  let ?e = "new_event rid broker_actor ?t ?d"
  let ?A = "appended sha w (sv_log s) ?e"
  have m: "MarshalDetails (Some (ExecutionFinishedDetails x)) = Inr ?d" using assms(5) by (simp add: MarshalDetails_def)
  have t: "text_ok ?e"
    using assms(3) details_ok_Marshal [OF m]
    by (intro text_ok_new_event) (simp_all add: byte_def split: option.splits)
  obtain snap1 where s1: "apply_existing ?A snap = Inr snap1" "snap_Execution snap1 = Some x"
    "snap_Request snap1 = snap_Request snap" "snap_Status snap1 = (if err = None then StatusExecuted else StatusFailed)"
    using apply_existing_finished [OF assms(7,4,5), of ?A] by (cases err) auto
  then have "Apply ?A (sv_projection s) = Inr (gput rid (stamped ?A snap1) (sv_projection s))"
    using assms(6) Apply_existing_ok [of "sv_projection s" ?A snap snap1]
    by (simp add: Get_def split: option.splits)
  from append_apply_healthy [OF assms(1) t assms(2) this] obtain s' where
    "append_apply sha w ?e s = (Inr (), s')" "sv_projection s' = gput rid (stamped ?A snap1) (sv_projection s)" by blast
  moreover have "snap_Execution (stamped ?A snap1) = Some x" using s1(2) by (simp add: stamped_def)
  ultimately show ?thesis
    using m s1 by (intro exI [of _ s'] exI [of _ "stamped ?A snap1"]) (auto simp: execute_finish_def answer_def Get_def)
qed

lemma execute_begin_done:
  assumes "Get (sv_projection s) rid = Some snap" "snap_Status snap = StatusExecuted \<or> snap_Status snap = StatusFailed"
  shows "execute_begin sha now w1 w2 rid s
    = (Reply (Inr (FromSnapshot snap ''request already reached a terminal execution state'')), s)"
  using assms by (auto simp: execute_begin_def expireIfNeededLocked_def)

text \<open>
  C25 (execution). With working storage, \<open>Execute\<close> of an approved request hands exactly the stored
  request to the executor, records its result, and answers "executed" or "failed" with its exit
  code and output. A second \<open>Execute\<close> with any executor changes nothing and reports the same
  outcome.
\<close>

theorem execute_runs_approved_request:
  assumes "valid_utf8 (lg_lastHash (sv_log s))" "healthy w2" "healthy w3" "valid_utf8 rid"
    and "Get (sv_projection s) rid = Some snap" "snap_Status snap = StatusApproved"
    and "executor (snap_Request snap) = (x, err)" "utf8_result x" "times_result x"
  shows "\<exists>resp s'. Execute sha now w1 w2 w3 executor rid s = (Inr resp, s')
    \<and> rs_Status resp = (if err = None then ''executed'' else ''failed'')
    \<and> rs_ExitCode resp = Some (res_ExitCode x) \<and> rs_Stdout resp = res_Stdout x \<and> rs_Stderr resp = res_Stderr x
    \<and> (\<forall>k. k = rid \<or> Get (sv_projection s') k = Get (sv_projection s) k)
    \<and> (\<forall>now' w1' w2' w3' executor'. \<exists>resp'. Execute sha now' w1' w2' w3' executor' rid s' = (Inr resp', s')
         \<and> rs_Status resp' = rs_Status resp \<and> rs_ExitCode resp' = rs_ExitCode resp)"
proof -
  from execute_begin_healthy [OF assms(1,2,4-6), of sha now w1] obtain s1 e where s1:
    "execute_begin sha now w1 w2 rid s = (Launch (snap_Request snap), s1)"
    "Get (sv_projection s1) rid = Some (stamped e (snap\<lparr>snap_Status := StatusExecuting\<rparr>))"
    "valid_utf8 (lg_lastHash (sv_log s1))"
    "\<forall>k. k = rid \<or> Get (sv_projection s1) k = Get (sv_projection s) k" by blast
  from execute_finish_healthy [OF s1(3) assms(3,4,8,9) s1(2), of sha err] obtain s2 snap2 where s2:
    "execute_finish sha w3 rid (x, err) s1
       = (Inr (FromSnapshot snap2 (case err of None \<Rightarrow> ''request executed'' | Some m \<Rightarrow> m)), s2)"
    "Get (sv_projection s2) rid = Some snap2" "snap_Execution snap2 = Some x"
    "snap_Status snap2 = (if err = None then StatusExecuted else StatusFailed)"
    "\<forall>k. k = rid \<or> Get (sv_projection s2) k = Get (sv_projection s1) k" by auto
  have "snap_Status snap2 = StatusExecuted \<or> snap_Status snap2 = StatusFailed" using s2(4) by simp
  note again = execute_begin_done [OF s2(2) this]
  moreover have "\<forall>k. k = rid \<or> Get (sv_projection s2) k = Get (sv_projection s) k" using s1(4) s2(5) by metis
  ultimately show ?thesis
    using s1(1) s2(1,3,4) assms(7) by (simp add: Execute_def FromSnapshot_def Let_def)
qed

section \<open>Recovery\<close>

text \<open>Projections whose keys are the ids of their requests.\<close>

definition keyed :: "projection \<Rightarrow> bool" where
  "keyed p \<longleftrightarrow> (\<forall>rid snap. gget p rid = Some snap \<longrightarrow> req_ID (snap_Request snap) = rid)"

lemma Apply_recovery:
  assumes "keyed p" "gget p rid = Some snap" "same_content a (recovery_event snap)" "Apply a p = Inr p'"
  shows "\<exists>snap'. p' = gput rid snap' p \<and> snap_Status snap' = StatusFailed \<and> snap_Request snap' = snap_Request snap
    \<and> snap_Status snap = StatusExecuting"
proof -
  have a: "ev_Type a = TypeRecoveryMarkedFailed" "ev_RequestID a = rid"
    using assms(1-3) by (simp_all add: same_content_def recovery_event_def keyed_def)
  with assms(2,4) obtain x where "apply_existing a snap = Inr x" "p' = gput rid (stamped a x) p"
    by (auto simp: Apply_def Let_def result_bind_eq_Inr stamped_def)
  with a show ?thesis by (auto simp: apply_existing_def Let_def split: if_splits)
qed

lemma keyed_gput: "keyed p \<Longrightarrow> req_ID (snap_Request snap) = rid \<Longrightarrow> keyed (gput rid snap p)"
  by (simp add: keyed_def)

text \<open>After a completed recovery loop the listed executing requests are failed, the rest untouched.\<close>

lemma recover_loop_result:
  assumes "recover_loop sha ws snaps s = (Inr (), s')" "keyed (sv_projection s)" "distinct (map (req_ID \<circ> snap_Request) snaps)"
    and "\<And>snap. snap \<in> set snaps \<Longrightarrow> gget (sv_projection s) (req_ID (snap_Request snap)) = Some snap"
  shows "\<forall>rid. (\<exists>snap \<in> set snaps. req_ID (snap_Request snap) = rid \<and> snap_Status snap = StatusExecuting
          \<and> (\<exists>snap'. gget (sv_projection s') rid = Some snap' \<and> snap_Status snap' = StatusFailed
                \<and> snap_Request snap' = snap_Request snap))
     \<or> (\<forall>snap \<in> set snaps. req_ID (snap_Request snap) = rid \<longrightarrow> snap_Status snap \<noteq> StatusExecuting)
        \<and> gget (sv_projection s') rid = gget (sv_projection s) rid"
  using assms
proof (induction snaps arbitrary: s)
  case (Cons snap snaps)
  let ?k = "req_ID (snap_Request snap)"
  show ?case
  proof (cases "snap_Status snap = StatusExecuting")
    case False
    with Cons.prems have "recover_loop sha ws snaps s = (Inr (), s')" by simp
    from Cons.IH [OF this Cons.prems(2)] Cons.prems(3,4) False show ?thesis by (auto; metis)
  next
    case True
    obtain r1 s1 where a: "append_apply sha (ws ?k) (recovery_event snap) s = (r1, s1)" by fastforce
    with Cons.prems(1) True have l: "r1 = Inr ()" "recover_loop sha ws snaps s1 = (Inr (), s')"
      by (auto split: sum.splits)
    have g: "gget (sv_projection s) ?k = Some snap" using Cons.prems(4) by simp
    from append_apply_effect [OF a] l(1) obtain b where
      "same_content b (recovery_event snap)" "Apply b (sv_projection s) = Inr (sv_projection s1)" by auto
    from Apply_recovery [OF Cons.prems(2) g this] obtain snap' where
      p1: "sv_projection s1 = gput ?k snap' (sv_projection s)" "snap_Status snap' = StatusFailed"
        "snap_Request snap' = snap_Request snap" by blast
    have "keyed (sv_projection s1)" using p1 Cons.prems(2) keyed_gput by simp
    moreover have nk: "x \<in> set snaps \<Longrightarrow> req_ID (snap_Request x) \<noteq> ?k" for x
      using Cons.prems(3) by (auto simp: image_iff)
    then have "x \<in> set snaps \<Longrightarrow> gget (sv_projection s1) (req_ID (snap_Request x)) = Some x" for x
      using p1(1) Cons.prems(4) by simp
    ultimately have ih: "\<forall>rid. (\<exists>snap \<in> set snaps. req_ID (snap_Request snap) = rid \<and> snap_Status snap = StatusExecuting
          \<and> (\<exists>snap'. gget (sv_projection s') rid = Some snap' \<and> snap_Status snap' = StatusFailed
                \<and> snap_Request snap' = snap_Request snap))
     \<or> (\<forall>snap \<in> set snaps. req_ID (snap_Request snap) = rid \<longrightarrow> snap_Status snap \<noteq> StatusExecuting)
        \<and> gget (sv_projection s') rid = gget (sv_projection s1) rid"
      using Cons.IH [OF l(2)] Cons.prems(3) by simp
    show ?thesis
    proof
      fix rid
      show "(\<exists>x \<in> set (snap # snaps). req_ID (snap_Request x) = rid \<and> snap_Status x = StatusExecuting
          \<and> (\<exists>snap'. gget (sv_projection s') rid = Some snap' \<and> snap_Status snap' = StatusFailed
                \<and> snap_Request snap' = snap_Request x))
     \<or> (\<forall>x \<in> set (snap # snaps). req_ID (snap_Request x) = rid \<longrightarrow> snap_Status x \<noteq> StatusExecuting)
        \<and> gget (sv_projection s') rid = gget (sv_projection s) rid"
        using ih [rule_format, of rid] p1 nk True by (cases "rid = ?k") auto
    qed
  qed
qed simp

lemma All_keyed:
  assumes "keyed p"
  shows "distinct (map (req_ID \<circ> snap_Request) (All p))"
    and "snap \<in> set (All p) \<Longrightarrow> gget p (req_ID (snap_Request snap)) = Some snap"
proof -
  have "map (req_ID \<circ> snap_Request) (All p) = gkeys p"
    using assms gm.keys_iff [of _ p] by (auto simp: All_def keyed_def intro!: map_idI)
  then show "distinct (map (req_ID \<circ> snap_Request) (All p))" by (simp add: gm.keys_distinct)
  assume "snap \<in> set (All p)"
  then show "gget p (req_ID (snap_Request snap)) = Some snap" using assms by (auto simp: set_All keyed_def)
qed

text \<open>
  C26 (recovery). When a service starts, every request the log leaves in state executing is marked
  failed, with its request unchanged, before the service takes calls; every other request is
  exactly as the log left it. So no request of a running service is executing unless this process
  launched it.
\<close>

theorem restart_fails_interrupted_executions:
  assumes "NewService sha ws executor ttl hostname l = (Inr s, l')"
    and "Replay sha (Inr (lg_file l)) = Inr es" "Rebuild es = Inr p"
    and "\<forall>rid snap. Get p rid = Some snap \<longrightarrow> req_ID (snap_Request snap) = rid"
  shows "\<forall>rid. (case Get p rid of
      None \<Rightarrow> Get (sv_projection s) rid = None
    | Some snap \<Rightarrow>
        (if snap_Status snap = StatusExecuting
         then \<exists>snap'. Get (sv_projection s) rid = Some snap' \<and> snap_Status snap' = StatusFailed
                \<and> snap_Request snap' = snap_Request snap
         else Get (sv_projection s) rid = Some snap))"
proof -
  have k: "keyed p" using assms(4) by (simp add: keyed_def Get_def)
  obtain s0 where s0: "sv_projection s0 = p" "recover_loop sha ws (All p) s0 = (Inr (), s)"
  proof
    let ?s0 = "\<lparr>sv_log = l, sv_projection = p, sv_executor = executor, sv_ttl = ttl,
      sv_hostname = (case hostname of None \<Rightarrow> ''localhost'' | Some h \<Rightarrow> h)\<rparr>"
    show "sv_projection ?s0 = p" by simp
    show "recover_loop sha ws (All p) ?s0 = (Inr (), s)"
      using assms(1-3) by (auto simp: NewService_def recoverExecutingLocked_def split: sum.splits prod.splits)
  qed
  have r: "(\<exists>snap \<in> set (All p). req_ID (snap_Request snap) = rid \<and> snap_Status snap = StatusExecuting
          \<and> (\<exists>snap'. gget (sv_projection s) rid = Some snap' \<and> snap_Status snap' = StatusFailed
                \<and> snap_Request snap' = snap_Request snap))
     \<or> (\<forall>snap \<in> set (All p). req_ID (snap_Request snap) = rid \<longrightarrow> snap_Status snap \<noteq> StatusExecuting)
        \<and> gget (sv_projection s) rid = gget p rid" for rid
    using recover_loop_result [OF s0(2)] s0(1) k All_keyed [OF k] by blast
  have iff: "gget p rid = Some snap \<longleftrightarrow> snap \<in> set (All p) \<and> req_ID (snap_Request snap) = rid" for rid snap
    using All_keyed(2) [OF k] k by (auto simp: set_All keyed_def)
  have r': "(\<exists>snap. gget p rid = Some snap \<and> snap_Status snap = StatusExecuting
          \<and> (\<exists>snap'. gget (sv_projection s) rid = Some snap' \<and> snap_Status snap' = StatusFailed
                \<and> snap_Request snap' = snap_Request snap))
     \<or> (\<forall>snap. gget p rid = Some snap \<longrightarrow> snap_Status snap \<noteq> StatusExecuting)
        \<and> gget (sv_projection s) rid = gget p rid" for rid
    using r [of rid] iff [of rid] by blast
  show ?thesis
  proof
    fix rid
    show "case Get p rid of None \<Rightarrow> Get (sv_projection s) rid = None
      | Some snap \<Rightarrow> (if snap_Status snap = StatusExecuting
         then \<exists>snap'. Get (sv_projection s) rid = Some snap' \<and> snap_Status snap' = StatusFailed
                \<and> snap_Request snap' = snap_Request snap
         else Get (sv_projection s) rid = Some snap)"
      using r' [of rid] by (cases "gget p rid") (auto simp: Get_def)
  qed
qed

section \<open>The request digest\<close>

definition digest_payload :: "string \<Rightarrow> execution_spec \<Rightarrow> peer_identity \<Rightarrow> time \<Rightarrow> json" where
  "digest_payload requestID spec requester expiry = JObj
     [(''argv'', jstrings (spec_Argv spec)),
      (''env'', JArr (map jstring (envSlice (spec_Env spec)))),
      (''cwd'', jstring (spec_Cwd spec)),
      (''requester_uid'', juint (peer_UID requester)),
      (''request_id'', jstring requestID),
      (''expiry'', jstring (format_time expiry))]"

lemma digest_payload_wf: "wf_json (digest_payload i sp q t)"
  using canonical_scalars canonical_jstrings
  by (auto simp: digest_payload_def canonical_def wf_members_iff wf_elems_iff
      plain_key_eval byte_def raw_ok_plain_key)

lemma valid_utf8_format_time: "valid_utf8 (format_time t)"
  using format_time_chars [of _ t] by (intro valid_utf8_ascii_only) (fastforce simp: is_digit_def byte_def)

lemma jstrings_inject:
  "list_all valid_utf8 xs \<Longrightarrow> list_all valid_utf8 ys \<Longrightarrow> jstrings xs = jstrings ys \<Longrightarrow> xs = ys"
  by (metis dec_strings_jstrings option.inject)

lemma juint_inject: "juint v = juint w \<Longrightarrow> v = w"
  by (metis dec_uint32_juint option.inject)

lemma map_jstring_inject:
  "list_all valid_utf8 xs \<Longrightarrow> list_all valid_utf8 ys \<Longrightarrow> map jstring xs = map jstring ys \<Longrightarrow> xs = ys"
proof (induction xs arbitrary: ys)
  case (Cons x xs)
  then obtain y zs where ys: "ys = y # zs" by (cases ys) auto
  then have "x = y" using Cons.prems jstring_inject [of x y] by simp
  moreover have "xs = zs" using Cons.prems ys by (intro Cons.IH) simp_all
  ultimately show ?case using ys by simp
qed simp

lemma digest_payload_inject:
  assumes "digest_payload i sp q t = digest_payload i' sp' q' t'"
    and "list_all valid_utf8 (spec_Argv sp)" "list_all valid_utf8 (spec_Argv sp')"
    and "list_all valid_utf8 (envSlice (spec_Env sp))" "list_all valid_utf8 (envSlice (spec_Env sp'))"
    and "valid_utf8 (spec_Cwd sp)" "valid_utf8 (spec_Cwd sp')" "valid_utf8 i" "valid_utf8 i'" "time_ok t" "time_ok t'"
  shows "spec_Argv sp = spec_Argv sp' \<and> envSlice (spec_Env sp) = envSlice (spec_Env sp')
    \<and> spec_Cwd sp = spec_Cwd sp' \<and> peer_UID q = peer_UID q' \<and> i = i' \<and> t = t'"
  using assms
  by (auto simp: digest_payload_def jstring_inject valid_utf8_format_time
      dest: jstrings_inject juint_inject map_jstring_inject format_time_inject)

text \<open>
  C28 (what the digest binds). If two submissions have the same digest, then argv, environment
  entries, working directory, requester uid, request id and expiry are all the same, or the two
  hashed texts are a collision of the hash function.
\<close>

theorem digest_binds_request:
  assumes "digestRequest sha i sp q t = digestRequest sha i' sp' q' t'"
    and "list_all valid_utf8 (spec_Argv sp)" "list_all valid_utf8 (spec_Argv sp')"
    and "list_all valid_utf8 (envSlice (spec_Env sp))" "list_all valid_utf8 (envSlice (spec_Env sp'))"
    and "valid_utf8 (spec_Cwd sp)" "valid_utf8 (spec_Cwd sp')" "valid_utf8 i" "valid_utf8 i'" "time_ok t" "time_ok t'"
  shows "spec_Argv sp = spec_Argv sp' \<and> envSlice (spec_Env sp) = envSlice (spec_Env sp')
      \<and> spec_Cwd sp = spec_Cwd sp' \<and> peer_UID q = peer_UID q' \<and> i = i' \<and> t = t'
    \<or> json_print (digest_payload i sp q t) \<noteq> json_print (digest_payload i' sp' q' t')
      \<and> sha (json_print (digest_payload i sp q t)) = sha (json_print (digest_payload i' sp' q' t'))"
proof (cases "json_print (digest_payload i sp q t) = json_print (digest_payload i' sp' q' t')")
  case True
  then have "digest_payload i sp q t = digest_payload i' sp' q' t'"
    using json_print_inject [OF digest_payload_wf digest_payload_wf] by blast
  from digest_payload_inject [OF this assms(2-)] show ?thesis by blast
next
  case False
  moreover have "digestRequest sha i sp q t = hex_encode (sha (json_print (digest_payload i sp q t)))" for i sp q t
    by (simp add: digestRequest_def digest_payload_def Let_def)
  ultimately show ?thesis using assms(1) by (simp add: hex_encode_inject)
qed

section \<open>A concrete broker\<close>

definition sample_input :: submit_input where
  "sample_input = \<lparr>si_Argv = [''id'', ''-u''], si_Reason = ''audit'', si_Mode = [],
     si_Requester = \<lparr>peer_UID = 1000, peer_GID = 1000, peer_PID = 7, peer_Username = ''alice''\<rparr>,
     si_Cwd = ''/srv''\<rparr>"

definition sample_service :: "projection \<Rightarrow> service" where
  "sample_service p = \<lparr>sv_log = empty_log, sv_projection = p, sv_executor = LocalExecutor_Name,
     sv_ttl = DefaultTTL, sv_hostname = ''host''\<rparr>"

definition sample_request :: "string \<Rightarrow> request" where
  "sample_request rid = build_request sample_sha 1000 rid (default_mode sample_input) (sample_service New)"

definition sample_snapshot :: "status \<Rightarrow> snapshot" where
  "sample_snapshot st = (created_snapshot zero_event (sample_request ''req_1''))\<lparr>snap_Status := st\<rparr>"

definition sample_review :: "string \<Rightarrow> review_input" where
  "sample_review rid = \<lparr>ri_RequestID = rid, ri_Approver = \<lparr>actor_Kind = ''human'', actor_ID = ''bob''\<rparr>,
     ri_ApprovalCode = ''123456'', ri_Reason = []\<rparr>"

lemma sample_healthy [simp]: "healthy (sample_io FsOk)"
  by (simp add: healthy_def sample_io_def time_ok_def)

lemma sample_service_simps [simp]:
  "sv_projection (sample_service p) = p" "lg_lastHash (sv_log (sample_service p)) = []"
  by (simp_all add: sample_service_def empty_log_def)

lemma normalizeCwd_srv: "normalizeCwd ''/srv'' = ''/srv''"
  by (simp add: normalizeCwd_abs Clean_def clean_parts_def clean_step_def)

lemma sample_request_ok:
  "valid_utf8 rid \<Longrightarrow> utf8_request (sample_request rid)" "times_request (sample_request rid)"
  by (simp_all add: sample_request_def build_request_def default_mode_def sample_input_def sample_service_def
      utf8_request_def times_request_def time_ok_def DefaultTTL_def BuildExecutionSpec_def utf8_spec_def
      key_ordered_def utf8_map_def DefaultSanitizedEnv_def DescribeRequest_def effect_risk_def
      utf8_summary_def digestRequest_def normalizeCwd_srv byte_def Let_def)

lemma sample_request_simps [simp]:
  "req_Requester (sample_request rid) = \<lparr>peer_UID = 1000, peer_GID = 1000, peer_PID = 7, peer_Username = ''alice''\<rparr>"
  "req_ExpiresAt (sample_request rid) = 300000001000" "req_ID (sample_request rid) = rid"
  by (simp_all add: sample_request_def build_request_def default_mode_def sample_input_def sample_service_def
      DefaultTTL_def Let_def)

lemma sample_snapshot_simps [simp]:
  "snap_Status (sample_snapshot st) = st" "snap_Request (sample_snapshot st) = sample_request ''req_1''"
  by (simp_all add: sample_snapshot_def)

lemma sample_actor [simp]: "utf8_actor (ri_Approver (sample_review rid))" "ri_RequestID (sample_review rid) = rid"
  "ri_ApprovalCode (sample_review rid) = ''123456''" "ri_Reason (sample_review rid) = []"
  by (simp_all add: sample_review_def utf8_actor_def byte_def)

lemma sample_validate:
  "validateApprover (ri_Approver (sample_review rid)) (req_Requester (sample_request rid')) = None"
proof -
  have "c \<in> set (string_of_nat n) \<Longrightarrow> c \<noteq> CHR ''b''" for c n
    using string_of_nat_digits [of c n] by (auto simp: is_digit_def byte_def)
  then have "''bob'' \<noteq> string_of_nat n" for n by (metis list.set_intros(1))
  then show ?thesis by (simp add: validateApprover_None sample_review_def)
qed

theorem submit_creates_pending_witness:
  "\<exists>resp s' snap. Submit sample_sha 1000 (Some ''abc'') 0 (sample_io FsOk) sample_input (sample_service New) = (Inr resp, s')
     \<and> rs_Status resp = ''pending'' \<and> Get (sv_projection s') (broker_randomID ''req'' (Some ''abc'') 0) = Some snap
     \<and> snap_Status snap = StatusPending"
proof -
  let ?rid = "broker_randomID ''req'' (Some ''abc'') 0"
  have v: "valid_utf8 ?rid" by (simp add: broker_randomID_def byte_def)
  have a: "valid_utf8 (actorIDForPeer (si_Requester sample_input))"
    by (simp add: actorIDForPeer_def sample_input_def byte_def)
  have n: "si_Argv sample_input \<noteq> []" by (simp add: sample_input_def)
  show ?thesis
    using submit_creates_pending [OF _ sample_healthy a refl, where s = "sample_service New" and rand = "Some ''abc''"
        and nanos = 0 and r = "sample_request ?rid" and sha = sample_sha and now = 1000]
      sample_request_ok(1) [OF v] sample_request_ok(2) [of ?rid] n
    by (auto simp: Get_def sample_request_def)
qed

theorem review_verdicts_witness:
  "let s = sample_service [(''req_1'', sample_snapshot StatusPending)]; w = sample_io FsOk;
       i = sample_review ''req_1''
   in reviewed 2000 (ri_Approver i) StatusApproved ''req_1'' s (Approve sample_sha 2000 w w i s)
    \<and> reviewed 2000 (ri_Approver i) StatusDenied ''req_1'' s (Deny sample_sha 2000 w w i s)
    \<and> review_verdict 2000 (ri_Approver i) StatusApproved (Get (sv_projection s) ''req_1'') = ''approved''
    \<and> review_verdict 300000001000 (ri_Approver i) StatusApproved (Get (sv_projection s) ''req_1'') = ''expired''"
  using review_verdicts [of "sample_service [(''req_1'', sample_snapshot StatusPending)]" "sample_io FsOk" "sample_io FsOk"
      "sample_review ''req_1''" 2000 sample_sha] sample_validate
  by (simp add: byte_def Get_def gget_def review_verdict_def review_status_def)

theorem approval_requires_authority_witness:
  "let s = sample_service [(''req_1'', sample_snapshot StatusPending)]; w = sample_io FsOk
   in \<exists>r s' snap'. Approve sample_sha 2000 w w (sample_review ''req_1'') s = (r, s')
      \<and> Get (sv_projection s') ''req_1'' = Some snap' \<and> snap_Status snap' = StatusApproved
      \<and> snap_Request snap' = sample_request ''req_1''"
proof -
  let ?s = "sample_service [(''req_1'', sample_snapshot StatusPending)]" and ?w = "sample_io FsOk"
  let ?i = "sample_review ''req_1''"
  have g: "Get (sv_projection ?s) (ri_RequestID ?i) = Some (sample_snapshot StatusPending)" by (simp add: Get_def gget_def)
  obtain resp s' where a: "Approve sample_sha 2000 ?w ?w ?i ?s = (Inr resp, s')"
    and r: "reviewed 2000 (ri_Approver ?i) StatusApproved (ri_RequestID ?i) ?s (Inr resp, s')"
    using Approve_healthy [of ?s ?w ?w ?i sample_sha 2000] by (auto simp: byte_def)
  have "review_status 2000 (ri_Approver ?i) StatusApproved (sample_snapshot StatusPending) = StatusApproved"
    using sample_validate by (simp add: review_status_def)
  with r g have "status_of (sv_projection s') (ri_RequestID ?i) = Some StatusApproved"
    by (simp add: reviewed_def)
  then obtain snap' where s': "Get (sv_projection s') (ri_RequestID ?i) = Some snap'" "snap_Status snap' = StatusApproved"
    by (auto simp: status_of_def Get_def)
  from approval_requires_authority [OF g _ a s'] a s' show ?thesis by (simp add: Let_def)
qed

theorem execute_runs_approved_request_witness:
  "let s = sample_service [(''req_1'', sample_snapshot StatusApproved)]; w = sample_io FsOk;
       x = \<lparr>res_StartedAt = 1, res_FinishedAt = 2, res_ExitCode = 0, res_Stdout = ''0'', res_Stderr = []\<rparr>
   in \<exists>resp s'. Execute sample_sha 2000 w w w (\<lambda>_. (x, None)) ''req_1'' s = (Inr resp, s')
      \<and> rs_Status resp = ''executed'' \<and> rs_ExitCode resp = Some 0 \<and> rs_Stdout resp = ''0''"
proof -
  let ?s = "sample_service [(''req_1'', sample_snapshot StatusApproved)]" and ?w = "sample_io FsOk"
  let ?x = "\<lparr>res_StartedAt = 1, res_FinishedAt = 2, res_ExitCode = 0, res_Stdout = ''0'', res_Stderr = []\<rparr>"
  have g: "Get (sv_projection ?s) ''req_1'' = Some (sample_snapshot StatusApproved)" by (simp add: Get_def gget_def)
  have x: "utf8_result ?x" "times_result ?x"
    by (simp_all add: utf8_result_def times_result_def time_ok_def byte_def)
  have "\<exists>resp s'. Execute sample_sha 2000 ?w ?w ?w (\<lambda>_. (?x, None)) ''req_1'' ?s = (Inr resp, s')
    \<and> rs_Status resp = (if None = (None :: string option) then ''executed'' else ''failed'')
    \<and> rs_ExitCode resp = Some (res_ExitCode ?x) \<and> rs_Stdout resp = res_Stdout ?x"
    using execute_runs_approved_request [OF _ sample_healthy sample_healthy _ g _ _ x,
        of "\<lambda>_. (?x, None)" None sample_sha 2000 ?w] by (auto simp: byte_def)
  then show ?thesis by (simp add: Let_def)
qed

theorem digest_binds_request_witness:
  "let sp = BuildExecutionSpec [''id''] ''/srv''; sp' = BuildExecutionSpec [''ls''] ''/srv''; q = si_Requester sample_input
   in digestRequest (\<lambda>_. ''x'') ''req_1'' sp q 1000 = digestRequest (\<lambda>_. ''x'') ''req_1'' sp' q 1000
    \<and> json_print (digest_payload ''req_1'' sp q 1000) \<noteq> json_print (digest_payload ''req_1'' sp' q 1000)"
proof -
  let ?sp = "BuildExecutionSpec [''id''] ''/srv''" and ?sp' = "BuildExecutionSpec [''ls''] ''/srv''"
  let ?q = "si_Requester sample_input"
  have "gkeys DefaultSanitizedEnv = [''LANG'', ''LC_ALL'', ''PATH'']"
    unfolding DefaultSanitizedEnv_def by code_simp
  then have e: "list_all valid_utf8 (envSlice DefaultSanitizedEnv)"
    by (simp add: envSlice_def gget_def DefaultSanitizedEnv_def byte_def)
  have d: "digestRequest (\<lambda>_. ''x'') ''req_1'' ?sp ?q 1000 = digestRequest (\<lambda>_. ''x'') ''req_1'' ?sp' ?q 1000"
    by (simp add: digestRequest_def)
  show ?thesis
    using digest_binds_request [OF d] e d
    by (simp add: BuildExecutionSpec_def normalizeCwd_srv byte_def time_ok_def)
qed

text \<open>A start on an empty log.\<close>

lemma NewService_empty:
  "NewLog sha (Inr ()) (Inr []) = Inr empty_log"
  "NewService sha ws LocalExecutor_Name DefaultTTL (Some ''host'') empty_log = (Inr (sample_service New), empty_log)"
proof -
  have r: "Replay sha (Inr []) = Inr []" by (simp add: Replay_def replayUnlocked_def)
  show "NewLog sha (Inr ()) (Inr []) = Inr empty_log" by (simp add: NewLog_def r empty_log_def)
  have "All New = []" by (simp add: All_def New_def gkeys_def)
  with r show "NewService sha ws LocalExecutor_Name DefaultTTL (Some ''host'') empty_log
      = (Inr (sample_service New), empty_log)"
    by (simp add: NewService_def sample_service_def recoverExecutingLocked_def empty_log_def)
qed

text \<open>A log that ends in the middle of an execution, and the restart on it.\<close>

definition crash_details :: "nat \<Rightarrow> json" where
  "crash_details i = (if i = 0 then JObj [(''request'', JObj [(''id'', jstring ''r'')])] else JObj [])"

definition crash_call :: "nat \<Rightarrow> event" where
  "crash_call i = new_event ''r'' broker_actor
     (if i = 0 then TypeRequestCreated else if i = 1 then TypeRequestApproved else TypeExecutionStarted)
     (Some (crash_details i))"

lemma canonical_crash [simp]: "canonical (crash_details i)"
  by (simp add: crash_details_def canon_simps json_simps)

lemma crash_call_ok [simp]: "append_ok (sample_io FsOk) (crash_call i)" "text_ok (crash_call i)"
  by (simp_all add: crash_call_def text_ok_def append_ok_def sample_io_def new_event_def zero_event_def byte_def time_ok_def
      details_ok_def utf8_actor_def broker_actor_def)

lemma crash_short:
  assumes "length (lg_lastHash l) \<le> 64"
  shows "short_line (appended sample_sha (sample_io FsOk) l (crash_call i))" (is "short_line ?a")
proof -
  have "length (json_print (html_json (crash_details i))) \<le> 100"
    using canonical_crash [of i] length_json_quote [of "''r''"] by (auto simp: canonical_def crash_details_def jstring_def)
  then have d: "(case ev_Details ?a of None \<Rightarrow> 0 | Some j \<Rightarrow> length (json_print (html_json j))) \<le> 100"
    by (simp add: crash_call_def)
  have l: "length (ev_EventID ?a) \<le> 20" "length (ev_PrevHash ?a) \<le> 64" "length (ev_Hash ?a) = 64" "length (ev_RequestID ?a) = 1"
    "length (actor_Kind (ev_Actor ?a)) = 6" "length (actor_ID (ev_Actor ?a)) = 13" "length (ev_Type ?a) \<le> 30"
    using assms by (simp_all add: crash_call_def appended_def stamp_def sample_io_def new_event_def broker_actor_def
      zero_event_def randomID_def Let_def)
  show ?thesis
    using length_event_line [of ?a] d l by (simp add: short_line_def max_line_def)
qed

lemma crash_unmarshal:
  "unmarshal_details created_fields zero_request (Some (crash_details 0)) = Inr (zero_request\<lparr>req_ID := ''r''\<rparr>)"
  "unmarshal_details approval_fields (zero_actor, []) (Some (crash_details (Suc 0))) = Inr (zero_actor, [])"
  by (simp_all add: crash_details_def unmarshal_details_def created_fields_def approval_fields_def request_fields_def
      codec_simps json_simps byte_def)

definition crash_log :: "event list \<Rightarrow> log" where
  "crash_log es = \<lparr>lg_file = file_lines event_line es, lg_lastHash = last_hash es\<rparr>"

lemma crash_step:
  assumes "log_holds sample_sha (crash_log es) es" "list_all short_line es" "length (last_hash es) \<le> 64"
  defines "a \<equiv> appended sample_sha (sample_io FsOk) (crash_log es) (crash_call (length es))"
  shows "log_holds sample_sha (crash_log (es @ [a])) (es @ [a])" "list_all short_line (es @ [a])" "length (last_hash (es @ [a])) \<le> 64"
proof -
  obtain l where l: "Append sample_sha (sample_io FsOk) (crash_call (length es)) (crash_log es) = (Inr a, l)"
    using Append_cases [OF log_holds_utf8 [OF assms(1)] crash_call_ok(1), of sample_sha "length es"] by (simp add: Let_def a_def)
  from log_holds_Append(1) [OF assms(1) crash_call_ok(1) l] show "log_holds sample_sha (crash_log (es @ [a])) (es @ [a])"
    by (simp add: log_holds_def crash_log_def)
  have "length (ev_Hash a) = 64" by (simp add: a_def appended_def Let_def)
  then show "length (last_hash (es @ [a])) \<le> 64" by simp
  show "list_all short_line (es @ [a])"
    using assms(2,3) crash_short [of "crash_log es"] by (simp add: a_def crash_log_def)
qed

lemma crash_Apply:
  assumes "ev_RequestID a = ''r''"
  shows "ev_Type a = TypeRequestCreated \<Longrightarrow> ev_Details a = Some (crash_details 0) \<Longrightarrow>
      Apply a New = Inr [(''r'', created_snapshot a (zero_request\<lparr>req_ID := ''r''\<rparr>))]"
    and "ev_Type a = TypeRequestApproved \<Longrightarrow> ev_Details a = Some (crash_details (Suc 0)) \<Longrightarrow>
      snap_Status snap = StatusPending \<Longrightarrow> Apply a [(''r'', snap)] =
        Inr [(''r'', stamped a (snap\<lparr>snap_Status := StatusApproved, snap_Approver := Some zero_actor\<rparr>))]"
    and "ev_Type a = TypeExecutionStarted \<Longrightarrow> snap_Status snap = StatusApproved \<Longrightarrow>
      Apply a [(''r'', snap)] = Inr [(''r'', stamped a (snap\<lparr>snap_Status := StatusExecuting\<rparr>))]"
  using assms crash_unmarshal
  by (simp_all add: Apply_def New_def gget_def gput_def apply_existing_def stamped_def Let_def)

text \<open>The projection of that log: one request, executing.\<close>

lemma crash_log_exists:
  "\<exists>es snap. log_holds sample_sha (crash_log es) es \<and> list_all short_line es
     \<and> Rebuild es = Inr [(''r'', snap)] \<and> snap_Status snap = StatusExecuting \<and> req_ID (snap_Request snap) = ''r''"
proof -
  let ?a = "\<lambda>es. appended sample_sha (sample_io FsOk) (crash_log es) (crash_call (length es))"
  let ?es1 = "[] @ [?a []]"
  let ?es2 = "?es1 @ [?a ?es1]"
  let ?es3 = "?es2 @ [?a ?es2]"
  have 0: "log_holds sample_sha (crash_log []) []" "list_all short_line []" "length (last_hash []) \<le> 64"
    by (simp_all add: log_holds_def crash_log_def)
  note 1 = crash_step [OF 0] note 2 = crash_step [OF 1] note 3 = crash_step [OF 2]
  let ?s1 = "created_snapshot (?a []) (zero_request\<lparr>req_ID := ''r''\<rparr>)"
  let ?s2 = "stamped (?a ?es1) (?s1\<lparr>snap_Status := StatusApproved, snap_Approver := Some zero_actor\<rparr>)"
  let ?s3 = "stamped (?a ?es2) (?s2\<lparr>snap_Status := StatusExecuting\<rparr>)"
  have e: "ev_RequestID (?a es) = ''r''" "ev_Details (?a es) = Some (crash_details (length es))"
    "ev_Type (?a es) = (if length es = 0 then TypeRequestCreated else if length es = 1 then TypeRequestApproved else TypeExecutionStarted)" for es
    by (simp_all add: crash_call_def)
  have A1: "Apply (?a []) New = Inr [(''r'', ?s1)]" by (rule crash_Apply(1)) (use e [of "[]"] in simp_all)
  have A2: "Apply (?a ?es1) [(''r'', ?s1)] = Inr [(''r'', ?s2)]"
    by (rule crash_Apply(2)) (use e [of ?es1] in \<open>simp_all add: created_snapshot_def\<close>)
  have A3: "Apply (?a ?es2) [(''r'', ?s2)] = Inr [(''r'', ?s3)]"
    by (rule crash_Apply(3)) (use e [of ?es2] in \<open>simp_all\<close>)
  have "Rebuild ?es3 = Inr [(''r'', ?s3)]"
    unfolding Rebuild_def result_fold_snoc by (simp only: A1 A2 A3 result_fold.simps result_bind_simps)
  moreover have "snap_Status ?s3 = StatusExecuting" "req_ID (snap_Request ?s3) = ''r''" by (simp_all add: created_snapshot_def)
  ultimately show ?thesis using 3 by blast
qed

theorem restart_fails_interrupted_executions_witness:
  "\<exists>l s l' snap. NewService sample_sha (\<lambda>_. sample_io FsOk) LocalExecutor_Name DefaultTTL None l = (Inr s, l')
     \<and> result_bind (Replay sample_sha (Inr (lg_file l))) Rebuild = Inr [(''r'', snap)] \<and> snap_Status snap = StatusExecuting
     \<and> (\<exists>snap'. Get (sv_projection s) ''r'' = Some snap' \<and> snap_Status snap' = StatusFailed)"
proof -
  obtain es snap where es: "log_holds sample_sha (crash_log es) es" "list_all short_line es"
     "Rebuild es = Inr [(''r'', snap)]" and snap: "snap_Status snap = StatusExecuting" "req_ID (snap_Request snap) = ''r''"
    using crash_log_exists by blast
  have r: "Replay sample_sha (Inr (lg_file (crash_log es))) = Inr es" using log_holds_NewLog(1) [OF es(1,2)] .
  have g: "Get [(''r'', snap)] k = (if k = ''r'' then Some snap else None)" for k by (simp add: Get_def gget_def)
  have all: "All [(''r'', snap)] = [snap]" by (simp add: All_def gkeys_def gget_def)
  let ?s0 = "\<lparr>sv_log = crash_log es, sv_projection = [(''r'', snap)], sv_executor = LocalExecutor_Name, sv_ttl = DefaultTTL,
      sv_hostname = ''localhost''\<rparr>"
  let ?A = "appended sample_sha (sample_io FsOk) (crash_log es) (recovery_event snap)"
  have t: "text_ok (recovery_event snap)"
    unfolding recovery_event_def using snap(2)
    by (intro text_ok_new_event) (simp_all add: byte_def details_ok_def canonical_details del: json_of_details.simps)
  have "Apply ?A [(''r'', snap)] = Inr (gput ''r'' (stamped ?A (snap\<lparr>snap_Status := StatusFailed\<rparr>)) [(''r'', snap)])"
    using snap g [of "''r''"] Apply_existing_ok [of "[(''r'', snap)]" ?A snap]
    by (simp add: recovery_event_def apply_existing_def Let_def Get_def)
  then obtain s where s: "append_apply sample_sha (sample_io FsOk) (recovery_event snap) ?s0 = (Inr (), s)"
    using append_apply_healthy [OF _ t sample_healthy, of ?s0 sample_sha] log_holds_utf8 [OF es(1)] by auto
  then have n: "NewService sample_sha (\<lambda>_. sample_io FsOk) LocalExecutor_Name DefaultTTL None (crash_log es) = (Inr s, sv_log s)"
    using r es(3) all snap(1) by (simp add: NewService_def recoverExecutingLocked_def)
  have k: "\<forall>rid x. Get [(''r'', snap)] rid = Some x \<longrightarrow> req_ID (snap_Request x) = rid" using g snap(2) by auto
  have "\<exists>snap'. Get (sv_projection s) ''r'' = Some snap' \<and> snap_Status snap' = StatusFailed"
    using restart_fails_interrupted_executions [OF n r es(3) k, rule_format, of "''r''"] g snap by auto
  with n r es(3) snap(1) show ?thesis
    by (intro exI [of _ "crash_log es"] exI [of _ s] exI [of _ "sv_log s"] exI [of _ snap]) simp
qed

end
