(* ===== verification/Canon_Tail.thy ===== *)
theory Canon_Tail
  imports Broker_Behaviour
begin

text \<open>
  \<open>canon_tail.go\<close>: the adapter follows the broker's event log. A scan reads the file from the offset
  it has reached, hands every new \<open>request_created\<close> event to the handler, and advances the offset.
  What the handler is given and the errors that are logged are outputs. A scan that finds the file
  growing sees it up to the end it reaches; \<open>opened\<close> is the file as read, \<open>seek\<close> and \<open>readErr\<close> the
  errors of seeking and of the last read.
\<close>

section \<open>The tailer\<close>

record canon_tailer =
  ct_offset :: nat
  ct_seen :: "string set"

definition NewCanonTailer :: canon_tailer where
  "NewCanonTailer = \<lparr>ct_offset = 0, ct_seen = {}\<rparr>"

record pending_request =
  pr_RequestID :: string
  pr_Requester :: string
  pr_Argv :: "string list"
  pr_Reason :: string
  pr_CreatedAt :: time

definition requester_name :: "peer_identity \<Rightarrow> string" where
  "requester_name peer = (if peer_Username peer = [] then ''uid:'' @ string_of_nat (unat (peer_UID peer)) else peer_Username peer)"

definition pending_of :: "request \<Rightarrow> pending_request" where
  "pending_of req = \<lparr>pr_RequestID = req_ID req, pr_Requester = requester_name (req_Requester req), pr_Argv = req_Argv req,
     pr_Reason = req_Reason req, pr_CreatedAt = req_CreatedAt req\<rparr>"

definition handleLine :: "string \<Rightarrow> canon_tailer \<Rightarrow> (pending_request option) result \<times> canon_tailer" where
  "handleLine line t =
     (case unmarshal_event line of
        None \<Rightarrow> (Inl (ErrText ''decode event''), t)
      | Some e \<Rightarrow>
          (if ev_Type e \<noteq> TypeRequestCreated then (Inr None, t)
           else if ev_RequestID e \<in> ct_seen t then (Inr None, t)
           else
             let t = t\<lparr>ct_seen := insert (ev_RequestID e) (ct_seen t)\<rparr> in
             case unmarshal_details created_fields zero_request (ev_Details e) of
               Inl _ \<Rightarrow> (Inl (ErrText ''decode request_created details''), t)
             | Inr req \<Rightarrow> (Inr (Some (pending_of req)), t)))"

text \<open>What \<open>ReadBytes\<close> delivers until the end, without the line terminators.\<close>

definition read_pieces :: "string \<Rightarrow> string list" where
  "read_pieces content = (let ps = SplitByte newline content in if last ps = [] then butlast ps else ps)"

type_synonym tail_out = "pending_request list \<times> go_error list"

definition tail_piece :: "string \<Rightarrow> tail_out \<times> canon_tailer \<Rightarrow> tail_out \<times> canon_tailer" where
  "tail_piece line st =
     (case st of ((out, errs), t) \<Rightarrow>
        let (st', t) = (if line = [] then ((out, errs), t)
              else case handleLine line t of
                (Inl err, t) \<Rightarrow> ((out, errs @ [err]), t)
              | (Inr None, t) \<Rightarrow> ((out, errs), t)
              | (Inr (Some p), t) \<Rightarrow> ((out @ [p], errs), t))
        in (st', t\<lparr>ct_offset := ct_offset t + length line + 1\<rparr>))"

definition scanOnce ::
    "string option result \<Rightarrow> go_error option \<Rightarrow> go_error option \<Rightarrow> canon_tailer \<Rightarrow> go_error option \<times> tail_out \<times> canon_tailer" where
  "scanOnce opened seek readErr t =
     (case opened of
        Inl err \<Rightarrow> (Some err, ([], []), t)
      | Inr None \<Rightarrow> (None, ([], []), t)
      | Inr (Some content) \<Rightarrow>
          (case seek of
             Some err \<Rightarrow> (Some err, ([], []), t)
           | None \<Rightarrow> (readErr, fold tail_piece (read_pieces (drop (ct_offset t) content)) (([], []), t))))"

text \<open>The scans of \<open>Run\<close>, the initial one and one per tick; an error of a scan is logged.\<close>

type_synonym tail_env = "string option result \<times> go_error option \<times> go_error option"

fun tail_Run :: "tail_env list \<Rightarrow> canon_tailer \<Rightarrow> tail_out \<times> canon_tailer" where
  "tail_Run [] t = (([], []), t)"
| "tail_Run ((opened, seek, readErr) # envs) t =
     (case scanOnce opened seek readErr t of
        (err, (out, errs), t') \<Rightarrow>
          (case tail_Run envs t' of
             ((out', errs'), t'') \<Rightarrow> ((out @ out', errs @ (case err of None \<Rightarrow> [] | Some e \<Rightarrow> [e]) @ errs'), t'')))"

abbreviation (input) tail_file :: "string \<Rightarrow> tail_env" where
  "tail_file content \<equiv> (Inr (Some content), None, None)"

section \<open>Scanning whole lines\<close>

lemma read_pieces_lines:
  "list_all event_ok es \<Longrightarrow> read_pieces (file_lines event_line es) = map event_line es"
proof -
  assume "list_all event_ok es"
  then have "SplitByte newline (file_lines event_line es) = map event_line es @ [[]]"
    by (induction es) (simp_all add: SplitByte_append ev.enc_newline)
  then show ?thesis by (simp add: read_pieces_def)
qed

text \<open>What a log announces to a tailer that has seen the requests \<open>seen\<close>.\<close>

fun announced :: "string set \<Rightarrow> event list \<Rightarrow> pending_request list" where
  "announced seen [] = []"
| "announced seen (e # es) =
     (if ev_Type e = TypeRequestCreated \<and> ev_RequestID e \<notin> seen then
        (case unmarshal_details created_fields zero_request (ev_Details e) of
           Inl _ \<Rightarrow> []
         | Inr req \<Rightarrow> [pending_of req]) @ announced (insert (ev_RequestID e) seen) es
      else announced seen es)"

definition created_ids :: "event list \<Rightarrow> string set" where
  "created_ids es = ev_RequestID ` {e \<in> set es. ev_Type e = TypeRequestCreated}"

lemma tail_pieces_lines:
  assumes "list_all event_ok es"
  shows "\<exists>errs'. fold tail_piece (map event_line es) ((out, errs), t)
    = ((out @ announced (ct_seen t) es, errs'),
       \<lparr>ct_offset = ct_offset t + length (file_lines event_line es), ct_seen = ct_seen t \<union> created_ids es\<rparr>)"
  using assms
proof (induction es arbitrary: out errs t)
  case Nil
  show ?case by (simp add: created_ids_def)
next
  case (Cons e es)
  have e: "event_line e \<noteq> []" "unmarshal_event (event_line e) = Some e" using Cons.prems ev.enc_last ev.dec_enc by simp_all
  have c: "created_ids (e # es) = (if ev_Type e = TypeRequestCreated then {ev_RequestID e} else {}) \<union> created_ids es"
    by (auto simp: created_ids_def)
  obtain out1 errs1 t1 where 1: "tail_piece (event_line e) ((out, errs), t) = ((out1, errs1), t1)" by (metis surj_pair)
  have t1: "ct_offset t1 = ct_offset t + length (event_line e) + 1"
    "ct_seen t1 = ct_seen t \<union> (if ev_Type e = TypeRequestCreated then {ev_RequestID e} else {})"
    "out1 @ announced (ct_seen t1) es = out @ announced (ct_seen t) (e # es)"
    using 1 e by (auto simp: tail_piece_def handleLine_def Let_def insert_absorb split: if_splits sum.splits)
  obtain errs' where "fold tail_piece (map event_line es) ((out1, errs1), t1) = ((out1 @ announced (ct_seen t1) es, errs'),
      \<lparr>ct_offset = ct_offset t1 + length (file_lines event_line es), ct_seen = ct_seen t1 \<union> created_ids es\<rparr>)"
    using Cons.IH [of out1 errs1 t1] Cons.prems by auto
  then have "fold tail_piece (map event_line (e # es)) ((out, errs), t) = ((out @ announced (ct_seen t) (e # es), errs'),
      \<lparr>ct_offset = ct_offset t + length (file_lines event_line (e # es)), ct_seen = ct_seen t \<union> created_ids (e # es)\<rparr>)"
    unfolding t1(3) by (simp add: 1 t1(1,2) c)
  then show ?case by blast
qed

lemma announced_append: "announced seen (es @ fs) = announced seen es @ announced (seen \<union> created_ids es) fs"
  by (induction es arbitrary: seen) (auto simp: created_ids_def insert_absorb Un_insert_right image_iff intro!: arg_cong2 [of _ _ _ _ announced])

section \<open>A growing log\<close>

lemma take_split: "m \<le> n \<Longrightarrow> take m xs @ drop m (take n xs) = take n xs"
  by (metis append_take_drop_id min.absorb1 take_take)

lemma file_lines_take: "m \<le> n \<Longrightarrow> drop (length (file_lines enc (take m es))) (file_lines enc (take n es)) = file_lines enc (drop m (take n es))"
  using file_lines_simps(3) [of enc "take m es" "drop m (take n es)"] by (simp only: take_split) simp

lemma created_ids_append: "created_ids (es @ fs) = created_ids es \<union> created_ids fs"
  by (auto simp: created_ids_def)

lemma scan_from:
  assumes "list_all event_ok es" "m \<le> n" "ct_offset t = length (file_lines event_line (take m es))"
  shows "\<exists>errs. scanOnce (Inr (Some (file_lines event_line (take n es)))) None None t =
    (None, (announced (ct_seen t) (drop m (take n es)), errs),
     \<lparr>ct_offset = length (file_lines event_line (take n es)), ct_seen = ct_seen t \<union> created_ids (drop m (take n es))\<rparr>)"
proof -
  let ?ds = "drop m (take n es)"
  have d: "list_all event_ok ?ds" using assms(1) by (auto simp: list_all_iff dest: in_set_dropD in_set_takeD)
  have l: "length (file_lines event_line (take m es)) + length (file_lines event_line ?ds) = length (file_lines event_line (take n es))"
    using file_lines_simps(3) [of event_line "take m es" ?ds] by (simp only: take_split [OF assms(2)] length_append)
  show ?thesis
    using tail_pieces_lines [OF d, of "[]" "[]" t]
    by (auto simp: scanOnce_def assms(3) file_lines_take [OF assms(2)] read_pieces_lines [OF d] l)
qed

lemma scan_grown:
  assumes "list_all event_ok es" "m \<le> n"
    and "t = \<lparr>ct_offset = length (file_lines event_line (take m es)), ct_seen = created_ids (take m es)\<rparr>"
  shows "\<exists>errs. scanOnce (Inr (Some (file_lines event_line (take n es)))) None None t =
    (None, (announced (created_ids (take m es)) (drop m (take n es)), errs),
     \<lparr>ct_offset = length (file_lines event_line (take n es)), ct_seen = created_ids (take n es)\<rparr>)"
proof -
  have "created_ids (take m es) \<union> created_ids (drop m (take n es)) = created_ids (take n es)"
    using created_ids_append [of "take m es" "drop m (take n es)"] by (simp only: take_split [OF assms(2)])
  with scan_from [OF assms(1,2), of t] show ?thesis by (simp add: assms(3))
qed

lemma tail_Run_Cons:
  "fst (fst (tail_Run ((opened, seek, readErr) # envs) t)) =
     fst (fst (snd (scanOnce opened seek readErr t))) @ fst (fst (tail_Run envs (snd (snd (scanOnce opened seek readErr t)))))"
  by (simp split: prod.splits)

text \<open>Whole lines read after any earlier scans: what counts is the offset and the requests already seen.\<close>

lemma tail_grown:
  assumes "list_all event_ok es" "sorted (m # ns)" "ns \<noteq> []" "last ns \<le> length es"
    and "ct_offset t = length (file_lines event_line (take m es))"
  shows "fst (fst (tail_Run (map (\<lambda>n. tail_file (file_lines event_line (take n es))) ns) t))
    = announced (ct_seen t) (drop m (take (last ns) es))"
  using assms
proof (induction ns arbitrary: m t)
  case (Cons n ns)
  let ?t = "\<lparr>ct_offset = length (file_lines event_line (take n es)), ct_seen = ct_seen t \<union> created_ids (drop m (take n es))\<rparr>"
  obtain errs where s: "scanOnce (Inr (Some (file_lines event_line (take n es)))) None None t =
    (None, (announced (ct_seen t) (drop m (take n es)), errs), ?t)"
    using scan_from [OF Cons.prems(1) _ Cons.prems(5), of n] Cons.prems(2) by auto
  show ?case
  proof (cases "ns = []")
    case True
    with s show ?thesis by simp
  next
    case False
    let ?l = "last ns"
    have le: "m \<le> n" "n \<le> ?l" using Cons.prems(2) False by simp_all
    have "drop m (take ?l es) = drop m (take n es @ drop n (take ?l es))" by (simp only: take_split [OF le(2)])
    also have "\<dots> = drop m (take n es) @ drop n (take ?l es)" using le Cons.prems(4) False by simp
    finally have d: "drop m (take ?l es) = drop m (take n es) @ drop n (take ?l es)" .
    have "fst (fst (tail_Run (map (\<lambda>n. tail_file (file_lines event_line (take n es))) ns) ?t))
        = announced (ct_seen ?t) (drop n (take ?l es))"
      using Cons.IH [of n ?t] Cons.prems False by simp
    with s False show ?thesis by (simp add: tail_Run_Cons d announced_append del: tail_Run.simps)
  qed
qed simp

lemma announced_Rebuild:
  assumes "Rebuild es = Inr p"
  shows "\<exists>rids. distinct rids \<and> set rids = created_ids es \<and> created_ids es = set (gkeys p)
    \<and> announced {} es = map (\<lambda>rid. pending_of (snap_Request (the (Get p rid)))) rids"
  using assms
proof (induction es arbitrary: p rule: rev_induct)
  case Nil
  then show ?case by (simp add: created_ids_def New_def gkeys_def)
next
  case (snoc e es)
  then obtain q where q: "Rebuild es = Inr q" "Apply e q = Inr p" by (auto simp: Rebuild_snoc result_bind_eq_Inr)
  from snoc.IH [OF q(1)] obtain rids where ih: "distinct rids" "set rids = created_ids es" "created_ids es = set (gkeys q)"
    "announced {} es = map (\<lambda>rid. pending_of (snap_Request (the (Get q rid)))) rids" by blast
  have keep: "snap_Request (the (Get p rid)) = snap_Request (the (Get q rid))" if "rid \<in> set rids" for rid
    using that ih(2,3) gm.keys_iff [of rid q] Apply_request [OF q(2), of rid] by (fastforce simp: Get_def)
  from q(2) show ?case
  proof (cases rule: Apply_cases)
    case (created r)
    have new: "ev_RequestID e \<notin> created_ids es" using ih(3) created(2) gm.keys_iff [of "ev_RequestID e" q] by simp
    then have a: "announced {} (es @ [e]) = announced {} es @ [pending_of r]"
      using created(1,3) by (simp add: announced_append)
    have "created_ids (es @ [e]) = insert (ev_RequestID e) (created_ids es)" using created(1) by (auto simp: created_ids_def)
    with ih new a keep created(4) gm.keys_put [of "ev_RequestID e" _ q] show ?thesis
      by (intro exI [of _ "rids @ [ev_RequestID e]"]) (simp add: Get_def)
  next
    case (existing snap snap')
    have k: "set (gkeys p) = set (gkeys q)"
      using existing(2,7) gm.keys_put [of "ev_RequestID e" snap' q] gm.keys_iff [of "ev_RequestID e" q] by auto
    have "created_ids (es @ [e]) = created_ids es" "announced {} (es @ [e]) = announced {} es"
      using existing(1) by (auto simp: created_ids_def announced_append)
    with ih k keep show ?thesis by (intro exI [of _ rids]) simp
  qed
qed

text \<open>
  C20 (every request is announced once). Let every scan read the log to its end without an error and
  find only whole lines, the log growing from scan to scan, up to a history that the broker's
  projection accepts. Then the tailer hands to the SMS handler each request of the projection exactly
  once, with the data the broker holds for it, however many scans there are and whatever they find
  new. (A scan that ends inside a line can lose the request of this line, see
  \<open>torn_scan_loses_request\<close>; and a tailer that starts anew on an old log announces all its
  requests again, the decided ones included.)
\<close>

theorem tailer_announces_each_request_once:
  assumes "Rebuild es = Inr p" "list_all event_ok es"
    and "sorted ns" "ns \<noteq> []" "last ns = length es"
  shows "\<exists>rids. distinct rids \<and> set rids = set (gkeys p)
    \<and> fst (fst (tail_Run (map (\<lambda>n. tail_file (file_lines event_line (take n es))) ns) NewCanonTailer))
      = map (\<lambda>rid. pending_of (snap_Request (the (Get p rid)))) rids"
proof -
  have "fst (fst (tail_Run (map (\<lambda>n. tail_file (file_lines event_line (take n es))) ns) NewCanonTailer)) = announced {} es"
    using tail_grown [OF assms(2), of 0 ns NewCanonTailer] assms(3-5) by (simp add: NewCanonTailer_def)
  with announced_Rebuild [OF assms(1)] show ?thesis by auto
qed

section \<open>A concrete log\<close>

theorem tailer_announces_each_request_once_witness:
  "\<exists>es p snap. Rebuild es = Inr p \<and> Get p ''r'' = Some snap \<and> snap_Status snap = StatusExecuting
     \<and> fst (fst (tail_Run (map (\<lambda>n. tail_file (file_lines event_line (take n es))) [0, 1, length es]) NewCanonTailer))
       = [pending_of (snap_Request snap)]"
proof -
  obtain es snap where es: "log_holds sample_sha (crash_log es) es" "Rebuild es = Inr [(''r'', snap)]"
    and snap: "snap_Status snap = StatusExecuting" using crash_log_exists by blast
  have ok: "list_all event_ok es" using es(1) by (simp add: log_holds_def)
  have "es \<noteq> []" using es(2) by (auto simp: New_def)
  then have ns: "sorted [0, 1, length es]" "[0, 1, length es] \<noteq> []" "last [0, 1, length es] = length es"
    by (cases es; simp)+
  obtain rids where r: "distinct rids" "set rids = set (gkeys [(''r'', snap)])"
    "fst (fst (tail_Run (map (\<lambda>n. tail_file (file_lines event_line (take n es))) [0, 1, length es]) NewCanonTailer))
      = map (\<lambda>rid. pending_of (snap_Request (the (Get [(''r'', snap)] rid)))) rids"
    using tailer_announces_each_request_once [OF es(2) ok ns] by blast
  have "set rids = {''r''}" using r(2) by (simp add: gkeys_def)
  with r(1) have "rids = [''r'']"
    by (cases rids; cases "tl rids") auto
  with r(3) es(2) snap show ?thesis
    by (intro exI [of _ es] exI [of _ "[(''r'', snap)]"] exI [of _ snap]) (simp add: Get_def gget_def del: tail_Run.simps)
qed

text \<open>The first event of a log: the creation of the sample request.\<close>

definition sample_creation :: "string \<Rightarrow> event" where
  "sample_creation rid = appended sample_sha (sample_io FsOk) empty_log
     (new_event rid broker_actor TypeRequestCreated (Some (json_of_details (RequestCreatedDetails (sample_request rid)))))"

lemma sample_creation_event:
  assumes "valid_utf8 rid"
  shows "event_ok (sample_creation rid)" "announced {} [sample_creation rid] = [pending_of (sample_request rid)]"
proof -
  let ?d = "Some (json_of_details (RequestCreatedDetails (sample_request rid)))"
  note r = sample_request_ok(1) [OF assms] sample_request_ok(2) [of rid]
  have "MarshalDetails (Some (RequestCreatedDetails (sample_request rid))) = Inr ?d"
    using r by (simp add: MarshalDetails_def)
  then have "append_ok (sample_io FsOk) (new_event rid broker_actor TypeRequestCreated ?d)"
    using details_ok_Marshal assms by (simp add: append_ok_def new_event_def zero_event_def sample_io_def time_ok_def utf8_actor_def broker_actor_def byte_def)
  then show "event_ok (sample_creation rid)" unfolding sample_creation_def by (intro appended_ok(1)) (simp_all add: empty_log_def)
  show "announced {} [sample_creation rid] = [pending_of (sample_request rid)]"
    using unmarshal_created [OF r] by (simp add: sample_creation_def)
qed

end
