(* ===== verification/Json_Infix.thy ===== *)
theory Json_Infix
  imports Json_Scan Go_Codec
begin

text \<open>
  What a parser can see in the middle of a JSON text. A reader that starts at an arbitrary byte of a
  printed object may take the insides of strings for structure and the structure between them for
  strings. \<open>inner_members\<close> shows that if it finds an object at all, none of the names of this object
  is one that the members below the top level of the text avoid.
\<close>

section \<open>Member names at all depths\<close>

fun deep_names :: "json \<Rightarrow> string list"
  and deep_elems :: "json list \<Rightarrow> string list"
  and deep_members :: "(string \<times> json) list \<Rightarrow> string list" where
  "deep_names (JArr xs) = deep_elems xs"
| "deep_names (JObj ms) = deep_members ms"
| "deep_names _ = []"
| "deep_elems [] = []"
| "deep_elems (x # xs) = deep_names x @ deep_elems xs"
| "deep_members [] = []"
| "deep_members ((k, v) # ms) = k # deep_names v @ deep_members ms"

text \<open>The raw name decodes to the field \<open>n\<close>, up to case.\<close>

definition names_field :: "string \<Rightarrow> string \<Rightarrow> bool" where
  "names_field n k \<longleftrightarrow> (\<exists>k'. json_unquote k = Some k' \<and> fold_key k' = n)"

section \<open>Texts without a name below the top level\<close>

definition is_punct :: "char \<Rightarrow> bool" where
  "is_punct c \<longleftrightarrow> c \<in> set '',:]}''"

text \<open>After the quote that opens a string: if it is a name, it is not \<open>n\<close>.\<close>

definition other_name :: "string \<Rightarrow> string \<Rightarrow> bool" where
  "other_name n s \<longleftrightarrow> (\<forall>k r. s = k @ dquote # CHR '':'' # r \<longrightarrow> raw_ok k \<longrightarrow> \<not> names_field n k)"

definition starts_punct :: "string \<Rightarrow> bool" where
  "starts_punct s \<longleftrightarrow> s = [] \<or> is_punct (hd s)"

fun at_quote :: "string \<Rightarrow> lex_state \<Rightarrow> string \<Rightarrow> bool" where
  "at_quote n (Out d) s \<longleftrightarrow> (2 \<le> d \<longrightarrow> other_name n s)"
| "at_quote n (Str d) s \<longleftrightarrow> starts_punct s"
| "at_quote n _ s \<longleftrightarrow> True"

text \<open>Every quote of the text is followed by what it should be, in the lexer's state there.\<close>

fun avoids :: "string \<Rightarrow> lex_state \<Rightarrow> string \<Rightarrow> bool" where
  "avoids n st [] \<longleftrightarrow> True"
| "avoids n st (c # s) \<longleftrightarrow> (c = dquote \<longrightarrow> at_quote n st s) \<and> avoids n (lex st c) s"

lemma avoids_append: "avoids n st (x @ y) \<Longrightarrow> avoids n (lexes st x) y"
  by (induction x arbitrary: st) auto

lemma avoids_plain:
  "(\<And>c. c \<in> set w \<Longrightarrow> out_char c) \<Longrightarrow> 0 < d \<Longrightarrow> avoids n (Out d) s \<Longrightarrow> avoids n (Out d) (w @ s)"
proof (induction w)
  case (Cons c w)
  from Cons.prems(1) [of c] have "out_char c" by simp
  from not_bracket [OF this] this have "c \<noteq> dquote" "lex (Out d) c = Out d" using Cons.prems(2) by simp_all
  with Cons show ?case by simp
qed simp

lemma avoids_inner:
  "(\<And>c. c \<in> set w \<Longrightarrow> c \<noteq> dquote \<and> c \<noteq> bslash) \<Longrightarrow> avoids n (Str d) s \<Longrightarrow> avoids n (Str d) (w @ s)"
  by (induction w) auto

lemma avoids_raw:
  assumes "raw_ok r" "avoids n (Out d) s" "starts_punct s"
  shows "avoids n (Str d) (r @ dquote # s)"
  using assms(1)
proof (induction r rule: raw_ok.induct)
  case 1
  then show ?case using assms(2,3) by simp
next
  case (2 c r)
  show ?case
  proof (cases "c = bslash")
    case True
    with "2.prems" obtain e t where r: "r = e # t" by (auto simp: raw_ok.simps(2) split: list.splits)
    show ?thesis
    proof (cases "e = CHR ''u''")
      case u: True
      with "2.prems" True r obtain m where h: "hex4_val (take 4 t) = Some m" and ok: "raw_ok (drop 4 t)"
        by (auto simp: raw_ok.simps(2))
      have "x \<noteq> dquote \<and> x \<noteq> bslash" if "x \<in> set (take 4 t)" for x
        using hex4_val_digit [OF h that] hex_val_inner by blast
      moreover have "avoids n (Str d) (drop 4 t @ dquote # s)" using "2.IH"(1) True r u ok h by simp
      ultimately have "avoids n (Str d) (take 4 t @ (drop 4 t @ dquote # s))" by (rule avoids_inner)
      then have "avoids n (Str d) (t @ dquote # s)" by (metis append.assoc append_take_drop_id)
      with True r u show ?thesis by simp
    next
      case False
      with 2 True r show ?thesis by (simp add: raw_ok.simps(2))
    qed
  next
    case False
    with 2 show ?thesis by (simp add: raw_ok.simps(2))
  qed
qed

lemma raw_split: "raw_ok k \<Longrightarrow> raw_ok r \<Longrightarrow> k @ dquote # x = r @ dquote # y \<Longrightarrow> k = r \<and> x = y"
  by (metis option.inject prod.inject scan_str_raw)

lemma avoids_string:
  assumes "raw_ok r" "avoids n (Out d) s" "starts_punct s" "0 < d"
    and "2 \<le> d \<Longrightarrow> \<not> names_field n r \<or> (s = [] \<or> hd s \<noteq> CHR '':'')"
  shows "avoids n (Out d) (dquote # r @ dquote # s)"
proof -
  have "other_name n (r @ dquote # s)" if d: "2 \<le> d"
    unfolding other_name_def
  proof (intro allI impI)
    fix k z assume k: "r @ dquote # s = k @ dquote # CHR '':'' # z" "raw_ok k"
    from raw_split [OF assms(1) k(2) k(1)] have "k = r" "s = CHR '':'' # z" by auto
    with assms(5) [OF d] show "\<not> names_field n k" by auto
  qed
  with avoids_raw [OF assms(1-3)] assms(4) show ?thesis by simp
qed

lemma starts_punct_simps [simp]:
  "starts_punct (CHR '','' # s)" "starts_punct (CHR '']'' # s)" "starts_punct (CHR ''}'' # s)" "starts_punct (CHR '':'' # s)" "starts_punct []"
  by (simp_all add: starts_punct_def is_punct_def)

lemma out_char_simps [simp]: "out_char (CHR '','')" "out_char (CHR '':'')"
  by (simp_all add: out_char_def)

lemma avoids_print:
  shows "wf_json j \<Longrightarrow> 0 < d \<Longrightarrow> (\<forall>k \<in> set (deep_names j). \<not> names_field n k) \<Longrightarrow> starts_punct z \<Longrightarrow> (z = [] \<or> hd z \<noteq> CHR '':'') \<Longrightarrow>
      avoids n (Out d) z \<Longrightarrow> avoids n (Out d) (json_print j @ z)"
    and "wf_elems xs \<Longrightarrow> 0 < d \<Longrightarrow> (\<forall>k \<in> set (deep_elems xs). \<not> names_field n k) \<Longrightarrow> avoids n (Out d) z \<Longrightarrow>
      avoids n (Out (Suc d)) (print_elems xs @ z)"
    and "wf_members ms \<Longrightarrow>
      (\<forall>(k, v) \<in> set ms. (0 < d \<longrightarrow> \<not> names_field n k) \<and> (\<forall>k \<in> set (deep_names v). \<not> names_field n k)) \<Longrightarrow>
      avoids n (Out d) z \<Longrightarrow> avoids n (Out (Suc d)) (print_members ms @ z)"
proof (induction j and xs and ms arbitrary: d z and d z and d z rule: json_print_print_elems_print_members.induct)
  case 1
  then show ?case using avoids_plain [of "''null''"] by (simp add: out_char_def)
next
  case (2 b)
  then show ?case using avoids_plain [of "''true''"] avoids_plain [of "''false''"] by (simp add: out_char_def)
next
  case (3 s)
  then show ?case by (auto simp: list_all_iff out_char_def intro!: avoids_plain)
next
  case (4 s)
  then show ?case using avoids_string [of s n d z] by simp
next
  case (5 xs)
  then show ?case by simp
next
  case (6 ms)
  have "\<forall>(k, v) \<in> set ms. (0 < d \<longrightarrow> \<not> names_field n k) \<and> (\<forall>k \<in> set (deep_names v). \<not> names_field n k)"
  proof -
    have "k \<in> set (deep_members ms) \<and> set (deep_names v) \<subseteq> set (deep_members ms)" if "(k, v) \<in> set ms" for k v
      using that by (induction ms) auto
    with "6.prems"(3) show ?thesis by fastforce
  qed
  with 6 show ?case by simp
next
  case (7 d z)
  then show ?case by simp
next
  case (8 x xs)
  show ?case
  proof (cases "xs = []")
    case True
    have "avoids n (Out (Suc d)) (json_print x @ CHR '']'' # z)"
      using "8.prems" by (intro "8.IH"(1)) auto
    with True show ?thesis by simp
  next
    case False
    have "avoids n (Out (Suc d)) (print_elems xs @ z)" using 8 False by simp
    then have "avoids n (Out (Suc d)) (json_print x @ CHR '','' # print_elems xs @ z)"
      using "8.prems" by (intro "8.IH"(1)) auto
    with False show ?thesis by simp
  qed
next
  case (9 d z)
  then show ?case by simp
next
  case (10 k v ms)
  have m: "0 < d \<longrightarrow> \<not> names_field n k" "\<forall>k \<in> set (deep_names v). \<not> names_field n k" using "10.prems"(2) by auto
  have k: "avoids n (Out (Suc d)) (dquote # k @ dquote # CHR '':'' # s)" if "avoids n (Out (Suc d)) s" for s
    using "10.prems"(1) m(1) that by (intro avoids_string) auto
  have "avoids n (Out (Suc d)) (json_print v @ (if ms = [] then ''}'' else CHR '','' # print_members ms) @ z)"
  proof (cases "ms = []")
    case True
    have "avoids n (Out (Suc d)) (json_print v @ CHR ''}'' # z)"
      using "10.prems" m(2) by (intro "10.IH"(1)) auto
    with True show ?thesis by simp
  next
    case False
    have "avoids n (Out (Suc d)) (print_members ms @ z)" using "10.IH"(2) [OF False, of d z] "10.prems" by auto
    then have "avoids n (Out (Suc d)) (json_print v @ CHR '','' # print_members ms @ z)"
      using "10.prems" m(2) by (intro "10.IH"(1)) auto
    with False show ?thesis by simp
  qed
  from k [OF this] show ?case by simp
qed

section \<open>What the parser reads as names\<close>

lemma pmembers_names:
  "pmembers n s = Some (ms, t) \<Longrightarrow> (k, v) \<in> set ms \<Longrightarrow>
   \<exists>a b c. s = a @ dquote # k @ dquote # b \<and> skip_ws b = CHR '':'' # c \<and> raw_ok k \<and> lexes (Out (Suc d)) a = Out (Suc d)"
proof (induction n arbitrary: s ms)
  case (Suc n)
  from Suc.prems(1) obtain r where r: "skip_ws s = dquote # r" by (auto split: list.splits if_splits)
  from Suc.prems(1) r obtain k1 u where k1: "scan_str r = Some (k1, u)" by (auto split: option.splits)
  from Suc.prems(1) r k1 obtain w where w: "skip_ws u = CHR '':'' # w" by (auto split: list.splits if_splits)
  from Suc.prems(1) r k1 w obtain v1 x where v: "pvalue n w = Some (v1, x)" by (auto split: option.splits)
  from Suc.prems(1) r k1 w v obtain c y where c: "skip_ws x = c # y" by (auto split: list.splits)
  note k = scan_str_sound [OF k1]
  obtain w0 where w0: "s = w0 @ skip_ws s" "\<And>d. lexes (Out d) w0 = Out d" using skip_ws_split [of s] by blast
  show ?case
  proof (cases "(k, v) = (k1, v1)")
    case True
    with w0 r k w show ?thesis by (intro exI [of _ w0] exI [of _ u] exI [of _ w]) simp
  next
    case False
    with Suc.prems r k1 w v c obtain ms' where m: "c = CHR '',''" "pmembers n y = Some (ms', t)" "(k, v) \<in> set ms'"
      by (auto split: if_splits)
    from Suc.IH [OF m(2,3)] obtain a b e where i: "y = a @ dquote # k @ dquote # b" "skip_ws b = CHR '':'' # e" "raw_ok k"
      "lexes (Out (Suc d)) a = Out (Suc d)" by blast
    obtain p where p: "w = p @ x" "lexes (Out (Suc d)) p = Out (Suc d)" using parse_lexes_mutual(1) [OF v, of "Suc d"] by auto
    obtain w1 where w1: "u = w1 @ skip_ws u" "\<And>d. lexes (Out d) w1 = Out d" using skip_ws_split [of u] by blast
    obtain w2 where w2: "x = w2 @ skip_ws x" "\<And>d. lexes (Out d) w2 = Out d" using skip_ws_split [of x] by blast
    have "s = (w0 @ (dquote # k1 @ [dquote]) @ w1 @ '':'' @ p @ w2 @ '','' @ a) @ dquote # k @ dquote # b"
      using w0(1) r k w1(1) w p(1) w2(1) c m(1) i(1) by simp
    moreover have "lexes (Out (Suc d)) (w0 @ (dquote # k1 @ [dquote]) @ w1 @ '':'' @ p @ w2 @ '','' @ a) = Out (Suc d)"
      using w0(2) w1(2) w2(2) p(2) i(4) lexes_raw [of k1 "Suc d"] k by simp
    ultimately show ?thesis using i(2,3) by blast
  qed
qed simp

text \<open>Every name of an object, in the text behind the object's opening brace.\<close>

lemma json_parse_names:
  assumes "json_parse s = Some (JObj ms)" "(k, v) \<in> set ms"
  shows "\<exists>w a b c. s = w @ CHR ''{'' # a @ dquote # k @ dquote # b \<and> (\<forall>c \<in> set w. is_ws c) \<and> skip_ws b = CHR '':'' # c
    \<and> raw_ok k \<and> lexes (Out 1) a = Out 1"
proof -
  obtain t where t: "pvalue (Suc (length s)) s = Some (JObj ms, t)"
    using assms(1) by (auto simp: json_parse_def simp del: pvalue.simps split: option.splits if_splits)
  then obtain c r where c: "skip_ws s = c # r" by (auto split: list.splits)
  have "c = CHR ''{''"
    using t c by (auto simp: scan_word_def scan_num_def Let_def split: if_splits list.splits)
  with t c obtain d u where d: "skip_ws r = d # u" by (auto split: list.splits)
  with t c assms(2) \<open>c = _\<close> have p: "pmembers (length s) (d # u) = Some (ms, t)" by (auto split: if_splits)
  from pmembers_names [OF this assms(2), of 0] obtain a b e where a: "d # u = a @ dquote # k @ dquote # b" "skip_ws b = CHR '':'' # e"
    "raw_ok k" "lexes (Out 1) a = Out 1" by auto
  obtain w1 where w1: "r = w1 @ skip_ws r" "\<And>d. lexes (Out d) w1 = Out d" using skip_ws_split [of r] by blast
  have "s = takeWhile is_ws s @ skip_ws s" by (simp add: skip_ws_def)
  moreover have "\<forall>c \<in> set (takeWhile is_ws s). is_ws c" by (auto dest: set_takeWhileD)
  moreover have "skip_ws s = CHR ''{'' # (w1 @ a) @ dquote # k @ dquote # b"
    using c \<open>c = _\<close> w1(1) d a(1) by simp
  moreover have "lexes (Out 1) (w1 @ a) = Out 1" using w1(2) a(4) by simp
  ultimately show ?thesis using a(2,3) by metis
qed

section \<open>Two readers of one text\<close>

text \<open>
  The reader in the middle and the reader of the whole: either they agree on what is a string, with
  the depths \<open>d\<close> apart, or they take opposite views.
\<close>

fun phase :: "nat \<Rightarrow> lex_state \<Rightarrow> lex_state \<Rightarrow> bool" where
  "phase d (Out a) (Out b) \<longleftrightarrow> b = a + d"
| "phase d (Str a) (Str b) \<longleftrightarrow> b = a + d"
| "phase d (Esc a) (Esc b) \<longleftrightarrow> b = a + d"
| "phase d (Out a) (Str b) \<longleftrightarrow> True"
| "phase d (Str a) (Out b) \<longleftrightarrow> True"
| "phase d _ _ \<longleftrightarrow> False"

lemma not_out_char [simp]: "\<not> out_char dquote" "\<not> out_char bslash"
  by (simp_all add: out_char_def is_ws_def num_char_def is_digit_def byte_def)

lemma ws_plain: "is_ws c \<Longrightarrow> c \<noteq> dquote \<and> c \<noteq> bslash"
  by (auto simp: is_ws_def)

lemma phase_lex:
  assumes "phase d st su" "lex st c \<noteq> Bad" "lex su c \<noteq> Bad" "0 < d"
  shows "phase d (lex st c) (lex su c)"
proof -
  have "is_ws c \<Longrightarrow> out_char c \<and> c \<noteq> dquote \<and> c \<noteq> bslash \<and> c \<noteq> CHR ''{'' \<and> c \<noteq> CHR ''['' \<and> c \<noteq> CHR ''}'' \<and> c \<noteq> CHR '']''"
    by (auto simp: is_ws_def out_char_def)
  with assms show ?thesis by (cases st; cases su) (auto split: if_splits)
qed

lemma phase_lexes:
  "phase d st su \<Longrightarrow> lexes st s \<noteq> Bad \<Longrightarrow> lexes su s \<noteq> Bad \<Longrightarrow> 0 < d \<Longrightarrow> phase d (lexes st s) (lexes su s)"
proof (induction s arbitrary: st su)
  case (Cons c s)
  from Cons.prems(2,3) have "lex st c \<noteq> Bad" "lex su c \<noteq> Bad" by auto
  from phase_lex [OF Cons.prems(1) this Cons.prems(4)] Cons show ?case by simp
qed simp

lemma fold_key_punct: "is_punct c \<Longrightarrow> fold_key (c # s) = c # fold_key s"
  by (auto simp: is_punct_def ascii_lower_def byte_def)

lemma punct_plain: "is_punct c \<Longrightarrow> c \<noteq> bslash \<and> c \<noteq> dquote \<and> \<not> byte c < 32 \<and> byte c < 128"
  by (auto simp: is_punct_def byte_def)

lemma names_punct: "is_punct c \<Longrightarrow> names_field n (c # k) \<Longrightarrow> \<exists>s. n = c # s"
  unfolding names_field_def
proof (elim exE conjE)
  fix k' assume p: "is_punct c" and k: "json_unquote (c # k) = Some k'" "fold_key k' = n"
  from punct_plain [OF p] k(1) obtain r where "k' = c # r" by (auto simp: json_unquote.simps(2))
  with fold_key_punct [OF p, of r] k(2) show "\<exists>s. n = c # s" by blast
qed

text \<open>
  An object read in the middle of a text: the text is read from behind its first brace, and the part
  \<open>s\<close> of it parses as an object. Then no name of this object is one the text avoids.
\<close>

theorem inner_members:
  assumes "avoids n (Out 1) (x @ s @ y)" "lexes (Out 1) (x @ s @ y) \<noteq> Bad"
    and "json_parse s = Some (JObj ms)" "(k, v) \<in> set ms" "n \<noteq> [] \<Longrightarrow> \<not> is_punct (hd n)"
  shows "\<not> names_field n k"
proof
  assume nk: "names_field n k"
  obtain w a b e where s: "s = w @ CHR ''{'' # a @ dquote # k @ dquote # b" "\<forall>c \<in> set w. is_ws c" "skip_ws b = CHR '':'' # e"
    "raw_ok k" "lexes (Out 1) a = Out 1" using json_parse_names [OF assms(3,4)] by blast
  let ?st = "lexes (Out 1) x" and ?x = "x @ w @ CHR ''{'' # a"
  have t: "x @ s @ y = ?x @ dquote # k @ dquote # b @ y" using s(1) by simp
  have nb: "lexes (Out 1) p \<noteq> Bad" if "x @ s @ y = p @ q" for p q
  proof
    assume "lexes (Out 1) p = Bad"
    then have "lexes (Out 1) (p @ q) = Bad" by simp
    with assms(2) that show False by simp
  qed
  have "x @ s @ y = (x @ w @ ''{'') @ (a @ dquote # k @ dquote # b @ y)" using s(1) by simp
  from nb [OF this] have sb: "lexes ?st (w @ ''{'') \<noteq> Bad" by simp
  have ws: "\<forall>c \<in> set w. c \<noteq> dquote \<and> c \<noteq> bslash" using s(2) ws_plain by blast
  have str: "lexes (Str d) w = Str d" for d using ws by (induction w) auto
  have out: "lexes (Out d) w = Out d" for d by (rule lexes_ws) (use s(2) in auto)
  have start: "\<exists>d>0. phase d (Out 1) (lexes ?st (w @ ''{''))"
  proof (cases ?st)
    case (Out d)
    with sb out [of d] have "0 < d" by (cases d) (auto simp: is_ws_def)
    with Out out [of d] show ?thesis by auto
  next
    case (Str d)
    with str [of d] show ?thesis by auto
  next
    case (Esc d)
    have "\<exists>b. lexes (Esc d) (w @ ''{'') = Str b"
    proof (cases w)
      case (Cons c w')
      then have "lexes (Str d) w' = Str d" using ws by (induction w' arbitrary: w) auto
      with Cons show ?thesis by simp
    qed simp
    with Esc show ?thesis by auto
  qed (use sb in simp)
  then obtain d where d: "0 < d" "phase d (Out 1) (lexes ?st (w @ ''{''))" by blast
  have "lexes (lexes ?st (w @ ''{'')) a = lexes (Out 1) ?x" by simp
  with phase_lexes [OF d(2), of a] nb [OF t] s(5) d(1) have ph: "phase d (Out 1) (lexes (Out 1) ?x)" by simp
  have av: "at_quote n (lexes (Out 1) ?x) (k @ dquote # b @ y)"
    using avoids_append [of n "Out 1" ?x "dquote # k @ dquote # b @ y"] assms(1) unfolding t by simp
  show False
  proof (cases "lexes (Out 1) ?x")
    case (Out c)
    with ph d(1) have c: "2 \<le> c" by simp
    have "lexes (Out 1) (?x @ dquote # k) = Str c" using Out c lexes_raw [OF s(4), of c] by simp
    then have "starts_punct (b @ y)"
      using avoids_append [of n "Out 1" "?x @ dquote # k" "dquote # b @ y"] assms(1) unfolding t by simp
    moreover have "b \<noteq> []" using s(3) by auto
    ultimately have "\<not> is_ws (hd b)" by (auto simp: starts_punct_def is_punct_def is_ws_def)
    with s(3) \<open>b \<noteq> []\<close> have "b = CHR '':'' # e" by (cases b) auto
    with av Out c s(4) nk show False by (auto simp: other_name_def)
  next
    case (Str c)
    with av have p: "starts_punct (k @ dquote # b @ y)" by simp
    show False
    proof (cases k)
      case Nil
      with p show False by (auto simp: starts_punct_def is_punct_def)
    next
      case (Cons h r)
      with p have "is_punct h" by (simp add: starts_punct_def)
      with names_punct [of h n r] nk Cons assms(5) show False by auto
    qed
  next
    case (Esc c)
    with ph show False by simp
  next
    case Bad
    with ph show False by simp
  qed
qed

section \<open>A text that is cut off\<close>

lemma pvalue_object_lexes:
  assumes "pvalue (Suc n) (CHR ''{'' # u) = Some (j, t)"
  shows "\<exists>p. u = p @ t \<and> lexes (Out 1) p = Out 0"
proof -
  have s: "skip_ws (CHR ''{'' # u) = CHR ''{'' # u" by simp
  obtain a r where a: "skip_ws u = a # r" using assms s by (auto split: list.splits)
  obtain w where w: "u = w @ a # r" "lexes (Out 1) w = Out 1" using skip_ws_split [of u] a by metis
  show ?thesis
  proof (cases "a = CHR ''}''")
    case True
    with assms s a have "r = t" by simp
    with True w show ?thesis by (intro exI [of _ "w @ [a]"]) simp
  next
    case False
    with assms s a obtain ms where "pmembers n (a # r) = Some (ms, t)" by auto
    from parse_lexes_mutual(3) [OF this, of 0] obtain p where "a # r = p @ t" "lexes (Out 1) p = Out 0" by auto
    with w show ?thesis by (intro exI [of _ "w @ p"]) simp
  qed
qed

end
