(* ===== verification/Torn_Reads.thy ===== *)
theory Torn_Reads
  imports Canon_Tail Json_Infix "HOL-Library.Sublist"
begin

text \<open>
  Reading an event log that is being written. A log is written in pieces, each a part of one event's
  line: the whole line, or the beginning of it that a failing write left behind. A reader may stop
  and start at any byte, as the tailer of \<open>Canon_Tail\<close> does when a scan meets a line that is not
  complete. The theory shows that nothing such a reader takes for an event is anything but an event
  that was written, whatever texts the requests in the log hold.
\<close>

section \<open>A log written in pieces\<close>

inductive written :: "(event \<Rightarrow> bool) \<Rightarrow> string \<Rightarrow> bool" for G where
  written_nil: "written G []"
| written_piece: "written G f \<Longrightarrow> G a \<Longrightarrow> written G (f @ take n (event_line a @ [newline]))"

lemma written_mono: "written G f \<Longrightarrow> (\<And>a. G a \<Longrightarrow> H a) \<Longrightarrow> written H f"
  by (induction rule: written.induct) (auto simp del: take_append intro: written.intros)

lemma written_line: "written G f \<Longrightarrow> G a \<Longrightarrow> written G (f @ event_line a @ [newline])"
  using written_piece [of G f a "Suc (length (event_line a))"] by simp

lemma written_torn: "written G f \<Longrightarrow> G a \<Longrightarrow> written G (f @ take n (event_line a))"
  using written_piece [of G f a "min n (length (event_line a))"] by (simp add: min_def split: if_splits)

text \<open>No member of the details is called \<open>type\<close>.\<close>

definition untyped :: "json option \<Rightarrow> bool" where
  "untyped d \<longleftrightarrow> (\<forall>j. d = Some j \<longrightarrow> (\<forall>k \<in> set (deep_names j). \<not> names_field ''type'' k))"

section \<open>Inside one line\<close>

lemma names_plain: "plain_key k \<Longrightarrow> names_field n k \<longleftrightarrow> fold_key k = n"
  by (simp add: names_field_def json_unquote_plain_key)

lemma find_field_fold: "find_field fs k = Some d \<Longrightarrow> \<exists>n. (n, d) \<in> set fs \<and> fold_key n = fold_key k"
  by (auto simp: find_field_def find_Some_iff dest: map_of_SomeD split: option.splits)
     (metis nth_mem surj_pair)

lemma event_field_type:
  assumes "(n, d) \<in> set event_fields" "fold_key n \<noteq> ''type''" "d j r = Some r'"
  shows "ev_Type r' = ev_Type r"
proof -
  have "fold_key ''type'' = ''type''" by (simp add: ascii_lower_def byte_def)
  with assms(2) have "n \<noteq> ''type''" by auto
  with assms(1,3) show ?thesis by (auto simp: event_fields_def dec_field_def)
qed

lemma typed_member:
  assumes "dec_members event_fields ms r = Some e" "ev_Type e \<noteq> ev_Type r"
  shows "\<exists>k v. (k, v) \<in> set ms \<and> names_field ''type'' k"
  using assms
proof (induction ms arbitrary: r)
  case (Cons m ms)
  obtain k v where m: "m = (k, v)" by fastforce
  from Cons.prems(1) m obtain k' where k': "json_unquote k = Some k'" by (auto simp: dec_members.simps(2) split: option.splits)
  show ?case
  proof (cases "fold_key k' = ''type''")
    case True
    with k' m show ?thesis by (auto simp: names_field_def)
  next
    case False
    obtain r' where "dec_members event_fields ms r' = Some e" "ev_Type r' = ev_Type r"
      using Cons.prems(1) m k' False
      by (auto simp: dec_members.simps(2) split: option.splits dest!: find_field_fold dest: event_field_type)
    with Cons.IH [of r'] Cons.prems(2) show ?thesis by auto
  qed
qed simp

text \<open>What is taken for an event with a type is an object with a member of that name.\<close>

lemma unmarshal_typed:
  assumes "unmarshal_event s = Some e" "ev_Type e \<noteq> []"
  shows "\<exists>ms k v. json_parse s = Some (JObj ms) \<and> (k, v) \<in> set ms \<and> names_field ''type'' k"
proof -
  obtain j where j: "json_parse s = Some j" "dec_struct event_fields j zero_event = Some e"
    using assms(1) by (auto simp: unmarshal_event_def split: option.splits)
  with assms(2) obtain ms where "j = JObj ms" "dec_members event_fields ms zero_event = Some e"
    by (cases j) (auto simp: dec_struct_def zero_event_def)
  with typed_member [of ms zero_event e] assms(2) j(1) show ?thesis by (auto simp: zero_event_def)
qed

lemma deep_scalars: "deep_names (jstring s) = []" "deep_names (jtime t) = []" "deep_names (juint w) = []" "deep_names (jint i) = []"
  by (simp_all add: jstring_def jtime_def juint_def jint_def)

lemma event_members_untyped:
  assumes "event_ok a" "untyped (ev_Details a)" "json_of_event a = JObj ms"
  shows "\<forall>(k, v) \<in> set ms. \<forall>k \<in> set (deep_names v). \<not> names_field ''type'' k"
proof -
  have "html_json j = j" if "ev_Details a = Some j" for j
    using assms(1) that by (simp add: event_ok_def details_ok_def canonical_def)
  moreover have "\<not> names_field ''type'' ''kind''" "\<not> names_field ''type'' ''id''"
    by (simp_all add: names_plain plain_key_def byte_def ascii_lower_def)
  ultimately show ?thesis
    using assms(2,3)
    by (auto simp: json_of_event_def omit_if_def details_member_def untyped_def deep_scalars json_of_actor_def split: if_splits option.splits)
qed

lemma inner_event:
  assumes "event_ok a" "untyped (ev_Details a)" "event_line a = p @ s @ q" "p \<noteq> []" "unmarshal_event s = Some e"
  shows "ev_Type e = []"
proof (rule ccontr)
  assume t: "ev_Type e \<noteq> []"
  obtain ms where ms: "json_of_event a = JObj ms" by (simp add: json_of_event_def)
  let ?u = "print_members ms"
  have wf: "wf_json (JObj ms)"
    using assms(1) canonical_event [of a] by (simp add: event_ok_def canonical_def ms [symmetric])
  have l: "event_line a = CHR ''{'' # ?u" by (simp add: event_line_def ms)
  with assms(3,4) obtain x where x: "?u = x @ s @ q" by (cases p) auto
  have "avoids ''type'' (Out 1) (?u @ [])"
    using avoids_print(3) [of ms 0 "''type''" "[]"] wf event_members_untyped [OF assms(1,2) ms] by auto
  moreover have "lexes (Out 1) ?u = Out 0"
    using json_parse_object_lexes json_parse_print [OF wf] l by (simp add: event_line_def ms)
  moreover obtain ms' k v where "json_parse s = Some (JObj ms')" "(k, v) \<in> set ms'" "names_field ''type'' k"
    using unmarshal_typed [OF assms(5) t] by blast
  ultimately show False
    using inner_members [of "''type''" x s q ms' k v] x by (simp add: is_punct_def)
qed

text \<open>A part of a line that is taken for an event with a type is the whole line.\<close>

lemma line_part:
  assumes "event_ok a" "untyped (ev_Details a)" "sublist s (event_line a)" "unmarshal_event s = Some e" "ev_Type e \<noteq> []"
  shows "e = a"
proof -
  obtain p q where l: "event_line a = p @ s @ q" using assms(3) by (auto simp: sublist_def)
  have "p = []" using inner_event [OF assms(1,2) l _ assms(4)] assms(5) by blast
  then have s: "s = take (length s) (event_line a)" using l by simp
  moreover have "\<not> length s < length (event_line a)"
    using torn_prefix_rejected [OF assms(1), of "length s"] s assms(4) by auto
  ultimately have "s = event_line a" by simp
  with assms(4) ev.dec_enc [OF assms(1)] show ?thesis by simp
qed

section \<open>Across pieces\<close>

lemma json_parse_ws: "\<forall>c \<in> set w. is_ws c \<Longrightarrow> json_parse (w @ s) = Some j \<Longrightarrow> json_parse s = Some j"
proof -
  assume w: "\<forall>c \<in> set w. is_ws c" and j: "json_parse (w @ s) = Some j"
  from w have "skip_ws (w @ s) = skip_ws s" by (induction w) (auto simp: skip_ws_def)
  then have "pvalue (Suc n) (w @ s) = pvalue (Suc n) s" for n by simp
  with j obtain t where t: "pvalue (Suc (length (w @ s))) s = Some (j, t)" "skip_ws t = []"
    by (auto simp: json_parse_def simp del: pvalue.simps split: option.splits if_splits)
  from pvalue_enough_fuel [OF t(1)] t(2) show ?thesis by (simp add: json_parse_def del: pvalue.simps)
qed

lemma unmarshal_ws: "\<forall>c \<in> set w. is_ws c \<Longrightarrow> unmarshal_event (w @ s) = Some e \<Longrightarrow> unmarshal_event s = Some e"
  using json_parse_ws [of w s] by (auto simp: unmarshal_event_def split: option.splits)

text \<open>The rest of an earlier piece, with a line begun behind it.\<close>

lemma joined_pieces:
  assumes "event_ok a" "0 < n" "unmarshal_event (x @ take n (event_line a)) = Some e" "ev_Type e \<noteq> []"
  shows "e = a"
proof -
  let ?p = "take n (event_line a)"
  obtain ms k v where ms: "json_parse (x @ ?p) = Some (JObj ms)" "(k, v) \<in> set ms" using unmarshal_typed [OF assms(3,4)] by blast
  obtain w u where w: "x @ ?p = w @ CHR ''{'' # u" "\<forall>c \<in> set w. is_ws c" using json_parse_names [OF ms] by blast
  show ?thesis
  proof (cases "length w < length x")
    case True
    then obtain y where x: "x = w @ CHR ''{'' # y"
      using w(1) by (auto simp: append_eq_append_conv2 append_eq_Cons_conv)
    have "unmarshal_event ((CHR ''{'' # y) @ ?p) = Some e" using unmarshal_ws [OF w(2), of "(CHR ''{'' # y) @ ?p"] assms(3) x by simp
    with torn_line_rejected [OF assms(1,2)] show ?thesis by simp
  next
    case False
    then obtain z where z: "w = x @ z" using w(1) by (auto simp: append_eq_append_conv2)
    then have "\<forall>c \<in> set x. is_ws c" using w(2) by simp
    from unmarshal_ws [OF this assms(3)] have u: "unmarshal_event ?p = Some e" .
    with torn_prefix_rejected [OF assms(1), of n] have "\<not> n < length (event_line a)" by auto
    with u ev.dec_enc [OF assms(1)] show ?thesis by simp
  qed
qed

text \<open>A part of a log without a line end that is taken for an event with a type is one that was written.\<close>

theorem written_part:
  assumes "written G f" "\<And>a. G a \<Longrightarrow> event_ok a \<and> untyped (ev_Details a)"
    and "sublist s f" "newline \<notin> set s" "unmarshal_event s = Some e" "ev_Type e \<noteq> []"
  shows "G e"
  using assms(1,3)
proof (induction rule: written.induct)
  case written_nil
  with assms(5) show ?case by (simp add: unmarshal_event_def json_parse_def)
next
  case (written_piece f a n)
  note a = assms(2) [OF written_piece.hyps(2)]
  have empty: "s \<noteq> []" using assms(5) by (auto simp: unmarshal_event_def json_parse_def)
  have line: "prefix y (take m (event_line a))"
    if "prefix y (take m (event_line a @ [newline]))" "newline \<notin> set y" for y m
  proof -
    from that(1) have "prefix y (event_line a @ [newline])" "length y \<le> m"
      using take_is_prefix prefix_order.trans prefix_length_le by (blast, fastforce dest: prefix_length_le)
    with that(2) have "y = take (length y) (event_line a)" "length y \<le> m" by (auto simp: prefix_def append_eq_append_conv2 Cons_eq_append_conv)
    then show ?thesis by (metis min.absorb1 take_is_prefix take_take)
  qed
  from written_piece.prems consider (old) "sublist s f" | (new) "sublist s (take n (event_line a @ [newline]))"
    | (both) x y where "s = x @ y" "suffix x f" "prefix y (take n (event_line a @ [newline]))"
    by (auto simp: sublist_append)
  then show ?case
  proof cases
    case old
    then show ?thesis by (rule written_piece.IH)
  next
    case new
    then have "sublist s (event_line a @ [newline])" by (metis sublist_take sublist_order.order_trans)
    then have "sublist s (event_line a)"
      using assms(4) empty by (auto simp: sublist_append prefix_Cons sublist_Cons_right suffix_imp_sublist)
    from line_part [OF _ _ this assms(5,6)] a written_piece.hyps(2) show ?thesis by simp
  next
    case both
    show ?thesis
    proof (cases "y = []")
      case True
      with both written_piece.IH show ?thesis by (simp add: suffix_imp_sublist)
    next
      case False
      have "prefix y (take n (event_line a))" using line [OF both(3)] both(1) assms(4) by simp
      then have "y = take (length y) (event_line a)"
        by (metis append_eq_conv_conj prefix_def prefix_length_le take_is_prefix take_take min.absorb1 prefix_order.trans)
      with joined_pieces [of a "length y" x e] a False both(1) assms(5,6) written_piece.hyps(2) show ?thesis by fastforce
    qed
  qed
qed

section \<open>What a scan announces\<close>

lemma read_pieces_part:
  assumes "line \<in> set (read_pieces s)"
  shows "sublist line s \<and> newline \<notin> set line"
proof -
  have "sublist t s" if "t \<in> set (SplitByte newline s)" for t
    using that
  proof (induction s arbitrary: t)
    case (Cons c s)
    obtain y ys where y: "SplitByte newline s = y # ys" by (cases "SplitByte newline s") auto
    have "prefix y s" using y
    proof (induction s arbitrary: y ys)
      case (Cons d s)
      then show ?case by (cases "SplitByte newline s") (auto split: if_splits)
    qed simp
    with Cons y show ?case by (auto simp: sublist_Cons_right split: if_splits)
  qed simp
  moreover have "set (read_pieces s) \<subseteq> set (SplitByte newline s)"
    by (auto simp: read_pieces_def Let_def dest: in_set_butlastD split: if_splits)
  ultimately show ?thesis using assms SplitByte_no_sep by blast
qed

lemma handleLine_announces:
  "handleLine line t = (Inr (Some p), t') \<Longrightarrow> \<exists>e r. unmarshal_event line = Some e \<and> ev_Type e = TypeRequestCreated
     \<and> unmarshal_details created_fields zero_request (ev_Details e) = Inr r \<and> p = pending_of r"
  by (auto simp: handleLine_def Let_def split: option.splits if_splits sum.splits)

lemma tail_pieces_announce:
  "p \<in> set (fst (fst (fold tail_piece lines ((out, errs), t)))) \<Longrightarrow> p \<in> set out \<or>
   (\<exists>line \<in> set lines. \<exists>e r. unmarshal_event line = Some e \<and> ev_Type e = TypeRequestCreated
     \<and> unmarshal_details created_fields zero_request (ev_Details e) = Inr r \<and> p = pending_of r)"
proof (induction lines arbitrary: out errs t)
  case (Cons line lines)
  obtain out1 errs1 t1 where 1: "tail_piece line ((out, errs), t) = ((out1, errs1), t1)" by (metis surj_pair)
  have "out1 = out \<or> (\<exists>q t'. out1 = out @ [q] \<and> handleLine line t = (Inr (Some q), t'))"
    using 1 by (auto simp: tail_piece_def Let_def split: if_splits prod.splits sum.splits option.splits)
  moreover have "p \<in> set out1 \<or> (\<exists>line \<in> set lines. \<exists>e r. unmarshal_event line = Some e \<and> ev_Type e = TypeRequestCreated
     \<and> unmarshal_details created_fields zero_request (ev_Details e) = Inr r \<and> p = pending_of r)"
    by (rule Cons.IH [of out1 errs1 t1]) (use Cons.prems 1 in simp)
  ultimately show ?case using handleLine_announces [of line t p] by auto
qed simp

lemma scan_announces:
  assumes "p \<in> set (fst (fst (snd (scanOnce (Inr (Some content)) seek readErr t))))"
    and "written G f" "\<And>a. G a \<Longrightarrow> event_ok a \<and> untyped (ev_Details a)" "sublist content f"
  shows "\<exists>e r. G e \<and> ev_Type e = TypeRequestCreated
     \<and> unmarshal_details created_fields zero_request (ev_Details e) = Inr r \<and> p = pending_of r"
proof -
  from assms(1) have "p \<in> set (fst (fst (fold tail_piece (read_pieces (drop (ct_offset t) content)) (([], []), t))))"
    by (auto simp: scanOnce_def split: option.splits)
  from tail_pieces_announce [OF this] obtain line e r where
    l: "line \<in> set (read_pieces (drop (ct_offset t) content))" and e: "unmarshal_event line = Some e" "ev_Type e = TypeRequestCreated"
      "unmarshal_details created_fields zero_request (ev_Details e) = Inr r" "p = pending_of r" by auto
  have "sublist line f"
    using read_pieces_part [OF l] assms(4) sublist_drop sublist_order.order_trans by blast
  from written_part [OF assms(2,3) this _ e(1)] read_pieces_part [OF l] e show ?thesis by auto
qed

section \<open>A scan that ends inside a line\<close>

lemma SplitByte_lines:
  "list_all event_ok es \<Longrightarrow> newline \<notin> set s \<Longrightarrow> read_pieces (file_lines event_line es @ s) = map event_line es @ (if s = [] then [] else [s])"
proof -
  assume "list_all event_ok es" "newline \<notin> set s"
  then have "SplitByte newline (file_lines event_line es @ s) = map event_line es @ [s]"
    by (induction es) (simp_all add: SplitByte_append SplitByte_token ev.enc_newline)
  then show ?thesis by (simp add: read_pieces_def)
qed

text \<open>The scan that ends there: it counts one byte more than it has read, and takes the piece for an event only if just the line end is missing.\<close>

lemma scan_torn:
  assumes "list_all event_ok es" "event_ok e" "0 < n" "n \<le> length (event_line e)"
  shows "\<exists>errs. scanOnce (Inr (Some (file_lines event_line es @ take n (event_line e)))) None None NewCanonTailer =
    (None, (announced {} (if n < length (event_line e) then es else es @ [e]), errs),
     \<lparr>ct_offset = length (file_lines event_line es) + n + 1,
      ct_seen = created_ids (if n < length (event_line e) then es else es @ [e])\<rparr>)"
proof (cases "n < length (event_line e)")
  case True
  have p: "take n (event_line e) \<noteq> []" "newline \<notin> set (take n (event_line e))" "length (take n (event_line e)) = n"
    using assms(2-4) ev.enc_newline by (auto dest: in_set_takeD)
  obtain errs where "fold tail_piece (map event_line es) (([], []), NewCanonTailer)
    = ((announced {} es, errs), \<lparr>ct_offset = length (file_lines event_line es), ct_seen = created_ids es\<rparr>)"
    using tail_pieces_lines [OF assms(1), of "[]" "[]" NewCanonTailer] by (auto simp: NewCanonTailer_def)
  then show ?thesis
    using p True SplitByte_lines [OF assms(1) p(2)] torn_prefix_rejected [OF assms(2) True]
    by (simp add: scanOnce_def NewCanonTailer_def tail_piece_def handleLine_def)
next
  case False
  have l: "event_line e \<noteq> []" "newline \<notin> set (event_line e)" using ev.enc_last ev.enc_newline assms(2) by blast+
  have "read_pieces (file_lines event_line es @ event_line e) = map event_line (es @ [e])"
    using SplitByte_lines [OF assms(1) l(2)] l(1) by simp
  with False assms(4) tail_pieces_lines [of "es @ [e]" "[]" "[]" NewCanonTailer] assms(1,2) show ?thesis
    by (auto simp: scanOnce_def NewCanonTailer_def)
qed

text \<open>The next scan takes the rest of the line, less one byte, for no creation.\<close>

lemma scan_rest:
  assumes "list_all event_ok (es @ e # fs)" "untyped (ev_Details e)" "0 < n" "n < length (event_line e)"
    and "t = \<lparr>ct_offset = length (file_lines event_line es) + n + 1, ct_seen = S\<rparr>"
  shows "\<exists>errs. scanOnce (Inr (Some (file_lines event_line (es @ e # fs)))) None None t =
    (None, (announced S fs, errs), \<lparr>ct_offset = length (file_lines event_line (es @ e # fs)), ct_seen = S \<union> created_ids fs\<rparr>)"
proof -
  let ?r = "drop (n + 1) (event_line e)"
  have ok: "event_ok e" "list_all event_ok fs" using assms(1) by simp_all
  have r: "newline \<notin> set ?r" "length ?r = length (event_line e) - (n + 1)" using ev.enc_newline [OF ok(1)] by (auto dest: in_set_dropD)
  have d: "drop (ct_offset t) (file_lines event_line (es @ e # fs)) = ?r @ newline # file_lines event_line fs"
    using assms(4) by (simp add: assms(5))
  have "SplitByte newline (file_lines event_line fs) = map event_line fs @ [[]]"
    using ok(2) by (induction fs) (simp_all add: SplitByte_append ev.enc_newline)
  then have p: "read_pieces (?r @ newline # file_lines event_line fs) = ?r # map event_line fs"
    using r(1) by (simp add: read_pieces_def SplitByte_append)
  have "ev_Type a = []" if "unmarshal_event ?r = Some a" for a
    by (rule inner_event [OF ok(1) assms(2) _ _ that, of "take (n + 1) (event_line e)" "[]"]) (use assms(4) in auto)
  then have "\<exists>errs. tail_piece ?r (([], []), t) = (([], errs), t\<lparr>ct_offset := ct_offset t + length ?r + 1\<rparr>)"
    by (auto simp: tail_piece_def handleLine_def split: option.splits)
  then obtain errs where 1: "tail_piece ?r (([], []), t)
      = (([], errs), \<lparr>ct_offset = length (file_lines event_line es) + length (event_line e) + 1, ct_seen = S\<rparr>)"
    using assms(4) by (auto simp: assms(5))
  have "scanOnce (Inr (Some (file_lines event_line (es @ e # fs)))) None None t
      = (None, fold tail_piece (?r # map event_line fs) (([], []), t))"
    by (simp only: scanOnce_def sum.case option.case d p)
  also have "\<dots> = (None, fold tail_piece (map event_line fs)
      (([], errs), \<lparr>ct_offset = length (file_lines event_line es) + length (event_line e) + 1, ct_seen = S\<rparr>))"
    by (simp only: fold_simps 1)
  finally show ?thesis
    using tail_pieces_lines [OF ok(2), of "[]" errs "\<lparr>ct_offset = length (file_lines event_line es) + length (event_line e) + 1, ct_seen = S\<rparr>"]
    by (auto simp: add.assoc)
qed

end
