(* ===== verification/Broker_System.thy ===== *)
theory Broker_System
  imports Broker_Behaviour
begin

text \<open>
  The broker as a whole: every interleaving of the critical sections, executions in flight while
  other calls run, failing file operations, crashes and restarts. The ghost components record what
  was submitted, which approvals were requested, and what was launched. The invariant of
  \<open>Broker_Disk\<close> gives the two central properties: a request is launched at most once, ever; and
  what is launched is exactly a submitted request, approved by someone other than its requester.
\<close>

section \<open>States and steps\<close>

record sys =
  sy_disk :: string
  sy_service :: "service option"
  sy_running :: "string list"
  sy_launches :: "(string \<times> request) list"
  sy_submitted :: submissions
  sy_reviews :: reviews

datatype action =
    ASubmit time "string option" int io submit_input
  | AStatus time io string
  | AApprove time io io review_input
  | ADeny time io io review_input
  | ABegin time io io string
  | AFinish io string "execution_result \<times> string option"
  | ACrash
  | ARestart "string \<Rightarrow> io" string int "string option"

definition with_service :: "service \<Rightarrow> sys \<Rightarrow> sys" where
  "with_service s y = y\<lparr>sy_service := Some s, sy_disk := lg_file (sv_log s)\<rparr>"

definition fresh_sys :: sys where
  "fresh_sys = \<lparr>sy_disk = [], sy_service = None, sy_running = [], sy_launches = [], sy_submitted = {}, sy_reviews = {}\<rparr>"

definition submission :: "(string \<Rightarrow> string) \<Rightarrow> time \<Rightarrow> string option \<Rightarrow> int \<Rightarrow> submit_input \<Rightarrow> service \<Rightarrow> string \<times> request" where
  "submission sha now rand nanos input s =
     (broker_randomID ''req'' rand nanos,
      build_request sha now (broker_randomID ''req'' rand nanos) (default_mode input) s)"

text \<open>
  The texts of a call come out of the JSON decoder of the socket, hence are valid UTF-8; the same is
  required of the requester's user name. A clock outside the years 0 to 9999 is excluded at
  submission, where the source refuses to encode the request.
\<close>

inductive step :: "(string \<Rightarrow> string) \<Rightarrow> sys \<Rightarrow> action \<Rightarrow> sys \<Rightarrow> bool" for sha where
  submit: "sy_service y = Some s \<Longrightarrow> Submit sha now rand nanos w input s = (r, s') \<Longrightarrow>
     valid_utf8 (actorIDForPeer (si_Requester input)) \<Longrightarrow> si_Argv input \<noteq> [] \<Longrightarrow>
     utf8_request (snd (submission sha now rand nanos input s)) \<Longrightarrow>
     times_request (snd (submission sha now rand nanos input s)) \<Longrightarrow>
     step sha y (ASubmit now rand nanos w input)
       (with_service s' (y\<lparr>sy_submitted := insert (submission sha now rand nanos input s) (sy_submitted y)\<rparr>))"
| status: "sy_service y = Some s \<Longrightarrow> Status sha now w rid s = (r, s') \<Longrightarrow> valid_utf8 rid \<Longrightarrow>
     step sha y (AStatus now w rid) (with_service s' y)"
| approve: "sy_service y = Some s \<Longrightarrow> Approve sha now w1 w2 input s = (r, s') \<Longrightarrow>
     valid_utf8 (ri_RequestID input) \<Longrightarrow> utf8_actor (ri_Approver input) \<Longrightarrow>
     step sha y (AApprove now w1 w2 input)
       (with_service s' (y\<lparr>sy_reviews := insert (ri_RequestID input, ri_Approver input) (sy_reviews y)\<rparr>))"
| deny: "sy_service y = Some s \<Longrightarrow> Deny sha now w1 w2 input s = (r, s') \<Longrightarrow>
     valid_utf8 (ri_RequestID input) \<Longrightarrow> utf8_actor (ri_Approver input) \<Longrightarrow>
     step sha y (ADeny now w1 w2 input) (with_service s' y)"
| refuse: "sy_service y = Some s \<Longrightarrow> execute_begin sha now w1 w2 rid s = (Reply r, s') \<Longrightarrow> valid_utf8 rid \<Longrightarrow>
     step sha y (ABegin now w1 w2 rid) (with_service s' y)"
| launch: "sy_service y = Some s \<Longrightarrow> execute_begin sha now w1 w2 rid s = (Launch req, s') \<Longrightarrow> valid_utf8 rid \<Longrightarrow>
     step sha y (ABegin now w1 w2 rid)
       (with_service s' (y\<lparr>sy_running := rid # sy_running y, sy_launches := (rid, req) # sy_launches y\<rparr>))"
| finish: "sy_service y = Some s \<Longrightarrow> rid \<in> set (sy_running y) \<Longrightarrow>
     execute_finish sha w rid outcome s = (r, s') \<Longrightarrow>
     step sha y (AFinish w rid outcome) (with_service s' (y\<lparr>sy_running := remove1 rid (sy_running y)\<rparr>))"
| crash: "step sha y ACrash (y\<lparr>sy_service := None, sy_running := []\<rparr>)"
| restart: "sy_service y = None \<Longrightarrow> NewLog sha (Inr ()) (Inr (sy_disk y)) = Inr l \<Longrightarrow>
     NewService sha ws executor ttl hostname l = (Inr s, l') \<Longrightarrow>
     step sha y (ARestart ws executor ttl hostname) (with_service s y)"
| failed_restart: "sy_service y = None \<Longrightarrow> NewLog sha (Inr ()) (Inr (sy_disk y)) = Inr l \<Longrightarrow>
     NewService sha ws executor ttl hostname l = (Inl err, l') \<Longrightarrow>
     step sha y (ARestart ws executor ttl hostname) (y\<lparr>sy_disk := lg_file l'\<rparr>)"

section \<open>The invariant\<close>

definition launched_ids :: "sys \<Rightarrow> string set" where
  "launched_ids y = set (map fst (sy_launches y))"

definition sys_inv :: "(string \<Rightarrow> string) \<Rightarrow> sys \<Rightarrow> bool" where
  "sys_inv sha y \<longleftrightarrow> subs_ok (sy_submitted y) \<and> distinct (map fst (sy_launches y))
     \<and> (\<forall>(rid, req) \<in> set (sy_launches y). (rid, req) \<in> sy_submitted y \<and> authorised (sy_reviews y) rid req)
     \<and> (\<forall>rid \<in> set (sy_running y). valid_utf8 rid)
     \<and> (case sy_service y of
          None \<Rightarrow> disk_inv sha (sy_submitted y) (sy_reviews y) (launched_ids y) None (sy_disk y)
        | Some s \<Rightarrow> svc_ok sha (sy_submitted y) (sy_reviews y) (launched_ids y) s \<and> sy_disk y = lg_file (sv_log s))"

lemma with_service_inv:
  assumes "subs_ok (sy_submitted y)" "distinct (map fst (sy_launches y))"
    "\<forall>(rid, req) \<in> set (sy_launches y). (rid, req) \<in> sy_submitted y \<and> authorised (sy_reviews y) rid req"
    "\<forall>rid \<in> set (sy_running y). valid_utf8 rid"
    "svc_ok sha (sy_submitted y) (sy_reviews y) (launched_ids y) s"
  shows "sys_inv sha (with_service s y)"
  using assms by (simp add: sys_inv_def with_service_def launched_ids_def)

lemma authorised_mono: "authorised revs rid r \<Longrightarrow> revs \<subseteq> revs' \<Longrightarrow> authorised revs' rid r"
  unfolding authorised_def by blast

lemma inv_service:
  "sys_inv sha y \<Longrightarrow> sy_service y = Some s \<Longrightarrow> svc_ok sha (sy_submitted y) (sy_reviews y) (launched_ids y) s"
  by (simp add: sys_inv_def)

lemma valid_utf8_broker_randomID [simp]: "valid_utf8 (broker_randomID ''req'' rand nanos)"
  by (auto simp: broker_randomID_def byte_def split: option.splits)

lemma sys_inv_fresh: "sys_inv sha fresh_sys"
proof -
  have "mem_in None []" by (simp add: mem_in_def)
  then have "disk_inv sha {} {} {} None (file_lines event_line [])"
    by (intro disk_inv_clean) (simp_all add: lawful_nil)
  then show ?thesis by (simp add: sys_inv_def fresh_sys_def subs_ok_def launched_ids_def)
qed

lemma sys_inv_step:
  assumes inv: "sys_inv sha y" and "step sha y act y'"
  shows "sys_inv sha y'"
  using assms(2)
proof cases
  case (submit s now rand nanos w input r s')
  let ?sub = "submission sha now rand nanos input s"
  let ?subs = "insert ?sub (sy_submitted y)"
  have "req_ID (snd ?sub) = fst ?sub" by (simp add: submission_def build_request_def Let_def)
  then have ok: "subs_ok ?subs"
    using inv submit(7,8) by (auto simp: sys_inv_def subs_ok_def submission_def)
  have "svc_ok sha ?subs (sy_reviews y) (launched_ids y) s"
    using svc_ok_mono [OF inv_service [OF inv submit(3)] ok] by blast
  then have "svc_ok sha ?subs (sy_reviews y) (launched_ids y) s'"
    using submit(4,5) by (rule Submit_ok) (simp_all add: submission_def)
  with inv ok show ?thesis
    unfolding submit(2) by (intro with_service_inv) (auto simp: sys_inv_def launched_ids_def)
next
  case (status s now w rid r s')
  with inv Status_ok [OF inv_service [OF inv status(3)] status(5,4)] show ?thesis
    unfolding status(2) by (intro with_service_inv) (auto simp: sys_inv_def)
next
  case (approve s now w1 w2 input r s')
  let ?revs = "insert (ri_RequestID input, ri_Approver input) (sy_reviews y)"
  have "svc_ok sha (sy_submitted y) ?revs (launched_ids y) s"
    by (rule svc_ok_mono [OF inv_service [OF inv approve(3)]]) (use inv in \<open>auto simp: sys_inv_def\<close>)
  then have "svc_ok sha (sy_submitted y) ?revs (launched_ids y) s'"
    using approve(4,5,6) by (rule Approve_ok) simp
  with inv show ?thesis
    unfolding approve(2)
    by (intro with_service_inv) (auto simp: sys_inv_def launched_ids_def intro: authorised_mono)
next
  case (deny s now w1 w2 input r s')
  with inv Deny_ok [OF inv_service [OF inv deny(3)] deny(4,5,6)] show ?thesis
    unfolding deny(2) by (intro with_service_inv) (auto simp: sys_inv_def)
next
  case (refuse s now w1 w2 rid r s')
  with inv execute_begin_ok(1) [OF inv_service [OF inv refuse(3)] refuse(5,4)] show ?thesis
    unfolding refuse(2) by (intro with_service_inv) (auto simp: sys_inv_def)
next
  case (launch s now w1 w2 rid req s')
  from execute_begin_ok(2) [OF inv_service [OF inv launch(3)] launch(5,4) refl]
  have "svc_ok sha (sy_submitted y) (sy_reviews y) (insert rid (launched_ids y)) s'" "rid \<notin> launched_ids y"
    "(rid, req) \<in> sy_submitted y" "authorised (sy_reviews y) rid req" by simp_all
  with inv launch(5) show ?thesis
    unfolding launch(2) by (intro with_service_inv) (auto simp: sys_inv_def launched_ids_def)
next
  case (finish s rid w outcome r s')
  have "valid_utf8 rid" using inv finish(4) by (auto simp: sys_inv_def)
  with inv execute_finish_ok [OF inv_service [OF inv finish(3)] _ finish(5)] show ?thesis
    unfolding finish(2)
    by (intro with_service_inv) (auto simp: sys_inv_def launched_ids_def dest: notin_set_remove1)
next
  case crash
  have "disk_inv sha subs revs rids None g" if "disk_inv sha subs revs rids m g" for subs revs rids g m
    using that unfolding disk_inv_def mem_in_def by blast
  with inv show ?thesis
    unfolding crash(2) by (auto simp: sys_inv_def svc_ok_def launched_ids_def split: option.splits)
next
  case (restart l ws executor ttl hostname s l')
  from inv restart(3) have d: "disk_inv sha (sy_submitted y) (sy_reviews y) (launched_ids y) None (sy_disk y)"
    by (simp add: sys_inv_def)
  with NewService_ok [OF _ d restart(4,5)] inv show ?thesis
    unfolding restart(2) by (intro with_service_inv) (auto simp: sys_inv_def)
next
  case (failed_restart l ws executor ttl hostname err l')
  from inv failed_restart(3) have d: "disk_inv sha (sy_submitted y) (sy_reviews y) (launched_ids y) None (sy_disk y)"
    by (simp add: sys_inv_def)
  with NewService_ok [OF _ d failed_restart(4,5)] inv failed_restart(3) show ?thesis
    unfolding failed_restart(2) by (auto simp: sys_inv_def launched_ids_def)
qed

interpretation bs: machine "\<lambda>y. y = fresh_sys" "step sha" "sys_inv sha" for sha
  by unfold_locales (auto intro: sys_inv_fresh sys_inv_step)

section \<open>Properties of the system\<close>

text \<open>
  C1 (at most one launch). In every run of the broker from an empty log, over all interleavings of
  calls and executions, all outcomes of the file operations (failed opens, torn writes, failed
  syncs), crashes and restarts, no request id is launched twice.
\<close>

theorem at_most_one_launch:
  assumes "run (step sha) fresh_sys acts y"
  shows "distinct (map fst (sy_launches y))"
  using bs.inv_run [OF refl assms] by (simp add: sys_inv_def)

text \<open>
  C2 (only authorised requests are launched). In every run of the broker from an empty log, what is
  launched under an id is exactly a request that was submitted under that id, unchanged since, and
  an approval of that id was asked for under an approver name, with a kind, that is none of the names of the
  requester: its user name, its uid, or "uid:" and its uid. The name is the one the message claims; that it
  belongs to another person than the requester is not shown and does not follow
  (\<open>approver_identity_is_claimed\<close>). The runs are those where stored user names and host names are
  valid UTF-8 and clock readings lie in the years Go prints.
\<close>

theorem launches_are_authorised:
  assumes "run (step sha) fresh_sys acts y" and "(rid, req) \<in> set (sy_launches y)"
  shows "(rid, req) \<in> sy_submitted y
    \<and> (\<exists>a. (rid, a) \<in> sy_reviews y \<and> actor_Kind a \<noteq> [] \<and> actor_ID a \<noteq> []
         \<and> actor_ID a \<noteq> peer_Username (req_Requester req)
         \<and> actor_ID a \<noteq> string_of_nat (unat (peer_UID (req_Requester req)))
         \<and> actor_ID a \<noteq> ''uid:'' @ string_of_nat (unat (peer_UID (req_Requester req))))"
proof -
  have "(rid, req) \<in> sy_submitted y \<and> authorised (sy_reviews y) rid req"
    using bs.inv_run [OF refl assms(1)] assms(2) by (auto simp: sys_inv_def)
  then show ?thesis by (auto simp: authorised_def validateApprover_None)
qed

text \<open>
  The memory never runs ahead of an intact disk: in every run, when the broker is up and its
  log can be replayed, the log holds an execution start for everything launched so far: a restart
  can never mistake a launched request for an approved one.
\<close>

lemma launches_are_on_disk:
  assumes "run (step sha) fresh_sys acts y"
    and "Replay sha (Inr (sy_disk y)) = Inr es"
  shows "fst ` set (sy_launches y) \<subseteq> set (started_ids es)"
proof -
  have inv: "sys_inv sha y" using bs.inv_run [OF refl assms(1)] .
  then obtain mem where "disk_inv sha (sy_submitted y) (sy_reviews y) (launched_ids y) mem (sy_disk y)"
    by (auto simp: sys_inv_def svc_ok_def split: option.splits)
  then show ?thesis
  proof (cases rule: disk_inv_cases)
    case doomed
    then show ?thesis using assms(2) doomed_replay by (fastforce simp: Replay_def)
  next
    case (clean es0)
    then obtain fs where "es = es0 @ fs"
      using replay_keeps_lines [OF clean(2), of sha "[]" es] assms(2) by (auto simp: Replay_def)
    with clean show ?thesis by (auto simp: launched_ids_def started_ids_def)
  next
    case (torn es0 tail)
    then obtain fs where "es = es0 @ fs"
      using replay_keeps_lines [OF torn(2), of sha tail es] assms(2) by (auto simp: Replay_def)
    with torn show ?thesis by (auto simp: launched_ids_def started_ids_def)
  qed
qed

section \<open>A concrete run\<close>

definition sample_rid :: string where
  "sample_rid = broker_randomID ''req'' (Some ''abc'') 0"

lemma sample_rid_utf8 [simp]: "valid_utf8 sample_rid"
  by (simp add: sample_rid_def)

text \<open>Start, submit, approve, execute: the request is launched.\<close>

definition sample_acts :: "action list" where
  "sample_acts =
     [ARestart (\<lambda>_. sample_io FsOk) LocalExecutor_Name DefaultTTL (Some ''host''),
      ASubmit 1000 (Some ''abc'') 0 (sample_io FsOk) sample_input,
      AApprove 2000 (sample_io FsOk) (sample_io FsOk) (sample_review sample_rid),
      ABegin 3000 (sample_io FsOk) (sample_io FsOk) sample_rid]"

lemma sample_run:
  "\<exists>y. run (step sample_sha) fresh_sys sample_acts y \<and> sy_launches y = [(sample_rid, sample_request sample_rid)]"
proof -
  let ?w = "sample_io FsOk" and ?ws = "\<lambda>_ :: string. sample_io FsOk" and ?s0 = "sample_service New"
  have sub: "submission sample_sha 1000 (Some ''abc'') 0 sample_input ?s0 = (sample_rid, sample_request sample_rid)"
    by (simp add: submission_def sample_rid_def sample_request_def)
  let ?y1 = "with_service ?s0 fresh_sys"
  have 1: "step sample_sha fresh_sys (ARestart ?ws LocalExecutor_Name DefaultTTL (Some ''host'')) ?y1"
    by (rule restart [OF _ _ NewService_empty(2)]) (simp_all add: fresh_sys_def NewService_empty(1))
  have a: "valid_utf8 (actorIDForPeer (si_Requester sample_input))" "si_Argv sample_input \<noteq> []"
    by (simp_all add: actorIDForPeer_def sample_input_def byte_def)
  obtain s1 snap1 where s1: "Submit sample_sha 1000 (Some ''abc'') 0 ?w sample_input ?s0
      = (Inr (FromSnapshot snap1 ''Approval required''), s1)"
    "Get (sv_projection s1) sample_rid = Some snap1" "snap_Request snap1 = sample_request sample_rid"
    "snap_Status snap1 = StatusPending" "valid_utf8 (lg_lastHash (sv_log s1))"
    using Submit_healthy [OF _ sample_healthy a(2,1) sample_rid_def _ _ sample_request_ok(1) [OF sample_rid_utf8]
        sample_request_ok(2), of ?s0 sample_sha 1000]
    by (auto simp: Get_def sample_request_def)
  let ?y2 = "with_service s1 (?y1\<lparr>sy_submitted := insert (sample_rid, sample_request sample_rid) (sy_submitted ?y1)\<rparr>)"
  have 2: "step sample_sha ?y1 (ASubmit 1000 (Some ''abc'') 0 ?w sample_input) ?y2"
    unfolding sub [symmetric]
    by (rule submit [OF _ s1(1) a]) (simp_all add: with_service_def sub sample_request_ok)
  obtain resp s2 snap2 where s2: "Approve sample_sha 2000 ?w ?w (sample_review sample_rid) s1 = (Inr resp, s2)"
    and r: "reviewed 2000 (ri_Approver (sample_review sample_rid)) StatusApproved sample_rid s1 (Inr resp, s2)"
    and u: "valid_utf8 (lg_lastHash (sv_log s2))"
    and q: "Get (sv_projection s2) sample_rid = Some snap2" "snap_Request snap2 = sample_request sample_rid"
    using Approve_healthy [OF s1(5) sample_healthy sample_healthy, of "sample_review sample_rid" sample_sha 2000] s1(2,3)
    by (auto simp: byte_def)
  have "review_status 2000 (ri_Approver (sample_review sample_rid)) StatusApproved snap1 = StatusApproved"
    using sample_validate s1(3,4) by (simp add: review_status_def)
  then have ap: "snap_Status snap2 = StatusApproved"
    using r s1(2) q by (simp add: reviewed_def status_of_def Get_def)
  let ?y3 = "with_service s2 (?y2\<lparr>sy_reviews := insert (sample_rid, ri_Approver (sample_review sample_rid)) (sy_reviews ?y2)\<rparr>)"
  have 3: "step sample_sha ?y2 (AApprove 2000 ?w ?w (sample_review sample_rid)) ?y3"
    using approve [OF _ s2, of ?y2] by (simp add: with_service_def)
  obtain s3 where s3: "execute_begin sample_sha 3000 ?w ?w sample_rid s2 = (Launch (sample_request sample_rid), s3)"
    using execute_begin_healthy [OF u sample_healthy sample_rid_utf8 q(1) ap, of sample_sha 3000 ?w] q(2) by auto
  let ?y4 = "with_service s3 (?y3\<lparr>sy_running := sample_rid # sy_running ?y3,
      sy_launches := (sample_rid, sample_request sample_rid) # sy_launches ?y3\<rparr>)"
  have 4: "step sample_sha ?y3 (ABegin 3000 ?w ?w sample_rid) ?y4"
    by (rule launch [OF _ s3]) (simp_all add: with_service_def)
  have "run (step sample_sha) fresh_sys sample_acts ?y4"
    unfolding sample_acts_def
    by (rule run_Cons [OF 1 run_Cons [OF 2 run_Cons [OF 3 run_single [where step = "step sample_sha", OF 4]]]])
  moreover have "sy_launches ?y4 = [(sample_rid, sample_request sample_rid)]"
    by (simp add: with_service_def fresh_sys_def)
  ultimately show ?thesis by blast
qed

theorem at_most_one_launch_witness:
  "\<exists>acts y. run (step sample_sha) fresh_sys acts y \<and> length (sy_launches y) = 1 \<and> distinct (map fst (sy_launches y))"
proof -
  obtain y where y: "run (step sample_sha) fresh_sys sample_acts y" "sy_launches y = [(sample_rid, sample_request sample_rid)]"
    using sample_run by blast
  with at_most_one_launch [OF y(1)] show ?thesis by (intro exI [of _ sample_acts] exI [of _ y]) simp
qed

theorem launches_are_authorised_witness:
  "\<exists>acts y. run (step sample_sha) fresh_sys acts y \<and> (sample_rid, sample_request sample_rid) \<in> set (sy_launches y)
     \<and> (sample_rid, sample_request sample_rid) \<in> sy_submitted y \<and> (\<exists>a. (sample_rid, a) \<in> sy_reviews y)"
proof -
  obtain y where y: "run (step sample_sha) fresh_sys sample_acts y" "sy_launches y = [(sample_rid, sample_request sample_rid)]"
    using sample_run by blast
  with launches_are_authorised [OF y(1), of sample_rid "sample_request sample_rid"] show ?thesis
    by (intro exI [of _ sample_acts] exI [of _ y]) auto
qed

end
