(* ===== verification/Broker_Restart.thy ===== *)
theory Broker_Restart
  imports Broker_System
begin

text \<open>
  The log as the broker's durable state: as long as the operations report success, the projection in
  memory is exactly the one \<open>Rebuild\<close> makes from the replayed file. So a restart loses nothing and
  invents nothing; it only marks interrupted executions as failed.
\<close>

section \<open>Memory and file in step\<close>

definition persisted :: "(string \<Rightarrow> string) \<Rightarrow> service \<Rightarrow> event list \<Rightarrow> bool" where
  "persisted sha s es \<longleftrightarrow> log_holds sha (sv_log s) es \<and> Rebuild es = Inr (sv_projection s)"

text \<open>Going from \<open>s\<close> to \<open>s'\<close> only appends events, and keeps file and memory in step.\<close>

definition grows :: "(string \<Rightarrow> string) \<Rightarrow> service \<Rightarrow> service \<Rightarrow> bool" where
  "grows sha s s' \<longleftrightarrow> (\<forall>es. persisted sha s es \<longrightarrow> (\<exists>fs. persisted sha s' (es @ fs)))"

lemma grows_refl [simp]: "grows sha s s"
  unfolding grows_def by (metis append_Nil2)

lemma grows_trans: "grows sha s s' \<Longrightarrow> grows sha s' s'' \<Longrightarrow> grows sha s s''"
  unfolding grows_def by (metis append.assoc)

lemma Append_success_time:
  assumes "Append sha w e l = (Inr a, l')" "text_ok e"
  shows "append_ok w e"
proof -
  have "time_ok (io_now w)"
  proof (rule ccontr)
    assume "\<not> time_ok (io_now w)"
    then have "hashEvent sha (stamp w (lg_lastHash l) e) = Inl ErrMarshal"
      using assms(2) by (simp add: hashEvent_def stamp_def text_ok_def Let_def)
    with assms(1) show False by (auto simp: Append_def Let_def)
  qed
  with assms(2) show ?thesis by (simp add: append_ok_def text_ok_def)
qed

lemma append_apply_grows:
  assumes "append_apply sha w e s = (Inr u, s')" "text_ok e"
  shows "grows sha s s'"
proof -
  from assms(1) obtain a l where a: "Append sha w e (sv_log s) = (Inr a, l)"
    and p: "Apply a (sv_projection s) = Inr (sv_projection s')" and l: "sv_log s' = l"
    by (auto simp: append_apply_def split: prod.splits sum.splits)
  show ?thesis unfolding grows_def
  proof (intro allI impI exI)
    fix es assume "persisted sha s es"
    then show "persisted sha s' (es @ [a])"
      using log_holds_Append(1) [OF _ Append_success_time [OF a assms(2)] a, of es] p l
      by (simp add: persisted_def Rebuild_def result_fold_snoc)
  qed
qed

section \<open>Every operation\<close>

lemma expire_grows:
  assumes "expireIfNeededLocked sha now w rid s = (Inr u, s')" "valid_utf8 rid"
  shows "grows sha s s'"
  using assms append_apply_grows [of sha w "new_event rid broker_actor TypeRequestExpired None" s u s']
  by (auto simp: expireIfNeededLocked_def text_ok_new_event byte_def split: option.splits if_splits)

lemma Submit_grows:
  assumes "Submit sha now rand nanos w input s = (Inr r, s')" "valid_utf8 (actorIDForPeer (si_Requester input))"
  shows "grows sha s s'"
proof (cases "si_Argv input = []")
  case False
  have dm: "si_Requester (default_mode input) = si_Requester input" by (simp add: default_mode_def)
  let ?rid = "broker_randomID ''req'' rand nanos"
  from False assms(1) obtain d u where
    "MarshalDetails (Some (RequestCreatedDetails (build_request sha now ?rid (default_mode input) s))) = Inr d"
    "append_apply sha w (new_event ?rid \<lparr>actor_Kind = ''requester'', actor_ID = actorIDForPeer (si_Requester input)\<rparr>
       TypeRequestCreated d) s = (Inr u, s')"
    by (auto simp: Submit_def Let_def dm split: sum.splits prod.splits)
  with assms(2) show ?thesis
    by (intro append_apply_grows) (auto intro!: text_ok_new_event simp: details_ok_Marshal utf8_actor_def byte_def)
qed (use assms in \<open>simp add: Submit_def\<close>)

lemma Status_grows: "Status sha now w rid s = (Inr r, s') \<Longrightarrow> valid_utf8 rid \<Longrightarrow> grows sha s s'"
  by (auto simp: Status_def split: prod.splits sum.splits option.splits dest: expire_grows)

lemma Approve_grows:
  assumes "Approve sha now w1 w2 input s = (Inr r, s')" "valid_utf8 (ri_RequestID input)" "utf8_actor (ri_Approver input)"
  shows "grows sha s s'"
proof -
  from assms(1) obtain u s1 where e: "expireIfNeededLocked sha now w1 (ri_RequestID input) s = (Inr u, s1)"
    by (auto simp: Approve_def split: prod.splits sum.splits)
  have "grows sha s1 s'"
    using assms e
    by (auto simp: Approve_def byte_def text_ok_new_event details_ok_Marshal
        split: prod.splits sum.splits option.splits if_splits intro: append_apply_grows)
  with expire_grows [OF e assms(2)] show ?thesis by (rule grows_trans)
qed

lemma Deny_grows:
  assumes "Deny sha now w1 w2 input s = (Inr r, s')" "valid_utf8 (ri_RequestID input)" "utf8_actor (ri_Approver input)"
  shows "grows sha s s'"
proof -
  from assms(1) obtain u s1 where e: "expireIfNeededLocked sha now w1 (ri_RequestID input) s = (Inr u, s1)"
    by (auto simp: Deny_def split: prod.splits sum.splits)
  have "grows sha s1 s'"
    using assms e
    by (auto simp: Deny_def byte_def text_ok_new_event details_ok_Marshal
        split: prod.splits sum.splits option.splits if_splits intro: append_apply_grows)
  with expire_grows [OF e assms(2)] show ?thesis by (rule grows_trans)
qed

lemma execute_begin_grows:
  assumes "execute_begin sha now w1 w2 rid s = (out, s')" "valid_utf8 rid" "\<forall>err. out \<noteq> Reply (Inl err)"
  shows "grows sha s s'"
proof -
  from assms(1,3) obtain u s1 where e: "expireIfNeededLocked sha now w1 rid s = (Inr u, s1)"
    by (auto simp: execute_begin_def split: prod.splits sum.splits)
  have "grows sha s1 s'"
    using assms e
    by (auto simp: execute_begin_def byte_def text_ok_new_event details_ok_Marshal
        split: prod.splits sum.splits option.splits if_splits intro: append_apply_grows)
  with expire_grows [OF e assms(2)] show ?thesis by (rule grows_trans)
qed

lemma execute_finish_grows:
  assumes "execute_finish sha w rid outcome s = (Inr r, s')" "valid_utf8 rid"
  shows "grows sha s s'"
  using assms
  by (auto simp: execute_finish_def byte_def text_ok_new_event details_ok_Marshal Let_def
      split: prod.splits sum.splits option.splits intro: append_apply_grows)

lemma recover_loop_grows:
  "recover_loop sha ws snaps s = (Inr u, s') \<Longrightarrow>
   (\<And>snap. snap \<in> set snaps \<Longrightarrow> valid_utf8 (req_ID (snap_Request snap))) \<Longrightarrow> grows sha s s'"
proof (induction snaps arbitrary: s)
  case (Cons snap snaps)
  show ?case
  proof (cases "snap_Status snap = StatusExecuting")
    case True
    with Cons.prems(1) obtain v s1 where
      a: "append_apply sha (ws (req_ID (snap_Request snap))) (recovery_event snap) s = (Inr v, s1)"
      and l: "recover_loop sha ws snaps s1 = (Inr u, s')" by (auto split: prod.splits sum.splits)
    have "text_ok (recovery_event snap)"
      using Cons.prems(2) [of snap] details_ok_Marshal [of "Some (RecoveryMarkedFailedDetails _)"]
      by (auto simp: recovery_event_def byte_def MarshalDetails_def intro!: text_ok_new_event)
    with append_apply_grows [OF a] Cons.IH [OF l] Cons.prems(2) show ?thesis by (auto intro: grows_trans)
  qed (use Cons in auto)
qed simp

section \<open>Properties\<close>

text \<open>A call of the service that reported success, with texts as the socket's decoder yields them.\<close>

inductive call_ok :: "(string \<Rightarrow> string) \<Rightarrow> service \<Rightarrow> service \<Rightarrow> bool" for sha where
  call_submit: "Submit sha now rand nanos w input s = (Inr r, s') \<Longrightarrow>
    valid_utf8 (actorIDForPeer (si_Requester input)) \<Longrightarrow> call_ok sha s s'"
| call_status: "Status sha now w rid s = (Inr r, s') \<Longrightarrow> valid_utf8 rid \<Longrightarrow> call_ok sha s s'"
| call_approve: "Approve sha now w1 w2 input s = (Inr r, s') \<Longrightarrow> valid_utf8 (ri_RequestID input) \<Longrightarrow>
    utf8_actor (ri_Approver input) \<Longrightarrow> call_ok sha s s'"
| call_deny: "Deny sha now w1 w2 input s = (Inr r, s') \<Longrightarrow> valid_utf8 (ri_RequestID input) \<Longrightarrow>
    utf8_actor (ri_Approver input) \<Longrightarrow> call_ok sha s s'"
| call_begin: "execute_begin sha now w1 w2 rid s = (out, s') \<Longrightarrow> valid_utf8 rid \<Longrightarrow>
    \<forall>err. out \<noteq> Reply (Inl err) \<Longrightarrow> call_ok sha s s'"
| call_finish: "execute_finish sha w rid outcome s = (Inr r, s') \<Longrightarrow> valid_utf8 rid \<Longrightarrow> call_ok sha s s'"

lemma call_ok_grows: "call_ok sha s s' \<Longrightarrow> grows sha s s'"
  by (erule call_ok.cases)
     (simp_all add: Submit_grows Status_grows Approve_grows Deny_grows execute_begin_grows execute_finish_grows)

lemma calls_grow: "(call_ok sha)\<^sup>*\<^sup>* s s' \<Longrightarrow> grows sha s s'"
  by (induction rule: rtranclp_induct) (auto intro: grows_trans call_ok_grows)

lemma Replay_empty: "Replay sha (Inr []) = Inr []" "All New = []"
  by (simp_all add: Replay_def replayUnlocked_def All_def New_def gkeys_def)

lemma NewService_empty_persisted:
  assumes "NewService sha ws executor ttl hostname empty_log = (Inr s, l)"
  shows "persisted sha s []"
  using assms Replay_empty
  by (simp add: NewService_def empty_log_def recoverExecutingLocked_def persisted_def log_holds_def) auto

text \<open>
  C9 (memory equals the replayed log). Start a broker on an empty log and let any sequence of calls
  report success. Then the projection in memory is the one \<open>Rebuild\<close> makes from the events in the
  file; and if no line reaches the scanner limit, a fresh process opening the file gets the same
  log, the same events and hence the same projection.
\<close>

theorem memory_equals_replayed_log:
  assumes "NewService sha ws executor ttl hostname empty_log = (Inr s0, l0)" and "(call_ok sha)\<^sup>*\<^sup>* s0 s"
  shows "\<exists>es. lg_file (sv_log s) = file_lines event_line es \<and> Rebuild es = Inr (sv_projection s)
    \<and> (list_all short_line es \<longrightarrow> NewLog sha (Inr ()) (Inr (lg_file (sv_log s))) = Inr (sv_log s)
         \<and> result_bind (Replay sha (Inr (lg_file (sv_log s)))) Rebuild = Inr (sv_projection s))"
proof -
  obtain es where p: "persisted sha s es"
    using calls_grow [OF assms(2)] NewService_empty_persisted [OF assms(1)] by (auto simp: grows_def)
  with log_holds_NewLog [of sha "sv_log s" es] show ?thesis
    by (auto simp: persisted_def log_holds_def)
qed

theorem memory_equals_replayed_log_witness:
  "\<exists>s snap es. Submit sample_sha 1000 (Some ''abc'') 0 (sample_io FsOk) sample_input (sample_service New)
        = (Inr (FromSnapshot snap ''Approval required''), s)
     \<and> Get (sv_projection s) sample_rid = Some snap
     \<and> lg_file (sv_log s) = file_lines event_line es \<and> Rebuild es = Inr (sv_projection s)"
proof -
  have a: "valid_utf8 (actorIDForPeer (si_Requester sample_input))" "si_Argv sample_input \<noteq> []"
    by (simp_all add: actorIDForPeer_def sample_input_def byte_def)
  obtain s snap where s: "Submit sample_sha 1000 (Some ''abc'') 0 (sample_io FsOk) sample_input (sample_service New)
      = (Inr (FromSnapshot snap ''Approval required''), s)" "Get (sv_projection s) sample_rid = Some snap"
    using Submit_healthy [OF _ sample_healthy a(2,1) sample_rid_def _ _ sample_request_ok(1) [OF sample_rid_utf8]
        sample_request_ok(2), of "sample_service New" sample_sha 1000]
    by (auto simp: Get_def sample_request_def)
  then have "(call_ok sample_sha)\<^sup>*\<^sup>* (sample_service New) s" using call_submit a(1) by blast
  from memory_equals_replayed_log [OF NewService_empty(2) this] s show ?thesis by blast
qed

end
