(* ===== verification/Log_Written.thy ===== *)
theory Log_Written
  imports Torn_Reads Broker_Restart
begin

text \<open>
  What the broker puts into its event log, over all outcomes of the file operations, crashes and
  restarts: pieces of the lines of genuine events, a creation always carrying the request of a
  submission. With \<open>Torn_Reads\<close> this gives the guarantee for the adapter: whenever its tailer reads the
  file, and wherever in a line a read stops, it announces only requests that were submitted.
\<close>

section \<open>The details the broker writes\<close>

lemma names_type_plain: "plain_key k \<Longrightarrow> fold_key k \<noteq> ''type'' \<Longrightarrow> \<not> names_field ''type'' k"
  by (simp add: names_plain)

lemma deep_elems_scalars: "deep_elems (map jstring xs) = []"
  by (induction xs) (simp_all add: deep_scalars)

lemma deep_jstrings: "deep_names (jstrings xs) = []"
  by (simp add: jstrings_def deep_elems_scalars)

lemma deep_members_append [simp]: "deep_members (xs @ ys) = deep_members xs @ deep_members ys"
proof (induction xs)
  case (Cons m xs)
  then show ?case by (cases m) simp
qed simp

lemma set_deep_omit: "set (deep_members (omit_if b k v)) \<subseteq> insert k (set (deep_names v))"
  by (simp add: omit_if_def)

lemma deep_env: "deep_names (jmap DefaultSanitizedEnv) = [''LANG'', ''LC_ALL'', ''PATH'']"
proof -
  have k: "gkeys DefaultSanitizedEnv = [''LANG'', ''LC_ALL'', ''PATH'']" unfolding DefaultSanitizedEnv_def by code_simp
  have "json_quote ''LANG'' = ''LANG''" "json_quote ''LC_ALL'' = ''LC_ALL''" "json_quote ''PATH'' = ''PATH''" by code_simp+
  then show ?thesis by (simp add: jmap_def k deep_scalars)
qed

definition broker_names :: "string list" where
  "broker_names = [''request'', ''approver'', ''approval_code'', ''reason'', ''executor'', ''digest'', ''result'', ''message'', ''kind'', ''id'',
     ''argv'', ''mode'', ''requester'', ''host'', ''created_at'', ''expires_at'', ''spec'', ''summary'', ''uid'', ''gid'', ''pid'', ''username'',
     ''env'', ''cwd'', ''exact_command'', ''effect'', ''risk'', ''started_at'', ''finished_at'', ''exit_code'', ''stdout'', ''stderr'',
     ''LANG'', ''LC_ALL'', ''PATH'']"

lemma broker_names_untyped: "k \<in> set broker_names \<Longrightarrow> \<not> names_field ''type'' k"
proof -
  have "list_all (\<lambda>k. json_unquote k = Some k \<and> fold_key k \<noteq> ''type'') broker_names" by code_simp
  then show "k \<in> set broker_names \<Longrightarrow> ?thesis" by (auto simp: list_all_iff names_field_def)
qed

fun default_env :: "details \<Rightarrow> bool" where
  "default_env (RequestCreatedDetails r) \<longleftrightarrow> spec_Env (req_Spec r) = DefaultSanitizedEnv"
| "default_env _ \<longleftrightarrow> True"

lemma deep_details: "default_env d \<Longrightarrow> set (deep_names (json_of_details d)) \<subseteq> set broker_names"
  by (cases d)
     (auto simp: json_of_actor_def json_of_request_def json_of_peer_def json_of_spec_def json_of_summary_def json_of_result_def
        omit_if_def deep_scalars deep_jstrings deep_env broker_names_def split: if_splits)

lemma untyped_details: "default_env d \<Longrightarrow> untyped (Some (json_of_details d))"
  using deep_details broker_names_untyped by (fastforce simp: untyped_def simp del: json_of_details.simps)

lemma untyped_Marshal: "MarshalDetails (Some d) = Inr j \<Longrightarrow> default_env d \<Longrightarrow> untyped j"
  using untyped_details [of d] by (auto simp: MarshalDetails_def simp del: json_of_details.simps split: if_splits)

lemma untyped_None [simp]: "untyped None"
  by (simp add: untyped_def)

section \<open>Genuine events\<close>

definition genuine :: "submissions \<Rightarrow> event \<Rightarrow> bool" where
  "genuine subs a \<longleftrightarrow> event_ok a \<and> untyped (ev_Details a)
     \<and> (ev_Type a = TypeRequestCreated \<longrightarrow>
          (\<exists>r. ev_Details a = Some (json_of_details (RequestCreatedDetails r)) \<and> (ev_RequestID a, r) \<in> subs))"

lemma genuine_mono: "genuine subs a \<Longrightarrow> subs \<subseteq> subs' \<Longrightarrow> genuine subs' a"
  by (auto simp: genuine_def)

definition sound_log :: "submissions \<Rightarrow> service \<Rightarrow> bool" where
  "sound_log subs s \<longleftrightarrow> valid_utf8 (lg_lastHash (sv_log s)) \<and> written (genuine subs) (lg_file (sv_log s))"

lemma append_apply_sound:
  assumes "sound_log subs s" "text_ok e" "untyped (ev_Details e)" "append_apply sha w e s = (r, s')"
    and "ev_Type e = TypeRequestCreated \<Longrightarrow>
      \<exists>r. ev_Details e = Some (json_of_details (RequestCreatedDetails r)) \<and> (ev_RequestID e, r) \<in> subs"
  shows "sound_log subs s'"
proof -
  obtain r0 l' where a0: "Append sha w e (sv_log s) = (r0, l')" by fastforce
  have hash: "valid_utf8 (lg_lastHash (sv_log s))" and content: "written (genuine subs) (lg_file (sv_log s))"
    using assms(1) by (simp_all add: sound_log_def)
  have g: "genuine subs a" if "event_ok a" "same_content a e" for a
    using that assms(3,5) by (auto simp: genuine_def same_content_def)
  have s': "sv_log s' = l'" using assms(4) a0 by (auto simp: append_apply_def split: sum.splits)
  from hash assms(2) a0 have "valid_utf8 (lg_lastHash l') \<and> written (genuine subs) (lg_file l')"
  proof (cases rule: Append_outcomes)
    case (unchanged err)
    with hash content show ?thesis by simp
  next
    case (torn a n err)
    with hash written_torn [OF content g [OF torn(1,2)]] show ?thesis by simp
  next
    case (unsynced a err)
    with hash written_line [OF content g [OF unsynced(1,2)]] show ?thesis by simp
  next
    case (written a)
    with written_line [OF content g [OF written(1,2)]] show ?thesis by (simp add: event_ok_def)
  qed
  then show ?thesis by (simp add: sound_log_def s')
qed

section \<open>Every operation\<close>

lemma new_event_sound:
  assumes "sound_log subs s" "append_apply sha w (new_event rid a t d) s = (r, s')"
    and "valid_utf8 rid" "utf8_actor a" "valid_utf8 t" "details_ok d" "untyped d" "t \<noteq> TypeRequestCreated"
  shows "sound_log subs s'"
  using assms append_apply_sound [OF assms(1) _ _ assms(2)] by (simp add: text_ok_new_event)

lemma typed_sound:
  assumes "sound_log subs s" "append_apply sha w (new_event rid a t d) s = (r, s')"
    and "valid_utf8 rid" "utf8_actor a" "valid_utf8 t" "MarshalDetails (Some v) = Inr d" "default_env v" "t \<noteq> TypeRequestCreated"
  shows "sound_log subs s'"
  using new_event_sound [OF assms(1-5) details_ok_Marshal [OF assms(6)] untyped_Marshal [OF assms(6,7)] assms(8)] .

lemma expire_sound:
  "sound_log subs s \<Longrightarrow> valid_utf8 rid \<Longrightarrow> expireIfNeededLocked sha now w rid s = (r, s') \<Longrightarrow> sound_log subs s'"
  by (auto simp: expireIfNeededLocked_def byte_def split: option.splits if_splits dest: new_event_sound)

lemma Status_sound:
  "sound_log subs s \<Longrightarrow> valid_utf8 rid \<Longrightarrow> Status sha now w rid s = (r, s') \<Longrightarrow> sound_log subs s'"
  by (auto simp: Status_def split: prod.splits sum.splits option.splits dest: expire_sound)

lemma Submit_sound:
  assumes "sound_log subs s" "Submit sha now rand nanos w input s = (r, s')"
    and "valid_utf8 (actorIDForPeer (si_Requester input))" "submission sha now rand nanos input s \<in> subs"
  shows "sound_log subs s'"
proof (cases "si_Argv input = []")
  case True
  with assms(1,2) show ?thesis by (simp add: Submit_def)
next
  case False
  let ?rid = "broker_randomID ''req'' rand nanos" and ?i = "default_mode input"
  let ?r = "build_request sha now ?rid ?i s"
  let ?a = "\<lparr>actor_Kind = ''requester'', actor_ID = actorIDForPeer (si_Requester ?i)\<rparr>"
  show ?thesis
  proof (cases "MarshalDetails (Some (RequestCreatedDetails ?r))")
    case (Inl err)
    with assms(1,2) False show ?thesis by (simp add: Submit_def Let_def)
  next
    case (Inr d)
    then have d: "d = Some (json_of_details (RequestCreatedDetails ?r))" "details_ok d"
      using details_ok_Marshal [OF Inr] by (auto simp: MarshalDetails_def split: if_splits)
    have "default_env (RequestCreatedDetails ?r)" by (simp add: build_request_def BuildExecutionSpec_def Let_def)
    from untyped_Marshal [OF Inr this] have u: "untyped d" .
    have "si_Requester ?i = si_Requester input" by (simp add: default_mode_def)
    then have t: "text_ok (new_event ?rid ?a TypeRequestCreated d)"
      using assms(3) d(2) by (intro text_ok_new_event) (simp_all add: utf8_actor_def byte_def)
    from assms(2) False Inr obtain r1 where "append_apply sha w (new_event ?rid ?a TypeRequestCreated d) s = (r1, s')"
      by (auto simp: Submit_def Let_def split: prod.splits sum.splits)
    from append_apply_sound [OF assms(1) t _ this] u d(1) assms(4) show ?thesis by (auto simp: submission_def)
  qed
qed

lemma review_sound:
  assumes "sound_log subs s" "valid_utf8 (ri_RequestID input)" "utf8_actor (ri_Approver input)"
  shows "Approve sha now w1 w2 input s = (r, s') \<Longrightarrow> sound_log subs s'"
    and "Deny sha now w1 w2 input s = (r, s') \<Longrightarrow> sound_log subs s'"
proof -
  obtain r1 s1 where e: "expireIfNeededLocked sha now w1 (ri_RequestID input) s = (r1, s1)" by fastforce
  have s1: "sound_log subs s1" using expire_sound [OF assms(1,2) e] .
  show "Approve sha now w1 w2 input s = (r, s') \<Longrightarrow> sound_log subs s'"
    using assms(2,3) e s1 by (auto simp: Approve_def byte_def split: sum.splits option.splits if_splits prod.splits intro: typed_sound)
  show "Deny sha now w1 w2 input s = (r, s') \<Longrightarrow> sound_log subs s'"
    using assms(2,3) e s1 by (auto simp: Deny_def byte_def split: sum.splits option.splits if_splits prod.splits intro: typed_sound)
qed

lemma execute_begin_sound:
  assumes "sound_log subs s" "valid_utf8 rid" "execute_begin sha now w1 w2 rid s = (outcome, s')"
  shows "sound_log subs s'"
proof -
  obtain r1 s1 where e: "expireIfNeededLocked sha now w1 rid s = (r1, s1)" by fastforce
  have "sound_log subs s1" using expire_sound [OF assms(1,2) e] .
  with assms(2,3) e show ?thesis
    by (auto simp: execute_begin_def byte_def split: sum.splits option.splits if_splits prod.splits intro: typed_sound)
qed

lemma execute_finish_sound:
  "sound_log subs s \<Longrightarrow> valid_utf8 rid \<Longrightarrow> execute_finish sha w rid outcome s = (r, s') \<Longrightarrow> sound_log subs s'"
  by (auto simp: execute_finish_def byte_def Let_def split: sum.splits option.splits prod.splits intro: typed_sound)

lemma recover_loop_sound:
  "sound_log subs s \<Longrightarrow> (\<And>snap. snap \<in> set snaps \<Longrightarrow> valid_utf8 (req_ID (snap_Request snap))) \<Longrightarrow>
   recover_loop sha ws snaps s = (r, s') \<Longrightarrow> sound_log subs s'"
proof (induction snaps arbitrary: s)
  case (Cons snap snaps)
  show ?case
  proof (cases "snap_Status snap = StatusExecuting")
    case True
    obtain r1 s1 where a: "append_apply sha (ws (req_ID (snap_Request snap))) (recovery_event snap) s = (r1, s1)"
      by fastforce
    have m: "MarshalDetails (Some (RecoveryMarkedFailedDetails m)) = Inr (Some (json_of_details (RecoveryMarkedFailedDetails m)))" for m
      by (simp add: MarshalDetails_def)
    have "sound_log subs s1"
      using typed_sound [OF Cons.prems(1) a [unfolded recovery_event_def] _ _ _ m] Cons.prems(2) by (simp add: byte_def)
    with Cons.prems(2,3) True a Cons.IH [of s1] show ?thesis by (auto split: sum.splits)
  qed (use Cons in auto)
qed simp

section \<open>The disk in a run\<close>

lemma service_sound:
  assumes "sys_inv sha y" "written (genuine (sy_submitted y)) (sy_disk y)" "sy_service y = Some s"
  shows "sound_log (sy_submitted y) s"
  using assms by (simp add: sys_inv_def sound_log_def svc_ok_def)

lemma restart_sound:
  assumes "subs_ok subs" "disk_inv sha subs revs rids None f" "written (genuine subs) f"
    and "NewLog sha (Inr ()) (Inr f) = Inr l" "NewService sha ws executor ttl hostname l = (r, l')"
  shows "written (genuine subs) (lg_file l')"
proof -
  obtain es where es: "replayUnlocked sha f = Inr es" and l: "l = \<lparr>lg_file = f, lg_lastHash = last_hash es\<rparr>"
    using assms(4) by (auto simp: NewLog_def Replay_def result_bind_eq_Inr)
  show ?thesis
  proof (cases "Rebuild es")
    case (Inl err)
    then show ?thesis using assms(3,5) es l by (auto simp: NewService_def Replay_def)
  next
    case (Inr p)
    define s0 where "s0 = \<lparr>sv_log = l, sv_projection = p, sv_executor = executor, sv_ttl = ttl,
        sv_hostname = (case hostname of None \<Rightarrow> ''localhost'' | Some h \<Rightarrow> h)\<rparr>"
    have ok: "svc_ok sha subs revs rids s0"
      using restart_ok [OF assms(1,2) es Inr, of s0] l by (simp add: s0_def)
    then have s0: "sound_log subs s0" using assms(3) l by (simp add: sound_log_def svc_ok_def s0_def)
    obtain r1 s1 where rec: "recover_loop sha ws (All p) s0 = (r1, s1)" by fastforce
    have "valid_utf8 (req_ID (snap_Request snap))" if "snap \<in> set (All p)" for snap
      using that ok by (auto simp: set_All svc_ok_def good_def subs_ok_def s0_def utf8_request_def)
    then have "sound_log subs s1" using recover_loop_sound [OF s0 _ rec] by blast
    moreover have "l' = sv_log s1"
      using assms(5) es l Inr rec
      by (auto simp: NewService_def Replay_def recoverExecutingLocked_def s0_def split: sum.splits prod.splits)
    ultimately show ?thesis by (simp add: sound_log_def)
  qed
qed

lemma with_service_sound:
  "sound_log (sy_submitted y) s \<Longrightarrow>
   written (genuine (sy_submitted (with_service s y))) (sy_disk (with_service s y))"
  by (simp add: sound_log_def with_service_def)

lemma step_written:
  assumes inv: "sys_inv sha y" and w: "written (genuine (sy_submitted y)) (sy_disk y)" and "step sha y act y'"
  shows "written (genuine (sy_submitted y')) (sy_disk y')"
  using assms(3)
proof cases
  case (submit s now rand nanos w0 input r s')
  let ?subs = "insert (submission sha now rand nanos input s) (sy_submitted y)"
  have "sound_log ?subs s"
    using service_sound [OF inv w submit(3)] by (auto simp: sound_log_def intro: written_mono genuine_mono)
  from Submit_sound [OF this submit(4,5)] show ?thesis unfolding submit(2) by (intro with_service_sound) simp
next
  case (status s now w0 rid r s')
  from Status_sound [OF service_sound [OF inv w status(3)] status(5,4)] show ?thesis unfolding status(2) by (rule with_service_sound)
next
  case (approve s now w1 w2 input r s')
  from review_sound(1) [OF service_sound [OF inv w approve(3)] approve(5,6,4)] show ?thesis
    unfolding approve(2) by (intro with_service_sound) simp
next
  case (deny s now w1 w2 input r s')
  from review_sound(2) [OF service_sound [OF inv w deny(3)] deny(5,6,4)] show ?thesis unfolding deny(2) by (rule with_service_sound)
next
  case (refuse s now w1 w2 rid r s')
  from execute_begin_sound [OF service_sound [OF inv w refuse(3)] refuse(5,4)] show ?thesis unfolding refuse(2) by (rule with_service_sound)
next
  case (launch s now w1 w2 rid req s')
  from execute_begin_sound [OF service_sound [OF inv w launch(3)] launch(5,4)] show ?thesis
    unfolding launch(2) by (intro with_service_sound) simp
next
  case (finish s rid w0 outcome r s')
  have "valid_utf8 rid" using inv finish(4) by (auto simp: sys_inv_def)
  from execute_finish_sound [OF service_sound [OF inv w finish(3)] this finish(5)] show ?thesis
    unfolding finish(2) by (intro with_service_sound) simp
next
  case crash
  with w show ?thesis by simp
next
  case (restart l ws executor ttl hostname s l')
  from inv restart(3) have d: "subs_ok (sy_submitted y)" "disk_inv sha (sy_submitted y) (sy_reviews y) (launched_ids y) None (sy_disk y)"
    by (simp_all add: sys_inv_def)
  from NewService_ok [OF d restart(4,5)] have "sv_log s = l'" by simp
  with restart_sound [OF d w restart(4,5)] show ?thesis unfolding restart(2) by (simp add: with_service_def)
next
  case (failed_restart l ws executor ttl hostname err l')
  from inv failed_restart(3) have d: "subs_ok (sy_submitted y)" "disk_inv sha (sy_submitted y) (sy_reviews y) (launched_ids y) None (sy_disk y)"
    by (simp_all add: sys_inv_def)
  from restart_sound [OF d w failed_restart(4,5)] show ?thesis unfolding failed_restart(2) by simp
qed

definition disk_written :: "(string \<Rightarrow> string) \<Rightarrow> sys \<Rightarrow> bool" where
  "disk_written sha y \<longleftrightarrow> sys_inv sha y \<and> written (genuine (sy_submitted y)) (sy_disk y)"

lemma disk_written_fresh: "disk_written sha fresh_sys"
  using sys_inv_fresh [of sha] written_nil by (simp add: disk_written_def) (simp add: fresh_sys_def)

interpretation dw: machine "\<lambda>y. y = fresh_sys" "step sha" "disk_written sha" for sha
  by unfold_locales (auto simp: disk_written_fresh, auto simp: disk_written_def intro: sys_inv_step step_written)

section \<open>What the tailer can announce\<close>

lemma genuine_created:
  assumes "genuine subs a" "subs_ok subs" "ev_Type a = TypeRequestCreated"
    and "unmarshal_details created_fields zero_request (ev_Details a) = Inr r"
  shows "(pr_RequestID (pending_of r), r) \<in> subs"
proof -
  obtain q where q: "ev_Details a = Some (json_of_details (RequestCreatedDetails q))" "(ev_RequestID a, q) \<in> subs"
    using assms(1,3) by (auto simp: genuine_def)
  with unmarshal_submitted [OF assms(2) q(2)] assms(4) have "r = q" by simp
  moreover have "req_ID q = ev_RequestID a" using assms(2) q(2) by (auto simp: subs_ok_def)
  ultimately show ?thesis using q(2) by (simp add: pending_of_def)
qed

lemma scan_of_disk:
  assumes "disk_written sha y" "sublist content (sy_disk y)"
    and "p \<in> set (fst (fst (snd (scanOnce (Inr (Some content)) seek readErr t))))"
  shows "\<exists>r. (pr_RequestID p, r) \<in> sy_submitted y \<and> p = pending_of r"
proof -
  have w: "written (genuine (sy_submitted y)) (sy_disk y)" and subs: "subs_ok (sy_submitted y)"
    using assms(1) by (simp_all add: disk_written_def sys_inv_def)
  have g: "event_ok a \<and> untyped (ev_Details a)" if "genuine (sy_submitted y) a" for a using that by (simp add: genuine_def)
  from scan_announces [OF assms(3) w g assms(2)] obtain e r where "genuine (sy_submitted y) e" "ev_Type e = TypeRequestCreated"
    "unmarshal_details created_fields zero_request (ev_Details e) = Inr r" "p = pending_of r" by blast
  with genuine_created [OF _ subs] show ?thesis by blast
qed

text \<open>
  C5 (no scan invents a request). Let the broker run in any way: failed opens, torn writes, failed
  syncs, crashes, restarts. However the adapter's scans of the event log fall, each reading the
  file up to an arbitrary byte from whatever offset it has reached, in the middle of lines as well:
  a request handed to the SMS handler is one that was submitted to the broker, with the data of the
  submission. So no argument, reason or directory can forge an announcement.
\<close>

theorem no_scan_invents_a_request:
  assumes "run (step sha) fresh_sys acts y"
    and "p \<in> set (fst (fst (tail_Run (map (\<lambda>k. tail_file (take k (sy_disk y))) ks) t)))"
  shows "\<exists>r. (pr_RequestID p, r) \<in> sy_submitted y \<and> p = pending_of r"
proof -
  have d: "disk_written sha y" by (rule dw.inv_run [OF refl assms(1)])
  show ?thesis using assms(2)
  proof (induction ks arbitrary: t)
    case (Cons k ks)
    then show ?case
      using scan_of_disk [OF d sublist_take, of p k] by (auto simp: tail_Run_Cons simp del: tail_Run.simps)
  qed simp
qed

section \<open>What the tailer can lose\<close>

text \<open>
  C37 (a scan that ends inside a line). Let a scan run while the file holds only the first n > 0 bytes
  of the line of an event that the broker wrote, and let every later scan find only whole lines.
  If the text of the line is incomplete, the tailer counts a terminator it has not read, so that the
  next scan starts one byte too far: the event is never announced, whatever is scanned later, and
  what is announced are the requests of the other events, as if it were not in the log. If only
  the terminator is missing, nothing is lost. No text inside the lines can change this: the rest
  of the line is not taken for a creation, whatever the request holds.
\<close>

theorem torn_scan_loses_request:
  assumes "list_all event_ok (es @ e # fs)" "genuine subs e" "0 < n" "n \<le> length (event_line e)"
    and "sorted (Suc (length es) # ns)" "ns \<noteq> []" "last ns = length (es @ e # fs)"
  shows "fst (fst (tail_Run (tail_file (file_lines event_line es @ take n (event_line e))
        # map (\<lambda>k. tail_file (file_lines event_line (take k (es @ e # fs)))) ns) NewCanonTailer))
    = announced {} (if n < length (event_line e) then es @ fs else es @ e # fs)"
proof -
  let ?all = "es @ e # fs" and ?m = "Suc (length es)" and ?l = "event_line e"
  let ?scans = "\<lambda>ns. map (\<lambda>k. tail_file (file_lines event_line (take k ?all))) ns"
  have ok: "list_all event_ok es" "event_ok e" using assms(1) by simp_all
  obtain errs where t: "scanOnce (Inr (Some (file_lines event_line es @ take n ?l))) None None NewCanonTailer =
    (None, (announced {} (if n < length ?l then es else es @ [e]), errs),
     \<lparr>ct_offset = length (file_lines event_line es) + n + 1, ct_seen = created_ids (if n < length ?l then es else es @ [e])\<rparr>)"
    (is "_ = (_, _, ?t)") using scan_torn [OF ok assms(3,4)] by blast
  have grown: "fst (fst (tail_Run (?scans ns) u)) = announced (ct_seen u) fs"
    if "ct_offset u = length (file_lines event_line (take ?m ?all))" for u
    using tail_grown [OF assms(1,5,6) _ that] assms(7) by simp
  show ?thesis
  proof (cases "n < length ?l")
    case True
    obtain k ks where ns: "ns = k # ks" using assms(6) by (cases ns) auto
    with assms(5) have "?m \<le> k" by simp
    then obtain i where k: "k = ?m + i" using le_Suc_ex by blast
    let ?fs = "take i fs" and ?u = "\<lparr>ct_offset = length (file_lines event_line (take ?m ?all)), ct_seen = created_ids es\<rparr>"
    have all: "take k ?all = es @ e # ?fs" by (simp add: k)
    have o: "list_all event_ok (es @ e # ?fs)" using assms(1) by (auto simp: list_all_iff dest: in_set_takeD)
    obtain errs1 where 1: "scanOnce (Inr (Some (file_lines event_line (take k ?all)))) None None ?t =
        (None, (announced (created_ids es) ?fs, errs1), \<lparr>ct_offset = length (file_lines event_line (take k ?all)), ct_seen = created_ids es \<union> created_ids ?fs\<rparr>)"
      using scan_rest [OF o _ assms(3) True, of ?t "created_ids es"] assms(2) True unfolding all by (auto simp: genuine_def)
    obtain errs2 where 2: "scanOnce (Inr (Some (file_lines event_line (take k ?all)))) None None ?u =
        (None, (announced (created_ids es) ?fs, errs2), \<lparr>ct_offset = length (file_lines event_line (take k ?all)), ct_seen = created_ids es \<union> created_ids ?fs\<rparr>)"
      using scan_from [OF assms(1), of ?m k ?u] k by auto
    have "fst (fst (tail_Run (?scans ns) ?t)) = fst (fst (tail_Run (?scans ns) ?u))"
      by (simp only: ns list.map tail_Run_Cons 1 2 fst_conv snd_conv)
    also have "\<dots> = announced (created_ids es) fs" using grown [of ?u] by simp
    finally show ?thesis by (simp only: tail_Run_Cons t fst_conv snd_conv) (simp add: True announced_append)
  next
    case False
    then have "fst (fst (tail_Run (?scans ns) ?t)) = announced (ct_seen ?t) fs"
      using assms(4) by (intro grown) simp
    then show ?thesis
      using announced_append [of "{}" "es @ [e]" fs] by (simp only: tail_Run_Cons t fst_conv snd_conv) (simp add: False)
  qed
qed

section \<open>A concrete scan\<close>

lemma sole_scan:
  assumes "persisted sha s es" "set (gkeys (sv_projection s)) = {rid}" "Get (sv_projection s) rid = Some snap"
  shows "\<exists>errs t. scanOnce (Inr (Some (lg_file (sv_log s)))) None None NewCanonTailer = (None, ([pending_of (snap_Request snap)], errs), t)"
proof -
  have f: "lg_file (sv_log s) = file_lines event_line (take (length es) es)" "list_all event_ok es"
    and r: "Rebuild es = Inr (sv_projection s)" using assms(1) by (simp_all add: persisted_def log_holds_def)
  obtain rids where rids: "distinct rids" "set rids = {rid}"
    "announced {} es = map (\<lambda>rid. pending_of (snap_Request (the (Get (sv_projection s) rid)))) rids"
    using announced_Rebuild [OF r] assms(2) by auto
  then have "rids = [rid]" by (cases rids; cases "tl rids") auto
  with rids(3) assms(3) have "announced {} (take (length es) es) = [pending_of (snap_Request snap)]" by simp
  then show ?thesis
    using scan_grown [OF f(2), of 0 "length es" NewCanonTailer]
    by (simp add: f(1) NewCanonTailer_def created_ids_def del: take_all take_all_iff) (auto simp del: take_all)
qed

lemma sample_Submit:
  "\<exists>s es snap. Submit sample_sha 1000 (Some ''abc'') 0 (sample_io FsOk) sample_input (sample_service New)
       = (Inr (FromSnapshot snap ''Approval required''), s)
     \<and> persisted sample_sha s es \<and> set (gkeys (sv_projection s)) = {sample_rid} \<and> Get (sv_projection s) sample_rid = Some snap
     \<and> snap_Request snap = sample_request sample_rid \<and> snap_Status snap = StatusPending \<and> valid_utf8 (lg_lastHash (sv_log s))"
proof -
  let ?w = "sample_io FsOk" and ?s0 = "sample_service New"
  have a: "valid_utf8 (actorIDForPeer (si_Requester sample_input))" "si_Argv sample_input \<noteq> []"
    by (simp_all add: actorIDForPeer_def sample_input_def byte_def)
  obtain s snap where s: "Submit sample_sha 1000 (Some ''abc'') 0 ?w sample_input ?s0 = (Inr (FromSnapshot snap ''Approval required''), s)"
    "Get (sv_projection s) sample_rid = Some snap" "snap_Request snap = sample_request sample_rid" "snap_Status snap = StatusPending"
    "valid_utf8 (lg_lastHash (sv_log s))" and k: "\<forall>k. k = sample_rid \<or> Get (sv_projection s) k = Get (sv_projection ?s0) k"
    using Submit_healthy [OF _ sample_healthy a(2,1) sample_rid_def _ _ sample_request_ok(1) [OF sample_rid_utf8]
        sample_request_ok(2), of ?s0 sample_sha 1000]
    by (auto simp: Get_def sample_request_def)
  have "Get (sv_projection ?s0) k = None" for k by (simp add: sample_service_def Get_def New_def gget_def)
  then have "set (gkeys (sv_projection s)) = {sample_rid}" using gm.keys_iff [of _ "sv_projection s"] k s(2) by (auto simp: Get_def)
  moreover have "(call_ok sample_sha)\<^sup>*\<^sup>* ?s0 s" using call_submit [OF s(1) a(1)] by blast
  then obtain es where "persisted sample_sha s es"
    using calls_grow NewService_empty_persisted [OF NewService_empty(2)] by (fastforce simp: grows_def)
  ultimately show ?thesis using s by blast
qed

theorem no_scan_invents_a_request_witness:
  "\<exists>acts y. run (step sample_sha) fresh_sys acts y
     \<and> pending_of (sample_request sample_rid) \<in> set (fst (fst (tail_Run (map (\<lambda>k. tail_file (take k (sy_disk y))) [length (sy_disk y)]) NewCanonTailer)))
     \<and> (\<exists>r. (sample_rid, r) \<in> sy_submitted y \<and> pending_of (sample_request sample_rid) = pending_of r)"
proof -
  let ?w = "sample_io FsOk" and ?ws = "\<lambda>_ :: string. sample_io FsOk" and ?s0 = "sample_service New"
  obtain s es snap where s: "Submit sample_sha 1000 (Some ''abc'') 0 ?w sample_input ?s0 = (Inr (FromSnapshot snap ''Approval required''), s)"
    "persisted sample_sha s es" "set (gkeys (sv_projection s)) = {sample_rid}" "Get (sv_projection s) sample_rid = Some snap"
    "snap_Request snap = sample_request sample_rid" using sample_Submit by blast
  have sub: "submission sample_sha 1000 (Some ''abc'') 0 sample_input ?s0 = (sample_rid, sample_request sample_rid)"
    by (simp add: submission_def sample_rid_def sample_request_def)
  let ?y1 = "with_service ?s0 fresh_sys"
  have 1: "step sample_sha fresh_sys (ARestart ?ws LocalExecutor_Name DefaultTTL (Some ''host'')) ?y1"
    by (rule restart [OF _ _ NewService_empty(2)]) (simp_all add: fresh_sys_def NewService_empty(1))
  have a: "valid_utf8 (actorIDForPeer (si_Requester sample_input))" "si_Argv sample_input \<noteq> []"
    by (simp_all add: actorIDForPeer_def sample_input_def byte_def)
  let ?y2 = "with_service s (?y1\<lparr>sy_submitted := insert (sample_rid, sample_request sample_rid) (sy_submitted ?y1)\<rparr>)"
  have 2: "step sample_sha ?y1 (ASubmit 1000 (Some ''abc'') 0 ?w sample_input) ?y2"
    unfolding sub [symmetric]
    by (rule submit [OF _ s(1) a]) (simp_all add: with_service_def sub sample_request_ok)
  note r = run_Cons [where step = "step sample_sha", OF 1 run_single [where step = "step sample_sha", OF 2]]
  have p: "pending_of (sample_request sample_rid)
      \<in> set (fst (fst (tail_Run (map (\<lambda>k. tail_file (take k (sy_disk ?y2))) [length (sy_disk ?y2)]) NewCanonTailer)))"
    using sole_scan [OF s(2-4)] s(5) by (auto simp: tail_Run_Cons with_service_def simp del: tail_Run.simps(2))
  have i: "pr_RequestID (pending_of (sample_request sample_rid)) = sample_rid"
    by (simp add: pending_of_def sample_request_def build_request_def Let_def)
  from r p no_scan_invents_a_request [OF r p, unfolded i] show ?thesis by blast
qed

text \<open>A creation event that a scan met without its last byte, against one whose terminator alone was missing.\<close>

lemma sample_creation_genuine: "genuine {(sample_rid, sample_request sample_rid)} (sample_creation sample_rid)"
proof -
  have "default_env (RequestCreatedDetails (sample_request sample_rid))"
    by (simp add: sample_request_def build_request_def BuildExecutionSpec_def Let_def)
  then have "untyped (Some (json_of_details (RequestCreatedDetails (sample_request sample_rid))))" by (rule untyped_details)
  with sample_creation_event(1) show ?thesis
    by (simp add: genuine_def sample_creation_def appended_def stamp_def new_event_def Let_def del: json_of_details.simps)
qed

theorem torn_scan_loses_request_witness:
  "let e = sample_creation sample_rid; scans = (\<lambda>n. [tail_file (take n (event_line e)), tail_file (event_line e @ [newline])]) in
     fst (fst (tail_Run (scans (length (event_line e) - 1)) NewCanonTailer)) = []
   \<and> fst (fst (tail_Run (scans (length (event_line e))) NewCanonTailer)) = [pending_of (sample_request sample_rid)]"
proof -
  let ?e = "sample_creation sample_rid" and ?l = "event_line (sample_creation sample_rid)"
  have e: "list_all event_ok ([] @ ?e # [])" using sample_creation_event(1) by simp
  have l: "1 < length ?l" using event_line_front [of ?e] by auto
  have ns: "sorted (Suc (length []) # [1])" "[1] \<noteq> []" "last [1] = length ([] @ ?e # [])" by simp_all
  have w: "fst (fst (tail_Run [tail_file (take n ?l), tail_file (?l @ [newline])] NewCanonTailer))
      = announced {} (if n < length ?l then [] else [?e])" if "0 < n" "n \<le> length ?l" for n
    using torn_scan_loses_request [OF e sample_creation_genuine that ns] by (simp del: tail_Run.simps announced.simps(2))
  have "fst (fst (tail_Run [tail_file (take (length ?l - 1) ?l), tail_file (?l @ [newline])] NewCanonTailer)) = []"
    using w [of "length ?l - 1"] l by (simp del: tail_Run.simps)
  moreover have "fst (fst (tail_Run [tail_file (take (length ?l) ?l), tail_file (?l @ [newline])] NewCanonTailer))
      = [pending_of (sample_request sample_rid)]"
    using w [of "length ?l", OF less_trans [OF zero_less_one l] order_refl] sample_creation_event(2) [OF sample_rid_utf8] by (simp del: tail_Run.simps announced.simps(2))
  ultimately show ?thesis unfolding Let_def by (rule conjI)
qed

end
