(* ===== verification/Socket.thy ===== *)
theory Socket
  imports Broker_Restart
begin

text \<open>
  Package \<open>internal/socket\<close>: the two Unix sockets in front of the broker (\<open>server.go\<close>) and the
  client call (\<open>client.go\<close>). A connection is the bytes the peer sends, the bytes it gets back, and
  what the kernel said about the peer. The texts of errors that come from decoders or the operating
  system are a parameter \<open>errtext\<close>.

  The lanes are the security boundary of the design: submissions, status and execution only on the
  request socket, reviews only on the review socket and only for allowed peers.
\<close>

section \<open>The server\<close>

record server =
  sr_service :: service
  sr_requestSocketPath :: string
  sr_reviewSocketPath :: string
  sr_reviewUIDs :: "32 word set"
  sr_reviewGIDs :: "32 word set"

definition NewServer :: "service \<Rightarrow> string \<Rightarrow> string \<Rightarrow> 32 word list \<Rightarrow> 32 word list \<Rightarrow> server" where
  "NewServer svc requestSocketPath reviewSocketPath reviewUIDs reviewGIDs =
     \<lparr>sr_service = svc, sr_requestSocketPath = requestSocketPath, sr_reviewSocketPath = reviewSocketPath,
      sr_reviewUIDs = fold insert reviewUIDs {}, sr_reviewGIDs = fold insert reviewGIDs {}\<rparr>"

definition reviewAllowed :: "server \<Rightarrow> 32 word \<Rightarrow> 32 word \<Rightarrow> bool" where
  "reviewAllowed srv uid gid = (if uid \<in> sr_reviewUIDs srv then True else gid \<in> sr_reviewGIDs srv)"

text \<open>What the environment answers during one call: clock, random bytes, file outcomes, executor.\<close>

record call_env =
  ce_now :: time
  ce_rand :: "string option"
  ce_nanos :: int
  ce_io1 :: io
  ce_io2 :: io
  ce_io3 :: io
  ce_executor :: "request \<Rightarrow> execution_result \<times> string option"

text \<open>
  The decision of \<open>dispatch\<close>, one branch per case of its switch: an answer of its own, or one call
  of the service.
\<close>

datatype service_call =
    Answer response
  | CallSubmit submit_input
  | CallStatus string
  | CallExecute string
  | CallApprove review_input
  | CallDeny review_input

definition rejected :: "string \<Rightarrow> string \<Rightarrow> service_call" where
  "rejected requestID message = Answer (zero_response\<lparr>rs_RequestID := requestID,
     rs_Status := status_string StatusRejected, rs_Message := message\<rparr>)"

definition route :: "server \<Rightarrow> string \<Rightarrow> wire_request \<Rightarrow> peer_identity \<Rightarrow> service_call" where
  "route srv lane request peer =
     (let action = wr_Action request; requestID = wr_RequestID request in
      if action = ActionRequestSubmit then
        (if lane \<noteq> ''request'' then rejected [] ''submit is only allowed on request socket''
         else CallSubmit \<lparr>si_Argv = wr_Argv request, si_Reason = wr_Reason request, si_Mode = wr_Mode request,
                          si_Requester = peer, si_Cwd = wr_Cwd request\<rparr>)
      else if action = ActionRequestStatus then
        (if lane \<noteq> ''request'' then rejected [] ''status is only allowed on request socket''
         else CallStatus requestID)
      else if action = ActionRequestExecute then
        (if lane \<noteq> ''request'' then rejected [] ''execute is only allowed on request socket''
         else CallExecute requestID)
      else if action = ActionReviewApprove then
        (if lane \<noteq> ''review'' then rejected [] ''approve is only allowed on review socket''
         else if \<not> reviewAllowed srv (peer_UID peer) (peer_GID peer) then
           rejected requestID ''peer uid is not allowed on review socket''
         else CallApprove \<lparr>ri_RequestID = requestID, ri_Approver = wr_Approver request,
                           ri_ApprovalCode = wr_ApprovalCode request, ri_Reason = []\<rparr>)
      else if action = ActionReviewDeny then
        (if lane \<noteq> ''review'' then rejected [] ''deny is only allowed on review socket''
         else if \<not> reviewAllowed srv (peer_UID peer) (peer_GID peer) then
           rejected requestID ''peer uid is not allowed on review socket''
         else CallDeny \<lparr>ri_RequestID = requestID, ri_Approver = wr_Approver request,
                        ri_ApprovalCode = [], ri_Reason = wr_Reason request\<rparr>)
      else Answer (zero_response\<lparr>rs_RequestID := requestID, rs_Status := status_string StatusError,
                     rs_Message := ''unsupported action '' @ action\<rparr>))"

fun perform :: "(string \<Rightarrow> string) \<Rightarrow> call_env \<Rightarrow> service_call \<Rightarrow> service \<Rightarrow> response result \<times> service" where
  "perform sha env (Answer r) s = (Inr r, s)"
| "perform sha env (CallSubmit input) s = Submit sha (ce_now env) (ce_rand env) (ce_nanos env) (ce_io1 env) input s"
| "perform sha env (CallStatus rid) s = Status sha (ce_now env) (ce_io1 env) rid s"
| "perform sha env (CallExecute rid) s =
     Execute sha (ce_now env) (ce_io1 env) (ce_io2 env) (ce_io3 env) (ce_executor env) rid s"
| "perform sha env (CallApprove input) s = Approve sha (ce_now env) (ce_io1 env) (ce_io2 env) input s"
| "perform sha env (CallDeny input) s = Deny sha (ce_now env) (ce_io1 env) (ce_io2 env) input s"

definition dispatch ::
    "(string \<Rightarrow> string) \<Rightarrow> call_env \<Rightarrow> string \<Rightarrow> wire_request \<Rightarrow> peer_identity \<Rightarrow> server \<Rightarrow> response result \<times> server" where
  "dispatch sha env lane request peer srv =
     (let (r, s) = perform sha env (route srv lane request peer) (sr_service srv)
      in (r, srv\<lparr>sr_service := s\<rparr>))"

section \<open>Peer credentials\<close>

record ucred =
  cred_Uid :: "32 word"
  cred_Gid :: "32 word"
  cred_Pid :: "32 word"

text \<open>
  \<open>sysconn\<close> and \<open>control\<close> are the errors of \<open>SyscallConn\<close> and \<open>Control\<close>, \<open>cred\<close> what
  \<open>GetsockoptUcred\<close> returned inside, \<open>lookup\<close> the user database.
\<close>

definition peerIdentity ::
    "go_error option \<Rightarrow> go_error option \<Rightarrow> ucred result \<Rightarrow> (string \<Rightarrow> string option) \<Rightarrow>
     peer_identity \<times> go_error option" where
  "peerIdentity sysconn control cred lookup =
     (case sysconn of
        Some err \<Rightarrow> (zero_peer, Some err)
      | None \<Rightarrow>
          (case control of
             Some err \<Rightarrow> (zero_peer, Some err)
           | None \<Rightarrow>
               (case cred of
                  Inl err \<Rightarrow> (zero_peer, Some err)
                | Inr c \<Rightarrow>
                    (let ident = zero_peer\<lparr>peer_UID := cred_Uid c, peer_GID := cred_Gid c, peer_PID := cred_Pid c\<rparr>
                     in case lookup (string_of_nat (unat (cred_Uid c))) of
                          Some name \<Rightarrow> (ident\<lparr>peer_Username := name\<rparr>, None)
                        | None \<Rightarrow> (ident, None)))))"

section \<open>One connection\<close>

text \<open>\<open>decodeErr\<close> is the text of the decoder's error on the bytes the peer sent.\<close>

definition handleConn ::
    "(string \<Rightarrow> string) \<Rightarrow> (go_error \<Rightarrow> string) \<Rightarrow> (string \<Rightarrow> string) \<Rightarrow> call_env \<Rightarrow>
     peer_identity \<times> go_error option \<Rightarrow> string \<Rightarrow> string \<Rightarrow> server \<Rightarrow> string \<times> server" where
  "handleConn sha errtext decodeErr env ident lane received srv =
     (let peer = (case snd ident of None \<Rightarrow> fst ident | Some _ \<Rightarrow> zero_peer\<lparr>peer_Username := ''unknown''\<rparr>)
      in case Option.bind (Decode received) (\<lambda>j. dec_struct wire_request_fields j zero_wire_request) of
           None \<Rightarrow> (Encode (json_of_response (zero_response\<lparr>rs_Status := status_string StatusError,
                      rs_Message := decodeErr received\<rparr>)), srv)
         | Some request \<Rightarrow>
             (case dispatch sha env lane request peer srv of
                (Inr response, srv') \<Rightarrow> (Encode (json_of_response response), srv')
              | (Inl err, srv') \<Rightarrow>
                  (Encode (json_of_response (zero_response\<lparr>rs_RequestID := wr_RequestID request,
                     rs_Status := status_string StatusError, rs_Message := errtext err\<rparr>)), srv')))"

section \<open>The client\<close>

text \<open>A dialled connection turns the bytes sent into the bytes received, or fails.\<close>

definition Call :: "(string \<Rightarrow> string result) result \<Rightarrow> wire_request \<Rightarrow> response result" where
  "Call conn request =
     result_bind conn (\<lambda>exchange.
       result_bind (exchange (Encode (json_of_wire_request request))) (\<lambda>reply.
         (case Option.bind (Decode reply) (\<lambda>j. dec_struct response_fields j zero_response) of
            None \<Rightarrow> Inl ErrDecode
          | Some response \<Rightarrow> Inr response)))"

section \<open>The sockets\<close>

text \<open>
  Starting the listeners: the calls made, in order, and the first error. \<open>os\<close> says which call
  fails; the result of removing a stale socket is ignored.
\<close>

datatype os_call =
    MkdirAll string nat
  | RemovePath string
  | ListenUnix string
  | Chmod string nat
  | CloseListener string

definition Dir :: "string \<Rightarrow> string" where
  "Dir path = Clean (rev (dropWhile (\<lambda>c. c \<noteq> CHR ''/'') (rev path)))"

definition listenSocket :: "(os_call \<Rightarrow> go_error option) \<Rightarrow> string \<Rightarrow> nat \<Rightarrow> unit result \<times> os_call list" where
  "listenSocket os path mode =
     (let mkdir = MkdirAll (Dir path) 493; listen = ListenUnix path; chmod = Chmod path mode in
      case os mkdir of
        Some err \<Rightarrow> (Inl err, [mkdir])
      | None \<Rightarrow>
          (case os listen of
             Some err \<Rightarrow> (Inl err, [mkdir, RemovePath path, listen])
           | None \<Rightarrow>
               (case os chmod of
                  Some err \<Rightarrow> (Inl err, [mkdir, RemovePath path, listen, chmod, CloseListener path])
                | None \<Rightarrow> (Inr (), [mkdir, RemovePath path, listen, chmod]))))"

text \<open>The start of \<open>Run\<close>: the deferred close runs when the second socket fails.\<close>

definition Run_listen :: "(os_call \<Rightarrow> go_error option) \<Rightarrow> server \<Rightarrow> unit result \<times> os_call list" where
  "Run_listen os srv =
     (case listenSocket os (sr_requestSocketPath srv) 432 of
        (Inl err, calls) \<Rightarrow> (Inl err, calls)
      | (Inr _, calls) \<Rightarrow>
          (case listenSocket os (sr_reviewSocketPath srv) 384 of
             (Inl err, calls') \<Rightarrow> (Inl err, calls @ calls' @ [CloseListener (sr_requestSocketPath srv)])
           | (Inr _, calls') \<Rightarrow> (Inr (), calls @ calls')))"

section \<open>What each call may do to a request\<close>

text \<open>A sequence of accepted events, each with its request id and type in \<open>T\<close>.\<close>

inductive via :: "(string \<times> string) set \<Rightarrow> projection \<Rightarrow> projection \<Rightarrow> bool" for T where
  via_refl: "via T p p"
| via_step: "via T p p' \<Longrightarrow> Apply a p' = Inr p'' \<Longrightarrow> (ev_RequestID a, ev_Type a) \<in> T \<Longrightarrow> via T p p''"

lemma via_mono: "via T p p' \<Longrightarrow> T \<subseteq> T' \<Longrightarrow> via T' p p'"
  by (induction rule: via.induct) (auto intro: via.intros)

lemma via_trans: "via T p' p'' \<Longrightarrow> via T p p' \<Longrightarrow> via T p p''"
  by (induction rule: via.induct) (auto intro: via.intros)

lemma via_append_apply:
  assumes "append_apply sha w e s = (r, s')"
  shows "via {(ev_RequestID e, ev_Type e)} (sv_projection s) (sv_projection s')"
  using append_apply_effect [OF assms] via_step [OF via_refl]
  by (auto simp: same_content_def intro: via_refl)

lemma via_expire: "expireIfNeededLocked sha now w rid s = (r, s') \<Longrightarrow> (rid, TypeRequestExpired) \<in> T \<Longrightarrow>
  via T (sv_projection s) (sv_projection s')"
  by (auto simp: expireIfNeededLocked_def split: option.splits if_splits
      dest!: via_append_apply intro: via_refl via_mono)

definition events_of :: "call_env \<Rightarrow> service_call \<Rightarrow> (string \<times> string) set" where
  "events_of env c = (case c of
     Answer _ \<Rightarrow> {}
   | CallSubmit _ \<Rightarrow> {(broker_randomID ''req'' (ce_rand env) (ce_nanos env), TypeRequestCreated)}
   | CallStatus rid \<Rightarrow> {(rid, TypeRequestExpired)}
   | CallExecute rid \<Rightarrow> {rid} \<times> {TypeRequestExpired, TypeExecutionStarted, TypeExecutionSucceeded, TypeExecutionFailed}
   | CallApprove i \<Rightarrow> {ri_RequestID i} \<times> {TypeRequestExpired, TypeRequestApproved}
   | CallDeny i \<Rightarrow> {ri_RequestID i} \<times> {TypeRequestExpired, TypeRequestDenied})"

lemma via_two:
  assumes "via T (sv_projection s) (sv_projection s1)" "append_apply sha w e s1 = (r, s2)" "(ev_RequestID e, ev_Type e) \<in> T"
  shows "via T (sv_projection s) (sv_projection s2)"
  using via_trans [OF via_mono [OF via_append_apply [OF assms(2)]] assms(1)] assms(3) by simp

lemma via_execute_begin:
  assumes "execute_begin sha now w1 w2 rid s = (out, s')" "{rid} \<times> {TypeRequestExpired, TypeExecutionStarted} \<subseteq> T"
  shows "via T (sv_projection s) (sv_projection s')"
proof -
  obtain r1 s1 where e: "expireIfNeededLocked sha now w1 rid s = (r1, s1)" by fastforce
  have v: "via T (sv_projection s) (sv_projection s1)" using via_expire [OF e, of T] assms(2) by simp
  with assms e show ?thesis
    by (auto simp: execute_begin_def split: sum.splits prod.splits option.splits if_splits dest!: via_two [OF v])
qed

lemma via_execute_finish:
  "execute_finish sha w rid outcome s = (r, s') \<Longrightarrow>
   {rid} \<times> {TypeExecutionSucceeded, TypeExecutionFailed} \<subseteq> T \<Longrightarrow> via T (sv_projection s) (sv_projection s')"
  by (auto simp: execute_finish_def Let_def split: sum.splits prod.splits option.splits
      dest!: via_append_apply intro: via_refl via_mono)

lemma via_review:
  "Approve sha now w1 w2 input s = (r, s') \<Longrightarrow> {ri_RequestID input} \<times> {TypeRequestExpired, TypeRequestApproved} \<subseteq> T \<Longrightarrow>
     via T (sv_projection s) (sv_projection s')"
  "Deny sha now w1 w2 input s = (r, s') \<Longrightarrow> {ri_RequestID input} \<times> {TypeRequestExpired, TypeRequestDenied} \<subseteq> T \<Longrightarrow>
     via T (sv_projection s) (sv_projection s')"
proof -
  obtain r1 s1 where e: "expireIfNeededLocked sha now w1 (ri_RequestID input) s = (r1, s1)" by fastforce
  note v = via_two [OF via_expire [OF e, of T]]
  show "Approve sha now w1 w2 input s = (r, s') \<Longrightarrow> {ri_RequestID input} \<times> {TypeRequestExpired, TypeRequestApproved} \<subseteq> T \<Longrightarrow>
     via T (sv_projection s) (sv_projection s')"
    using e via_expire [OF e, of T]
    by (auto simp: Approve_def split: sum.splits prod.splits option.splits if_splits dest!: v)
  show "Deny sha now w1 w2 input s = (r, s') \<Longrightarrow> {ri_RequestID input} \<times> {TypeRequestExpired, TypeRequestDenied} \<subseteq> T \<Longrightarrow>
     via T (sv_projection s) (sv_projection s')"
    using e via_expire [OF e, of T]
    by (auto simp: Deny_def split: sum.splits prod.splits option.splits if_splits dest!: v)
qed

lemma via_perform:
  assumes "perform sha env c s = (r, s')"
  shows "via (events_of env c) (sv_projection s) (sv_projection s')"
proof (cases c)
  case (CallSubmit input)
  with assms show ?thesis
    by (auto simp: Submit_def events_of_def Let_def split: if_splits sum.splits prod.splits
        dest!: via_append_apply intro: via_refl)
next
  case (CallExecute rid)
  let ?T = "events_of env c"
  obtain out s1 where b: "execute_begin sha (ce_now env) (ce_io1 env) (ce_io2 env) rid s = (out, s1)" by fastforce
  have v: "via ?T (sv_projection s) (sv_projection s1)"
    using via_execute_begin [OF b, of ?T] CallExecute by (auto simp: events_of_def)
  show ?thesis
  proof (cases out)
    case (Launch req)
    then have "execute_finish sha (ce_io3 env) rid (ce_executor env req) s1 = (r, s')"
      using assms CallExecute b by (simp add: Execute_def)
    from via_trans [OF via_execute_finish [OF this, of ?T] v] CallExecute show ?thesis by (simp add: events_of_def)
  qed (use v assms CallExecute b in \<open>simp add: Execute_def\<close>)
qed (use assms via_review [of sha "ce_now env" "ce_io1 env" "ce_io2 env"] in
      \<open>auto simp: events_of_def Status_def split: sum.splits prod.splits option.splits intro: via_refl via_expire\<close>)

lemma apply_existing_denied:
  "apply_existing e snap = Inr snap' \<Longrightarrow> snap_Status snap' = StatusDenied \<longleftrightarrow> ev_Type e = TypeRequestDenied"
  by (auto simp: apply_existing_def Let_def result_bind_eq_Inr split: if_splits)

lemma Apply_existing_cases:
  assumes "Apply e p = Inr p'" "ev_Type e \<noteq> TypeRequestCreated"
  obtains snap x where "gget p (ev_RequestID e) = Some snap" "apply_existing e snap = Inr x"
    "p' = gput (ev_RequestID e) (stamped e x) p"
proof -
  from assms obtain snap where g: "gget p (ev_RequestID e) = Some snap"
    by (cases "gget p (ev_RequestID e)") (simp_all add: Apply_def Let_def)
  with assms obtain x where x: "apply_existing e snap = Inr x"
    by (cases "apply_existing e snap") (simp_all add: Apply_def Let_def)
  with g assms Apply_existing_ok [OF g assms(2) x] show thesis by (intro that) auto
qed

lemma Apply_verdict:
  assumes "Apply a p = Inr p'" "gget p' rid = Some snap'" "snap_Status snap' \<in> {StatusApproved, StatusDenied}"
  shows "(\<exists>snap. gget p rid = Some snap \<and> snap_Status snap = snap_Status snap')
    \<or> (ev_RequestID a, ev_Type a) = (rid, if snap_Status snap' = StatusApproved then TypeRequestApproved else TypeRequestDenied)"
proof (cases "rid = ev_RequestID a")
  case False
  with Apply_other [OF assms(1)] assms(2) show ?thesis by simp
next
  case True
  show ?thesis
  proof (cases "ev_Type a = TypeRequestCreated")
    case created: True
    with assms True show ?thesis by (auto simp: Apply_def Let_def result_bind_eq_Inr split: if_splits)
  next
    case False
    obtain snap x where x: "apply_existing a snap = Inr x" "p' = gput (ev_RequestID a) (stamped a x) p"
      using assms(1) False by (rule Apply_existing_cases)
    then have s: "snap_Status snap' = snap_Status x" using assms(2) True by auto
    from apply_existing_step(4) [OF x(1)] apply_existing_denied [OF x(1)] assms(3) show ?thesis
      unfolding s using True by (cases "snap_Status x") simp_all
  qed
qed

lemma via_verdict:
  assumes "via T p p'" "gget p' rid = Some snap'" "snap_Status snap' \<in> {StatusApproved, StatusDenied}"
  shows "(\<exists>snap. gget p rid = Some snap \<and> snap_Status snap = snap_Status snap')
    \<or> (rid, if snap_Status snap' = StatusApproved then TypeRequestApproved else TypeRequestDenied) \<in> T"
  using assms
proof (induction arbitrary: snap' rule: via.induct)
  case (via_step p p' a p'')
  consider (before) x where "gget p' rid = Some x" "snap_Status x = snap_Status snap'"
    | (now) "(ev_RequestID a, ev_Type a) = (rid, if snap_Status snap' = StatusApproved then TypeRequestApproved else TypeRequestDenied)"
    using Apply_verdict [OF via_step.hyps(2) via_step.prems] by blast
  then show ?case
  proof cases
    case before
    with via_step.IH [of x] via_step.prems(2) show ?thesis by simp
  next
    case now
    with via_step.hyps(3) show ?thesis by simp
  qed
qed auto

section \<open>Properties\<close>

text \<open>
  C6 (reviews only on the review lane). Whatever a peer sends on whichever socket, and whatever the
  storage does: if a request that was not approved (denied) is approved (denied) after the
  connection was served, then the connection was on the review socket, the kernel reported an
  allowed user or group for the peer, and the message asked for exactly this verdict on this
  request.
\<close>

theorem verdicts_only_on_review_lane:
  assumes "dispatch sha env lane request peer srv = (r, srv')"
    and "Get (sv_projection (sr_service srv')) rid = Some snap'"
    and "verdict \<in> {StatusApproved, StatusDenied}" "snap_Status snap' = verdict"
    and "status_of (sv_projection (sr_service srv)) rid \<noteq> Some verdict"
  shows "lane = ''review'' \<and> (peer_UID peer \<in> sr_reviewUIDs srv \<or> peer_GID peer \<in> sr_reviewGIDs srv)
    \<and> wr_RequestID request = rid
    \<and> wr_Action request = (if verdict = StatusApproved then ActionReviewApprove else ActionReviewDeny)"
proof -
  let ?c = "route srv lane request peer"
  obtain s' where p: "perform sha env ?c (sr_service srv) = (r, s')" and s': "sr_service srv' = s'"
    using assms(1) by (auto simp: dispatch_def Let_def split: prod.splits)
  have "(rid, if verdict = StatusApproved then TypeRequestApproved else TypeRequestDenied) \<in> events_of env ?c"
    using via_verdict [OF via_perform [OF p], of rid snap'] assms(2-5) s' by (auto simp: Get_def status_of_def)
  then have "(\<exists>i. ?c = CallApprove i \<and> ri_RequestID i = rid \<and> verdict = StatusApproved)
      \<or> (\<exists>i. ?c = CallDeny i \<and> ri_RequestID i = rid \<and> verdict \<noteq> StatusApproved)"
    by (cases ?c) (auto simp: events_of_def split: if_splits)
  then show ?thesis
    by (auto simp: route_def rejected_def reviewAllowed_def Let_def split: if_splits)
qed

lemma Call_handleConn:
  assumes "utf8_wire_request q" and "dispatch sha env lane q peer srv = (r, srv')"
    and "case r of Inr resp \<Rightarrow> utf8_response resp | Inl err \<Rightarrow> valid_utf8 (errtext err)"
  shows "Call (Inr (\<lambda>sent. Inr (fst (handleConn sha errtext decodeErr env (peer, None) lane sent srv)))) q =
      Inr (case r of Inr resp \<Rightarrow> resp
           | Inl err \<Rightarrow> zero_response\<lparr>rs_RequestID := wr_RequestID q, rs_Status := ''error'', rs_Message := errtext err\<rparr>)"
    and "snd (handleConn sha errtext decodeErr env (peer, None) lane (Encode (json_of_wire_request q)) srv) = srv'"
proof -
  have q: "Option.bind (Decode (Encode (json_of_wire_request q)))
      (\<lambda>j. dec_struct wire_request_fields j zero_wire_request) = Some q"
    using dec_wire_request [OF assms(1)] canonical_wire_request [of q] Decode_Encode [of _ "[]"]
    by (simp add: canonical_def)
  have reply: "Option.bind (Decode (Encode (json_of_response x)))
      (\<lambda>j. dec_struct response_fields j zero_response) = Some x" if "utf8_response x" for x
    using dec_response [OF that] canonical_response [of x] Decode_Encode [of _ "[]"] by (simp add: canonical_def)
  have "valid_utf8 (wr_RequestID q)" using assms(1) by (simp add: utf8_wire_request_def)
  with assms(2,3) q reply
  show "Call (Inr (\<lambda>sent. Inr (fst (handleConn sha errtext decodeErr env (peer, None) lane sent srv)))) q =
      Inr (case r of Inr resp \<Rightarrow> resp
           | Inl err \<Rightarrow> zero_response\<lparr>rs_RequestID := wr_RequestID q, rs_Status := ''error'', rs_Message := errtext err\<rparr>)"
    by (cases r) (simp_all add: Call_def handleConn_def utf8_response_def zero_response_def byte_def Let_def)
  from assms(2) q
  show "snd (handleConn sha errtext decodeErr env (peer, None) lane (Encode (json_of_wire_request q)) srv) = srv'"
    by (cases r) (simp_all add: handleConn_def Let_def)
qed

text \<open>
  A call reaches the service. A client calling over either socket gets back exactly the answer
  of the service (an error of the service as an error response with its text), and the server's
  state is the one the service left; the only loss is that texts must be valid UTF-8.
\<close>

theorem call_reaches_service:
  assumes "utf8_wire_request q" and "dispatch sha env lane q peer srv = (r, srv')"
    and "case r of Inr resp \<Rightarrow> utf8_response resp | Inl err \<Rightarrow> valid_utf8 (errtext err)"
  shows "let serve = handleConn sha errtext decodeErr env (peer, None) lane in
    Call (Inr (\<lambda>sent. Inr (fst (serve sent srv)))) q =
      Inr (case r of Inr resp \<Rightarrow> resp
           | Inl err \<Rightarrow> zero_response\<lparr>rs_RequestID := wr_RequestID q, rs_Status := ''error'', rs_Message := errtext err\<rparr>)
    \<and> snd (serve (Encode (json_of_wire_request q)) srv) = srv'"
  unfolding Let_def using Call_handleConn [OF assms] by blast

text \<open>
  C32 (unidentified peers). When the peer's credentials cannot be read, the connection is served as
  if user 0 of group 0 had made it. On a server that allows root to review, such a peer's verdict
  is passed to the service.
\<close>

theorem unidentified_peer_is_root:
  "handleConn sha errtext decodeErr env (ident, Some err) lane received srv =
     handleConn sha errtext decodeErr env (\<lparr>peer_UID = 0, peer_GID = 0, peer_PID = 0, peer_Username = ''unknown''\<rparr>, None)
       lane received srv
   \<and> (\<forall>rid a code. 0 \<in> set uids \<longrightarrow>
        route (NewServer s p1 p2 uids gids) ''review''
          (zero_wire_request\<lparr>wr_Action := ActionReviewApprove, wr_RequestID := rid, wr_Approver := a, wr_ApprovalCode := code\<rparr>)
          \<lparr>peer_UID = 0, peer_GID = 0, peer_PID = 0, peer_Username = ''unknown''\<rparr>
        = CallApprove \<lparr>ri_RequestID = rid, ri_Approver = a, ri_ApprovalCode = code, ri_Reason = []\<rparr>)"
proof -
  have "fold insert uids {} = set uids" for uids :: "32 word list" by (simp add: union_set_fold [symmetric])
  then show ?thesis
    by (simp add: handleConn_def zero_peer_def route_def reviewAllowed_def NewServer_def zero_wire_request_def Let_def)
qed

definition opened :: "string \<Rightarrow> nat \<Rightarrow> os_call list" where
  "opened path mode = [MkdirAll (Dir path) 493, RemovePath path, ListenUnix path, Chmod path mode]"

text \<open>
  Starting the listeners. The start succeeds exactly when every call succeeds, and then each
  socket exists with its mode set after it was created: 0660 for requests, 0600 for reviews. When it
  fails, every listener that was opened has been closed again.
\<close>

theorem listeners_opened_or_closed:
  assumes "Run_listen os srv = (r, calls)"
  shows "(r = Inr () \<longrightarrow>
      calls = opened (sr_requestSocketPath srv) 432 @ opened (sr_reviewSocketPath srv) 384
      \<and> (\<forall>c \<in> set calls. (\<forall>p. c \<noteq> RemovePath p) \<longrightarrow> os c = None))
   \<and> (\<forall>err path. r = Inl err \<and> ListenUnix path \<in> set calls \<and> os (ListenUnix path) = None \<longrightarrow>
        CloseListener path \<in> set calls)"
proof -
  have ok: "calls = opened path mode \<and> (\<forall>c \<in> set calls. (\<forall>p. c \<noteq> RemovePath p) \<longrightarrow> os c = None)" if "listenSocket os path mode = (Inr u, calls)"
    for path mode u calls
    using that by (auto simp: listenSocket_def opened_def Let_def split: option.splits)
  have bad: "\<forall>q. ListenUnix q \<in> set calls \<and> os (ListenUnix q) = None \<longrightarrow> CloseListener q \<in> set calls"
    if "listenSocket os path mode = (Inl err, calls)" for path mode err calls
    using that by (auto simp: listenSocket_def Let_def split: option.splits)
  have only: "ListenUnix q \<in> set calls \<longrightarrow> q = path"
    if "listenSocket os path mode = (x, calls)" for path mode calls q and x :: "unit result"
    using that by (auto simp: listenSocket_def Let_def split: option.splits)
  let ?p = "sr_requestSocketPath srv" and ?q = "sr_reviewSocketPath srv"
  obtain r1 c1 where l1: "listenSocket os ?p 432 = (r1, c1)" by fastforce
  obtain r2 c2 where l2: "listenSocket os ?q 384 = (r2, c2)" by fastforce
  show ?thesis
  proof (cases r1)
    case (Inl err)
    then show ?thesis using assms l1 bad [of ?p 432 err c1] by (auto simp: Run_listen_def)
  next
    case r1: (Inr u)
    show ?thesis
    proof (cases r2)
      case (Inl err)
      then have "calls = c1 @ c2 @ [CloseListener ?p]" "r = Inl err" using assms l1 l2 r1 by (simp_all add: Run_listen_def)
      then show ?thesis using bad [of ?q 384 err c2] only [OF l1] l2 Inl by auto
    next
      case (Inr v)
      then have c: "calls = c1 @ c2" "r = Inr ()" using assms l1 l2 r1 by (simp_all add: Run_listen_def)
      show ?thesis using ok [of ?p 432 u c1] ok [of ?q 384 v c2] l1 l2 r1 Inr c by auto
    qed
  qed
qed

section \<open>A concrete server\<close>

definition sample_env :: call_env where
  "sample_env = \<lparr>ce_now = 2000, ce_rand = Some ''abc'', ce_nanos = 0, ce_io1 = sample_io FsOk, ce_io2 = sample_io FsOk,
     ce_io3 = sample_io FsOk, ce_executor = (\<lambda>_. (zero_result, None))\<rparr>"

definition sample_server :: "projection \<Rightarrow> server" where
  "sample_server p = NewServer (sample_service p) ''/run/q.sock'' ''/run/r.sock'' [0] []"

definition root_peer :: peer_identity where
  "root_peer = \<lparr>peer_UID = 0, peer_GID = 0, peer_PID = 9, peer_Username = ''root''\<rparr>"

definition sample_approve :: wire_request where
  "sample_approve = zero_wire_request\<lparr>wr_Action := ActionReviewApprove, wr_RequestID := ''req_1'',
     wr_Approver := \<lparr>actor_Kind = ''human'', actor_ID = ''bob''\<rparr>, wr_ApprovalCode := ''123456''\<rparr>"

lemma sample_route: "route (sample_server p) ''review'' sample_approve root_peer = CallApprove (sample_review ''req_1'')"
  by (simp add: route_def sample_approve_def sample_server_def NewServer_def reviewAllowed_def root_peer_def
      sample_review_def zero_wire_request_def Let_def)

theorem verdicts_only_on_review_lane_witness:
  "let srv = sample_server [(''req_1'', sample_snapshot StatusPending)] in
   \<exists>r srv' snap'. dispatch sample_sha sample_env ''review'' sample_approve root_peer srv = (r, srv')
     \<and> Get (sv_projection (sr_service srv')) ''req_1'' = Some snap' \<and> snap_Status snap' = StatusApproved
     \<and> peer_UID root_peer \<in> sr_reviewUIDs srv"
proof -
  let ?p = "[(''req_1'', sample_snapshot StatusPending)]"
  let ?s = "sample_service ?p" and ?w = "sample_io FsOk" and ?i = "sample_review ''req_1''" and ?srv = "sample_server ?p"
  have g: "Get (sv_projection ?s) ''req_1'' = Some (sample_snapshot StatusPending)" by (simp add: Get_def gget_def)
  obtain resp s' where a: "Approve sample_sha 2000 ?w ?w ?i ?s = (Inr resp, s')"
    and r: "reviewed 2000 (ri_Approver ?i) StatusApproved ''req_1'' ?s (Inr resp, s')"
    using Approve_healthy [of ?s ?w ?w ?i sample_sha 2000] by (auto simp: byte_def)
  have "review_status 2000 (ri_Approver ?i) StatusApproved (sample_snapshot StatusPending) = StatusApproved"
    using sample_validate by (simp add: review_status_def)
  with r g have "status_of (sv_projection s') ''req_1'' = Some StatusApproved" by (simp add: reviewed_def)
  then obtain snap' where s': "Get (sv_projection s') ''req_1'' = Some snap'" "snap_Status snap' = StatusApproved"
    by (auto simp: status_of_def Get_def)
  have sv: "sr_service ?srv = ?s" by (simp add: sample_server_def NewServer_def)
  have d: "dispatch sample_sha sample_env ''review'' sample_approve root_peer ?srv = (Inr resp, ?srv\<lparr>sr_service := s'\<rparr>)"
    using a by (simp add: dispatch_def sample_route sv sample_env_def)
  have n: "status_of (sv_projection (sr_service ?srv)) ''req_1'' \<noteq> Some StatusApproved"
    using g by (simp add: sv status_of_def Get_def)
  have "peer_UID root_peer \<in> sr_reviewUIDs ?srv \<or> peer_GID root_peer \<in> sr_reviewGIDs ?srv"
    using verdicts_only_on_review_lane [OF d _ _ _ n, of snap'] s' by simp
  then have "peer_UID root_peer \<in> sr_reviewUIDs ?srv" by (simp add: sample_server_def NewServer_def root_peer_def)
  with d s' show ?thesis by (auto simp: Let_def)
qed

theorem call_reaches_service_witness:
  "Call (Inr (\<lambda>sent. Inr (fst (handleConn sample_sha (\<lambda>_. []) (\<lambda>_. []) sample_env (root_peer, None) ''request'' sent
       (sample_server New))))) (zero_wire_request\<lparr>wr_Action := ActionRequestStatus, wr_RequestID := ''req_9''\<rparr>)
   = Inr (not_found ''req_9'')"
proof -
  let ?q = "zero_wire_request\<lparr>wr_Action := ActionRequestStatus, wr_RequestID := ''req_9''\<rparr>"
  have q: "utf8_wire_request ?q"
    by (simp add: utf8_wire_request_def zero_wire_request_def utf8_actor_def zero_actor_def byte_def)
  have d: "dispatch sample_sha sample_env ''request'' ?q root_peer (sample_server New) = (Inr (not_found ''req_9''), sample_server New)"
    by (simp add: dispatch_def route_def sample_server_def NewServer_def zero_wire_request_def Status_def
        expireIfNeededLocked_def Get_def New_def Let_def)
  have u: "utf8_response (not_found ''req_9'')" by (simp add: utf8_response_def not_found_def zero_response_def byte_def)
  from call_reaches_service [OF q d, where errtext = "\<lambda>_. []" and decodeErr = "\<lambda>_. []"] u
  show ?thesis by (simp add: Let_def)
qed

theorem unidentified_peer_is_root_witness:
  "(\<exists>i. route (NewServer (sample_service New) [] [] [0] []) ''review'' sample_approve
      \<lparr>peer_UID = 0, peer_GID = 0, peer_PID = 0, peer_Username = ''unknown''\<rparr> = CallApprove i)
   \<and> handleConn sample_sha (\<lambda>_. []) (\<lambda>_. []) sample_env (zero_peer, Some (ErrOs ''EBADF'')) ''review'' [] (sample_server New)
     = handleConn sample_sha (\<lambda>_. []) (\<lambda>_. []) sample_env
         (\<lparr>peer_UID = 0, peer_GID = 0, peer_PID = 0, peer_Username = ''unknown''\<rparr>, None) ''review'' [] (sample_server New)"
  using unidentified_peer_is_root [where uids = "[0]" and gids = "[]" and s = "sample_service New" and ?p1.0 = "[]" and ?p2.0 = "[]"
      and sha = sample_sha and errtext = "\<lambda>_. []" and decodeErr = "\<lambda>_. []" and env = sample_env and ident = zero_peer
      and err = "ErrOs ''EBADF''" and lane = "''review''" and received = "[]" and srv = "sample_server New"]
  by (auto simp: sample_approve_def)

theorem listeners_opened_or_closed_witness:
  "fst (Run_listen (\<lambda>_. None) (sample_server New)) = Inr ()
   \<and> snd (Run_listen (\<lambda>_. None) (sample_server New)) = opened ''/run/q.sock'' 432 @ opened ''/run/r.sock'' 384"
proof -
  have r: "Run_listen (\<lambda>_. None) (sample_server New) = (Inr (), snd (Run_listen (\<lambda>_. None) (sample_server New)))"
    by (simp add: Run_listen_def listenSocket_def Let_def)
  from listeners_opened_or_closed [OF r] r show ?thesis
    by (metis fst_conv sample_server_def NewServer_def server.select_convs(2,3))
qed

end
