(* ===== verification/Socket_System.thy ===== *)
theory Socket_System
  imports Socket
begin

text \<open>
  The broker behind its sockets: every call of the service enters through \<open>route\<close>, with the
  credentials the kernel gave for the connection. The set of connections served is recorded, and the
  invariant ties every submission and every approval the broker knows of to one of them. Together
  with the invariant of \<open>Broker_System\<close> this gives the end-to-end guarantee: what is launched was
  submitted on the request socket and approved on the review socket by an allowed peer.
\<close>

section \<open>Steps through the sockets\<close>

type_synonym connection = "string \<times> wire_request \<times> peer_identity"
type_synonym gate_sys = "sys \<times> connection set"

text \<open>The critical section of the broker that a routed call starts.\<close>

fun starts :: "service_call \<Rightarrow> action \<Rightarrow> bool" where
  "starts (CallSubmit i) (ASubmit _ _ _ _ i') \<longleftrightarrow> i' = i"
| "starts (CallStatus rid) (AStatus _ _ rid') \<longleftrightarrow> rid' = rid"
| "starts (CallExecute rid) (ABegin _ _ _ rid') \<longleftrightarrow> rid' = rid"
| "starts (CallApprove i) (AApprove _ _ _ i') \<longleftrightarrow> i' = i"
| "starts (CallDeny i) (ADeny _ _ _ i') \<longleftrightarrow> i' = i"
| "starts _ _ \<longleftrightarrow> False"

fun internal :: "action \<Rightarrow> bool" where
  "internal (AFinish _ _ _) \<longleftrightarrow> True"
| "internal ACrash \<longleftrightarrow> True"
| "internal (ARestart _ _ _ _) \<longleftrightarrow> True"
| "internal _ \<longleftrightarrow> False"

inductive gstep :: "(string \<Rightarrow> string) \<Rightarrow> server \<Rightarrow> gate_sys \<Rightarrow> action \<Rightarrow> gate_sys \<Rightarrow> bool" for sha srv where
  g_conn: "starts (route srv lane q peer) act \<Longrightarrow> step sha y act y' \<Longrightarrow>
     gstep sha srv (y, cs) act (y', insert (lane, q, peer) cs)"
| g_internal: "internal act \<Longrightarrow> step sha y act y' \<Longrightarrow> gstep sha srv (y, cs) act (y', cs)"

inductive_cases gstepE: "gstep sha srv (y, cs) act (y', cs')"

text \<open>Serving a connection on a running broker is such a step, whenever its texts can be stored.\<close>

lemma dispatch_is_step:
  assumes "perform sha env (route srv lane q peer) s = (r, s')" "sy_service y = Some s"
    and "utf8_wire_request q" "valid_utf8 (peer_Username peer)"
  shows "route srv lane q peer = CallApprove i \<Longrightarrow> \<exists>act y'. gstep sha srv (y, cs) act (y', insert (lane, q, peer) cs) \<and> sy_service y' = Some s'"
    and "route srv lane q peer = CallDeny i \<Longrightarrow> \<exists>act y'. gstep sha srv (y, cs) act (y', insert (lane, q, peer) cs) \<and> sy_service y' = Some s'"
    and "route srv lane q peer = CallStatus rid \<Longrightarrow> \<exists>act y'. gstep sha srv (y, cs) act (y', insert (lane, q, peer) cs) \<and> sy_service y' = Some s'"
proof -
  have t: "valid_utf8 (wr_RequestID q)" "utf8_actor (wr_Approver q)" using assms(3) by (simp_all add: utf8_wire_request_def)
  have w: "sy_service (with_service s' z) = Some s'" for z by (simp add: with_service_def)
  show "\<exists>act y'. gstep sha srv (y, cs) act (y', insert (lane, q, peer) cs) \<and> sy_service y' = Some s'"
    if c: "route srv lane q peer = CallApprove i"
  proof -
    have i: "ri_RequestID i = wr_RequestID q" "ri_Approver i = wr_Approver q"
      using c by (auto simp: route_def rejected_def Let_def split: if_splits)
    from assms(1) c have "Approve sha (ce_now env) (ce_io1 env) (ce_io2 env) i s = (r, s')" by simp
    from step.approve [OF assms(2) this] i t c show ?thesis
      by (metis g_conn starts.simps(4) w)
  qed
  show "\<exists>act y'. gstep sha srv (y, cs) act (y', insert (lane, q, peer) cs) \<and> sy_service y' = Some s'"
    if c: "route srv lane q peer = CallDeny i"
  proof -
    have i: "ri_RequestID i = wr_RequestID q" "ri_Approver i = wr_Approver q"
      using c by (auto simp: route_def rejected_def Let_def split: if_splits)
    from assms(1) c have "Deny sha (ce_now env) (ce_io1 env) (ce_io2 env) i s = (r, s')" by simp
    from step.deny [OF assms(2) this] i t c show ?thesis
      by (metis g_conn starts.simps(5) w)
  qed
  show "\<exists>act y'. gstep sha srv (y, cs) act (y', insert (lane, q, peer) cs) \<and> sy_service y' = Some s'"
    if c: "route srv lane q peer = CallStatus rid"
  proof -
    have i: "rid = wr_RequestID q" using c by (auto simp: route_def rejected_def Let_def split: if_splits)
    from assms(1) c have "Status sha (ce_now env) (ce_io1 env) rid s = (r, s')" by simp
    from step.status [OF assms(2) this] i t c show ?thesis
      by (metis g_conn starts.simps(2) w)
  qed
qed

section \<open>Provenance of submissions and approvals\<close>

definition submitted_by :: "connection \<Rightarrow> request \<Rightarrow> bool" where
  "submitted_by c r \<longleftrightarrow> (case c of (lane, q, peer) \<Rightarrow> lane = ''request'' \<and> wr_Action q = ActionRequestSubmit
     \<and> req_Requester r = peer \<and> req_Argv r = wr_Argv q \<and> req_Reason r = wr_Reason q
     \<and> req_Spec r = BuildExecutionSpec (wr_Argv q) (wr_Cwd q))"

definition approved_by :: "server \<Rightarrow> connection \<Rightarrow> string \<Rightarrow> actor \<Rightarrow> bool" where
  "approved_by srv c rid a \<longleftrightarrow> (case c of (lane, q, peer) \<Rightarrow> lane = ''review'' \<and> wr_Action q = ActionReviewApprove
     \<and> (peer_UID peer \<in> sr_reviewUIDs srv \<or> peer_GID peer \<in> sr_reviewGIDs srv)
     \<and> wr_RequestID q = rid \<and> wr_Approver q = a)"

definition gate_inv :: "(string \<Rightarrow> string) \<Rightarrow> server \<Rightarrow> gate_sys \<Rightarrow> bool" where
  "gate_inv sha srv g \<longleftrightarrow> sys_inv sha (fst g)
     \<and> (\<forall>(rid, r) \<in> sy_submitted (fst g). \<exists>c \<in> snd g. submitted_by c r)
     \<and> (\<forall>(rid, a) \<in> sy_reviews (fst g). \<exists>c \<in> snd g. approved_by srv c rid a)"

lemma route_submit: "route srv lane q peer = CallSubmit i \<Longrightarrow>
  submitted_by (lane, q, peer) (snd (submission sha now rand nanos i s))"
  by (auto simp: route_def rejected_def submitted_by_def submission_def build_request_def default_mode_def Let_def
      split: if_splits)

lemma route_approve: "route srv lane q peer = CallApprove i \<Longrightarrow>
  approved_by srv (lane, q, peer) (ri_RequestID i) (ri_Approver i)"
  by (auto simp: route_def rejected_def approved_by_def reviewAllowed_def Let_def split: if_splits)

lemma starts_iff:
  "starts c (ASubmit t r n w i) \<longleftrightarrow> c = CallSubmit i" "starts c (AApprove t w w' j) \<longleftrightarrow> c = CallApprove j"
  by (cases c; auto)+

lemma with_service_ghosts [simp]:
  "sy_submitted (with_service s y) = sy_submitted y" "sy_reviews (with_service s y) = sy_reviews y"
  by (simp_all add: with_service_def)

text \<open>What one step adds to the records of submissions and approvals.\<close>

lemma step_ghosts:
  assumes "step sha y act y'"
  shows "(rid, r) \<in> sy_submitted y' \<Longrightarrow> (rid, r) \<in> sy_submitted y
      \<or> (\<exists>s now rand nanos w i. act = ASubmit now rand nanos w i \<and> (rid, r) = submission sha now rand nanos i s)"
    and "(rid, a) \<in> sy_reviews y' \<Longrightarrow> (rid, a) \<in> sy_reviews y
      \<or> (\<exists>now w1 w2 i. act = AApprove now w1 w2 i \<and> rid = ri_RequestID i \<and> a = ri_Approver i)"
  using assms by (cases; auto)+

lemma gate_inv_step:
  assumes "gate_inv sha srv g" "gstep sha srv g act g'"
  shows "gate_inv sha srv g'"
  using assms(2)
proof cases
  case (g_conn lane q peer y y' cs)
  have "\<exists>c \<in> snd g'. submitted_by c r" if "(rid, r) \<in> sy_submitted y'" for rid r
    using step_ghosts(1) [OF g_conn(4) that] assms(1) g_conn route_submit [of srv lane q peer _ sha]
    by (auto simp: gate_inv_def starts_iff) (metis snd_conv)
  moreover have "\<exists>c \<in> snd g'. approved_by srv c rid a" if "(rid, a) \<in> sy_reviews y'" for rid a
    using step_ghosts(2) [OF g_conn(4) that] assms(1) g_conn route_approve [of srv lane q peer]
    by (fastforce simp: gate_inv_def starts_iff)
  ultimately show ?thesis
    using assms(1) g_conn sys_inv_step [OF _ g_conn(4)] by (auto simp: gate_inv_def)
next
  case (g_internal y y' cs)
  have "sy_submitted y' \<subseteq> sy_submitted y" using step_ghosts(1) [OF g_internal(4)] g_internal(3) by fastforce
  moreover have "sy_reviews y' \<subseteq> sy_reviews y" using step_ghosts(2) [OF g_internal(4)] g_internal(3) by fastforce
  ultimately show ?thesis
    using assms(1) g_internal sys_inv_step [OF _ g_internal(4)] by (fastforce simp: gate_inv_def)
qed

interpretation gs: machine "\<lambda>g. g = (fresh_sys, {})" "gstep sha srv" "gate_inv sha srv" for sha srv
proof
  show "g = (fresh_sys, {}) \<Longrightarrow> gate_inv sha srv g" for g
    using sys_inv_fresh by (simp add: gate_inv_def fresh_sys_def)
  show "gate_inv sha srv g \<Longrightarrow> gstep sha srv g i t \<Longrightarrow> gate_inv sha srv t" for g i t by (rule gate_inv_step)
qed

section \<open>The end-to-end property\<close>

text \<open>
  C3 (end to end). In every run of the broker behind its sockets from an empty log, with all
  interleavings, file failures, crashes and restarts: if a request was launched, then it was
  submitted by a connection on the request socket whose kernel credentials are the requester on
  record and whose message carried exactly this argv and directory; and it was approved by a
  connection on the review socket whose peer's user or group is on the allow list, naming an
  approver that is not the requester.
\<close>

theorem launches_cross_both_sockets:
  assumes "run (gstep sha srv) (fresh_sys, {}) acts (y, cs)" and "(rid, req) \<in> set (sy_launches y)"
  shows "(\<exists>q peer. (''request'', q, peer) \<in> cs \<and> wr_Action q = ActionRequestSubmit
       \<and> req_Requester req = peer \<and> req_Argv req = wr_Argv q \<and> req_Spec req = BuildExecutionSpec (wr_Argv q) (wr_Cwd q))
    \<and> (\<exists>q peer. (''review'', q, peer) \<in> cs \<and> wr_Action q = ActionReviewApprove \<and> wr_RequestID q = rid
       \<and> (peer_UID peer \<in> sr_reviewUIDs srv \<or> peer_GID peer \<in> sr_reviewGIDs srv)
       \<and> validateApprover (wr_Approver q) (req_Requester req) = None)"
proof -
  have inv: "gate_inv sha srv (y, cs)" using gs.inv_run [OF refl assms(1)] .
  then have "(rid, req) \<in> sy_submitted y" and "authorised (sy_reviews y) rid req"
    using assms(2) by (auto simp: gate_inv_def sys_inv_def)
  then obtain a c c' where "c \<in> cs" "submitted_by c req" "c' \<in> cs" "approved_by srv c' rid a"
    "validateApprover a (req_Requester req) = None"
    using inv by (fastforce simp: gate_inv_def authorised_def)
  then show ?thesis by (auto simp: submitted_by_def approved_by_def)
qed

text \<open>A run of the broker lifts to the sockets when every action has a connection behind it.\<close>

lemma run_lift:
  "run (step sha) y acts y' \<Longrightarrow>
   (\<And>act. act \<in> set acts \<Longrightarrow> internal act \<or> (\<exists>lane q peer. starts (route srv lane q peer) act)) \<Longrightarrow>
   \<exists>cs'. run (gstep sha srv) (y, cs) acts (y', cs')"
proof (induction rule: run.induct)
  case (run_nil s)
  show ?case by (intro exI [of _ cs] run.run_nil)
next
  case (run_snoc s as t i u)
  then obtain cs' where r: "run (gstep sha srv) (s, cs) as (t, cs')" by auto
  have "\<exists>cs''. gstep sha srv (t, cs') i (u, cs'')"
  proof (cases "internal i")
    case True
    with g_internal [OF _ run_snoc.hyps(2)] show ?thesis by blast
  next
    case False
    with run_snoc.prems [of i] obtain lane q peer where "starts (route srv lane q peer) i" by auto
    from g_conn [OF this run_snoc.hyps(2)] show ?thesis by blast
  qed
  with run.run_snoc [OF r] show ?case by blast
qed

definition sample_submit :: wire_request where
  "sample_submit = zero_wire_request\<lparr>wr_Action := ActionRequestSubmit, wr_Argv := [''id'', ''-u''],
     wr_Reason := ''audit'', wr_Cwd := ''/srv''\<rparr>"

lemma sample_acts_start:
  assumes "act \<in> set sample_acts"
  shows "internal act \<or> (\<exists>lane q peer. starts (route (sample_server New) lane q peer) act)"
proof -
  have 1: "route (sample_server New) ''request'' sample_submit (si_Requester sample_input) = CallSubmit sample_input"
    by (simp add: route_def sample_submit_def zero_wire_request_def sample_input_def Let_def)
  have 2: "route (sample_server New) ''review'' (sample_approve\<lparr>wr_RequestID := rid\<rparr>) root_peer = CallApprove (sample_review rid)" for rid
    by (simp add: route_def sample_approve_def sample_server_def NewServer_def reviewAllowed_def root_peer_def
      sample_review_def zero_wire_request_def Let_def)
  have 3: "route (sample_server New) ''request'' (zero_wire_request\<lparr>wr_Action := ActionRequestExecute, wr_RequestID := rid\<rparr>) root_peer
      = CallExecute rid" for rid
    by (simp add: route_def zero_wire_request_def Let_def)
  from assms show ?thesis unfolding sample_acts_def
    using 1 2 [of sample_rid] 3 [of sample_rid] by (auto; metis starts.simps)
qed

theorem launches_cross_both_sockets_witness:
  "\<exists>y cs q peer. run (gstep sample_sha (sample_server New)) (fresh_sys, {}) sample_acts (y, cs)
     \<and> (sample_rid, sample_request sample_rid) \<in> set (sy_launches y)
     \<and> (''review'', q, peer) \<in> cs \<and> wr_Action q = ActionReviewApprove \<and> wr_RequestID q = sample_rid"
proof -
  obtain y where y: "run (step sample_sha) fresh_sys sample_acts y" "sy_launches y = [(sample_rid, sample_request sample_rid)]"
    using sample_run by blast
  obtain cs where r: "run (gstep sample_sha (sample_server New)) (fresh_sys, {}) sample_acts (y, cs)"
    using run_lift [OF y(1) sample_acts_start] by blast
  moreover have l: "(sample_rid, sample_request sample_rid) \<in> set (sy_launches y)" using y(2) by simp
  ultimately show ?thesis using launches_cross_both_sockets [OF r l] by blast
qed

end
