(* ===== verification/Socket_Run.thy ===== *)
theory Socket_Run
  imports Socket_System
begin

text \<open>
  \<open>Server.Run\<close> after its listeners are open: two accept loops, one goroutine per connection, and the
  main goroutine that waits for the cancellation of its context, closes the listeners and waits for
  the loops. An action is one turn of one of these goroutines; a run is any interleaving. A
  connection is served in one turn, but an execution may take two, one for each critical section of
  \<open>Execute\<close>, with the command running between them.
\<close>

section \<open>Goroutines of the server\<close>

text \<open>A connection as accepted: its lane, what the kernel says of the peer, and what the peer sends.\<close>

record accepted =
  cn_lane :: string
  cn_ident :: "peer_identity \<times> go_error option"
  cn_received :: string

text \<open>Where the main goroutine stands: at \<open>ctx.Done\<close>, between the two closes, at \<open>wg.Wait\<close>, or returned.\<close>

datatype run_main = AwaitDone | CloseReview | AwaitLoops | RunReturned

definition conn_peer :: "accepted \<Rightarrow> peer_identity" where
  "conn_peer c = (case snd (cn_ident c) of None \<Rightarrow> fst (cn_ident c) | Some _ \<Rightarrow> zero_peer\<lparr>peer_Username := ''unknown''\<rparr>)"

text \<open>The call of the service a connection asks for, if its bytes decode.\<close>

definition conn_call :: "server \<Rightarrow> accepted \<Rightarrow> service_call option" where
  "conn_call srv c =
     map_option (\<lambda>q. route srv (cn_lane c) q (conn_peer c))
       (Option.bind (Decode (cn_received c)) (\<lambda>j. dec_struct wire_request_fields j zero_wire_request))"

text \<open>\<open>ru_running\<close> holds the commands started by connections that are still being served.\<close>

record run_state =
  ru_server :: server
  ru_cancelled :: bool
  ru_main :: run_main
  ru_listening :: "string set"
  ru_serving :: "string set"
  ru_conns :: "accepted list"
  ru_running :: "(string \<times> request) list"

definition lanes :: "string set" where
  "lanes = {''request'', ''review''}"

definition Run_start :: "server \<Rightarrow> run_state" where
  "Run_start srv = \<lparr>ru_server = srv, ru_cancelled = False, ru_main = AwaitDone, ru_listening = lanes,
     ru_serving = lanes, ru_conns = [], ru_running = []\<rparr>"

text \<open>
  One iteration of the loop of \<open>serve\<close>, with the error or the connection \<open>AcceptUnix\<close> returned: after
  an error the loop returns if the context is done, and tries again otherwise.
\<close>

definition serve_iteration :: "string \<Rightarrow> accepted option \<Rightarrow> run_state \<Rightarrow> run_state" where
  "serve_iteration lane conn y =
     (case conn of
        None \<Rightarrow> (if ru_cancelled y then y\<lparr>ru_serving := ru_serving y - {lane}\<rparr> else y)
      | Some c \<Rightarrow> y\<lparr>ru_conns := ru_conns y @ [c]\<rparr>)"

text \<open>The next statement of the main goroutine, if it is not blocked.\<close>

definition main_turn :: "run_state \<Rightarrow> run_state option" where
  "main_turn y =
     (case ru_main y of
        AwaitDone \<Rightarrow> (if ru_cancelled y then Some (y\<lparr>ru_listening := ru_listening y - {''request''}, ru_main := CloseReview\<rparr>) else None)
      | CloseReview \<Rightarrow> Some (y\<lparr>ru_listening := ru_listening y - {''review''}, ru_main := AwaitLoops\<rparr>)
      | AwaitLoops \<Rightarrow> (if ru_serving y = {} then Some (y\<lparr>ru_main := RunReturned\<rparr>) else None)
      | RunReturned \<Rightarrow> None)"

definition without :: "nat \<Rightarrow> 'a list \<Rightarrow> 'a list" where
  "without i xs = take i xs @ drop (Suc i) xs"

text \<open>The two turns of an execution: its first critical section, and the second when the command has ended.\<close>

definition launch_turn :: "(string \<Rightarrow> string) \<Rightarrow> nat \<Rightarrow> call_env \<Rightarrow> run_state \<Rightarrow> run_state option" where
  "launch_turn sha i env y =
     (case conn_call (ru_server y) (ru_conns y ! i) of
        Some (CallExecute rid) \<Rightarrow>
          (case execute_begin sha (ce_now env) (ce_io1 env) (ce_io2 env) rid (sr_service (ru_server y)) of
             (Launch q, s) \<Rightarrow> Some (y\<lparr>ru_server := (ru_server y)\<lparr>sr_service := s\<rparr>, ru_conns := without i (ru_conns y),
                                      ru_running := ru_running y @ [(rid, q)]\<rparr>)
           | _ \<Rightarrow> None)
      | _ \<Rightarrow> None)"

definition finish_turn :: "(string \<Rightarrow> string) \<Rightarrow> nat \<Rightarrow> call_env \<Rightarrow> run_state \<Rightarrow> run_state" where
  "finish_turn sha i env y =
     (let (rid, q) = ru_running y ! i;
          s = snd (execute_finish sha (ce_io3 env) rid (ce_executor env q) (sr_service (ru_server y)))
      in y\<lparr>ru_server := (ru_server y)\<lparr>sr_service := s\<rparr>, ru_running := without i (ru_running y)\<rparr>)"

datatype run_act =
    TurnAccept string "accepted option"
  | TurnServe nat call_env
  | TurnLaunch nat call_env
  | TurnFinish nat call_env
  | TurnMain
  | TurnCancel

text \<open>
  The turn an action stands for, \<open>None\<close> if it cannot be taken. \<open>AcceptUnix\<close> on a closed listener
  returns an error; on an open one it may return either.
\<close>

definition run_turn ::
    "(string \<Rightarrow> string) \<Rightarrow> (go_error \<Rightarrow> string) \<Rightarrow> (string \<Rightarrow> string) \<Rightarrow> run_state \<Rightarrow> run_act \<Rightarrow> run_state option" where
  "run_turn sha errtext decodeErr y act =
     (case act of
        TurnAccept lane conn \<Rightarrow>
          (if lane \<in> ru_serving y \<and> (\<forall>c \<in> set_option conn. lane \<in> ru_listening y \<and> cn_lane c = lane)
           then Some (serve_iteration lane conn y) else None)
      | TurnServe i env \<Rightarrow>
          (if i < length (ru_conns y) then
             let c = ru_conns y ! i;
                 srv = snd (handleConn sha errtext decodeErr env (cn_ident c) (cn_lane c) (cn_received c) (ru_server y))
             in Some (y\<lparr>ru_server := srv, ru_conns := without i (ru_conns y)\<rparr>)
           else None)
      | TurnLaunch i env \<Rightarrow> (if i < length (ru_conns y) then launch_turn sha i env y else None)
      | TurnFinish i env \<Rightarrow> (if i < length (ru_running y) then Some (finish_turn sha i env y) else None)
      | TurnMain \<Rightarrow> main_turn y
      | TurnCancel \<Rightarrow> Some (y\<lparr>ru_cancelled := True\<rparr>))"

lemma execution_turns:
  "launch_turn sha i env y = Some y' \<Longrightarrow> ru_cancelled y' = ru_cancelled y \<and> ru_main y' = ru_main y
     \<and> ru_listening y' = ru_listening y \<and> ru_serving y' = ru_serving y"
  "ru_cancelled (finish_turn sha i env y) = ru_cancelled y" "ru_main (finish_turn sha i env y) = ru_main y"
  "ru_listening (finish_turn sha i env y) = ru_listening y" "ru_serving (finish_turn sha i env y) = ru_serving y"
  by (auto simp: launch_turn_def finish_turn_def Let_def
      split: option.splits service_call.splits prod.splits begin_outcome.splits)

text \<open>The two turns of an execution, taken one after the other, are the turn that serves the connection.\<close>

lemma launch_then_finish:
  assumes "run_turn sha errtext decodeErr y (TurnLaunch i env) = Some y'"
  shows "run_turn sha errtext decodeErr y' (TurnFinish (length (ru_running y)) env) = run_turn sha errtext decodeErr y (TurnServe i env)"
proof -
  let ?c = "ru_conns y ! i"
  obtain rid q s where i: "i < length (ru_conns y)" and c: "conn_call (ru_server y) ?c = Some (CallExecute rid)"
    and b: "execute_begin sha (ce_now env) (ce_io1 env) (ce_io2 env) rid (sr_service (ru_server y)) = (Launch q, s)"
    and y': "y' = y\<lparr>ru_server := (ru_server y)\<lparr>sr_service := s\<rparr>, ru_conns := without i (ru_conns y), ru_running := ru_running y @ [(rid, q)]\<rparr>"
    using assms by (auto simp: run_turn_def launch_turn_def split: if_splits option.splits service_call.splits prod.splits begin_outcome.splits)
  from c obtain m where m: "Option.bind (Decode (cn_received ?c)) (\<lambda>j. dec_struct wire_request_fields j zero_wire_request) = Some m"
    "route (ru_server y) (cn_lane ?c) m (conn_peer ?c) = CallExecute rid"
    by (auto simp: conn_call_def)
  let ?s = "snd (execute_finish sha (ce_io3 env) rid (ce_executor env q) s)"
  have "snd (handleConn sha errtext decodeErr env (cn_ident ?c) (cn_lane ?c) (cn_received ?c) (ru_server y)) = (ru_server y)\<lparr>sr_service := ?s\<rparr>"
    using m b by (simp add: handleConn_def conn_peer_def dispatch_def Execute_def split: prod.splits sum.splits)
  then show ?thesis using i by (simp add: run_turn_def finish_turn_def y' without_def Let_def)
qed

abbreviation turns :: "(string \<Rightarrow> string) \<Rightarrow> (go_error \<Rightarrow> string) \<Rightarrow> (string \<Rightarrow> string) \<Rightarrow> run_state \<Rightarrow> run_act \<Rightarrow> run_state \<Rightarrow> bool" where
  "turns sha errtext decodeErr y act y' \<equiv> run_turn sha errtext decodeErr y act = Some y'"

section \<open>The invariant\<close>

fun main_listening :: "run_main \<Rightarrow> string set" where
  "main_listening AwaitDone = lanes"
| "main_listening CloseReview = {''review''}"
| "main_listening _ = {}"

lemma lanes_minus: "lanes - {''request''} = {''review''}" "lanes - {''review''} = {''request''}"
  by (auto simp: lanes_def)

definition run_inv :: "run_state \<Rightarrow> bool" where
  "run_inv y \<longleftrightarrow> ru_listening y = main_listening (ru_main y) \<and> ru_serving y \<subseteq> lanes
     \<and> (ru_main y \<noteq> AwaitDone \<or> ru_serving y \<noteq> lanes \<longrightarrow> ru_cancelled y)
     \<and> (ru_main y = RunReturned \<longrightarrow> ru_serving y = {})"

lemma run_inv_start: "run_inv (Run_start srv)"
  by (simp add: run_inv_def Run_start_def)

lemma run_inv_turn:
  assumes "run_inv y" and "turns sha errtext decodeErr y act y'"
  shows "run_inv y'"
proof (cases act)
  case (TurnAccept lane conn)
  with assms(2) have l: "lane \<in> ru_serving y" and y': "y' = serve_iteration lane conn y"
    by (simp_all add: run_turn_def split: if_splits)
  show ?thesis
  proof (cases conn)
    case None
    with assms(1) show ?thesis unfolding y' by (auto simp: serve_iteration_def run_inv_def)
  next
    case (Some c)
    with assms(1) show ?thesis unfolding y' by (simp add: serve_iteration_def run_inv_def)
  qed
next
  case TurnMain
  with assms(2) have "main_turn y = Some y'" by (simp add: run_turn_def)
  with assms(1) show ?thesis
    by (cases "ru_main y") (simp_all add: main_turn_def run_inv_def lanes_minus split: if_splits, force+)
next
  case (TurnLaunch i env)
  with assms(2) have "launch_turn sha i env y = Some y'" by (simp add: run_turn_def split: if_splits)
  from execution_turns(1) [OF this] assms(1) show ?thesis by (simp add: run_inv_def)
next
  case (TurnFinish i env)
  with assms show ?thesis by (auto simp: run_turn_def run_inv_def execution_turns split: if_splits)
qed (use assms in \<open>auto simp: run_turn_def run_inv_def Let_def split: if_splits\<close>)

interpretation ru: machine "\<lambda>y. \<exists>srv. y = Run_start srv" "turns sha errtext decodeErr" run_inv for sha errtext decodeErr
  by unfold_locales (auto intro: run_inv_start run_inv_turn)

section \<open>Shutdown\<close>

text \<open>The turns that bring the shutdown forward, and what is left of it.\<close>

fun winds_down :: "run_act \<Rightarrow> bool" where
  "winds_down (TurnAccept _ conn) \<longleftrightarrow> conn = None"
| "winds_down TurnMain \<longleftrightarrow> True"
| "winds_down _ \<longleftrightarrow> False"

fun main_left :: "run_main \<Rightarrow> nat" where
  "main_left AwaitDone = 3"
| "main_left CloseReview = 2"
| "main_left AwaitLoops = 1"
| "main_left RunReturned = 0"

definition turns_left :: "run_state \<Rightarrow> nat" where
  "turns_left y = main_left (ru_main y) + card (ru_serving y)"

lemma run_inv_finite: "run_inv y \<Longrightarrow> finite (ru_serving y)"
  by (auto simp: run_inv_def lanes_def intro: finite_subset)

lemma turns_left_le: "run_inv y \<Longrightarrow> turns_left y \<le> 5"
proof -
  assume "run_inv y"
  then have "card (ru_serving y) \<le> card lanes" by (intro card_mono) (auto simp: run_inv_def lanes_def)
  moreover have "main_left (ru_main y) \<le> 3" by (cases "ru_main y") simp_all
  ultimately show ?thesis by (simp add: turns_left_def lanes_def)
qed

lemma cancelled_turn: "turns sha errtext decodeErr y act y' \<Longrightarrow> ru_cancelled y \<Longrightarrow> ru_cancelled y'"
  by (cases act) (auto simp: run_turn_def serve_iteration_def main_turn_def execution_turns Let_def
      split: if_splits option.splits run_main.splits dest: execution_turns(1))

lemma turn_spends:
  assumes "run_inv y" "ru_cancelled y" "turns sha errtext decodeErr y act y'"
  shows "turns_left y' + (if winds_down act then 1 else 0) \<le> turns_left y"
proof (cases act)
  case (TurnAccept lane conn)
  show ?thesis
  proof (cases conn)
    case None
    with TurnAccept assms(2,3) have "lane \<in> ru_serving y" "y' = y\<lparr>ru_serving := ru_serving y - {lane}\<rparr>"
      by (auto simp: run_turn_def serve_iteration_def split: if_splits)
    then show ?thesis
      using TurnAccept run_inv_finite [OF assms(1)] card_Suc_Diff1 [of "ru_serving y" lane] by (simp add: turns_left_def)
  qed (use TurnAccept assms in \<open>auto simp: run_turn_def serve_iteration_def turns_left_def split: if_splits\<close>)
next
  case TurnMain
  with assms show ?thesis
    by (auto simp: run_turn_def main_turn_def turns_left_def split: if_splits run_main.splits)
qed (use assms in \<open>auto simp: run_turn_def turns_left_def execution_turns Let_def split: if_splits dest: execution_turns(1)\<close>)

lemma run_spends:
  assumes "run (turns sha errtext decodeErr) y acts y'" "run_inv y" "ru_cancelled y"
  shows "turns_left y' + length (filter winds_down acts) \<le> turns_left y \<and> run_inv y' \<and> ru_cancelled y'"
  using assms
proof (induction rule: run.induct)
  case (run_snoc s "is" t i u)
  with turn_spends [of t sha errtext decodeErr i u] run_inv_turn [of t sha errtext decodeErr i u]
    cancelled_turn [of sha errtext decodeErr t i u] show ?case by (auto split: if_splits)
qed simp

text \<open>A cancelled server that has not returned is never stuck.\<close>

lemma winds_down_enabled:
  assumes "ru_cancelled y" "ru_main y \<noteq> RunReturned"
  shows "\<exists>act y'. winds_down act \<and> turns sha errtext decodeErr y act y'"
proof (cases "ru_main y = AwaitLoops \<and> ru_serving y \<noteq> {}")
  case True
  then obtain lane where "lane \<in> ru_serving y" by blast
  then have "turns sha errtext decodeErr y (TurnAccept lane None) (serve_iteration lane None y)" by (simp add: run_turn_def)
  then show ?thesis by (intro exI [of _ "TurnAccept lane None"]) auto
next
  case False
  then have "main_turn y \<noteq> None" using assms by (cases "ru_main y") (auto simp: main_turn_def)
  then show ?thesis by (intro exI [of _ TurnMain]) (auto simp: run_turn_def)
qed

text \<open>
  C16 (\<open>Run\<close> returns when it is told to, and only then). Once the context is cancelled, at most five
  turns of the main goroutine and of failing accepts remain, however they interleave with new
  connections and with the serving of old ones, and until \<open>Run\<close> has returned one of them can be
  taken: the server shuts down in every schedule that does not starve it. Without a cancellation
  \<open>Run\<close> does not return, whatever errors accepting gives. When it has returned both sockets are closed
  and both loops have ended.
\<close>

theorem shutdown_terminates:
  assumes "run (turns sha errtext decodeErr) (Run_start srv) acts y" "run (turns sha errtext decodeErr) y acts' y'"
  shows "(ru_cancelled y \<longrightarrow> length (filter winds_down acts') \<le> 5
       \<and> (ru_main y' \<noteq> RunReturned \<longrightarrow> (\<exists>act y''. winds_down act \<and> run_turn sha errtext decodeErr y' act = Some y'')))
    \<and> (ru_main y' = RunReturned \<longrightarrow> ru_cancelled y' \<and> ru_listening y' = {} \<and> ru_serving y' = {})"
proof -
  have inv: "run_inv y" "run_inv y'"
    using ru.inv_run [OF exI assms(1), of srv] ru.inv_run [OF exI run_trans [OF assms(2,1)], of srv] by simp_all
  have "length (filter winds_down acts') \<le> 5 \<and> ru_cancelled y'" if "ru_cancelled y"
    using run_spends [OF assms(2) inv(1) that] turns_left_le [OF inv(1)] by linarith
  with winds_down_enabled [of y' sha errtext decodeErr] inv(2) show ?thesis by (auto simp: run_inv_def)
qed

text \<open>What a server does when it is told to stop and nobody connects any more.\<close>

lemma stops:
  assumes "ru_main y = AwaitDone" "ru_listening y = lanes" "ru_serving y = lanes"
  shows "\<exists>acts. run (turns sha errtext decodeErr) y acts
    (y\<lparr>ru_cancelled := True, ru_listening := {}, ru_serving := {}, ru_main := RunReturned\<rparr>)"
proof -
  let ?t = "run_turn sha errtext decodeErr"
  let ?y1 = "y\<lparr>ru_cancelled := True\<rparr>"
  let ?y2 = "?y1\<lparr>ru_listening := {''review''}, ru_main := CloseReview\<rparr>"
  let ?y3 = "?y2\<lparr>ru_listening := {}, ru_main := AwaitLoops\<rparr>"
  let ?y4 = "?y3\<lparr>ru_serving := {''review''}\<rparr>"
  let ?y5 = "?y4\<lparr>ru_serving := {}\<rparr>"
  let ?y6 = "?y5\<lparr>ru_main := RunReturned\<rparr>"
  have "?t y TurnCancel = Some ?y1" by (simp add: run_turn_def)
  moreover have "?t ?y1 TurnMain = Some ?y2" using assms by (simp add: run_turn_def main_turn_def lanes_def)
  moreover have "?t ?y2 TurnMain = Some ?y3" by (simp add: run_turn_def main_turn_def)
  moreover have "?t ?y3 (TurnAccept ''request'' None) = Some ?y4" using assms by (simp add: run_turn_def serve_iteration_def lanes_def)
  moreover have "?t ?y4 (TurnAccept ''review'' None) = Some ?y5" by (simp add: run_turn_def serve_iteration_def)
  moreover have "?t ?y5 TurnMain = Some ?y6" by (simp add: run_turn_def main_turn_def)
  ultimately have "\<exists>acts. run (turns sha errtext decodeErr) y acts ?y6" by (meson run_Cons run_nil)
  moreover have "?y6 = y\<lparr>ru_cancelled := True, ru_listening := {}, ru_serving := {}, ru_main := RunReturned\<rparr>" by simp
  ultimately show ?thesis by simp
qed

text \<open>
  C38 (executions that outlive the server). The wait group counts the accept loops only. So for every
  connection that asks to execute an approved request, with working storage, there is a run in which
  the command is launched and recorded as executing, and then the server shuts down and \<open>Run\<close>
  returns while the command is still running: its process ends under it, the result is lost, and
  the next start can only mark the request as failed.
\<close>

theorem shutdown_abandons_execution:
  assumes "cn_lane c \<in> lanes" "conn_call srv c = Some (CallExecute rid)"
    and "Get (sv_projection (sr_service srv)) rid = Some snap" "snap_Status snap = StatusApproved"
    and "valid_utf8 (lg_lastHash (sv_log (sr_service srv)))" "healthy (ce_io2 (env :: call_env))" "valid_utf8 rid"
  shows "\<exists>acts y. run (turns sha errtext decodeErr) (Run_start srv) acts y \<and> ru_main y = RunReturned
    \<and> ru_running y = [(rid, snap_Request snap)]
    \<and> status_of (sv_projection (sr_service (ru_server y))) rid = Some StatusExecuting"
proof -
  let ?t = "run_turn sha errtext decodeErr" and ?y0 = "(Run_start srv)\<lparr>ru_conns := [c]\<rparr>"
  from execute_begin_healthy [OF assms(5-7,3,4), of sha "ce_now env" "ce_io1 env"] obtain s e where
    s: "execute_begin sha (ce_now env) (ce_io1 env) (ce_io2 env) rid (sr_service srv) = (Launch (snap_Request snap), s)"
    "Get (sv_projection s) rid = Some (stamped e (snap\<lparr>snap_Status := StatusExecuting\<rparr>))" by blast
  let ?y1 = "?y0\<lparr>ru_server := srv\<lparr>sr_service := s\<rparr>, ru_conns := [], ru_running := [(rid, snap_Request snap)]\<rparr>"
  have a: "?t (Run_start srv) (TurnAccept (cn_lane c) (Some c)) = Some ?y0"
    using assms(1) by (simp add: run_turn_def serve_iteration_def Run_start_def)
  have b: "?t ?y0 (TurnLaunch 0 env) = Some ?y1"
    using assms(2) s(1) by (simp add: run_turn_def launch_turn_def Run_start_def without_def)
  obtain acts where "run (turns sha errtext decodeErr) ?y1 acts
      (?y1\<lparr>ru_cancelled := True, ru_listening := {}, ru_serving := {}, ru_main := RunReturned\<rparr>)"
    using stops [of ?y1 sha errtext decodeErr] by (auto simp: Run_start_def)
  from run_Cons [where step = "turns sha errtext decodeErr", OF a run_Cons [where step = "turns sha errtext decodeErr", OF b this]]
  show ?thesis using s(2) by (intro exI conjI) (assumption, auto simp: status_of_def Get_def stamped_def)
qed

section \<open>A concrete shutdown\<close>

definition sample_conn :: accepted where
  "sample_conn = \<lparr>cn_lane = ''request'', cn_ident = (root_peer, None),
     cn_received = Encode (json_of_wire_request (zero_wire_request\<lparr>wr_Action := ActionRequestExecute, wr_RequestID := ''req_1''\<rparr>))\<rparr>"

lemma wire_request_decodes:
  assumes "utf8_wire_request q"
  shows "Option.bind (Decode (Encode (json_of_wire_request q))) (\<lambda>j. dec_struct wire_request_fields j zero_wire_request) = Some q"
  using dec_wire_request [OF assms] canonical_wire_request [of q] Decode_Encode [of _ "[]"] by (simp add: canonical_def)

lemma sample_conn_lane: "cn_lane sample_conn = ''request''"
  by (simp add: sample_conn_def)

lemma sample_conn_call: "conn_call (sample_server p) sample_conn = Some (CallExecute ''req_1'')"
proof -
  have d: "Option.bind (Decode (cn_received sample_conn)) (\<lambda>j. dec_struct wire_request_fields j zero_wire_request)
      = Some (zero_wire_request\<lparr>wr_Action := ActionRequestExecute, wr_RequestID := ''req_1''\<rparr>)"
    unfolding sample_conn_def accepted.simps
    by (rule wire_request_decodes) (simp add: utf8_wire_request_def zero_wire_request_def zero_actor_def utf8_actor_def byte_def)
  then show ?thesis
    by (simp only: conn_call_def) (simp add: sample_conn_def route_def zero_wire_request_def Let_def)
qed

theorem shutdown_abandons_execution_witness:
  "\<exists>acts y. run (turns sample_sha (\<lambda>_. []) (\<lambda>_. [])) (Run_start (sample_server [(''req_1'', sample_snapshot StatusApproved)])) acts y
    \<and> ru_main y = RunReturned \<and> ru_running y = [(''req_1'', sample_request ''req_1'')]
    \<and> status_of (sv_projection (sr_service (ru_server y))) ''req_1'' = Some StatusExecuting"
proof -
  let ?srv = "sample_server [(''req_1'', sample_snapshot StatusApproved)]"
  have c: "cn_lane sample_conn \<in> lanes" "conn_call ?srv sample_conn = Some (CallExecute ''req_1'')"
    by (simp_all add: sample_conn_call sample_conn_lane lanes_def)
  have g: "Get (sv_projection (sr_service ?srv)) ''req_1'' = Some (sample_snapshot StatusApproved)"
    by (simp add: sample_server_def NewServer_def sample_service_def Get_def gget_def)
  have "valid_utf8 (lg_lastHash (sv_log (sr_service ?srv)))" by (simp add: sample_server_def NewServer_def)
  moreover have "healthy (ce_io2 sample_env)" using sample_healthy by (simp add: sample_env_def)
  moreover have "valid_utf8 ''req_1''" by (simp add: byte_def)
  ultimately show ?thesis
    using shutdown_abandons_execution [OF c g, of sample_env sample_sha "\<lambda>_. []" "\<lambda>_. []"] by simp
qed

theorem shutdown_terminates_witness:
  "\<exists>acts y. run (turns sample_sha (\<lambda>_. []) (\<lambda>_. [])) (Run_start (sample_server New)) acts y
    \<and> ru_main y = RunReturned \<and> ru_listening y = {}"
proof -
  let ?step = "turns sample_sha (\<lambda>_. []) (\<lambda>_. [])"
  let ?y = "(Run_start (sample_server New))\<lparr>ru_cancelled := True, ru_listening := {}, ru_serving := {}, ru_main := RunReturned\<rparr>"
  obtain acts where r: "run ?step (Run_start (sample_server New)) acts ?y"
    using stops [of "Run_start (sample_server New)" sample_sha "\<lambda>_. []" "\<lambda>_. []"] by (auto simp: Run_start_def)
  from shutdown_terminates [OF r run_nil] have "ru_listening ?y = {}" by simp
  with r show ?thesis by (intro exI [of _ acts] exI [of _ ?y]) simp
qed

end
