(* ===== verification/Run_Refines.thy ===== *)
theory Run_Refines
  imports Socket_Run "HOL-Library.Multiset"
begin

text \<open>
  The running server refines the broker as a state machine: whatever bytes arrive on its connections
  and however its goroutines interleave, the state of the service changes only by the steps of
  \<open>Broker_System\<close>, taken through the sockets as in \<open>Socket_System\<close>. So the guarantees proved there
  for all runs of the machine hold for the server as it is written.
\<close>

section \<open>What a connection can ask for\<close>

lemma dec_elems_valid: "dec_elems js = Some xs \<Longrightarrow> list_all valid_utf8 xs"
  by (induction js arbitrary: xs) (auto split: option.splits dest: dec_string_valid)

lemma dec_strings_valid: "dec_strings j old = Some xs \<Longrightarrow> list_all valid_utf8 xs"
  by (cases j) (auto simp: dec_strings_def dec_elems_valid)

lemma Decode_wf: "Decode s = Some j \<Longrightarrow> wf_json j"
  by (auto simp: Decode_def dest: parse_wf_mutual(1) simp del: pvalue.simps)

text \<open>The texts of a decoded message are valid UTF-8, whatever the bytes of the connection were.\<close>

lemma decoded_request_utf8:
  assumes "Option.bind (Decode s) (\<lambda>j. dec_struct wire_request_fields j zero_wire_request) = Some q"
  shows "utf8_wire_request q"
proof -
  from assms obtain j where j: "Decode s = Some j" "dec_struct wire_request_fields j zero_wire_request = Some q"
    by (auto simp: bind_eq_Some_conv)
  from j(2) show ?thesis
  proof (rule dec_struct_invariant)
    show "utf8_wire_request zero_wire_request"
      by (simp add: utf8_wire_request_def zero_wire_request_def zero_actor_def utf8_actor_def)
    show "wf_json j" by (rule Decode_wf [OF j(1)])
    show "utf8_wire_request r'" if "(k, d) \<in> set wire_request_fields" "wf_json i" "utf8_wire_request r" "d i r = Some r'" for k d i r r'
      using that by (auto simp: wire_request_fields_def dec_field_def utf8_wire_request_def
          dest!: dec_string_valid dec_strings_valid dec_actor_utf8)
  qed
qed

lemma conn_call_Some:
  assumes "conn_call srv c = Some call"
  obtains q where "call = route srv (cn_lane c) q (conn_peer c)" "utf8_wire_request q"
    "Option.bind (Decode (cn_received c)) (\<lambda>j. dec_struct wire_request_fields j zero_wire_request) = Some q"
  using assms decoded_request_utf8 by (auto simp: conn_call_def)

lemma served:
  "snd (handleConn sha errtext decodeErr env (cn_ident c) (cn_lane c) (cn_received c) srv) =
     (case conn_call srv c of None \<Rightarrow> srv | Some call \<Rightarrow> srv\<lparr>sr_service := snd (perform sha env call (sr_service srv))\<rparr>)"
  by (cases "Option.bind (Decode (cn_received c)) (\<lambda>j. dec_struct wire_request_fields j zero_wire_request)")
     (auto simp: handleConn_def conn_call_def conn_peer_def dispatch_def split: prod.splits sum.splits)

section \<open>Simulation\<close>

text \<open>
  What a submission has to satisfy for its record to be written: the user name of the peer and the
  texts of the request are valid UTF-8 and the clock shows a year that RFC 3339 can print.
\<close>

definition storable :: "(string \<Rightarrow> string) \<Rightarrow> call_env \<Rightarrow> service \<Rightarrow> service_call \<Rightarrow> bool" where
  "storable sha env s call \<longleftrightarrow>
     (\<forall>i. call = CallSubmit i \<and> si_Argv i \<noteq> [] \<longrightarrow> valid_utf8 (actorIDForPeer (si_Requester i))
        \<and> utf8_request (snd (submission sha (ce_now env) (ce_rand env) (ce_nanos env) i s))
        \<and> times_request (snd (submission sha (ce_now env) (ce_rand env) (ce_nanos env) i s)))"

inductive ok_turn ::
    "(string \<Rightarrow> string) \<Rightarrow> (go_error \<Rightarrow> string) \<Rightarrow> (string \<Rightarrow> string) \<Rightarrow> run_state \<Rightarrow> run_act \<Rightarrow> run_state \<Rightarrow> bool"
  for sha errtext decodeErr where
  ok_turnI: "run_turn sha errtext decodeErr y act = Some y' \<Longrightarrow>
     (\<And>i env call. act = TurnServe i env \<Longrightarrow> conn_call (ru_server y) (ru_conns y ! i) = Some call \<Longrightarrow>
        storable sha env (sr_service (ru_server y)) call) \<Longrightarrow>
     ok_turn sha errtext decodeErr y act y'"

text \<open>The broker holds the server's service, and the same commands are running.\<close>

definition mirrors :: "server \<Rightarrow> run_state \<Rightarrow> gate_sys \<Rightarrow> bool" where
  "mirrors srv y g \<longleftrightarrow> sy_service (fst g) = Some (sr_service (ru_server y))
     \<and> (\<forall>s. (ru_server y)\<lparr>sr_service := s\<rparr> = srv\<lparr>sr_service := s\<rparr>)
     \<and> mset (sy_running (fst g)) = mset (map fst (ru_running y))
     \<and> set (ru_running y) \<subseteq> set (sy_launches (fst g))"

text \<open>What a turn asks of the service: the messages it decodes, and the submissions it draws up.\<close>

definition conn_asks :: "accepted \<Rightarrow> connection set" where
  "conn_asks c = {(cn_lane c, q, conn_peer c) | q.
     Option.bind (Decode (cn_received c)) (\<lambda>j. dec_struct wire_request_fields j zero_wire_request) = Some q}"

fun asked :: "run_state \<Rightarrow> run_act \<Rightarrow> connection set" where
  "asked y (TurnServe i env) = conn_asks (ru_conns y ! i)"
| "asked y (TurnLaunch i env) = conn_asks (ru_conns y ! i)"
| "asked y _ = {}"

fun drawn :: "(string \<Rightarrow> string) \<Rightarrow> run_state \<Rightarrow> run_act \<Rightarrow> submissions" where
  "drawn sha y (TurnServe i env) =
     {submission sha (ce_now env) (ce_rand env) (ce_nanos env) input (sr_service (ru_server y)) | input.
        conn_call (ru_server y) (ru_conns y ! i) = Some (CallSubmit input)}"
| "drawn sha y _ = {}"

definition adds :: "connection set \<Rightarrow> submissions \<Rightarrow> gate_sys \<Rightarrow> gate_sys \<Rightarrow> bool" where
  "adds C S g g' \<longleftrightarrow> snd g' \<subseteq> snd g \<union> C \<and> sy_submitted (fst g') \<subseteq> sy_submitted (fst g) \<union> S"

lemma adds_refl [simp]: "adds C S g g"
  by (simp add: adds_def)

lemma adds_trans: "adds C S g h \<Longrightarrow> adds C S h g' \<Longrightarrow> adds C S g g'"
  by (auto simp: adds_def)

lemma route_service: "route (srv\<lparr>sr_service := s\<rparr>) lane q peer = route srv lane q peer"
  by (simp add: route_def reviewAllowed_def cong: if_cong)

lemma route_texts:
  assumes "utf8_wire_request q"
  shows "route srv lane q peer = CallStatus rid \<Longrightarrow> valid_utf8 rid"
    and "route srv lane q peer = CallExecute rid \<Longrightarrow> valid_utf8 rid"
    and "route srv lane q peer = CallApprove i \<Longrightarrow> valid_utf8 (ri_RequestID i) \<and> utf8_actor (ri_Approver i)"
    and "route srv lane q peer = CallDeny i \<Longrightarrow> valid_utf8 (ri_RequestID i) \<and> utf8_actor (ri_Approver i)"
  using assms by (auto simp: route_def rejected_def utf8_wire_request_def Let_def split: if_splits)

lemma step_mirrors:
  assumes "starts (route srv lane q peer) act" "step sha (fst g) act z" "mirrors srv y g"
    and "sy_service z = Some s" "sy_running z = sy_running (fst g)" "sy_launches (fst g) = sy_launches z"
    and "(lane, q, peer) \<in> C" "sy_submitted z \<subseteq> sy_submitted (fst g) \<union> S"
  shows "\<exists>acts g'. run (gstep sha srv) g acts g' \<and> adds C S g g'
    \<and> mirrors srv (y\<lparr>ru_server := (ru_server y)\<lparr>sr_service := s\<rparr>, ru_conns := cs\<rparr>) g'"
proof -
  have "gstep sha srv (fst g, snd g) act (z, insert (lane, q, peer) (snd g))" by (rule g_conn [OF assms(1,2)])
  then have "run (gstep sha srv) g [act] (z, insert (lane, q, peer) (snd g))" using run_single by simp
  moreover have "mirrors srv (y\<lparr>ru_server := (ru_server y)\<lparr>sr_service := s\<rparr>, ru_conns := cs\<rparr>) (z, insert (lane, q, peer) (snd g))"
    using assms(3-6) by (simp add: mirrors_def)
  moreover have "adds C S g (z, insert (lane, q, peer) (snd g))" using assms(7,8) by (auto simp: adds_def)
  ultimately show ?thesis by blast
qed

text \<open>Every service call but an execution, as one step of the broker or none.\<close>

lemma perform_mirrors:
  assumes "mirrors srv y g" "call = route srv lane q peer" "utf8_wire_request q"
    and "storable sha env (sr_service (ru_server y)) call" "\<And>rid. call \<noteq> CallExecute rid" "(lane, q, peer) \<in> C"
    and "\<And>i. call = CallSubmit i \<Longrightarrow> submission sha (ce_now env) (ce_rand env) (ce_nanos env) i (sr_service (ru_server y)) \<in> S"
  shows "\<exists>acts g'. run (gstep sha srv) g acts g' \<and> adds C S g g'
    \<and> mirrors srv (y\<lparr>ru_server := (ru_server y)\<lparr>sr_service := snd (perform sha env call (sr_service (ru_server y)))\<rparr>, ru_conns := cs\<rparr>) g'"
proof -
  let ?s = "sr_service (ru_server y)"
  obtain r s' where p: "perform sha env call ?s = (r, s')" by fastforce
  have sv: "sy_service (fst g) = Some ?s" using assms(1) by (simp add: mirrors_def)
  have stay: ?thesis if "s' = ?s"
    using assms(1) p that by (intro exI [of _ "[]"] exI [of _ g]) (auto simp: mirrors_def run_nil)
  have move: ?thesis if "step sha (fst g) act z" "starts call act" "sy_service z = Some s'"
    "sy_running z = sy_running (fst g)" "sy_launches (fst g) = sy_launches z" "sy_submitted z \<subseteq> sy_submitted (fst g) \<union> S" for act z
    using step_mirrors [OF that(2) [unfolded assms(2)] that(1) assms(1) that(3-5) assms(6) that(6), where cs = cs] p by simp
  note t = route_texts [OF assms(3)]
  show ?thesis
  proof (cases call)
    case (Answer x)
    with p stay show ?thesis by simp
  next
    case (CallSubmit i)
    show ?thesis
    proof (cases "si_Argv i = []")
      case True
      with p CallSubmit stay show ?thesis by (simp add: Submit_def)
    next
      case False
        with assms(4) CallSubmit have ok: "valid_utf8 (actorIDForPeer (si_Requester i))"
        "utf8_request (snd (submission sha (ce_now env) (ce_rand env) (ce_nanos env) i ?s))"
        "times_request (snd (submission sha (ce_now env) (ce_rand env) (ce_nanos env) i ?s))" by (simp_all add: storable_def)
      from CallSubmit p have "Submit sha (ce_now env) (ce_rand env) (ce_nanos env) (ce_io1 env) i ?s = (r, s')" by simp
      from move [OF step.submit [OF sv this ok(1) False ok(2,3)]] CallSubmit assms(7) show ?thesis by (auto simp: with_service_def)
    qed
  next
    case (CallStatus rid)
    with p have "Status sha (ce_now env) (ce_io1 env) rid ?s = (r, s')" by simp
    moreover have "valid_utf8 rid" using t(1) assms(2) CallStatus by metis
    ultimately have "Status sha (ce_now env) (ce_io1 env) rid ?s = (r, s')" "valid_utf8 rid" .
    from move [OF step.status [OF sv this]] CallStatus show ?thesis by (simp add: with_service_def)
  next
    case (CallApprove i)
    with p have "Approve sha (ce_now env) (ce_io1 env) (ce_io2 env) i ?s = (r, s')" by simp
    moreover have "valid_utf8 (ri_RequestID i)" "utf8_actor (ri_Approver i)" using t(3) assms(2) CallApprove by metis+
    ultimately have "Approve sha (ce_now env) (ce_io1 env) (ce_io2 env) i ?s = (r, s')"
      "valid_utf8 (ri_RequestID i)" "utf8_actor (ri_Approver i)" .
    from move [OF step.approve [OF sv this]] CallApprove show ?thesis by (simp add: with_service_def)
  next
    case (CallDeny i)
    with p have "Deny sha (ce_now env) (ce_io1 env) (ce_io2 env) i ?s = (r, s')" by simp
    moreover have "valid_utf8 (ri_RequestID i)" "utf8_actor (ri_Approver i)" using t(4) assms(2) CallDeny by metis+
    ultimately have "Deny sha (ce_now env) (ce_io1 env) (ce_io2 env) i ?s = (r, s')"
      "valid_utf8 (ri_RequestID i)" "utf8_actor (ri_Approver i)" .
    from move [OF step.deny [OF sv this]] CallDeny show ?thesis by (simp add: with_service_def)
  qed (use assms(5) in blast)
qed

text \<open>The two turns of an execution are the two steps of the broker.\<close>

lemma launch_mirrors:
  assumes "mirrors srv y g" "conn_call (ru_server y) c = Some (CallExecute rid)"
    and "execute_begin sha now w1 w2 rid (sr_service (ru_server y)) = (Launch q, s)"
  shows "\<exists>acts g'. run (gstep sha srv) g acts g' \<and> adds (conn_asks c) S g g'
    \<and> mirrors srv (y\<lparr>ru_server := (ru_server y)\<lparr>sr_service := s\<rparr>, ru_conns := cs, ru_running := ru_running y @ [(rid, q)]\<rparr>) g'"
proof -
  obtain m where m: "CallExecute rid = route (ru_server y) (cn_lane c) m (conn_peer c)" "utf8_wire_request m"
    "(cn_lane c, m, conn_peer c) \<in> conn_asks c"
    by (rule conn_call_Some [OF assms(2)]) (auto simp: conn_asks_def)
  have sv: "sy_service (fst g) = Some (sr_service (ru_server y))" using assms(1) by (simp add: mirrors_def)
  let ?z = "with_service s ((fst g)\<lparr>sy_running := rid # sy_running (fst g), sy_launches := (rid, q) # sy_launches (fst g)\<rparr>)"
  have "step sha (fst g) (ABegin now w1 w2 rid) ?z"
    using route_texts(2) [OF m(2)] m(1) by (intro step.launch [OF sv assms(3)]) metis
  moreover have "ru_server y = srv\<lparr>sr_service := sr_service (ru_server y)\<rparr>"
    using assms(1) unfolding mirrors_def by (metis server.surjective server.update_convs(1))
  then have "route srv (cn_lane c) m (conn_peer c) = CallExecute rid" using m(1) route_service by metis
  ultimately have "gstep sha srv (fst g, snd g) (ABegin now w1 w2 rid) (?z, insert (cn_lane c, m, conn_peer c) (snd g))"
    by (intro g_conn) simp_all
  then have "run (gstep sha srv) g [ABegin now w1 w2 rid] (?z, insert (cn_lane c, m, conn_peer c) (snd g))"
    using run_single by simp
  moreover have "adds (conn_asks c) S g (?z, insert (cn_lane c, m, conn_peer c) (snd g))"
    using m(3) by (auto simp: adds_def with_service_def)
  ultimately show ?thesis using assms(1) by (intro exI conjI) (assumption, assumption, auto simp: mirrors_def with_service_def)
qed

lemma mset_without: "i < length xs \<Longrightarrow> mset (without i xs) = mset xs - {#xs ! i#}"
  using id_take_nth_drop [of i xs] by (metis add_mset_remove_trivial mset_append mset.simps(2) union_mset_add_mset_right without_def)

lemma finish_mirrors:
  assumes "mirrors srv y g" "i < length (ru_running y)"
  shows "\<exists>acts g'. run (gstep sha srv) g acts g' \<and> adds C S g g' \<and> mirrors srv (finish_turn sha i env y) g'"
proof -
  obtain rid q where r: "ru_running y ! i = (rid, q)" by fastforce
  obtain x s where e: "execute_finish sha (ce_io3 env) rid (ce_executor env q) (sr_service (ru_server y)) = (x, s)" by fastforce
  have sv: "sy_service (fst g) = Some (sr_service (ru_server y))" and ms: "mset (sy_running (fst g)) = mset (map fst (ru_running y))"
    using assms(1) by (simp_all add: mirrors_def)
  have "rid \<in># mset (map fst (ru_running y))" using assms(2) r by (metis fst_conv image_eqI nth_mem set_map set_mset_mset)
  then have "rid \<in> set (sy_running (fst g))" using ms by (metis set_mset_mset)
  let ?z = "with_service s ((fst g)\<lparr>sy_running := remove1 rid (sy_running (fst g))\<rparr>)"
  have "step sha (fst g) (AFinish (ce_io3 env) rid (ce_executor env q)) ?z" by (rule step.finish [OF sv \<open>rid \<in> set _\<close> e])
  then have "gstep sha srv (fst g, snd g) (AFinish (ce_io3 env) rid (ce_executor env q)) (?z, snd g)" by (intro g_internal) simp_all
  then have "run (gstep sha srv) g [AFinish (ce_io3 env) rid (ce_executor env q)] (?z, snd g)" using run_single by simp
  moreover have "mset (map fst (without i (ru_running y))) = mset (sy_running (fst g)) - {#rid#}"
    using mset_without [of i "map fst (ru_running y)"] assms(2) r ms by (simp add: without_def take_map drop_map)
  moreover have "set (without i (ru_running y)) \<subseteq> set (ru_running y)"
    by (auto simp: without_def dest: in_set_takeD in_set_dropD)
  moreover have "adds C S g (?z, snd g)" by (simp add: adds_def with_service_def)
  ultimately show ?thesis
    using assms(1) r e by (intro exI conjI) (assumption, assumption, auto simp: finish_turn_def mirrors_def with_service_def Let_def)
qed

section \<open>The server\<close>

lemma mirrors_server: "mirrors srv y g \<Longrightarrow> route (ru_server y) lane q peer = route srv lane q peer"
  unfolding mirrors_def by (metis route_service)

lemma serve_mirrors:
  assumes "mirrors srv y g" "i < length (ru_conns y)"
    and "\<And>call. conn_call (ru_server y) (ru_conns y ! i) = Some call \<Longrightarrow> storable sha env (sr_service (ru_server y)) call"
    and "run_turn sha errtext decodeErr y (TurnServe i env) = Some y'"
  shows "\<exists>acts g'. run (gstep sha srv) g acts g'
    \<and> adds (asked y (TurnServe i env)) (drawn sha y (TurnServe i env)) g g' \<and> mirrors srv y' g'"
proof -
  let ?c = "ru_conns y ! i" and ?cs = "without i (ru_conns y)"
  let ?C = "conn_asks ?c" and ?S = "drawn sha y (TurnServe i env)"
  have y': "y' = y\<lparr>ru_server := (case conn_call (ru_server y) ?c of None \<Rightarrow> ru_server y
      | Some call \<Rightarrow> (ru_server y)\<lparr>sr_service := snd (perform sha env call (sr_service (ru_server y)))\<rparr>), ru_conns := ?cs\<rparr>"
    using assms(2,4) by (simp add: run_turn_def served Let_def)
  show ?thesis
  proof (cases "conn_call (ru_server y) ?c")
    case None
    with assms(1) show ?thesis by (intro exI [of _ "[]"] exI [of _ g]) (simp add: y' mirrors_def run_nil)
  next
    case (Some call)
    then obtain q where q: "call = route (ru_server y) (cn_lane ?c) q (conn_peer ?c)" "utf8_wire_request q"
      "(cn_lane ?c, q, conn_peer ?c) \<in> ?C"
      by (rule conn_call_Some) (auto simp: conn_asks_def)
    show ?thesis
    proof (cases "\<exists>rid. call = CallExecute rid")
      case False
      have "submission sha (ce_now env) (ce_rand env) (ce_nanos env) x (sr_service (ru_server y)) \<in> ?S" if "call = CallSubmit x" for x
        using Some that by auto
      with False perform_mirrors [OF assms(1) _ q(2) assms(3) [OF Some] _ q(3), of ?S ?cs] q(1) Some
      show ?thesis by (simp add: y' mirrors_server [OF assms(1)])
    next
      case True
      then obtain rid where rid: "call = CallExecute rid" by blast
      obtain b s where b: "execute_begin sha (ce_now env) (ce_io1 env) (ce_io2 env) rid (sr_service (ru_server y)) = (b, s)"
        by fastforce
      show ?thesis
      proof (cases b)
        case (Launch x)
        let ?y1 = "y\<lparr>ru_server := (ru_server y)\<lparr>sr_service := s\<rparr>, ru_conns := ?cs, ru_running := ru_running y @ [(rid, x)]\<rparr>"
        have l: "run_turn sha errtext decodeErr y (TurnLaunch i env) = Some ?y1"
          using assms(2) Some rid b Launch by (simp add: run_turn_def launch_turn_def)
        from launch_mirrors [OF assms(1) Some [unfolded rid] b [unfolded Launch]] obtain acts h where
          h: "run (gstep sha srv) g acts h" "mirrors srv ?y1 h" "adds ?C ?S g h" by blast
        have "y' = finish_turn sha (length (ru_running y)) env ?y1"
          using launch_then_finish [OF l] assms(4) by (simp add: run_turn_def)
        moreover obtain acts' h' where "run (gstep sha srv) h acts' h'" "adds ?C ?S h h'"
          "mirrors srv (finish_turn sha (length (ru_running y)) env ?y1) h'"
          using finish_mirrors [OF h(2), of "length (ru_running y)" sha ?C ?S env] by auto
        ultimately show ?thesis using run_trans [OF _ h(1)] adds_trans [OF h(3)] by (metis asked.simps(1))
      next
        case (Reply r)
        have sv: "sy_service (fst g) = Some (sr_service (ru_server y))" using assms(1) by (simp add: mirrors_def)
        have u: "valid_utf8 rid" using route_texts(2) [OF q(2)] q(1) rid by metis
        have "starts (route srv (cn_lane ?c) q (conn_peer ?c)) (ABegin (ce_now env) (ce_io1 env) (ce_io2 env) rid)"
          using q(1) rid mirrors_server [OF assms(1)] by (metis starts.simps(3))
        from step_mirrors [OF this step.refuse [OF sv b [unfolded Reply] u] assms(1), of s ?C ?S ?cs] q(3) show ?thesis
          using b Reply rid Some by (simp add: y' with_service_def Execute_def)
      qed
    qed
  qed
qed

lemma turn_mirrors:
  assumes "ok_turn sha errtext decodeErr y act y'" "mirrors srv y g"
  shows "\<exists>acts g'. run (gstep sha srv) g acts g' \<and> adds (asked y act) (drawn sha y act) g g' \<and> mirrors srv y' g'"
  using assms(1)
proof cases
  case ok_turnI
  have stay: ?thesis if "mirrors srv y' g"
    by (intro exI [of _ "[]"] exI [of _ g]) (simp add: that run_nil)
  show ?thesis
  proof (cases act)
    case (TurnServe i env)
    with ok_turnI serve_mirrors [OF assms(2), of i sha env errtext decodeErr y'] show ?thesis
      by (auto simp: run_turn_def split: if_splits)
  next
    case (TurnLaunch i env)
    with ok_turnI(1) launch_mirrors [OF assms(2)] show ?thesis
      by (auto simp: run_turn_def launch_turn_def split: if_splits option.splits service_call.splits prod.splits begin_outcome.splits)
  next
    case (TurnFinish i env)
    with ok_turnI(1) finish_mirrors [OF assms(2)] show ?thesis by (auto simp: run_turn_def split: if_splits)
  next
    case (TurnAccept lane conn)
    with ok_turnI(1) assms(2) show ?thesis
      by (intro stay) (auto simp: run_turn_def serve_iteration_def mirrors_def split: if_splits option.splits)
  next
    case TurnMain
    with ok_turnI(1) assms(2) show ?thesis
      by (intro stay) (auto simp: run_turn_def main_turn_def mirrors_def split: if_splits run_main.splits)
  next
    case TurnCancel
    with ok_turnI(1) assms(2) show ?thesis by (intro stay) (auto simp: run_turn_def mirrors_def)
  qed
qed

interpretation rs: simulation "ok_turn sha errtext decodeErr" "gstep sha srv" "mirrors srv" for sha errtext decodeErr srv
  by unfold_locales (use turn_mirrors in blast)

text \<open>
  C10 (the server refines the broker's machine). Let a server start on a broker in any state it can
  be in between executions. Then every run of its goroutines, with any bytes on any connections,
  is matched by a run of the broker's machine through the sockets, at whose end the broker has the
  server's state and the commands that are running are exactly those the server runs, each of them
  launched by a step of the machine.
\<close>

theorem server_refines_broker:
  assumes "run (ok_turn sha errtext decodeErr) (Run_start srv) acts y"
    and "sy_service (fst g) = Some (sr_service srv)" "sy_running (fst g) = []"
  shows "\<exists>steps g'. run (gstep sha srv) g steps g' \<and> sy_service (fst g') = Some (sr_service (ru_server y))
    \<and> mset (sy_running (fst g')) = mset (map fst (ru_running y)) \<and> set (ru_running y) \<subseteq> set (sy_launches (fst g'))"
proof -
  have "mirrors srv (Run_start srv) g" using assms(2,3) by (simp add: mirrors_def Run_start_def)
  from rs.sim_run [OF assms(1) this] show ?thesis by (auto simp: mirrors_def)
qed

section \<open>A server that runs a command\<close>

theorem server_refines_broker_witness:
  "\<exists>y steps g'. run (ok_turn sample_sha (\<lambda>_. []) (\<lambda>_. [])) (Run_start (sample_server [(''req_1'', sample_snapshot StatusApproved)]))
       [TurnAccept ''request'' (Some sample_conn), TurnLaunch 0 sample_env] y
     \<and> run (gstep sample_sha (sample_server [(''req_1'', sample_snapshot StatusApproved)]))
         (fresh_sys\<lparr>sy_service := Some (sample_service [(''req_1'', sample_snapshot StatusApproved)])\<rparr>, {}) steps g'
     \<and> (''req_1'', sample_request ''req_1'') \<in> set (sy_launches (fst g'))"
proof -
  let ?p = "[(''req_1'', sample_snapshot StatusApproved)]" and ?step = "ok_turn sample_sha (\<lambda>_. []) (\<lambda>_. [])"
  let ?srv = "sample_server ?p" and ?g = "(fresh_sys\<lparr>sy_service := Some (sample_service ?p)\<rparr>, {}) :: gate_sys"
  let ?y0 = "(Run_start ?srv)\<lparr>ru_conns := [sample_conn]\<rparr>"
  have srv: "sr_service ?srv = sample_service ?p" by (simp add: sample_server_def NewServer_def)
  have h: "healthy (ce_io2 sample_env)" using sample_healthy by (simp add: sample_env_def)
  have g: "Get (sv_projection (sample_service ?p)) ''req_1'' = Some (sample_snapshot StatusApproved)"
    by (simp add: sample_service_def Get_def gget_def)
  from execute_begin_healthy [OF _ h _ g, of sample_sha "ce_now sample_env" "ce_io1 sample_env"] obtain s where
    b: "execute_begin sample_sha (ce_now sample_env) (ce_io1 sample_env) (ce_io2 sample_env) ''req_1'' (sample_service ?p)
      = (Launch (sample_request ''req_1''), s)" by (auto simp: byte_def)
  let ?z = "?y0\<lparr>ru_server := ?srv\<lparr>sr_service := s\<rparr>, ru_conns := [], ru_running := [(''req_1'', sample_request ''req_1'')]\<rparr>"
  have "?step (Run_start ?srv) (TurnAccept ''request'' (Some sample_conn)) ?y0"
    by (rule ok_turnI, simp add: run_turn_def serve_iteration_def Run_start_def lanes_def sample_conn_lane, simp)
  moreover have "?step ?y0 (TurnLaunch 0 sample_env) ?z"
    by (rule ok_turnI, simp add: run_turn_def launch_turn_def Run_start_def without_def sample_conn_call srv b, simp)
  ultimately have r: "run ?step (Run_start ?srv) [TurnAccept ''request'' (Some sample_conn), TurnLaunch 0 sample_env] ?z"
    by (meson run_Cons run_nil)
  have "sy_service (fst ?g) = Some (sr_service ?srv)" "sy_running (fst ?g) = []" by (simp_all add: srv fresh_sys_def)
  from server_refines_broker [OF r this] obtain steps g' where
    "run (gstep sample_sha ?srv) ?g steps g'" "set (ru_running ?z) \<subseteq> set (sy_launches (fst g'))" by blast
  with r show ?thesis by (intro exI conjI) (assumption, assumption, simp)
qed

end
