(* ===== verification/Adapter_Audit.thy ===== *)
theory Adapter_Audit
  imports Protocol Execution Events
begin

text \<open>
  Package \<open>internal/twilioadapter\<close>, the parts every other part of the adapter uses: approval codes
  and masked phone numbers (\<open>code.go\<close>), the country allow list (\<open>country_guard.go\<close>) and the
  adapter's own audit log (\<open>audit.go\<close>). The audit log is a byte string; a row is a Go map, written
  as one JSON object with its keys in sorted order.
\<close>

section \<open>Codes and phone numbers\<close>

text \<open>\<open>n\<close> is what \<open>rand.Int\<close> drew below 1000000; \<open>None\<close> stands for its error.\<close>

definition GenerateApprovalCode :: "nat option \<Rightarrow> string result" where
  "GenerateApprovalCode n = (case n of
     None \<Rightarrow> Inl (ErrOs ''rand'')
   | Some n \<Rightarrow> Inr (replicate (6 - length (string_of_nat n)) (CHR ''0'') @ string_of_nat n))"

definition HashApprovalCode :: "(string \<Rightarrow> string) \<Rightarrow> string \<Rightarrow> string" where
  "HashApprovalCode sha code = hex_encode (sha code)"

definition MaskPhone :: "string \<Rightarrow> string" where
  "MaskPhone phone =
     (if length phone < 6 \<or> phone ! 0 \<noteq> CHR ''+'' then phone
      else let cc = (if length phone > 12 then 3 else 2) in
        if length phone < cc + 4 then phone
        else take cc phone @ ''***'' @ drop (length phone - 4) phone)"

section \<open>Country allow list\<close>

definition IsAllowedCountry :: "string \<Rightarrow> string list \<Rightarrow> bool" where
  "IsAllowedCountry phone allowed =
     (if \<not> HasPrefix phone ''+'' then False
      else if allowed = [] then False
      else fold (\<lambda>prefix best. if HasPrefix phone prefix \<and> length prefix > length best then prefix else best) allowed [] \<noteq> [])"

text \<open>
  The range loop runs over runes; a byte outside the ASCII digits belongs to a rune that is not an
  ASCII digit, so testing the bytes is the same.
\<close>

fun parse_country_tokens :: "string list \<Rightarrow> string list result" where
  "parse_country_tokens [] = Inr []"
| "parse_country_tokens (tok # toks) =
     (let tok = TrimSpace tok in
      if tok = [] then Inl (ErrText ''country code list empty'')
      else
        let tok = (if HasPrefix tok ''+'' then tok else ''+'' @ tok); digits = drop 1 tok in
        if digits = [] then Inl (ErrText ''country code must be digits after +'')
        else if \<not> list_all is_digit digits then Inl (ErrText ''country code must be digits after +'')
        else result_bind (parse_country_tokens toks) (\<lambda>rest. Inr (tok # rest)))"

definition ParseAllowedCountryCodes :: "string \<Rightarrow> string list result" where
  "ParseAllowedCountryCodes csv =
     (if TrimSpace csv = [] then Inl (ErrText ''country code list empty'')
      else parse_country_tokens (SplitByte (CHR '','') csv))"

section \<open>The audit log\<close>

type_synonym row = "json gomap"

record audit_log =
  al_path :: string
  al_file :: string

definition row_json :: "row \<Rightarrow> json" where
  "row_json row = JObj (map (\<lambda>k. (json_quote k, the (gget row k))) (gkeys row))"

definition row_line :: "row \<Rightarrow> string" where
  "row_line row = json_print (row_json row)"

definition Abs :: "string result \<Rightarrow> string \<Rightarrow> string result" where
  "Abs wd path = (if IsAbs path then Inr (Clean path)
     else result_bind wd (\<lambda>d. Inr (Clean (if path = [] then d else d @ ''/'' @ path))))"

text \<open>\<open>mkdir\<close> and \<open>opened\<close> are the outcomes of \<open>os.MkdirAll\<close> and \<open>os.OpenFile\<close>, the latter with the
  contents the file has.\<close>

definition NewAuditLog :: "string result \<Rightarrow> unit result \<Rightarrow> string result \<Rightarrow> string \<Rightarrow> audit_log result" where
  "NewAuditLog wd mkdir opened path =
     (if path = [] then Inl (ErrText ''audit log path is empty'')
      else result_bind (Abs wd path) (\<lambda>abs.
        result_bind mkdir (\<lambda>_.
          result_bind opened (\<lambda>file. Inr \<lparr>al_path = abs, al_file = file\<rparr>))))"

definition with_wall_ts :: "time \<Rightarrow> row \<Rightarrow> row" where
  "with_wall_ts now row =
     (if gget row ''wall_ts'' = None then gput ''wall_ts'' (jstring (format_time now)) row else row)"

definition audit_Write :: "fs_outcome \<Rightarrow> time \<Rightarrow> row \<Rightarrow> audit_log \<Rightarrow> go_error option \<times> audit_log" where
  "audit_Write fs now row a =
     (let payload = row_line (with_wall_ts now row) in
      case fs of
        FsOk \<Rightarrow> (None, a\<lparr>al_file := al_file a @ payload @ [newline]\<rparr>)
      | FsOpenErr m \<Rightarrow> (Some (ErrOs m), a)
      | FsWriteErr n m \<Rightarrow> (Some (ErrOs m), a\<lparr>al_file := al_file a @ take n payload\<rparr>)
      | FsSyncErr m \<Rightarrow> (Some (ErrOs m), a\<lparr>al_file := al_file a @ payload @ [newline]\<rparr>))"

section \<open>Properties of codes and allow lists\<close>

lemma length_string_of_nat: "n < 10 ^ k \<Longrightarrow> 0 < k \<Longrightarrow> length (string_of_nat n) \<le> k"
proof (induction k arbitrary: n)
  case (Suc k)
  show ?case
  proof (cases "n < 10")
    case True
    then show ?thesis by (subst string_of_nat.simps) simp
  next
    case False
    with Suc.prems have "n div 10 < 10 ^ k" "0 < k" by (auto intro!: Nat.gr0I)
    with Suc.IH have "length (string_of_nat (n div 10)) \<le> k" by blast
    with False show ?thesis by (subst string_of_nat.simps) simp
  qed
qed simp

lemma nat_of_digits_zeros: "nat_of_digits (replicate k (CHR ''0'') @ s) = nat_of_digits s"
  by (induction k) (simp_all add: nat_of_digits_def byte_def)

text \<open>
  Approval codes. Every number the generator may draw gives a code of exactly six decimal
  digits, leading zeros kept, and different numbers give different codes.
\<close>

theorem approval_codes_have_six_digits:
  assumes "n < 1000000"
  shows "\<exists>code. GenerateApprovalCode (Some n) = Inr code \<and> length code = 6 \<and> list_all is_digit code
    \<and> nat_of_digits code = n \<and> (\<forall>m < 1000000. GenerateApprovalCode (Some m) = Inr code \<longrightarrow> m = n)"
proof -
  have val: "nat_of_digits (replicate k (CHR ''0'') @ string_of_nat m) = m" for k m
    by (simp add: nat_of_digits_zeros)
  have "length (string_of_nat n) \<le> 6" using length_string_of_nat [of n 6] assms by simp
  then have "length (replicate (6 - length (string_of_nat n)) (CHR ''0'') @ string_of_nat n) = 6" by simp
  moreover have "list_all is_digit (replicate (6 - length (string_of_nat n)) (CHR ''0'') @ string_of_nat n)"
    by (simp add: string_of_nat_all_digits) (simp add: list_all_iff is_digit_def byte_def)
  moreover have "m = n" if "replicate k (CHR ''0'') @ string_of_nat m = replicate l (CHR ''0'') @ string_of_nat n" for m k l
    using arg_cong [OF that, of nat_of_digits] by (simp only: val)
  ultimately show ?thesis
    unfolding GenerateApprovalCode_def option.case sum.inject
    using val by blast
qed

theorem approval_codes_have_six_digits_witness:
  "\<exists>code. GenerateApprovalCode (Some 42) = Inr code \<and> length code = 6 \<and> nat_of_digits code = 42"
  using approval_codes_have_six_digits [of 42] by (meson numeral_less_iff semiring_norm(76,78,81))

lemma longest_prefix_nonempty:
  "fold (\<lambda>prefix best. if HasPrefix phone prefix \<and> length prefix > length best then prefix else best) allowed b \<noteq> []
   \<longleftrightarrow> b \<noteq> [] \<or> (\<exists>p \<in> set allowed. p \<noteq> [] \<and> HasPrefix phone p)"
proof (induction allowed arbitrary: b)
  case (Cons p allowed)
  show ?case by (simp only: fold_Cons comp_apply Cons.IH) auto
qed simp

lemma IsAllowedCountry_iff:
  "IsAllowedCountry phone allowed \<longleftrightarrow>
     HasPrefix phone ''+'' \<and> (\<exists>p \<in> set allowed. p \<noteq> [] \<and> HasPrefix phone p)"
  by (auto simp: IsAllowedCountry_def longest_prefix_nonempty)

definition country_code :: "string \<Rightarrow> bool" where
  "country_code p \<longleftrightarrow> (\<exists>d. p = ''+'' @ d \<and> d \<noteq> [] \<and> list_all is_digit d)"

lemma parse_country_tokens_codes:
  "parse_country_tokens toks = Inr codes \<Longrightarrow> list_all country_code codes \<and> length codes = length toks"
proof (induction toks arbitrary: codes)
  case (Cons tok toks)
  let ?t = "if HasPrefix (TrimSpace tok) ''+'' then TrimSpace tok else ''+'' @ TrimSpace tok"
  from Cons.prems obtain rest where r: "parse_country_tokens toks = Inr rest" "codes = ?t # rest"
    and d: "drop 1 ?t \<noteq> []" "list_all is_digit (drop 1 ?t)"
    by (simp add: Let_def split: if_splits) (auto simp: result_bind_eq_Inr)
  have "HasPrefix ?t ''+''" by simp
  then have "?t = ''+'' @ drop 1 ?t" by (auto simp: HasPrefix_iff)
  with d have "country_code ?t" unfolding country_code_def by blast
  with Cons.IH [OF r(1)] r(2) show ?case by simp
qed simp

lemma allowed_codes:
  assumes "ParseAllowedCountryCodes csv = Inr codes"
  shows "codes \<noteq> [] \<and> list_all country_code codes
    \<and> (IsAllowedCountry phone codes \<longleftrightarrow> (\<exists>c \<in> set codes. HasPrefix phone c))"
proof -
  have c: "list_all country_code codes \<and> length codes = length (SplitByte (CHR '','') csv)"
    using assms parse_country_tokens_codes by (auto simp: ParseAllowedCountryCodes_def split: if_splits)
  then have "codes \<noteq> []" by (metis SplitByte_not_Nil length_0_conv)
  moreover have "p \<noteq> [] \<and> (HasPrefix phone p \<longrightarrow> HasPrefix phone ''+'')" if "p \<in> set codes" for p
    using c that by (auto simp: list_all_iff country_code_def HasPrefix_iff)
  ultimately show ?thesis using c by (auto simp: IsAllowedCountry_iff)
qed

text \<open>
  Country allow list. When the list of country codes is accepted, it is not empty and each entry
  is a plus sign and digits; a phone number then passes exactly when it starts with one of the
  entries. In particular nothing passes that is not in the international format.
\<close>

theorem country_guard:
  assumes "ParseAllowedCountryCodes csv = Inr codes"
  shows "codes \<noteq> [] \<and> list_all country_code codes
    \<and> (IsAllowedCountry phone codes \<longleftrightarrow> (\<exists>c \<in> set codes. HasPrefix phone c))"
  by (rule allowed_codes [OF assms])

theorem country_guard_witness:
  "ParseAllowedCountryCodes ''+1, 44'' = Inr [''+1'', ''+44''] \<and> IsAllowedCountry ''+447700900123'' [''+1'', ''+44'']
   \<and> \<not> IsAllowedCountry ''+4917012345'' [''+1'', ''+44'']"
proof -
  have t: "TrimSpace ''+1, 44'' = ''+1, 44''" "TrimSpace ''+1'' = ''+1''" "TrimSpace ''44'' = ''44''"
    by (rule TrimSpace_id; simp add: ascii_space_def space2_def space3_def byte_def)+
  have t': "TrimSpace '' 44'' = ''44''"
    using t(3) by (simp add: TrimSpace_def trim_while.simps [of space_size "'' 44''"] ascii_space_def byte_def)
  have p: "ParseAllowedCountryCodes ''+1, 44'' = Inr [''+1'', ''+44'']"
    by (simp add: ParseAllowedCountryCodes_def t t' is_digit_def byte_def)
  show ?thesis
    using country_guard [OF p, of "''+447700900123''"] country_guard [OF p, of "''+4917012345''"] p by simp
qed

section \<open>Rows and lines\<close>

lemma wf_row_json: "(\<And>k v. gget row k = Some v \<Longrightarrow> wf_json v) \<Longrightarrow> wf_json (row_json row)"
  using gm.keys_iff [of _ row] by (fastforce simp: row_json_def wf_members_iff)

text \<open>The lines of a file as \<open>bufio.Reader.ReadBytes\<close> delivers them, without the newline; the last one
  is the unterminated rest, empty when the file ends with a newline.\<close>

definition read_lines :: "string \<Rightarrow> string list" where
  "read_lines file = SplitByte newline file"

lemma read_lines_file:
  "(\<And>r. r \<in> set rs \<Longrightarrow> newline \<notin> set (enc r)) \<Longrightarrow> read_lines (file_lines enc rs) = map enc rs @ [[]]"
  by (induction rs) (simp_all add: read_lines_def SplitByte_append)

end
