(* ===== verification/Pending_Set.thy ===== *)
theory Pending_Set
  imports Adapter_Audit
begin

text \<open>
  \<open>pending_set.go\<close>: at most one pending verification per recipient phone within the time to live.
  Every change is recorded in the audit log, from which a restarted adapter rebuilds the set. The
  methods are the code under the mutex; the clock and the outcome of each audit write are arguments.
\<close>

section \<open>State\<close>

record pending_entry =
  pe_RequestID :: string
  pe_OpenedAt :: time

record pending_set =
  ps_ttl :: int
  ps_items :: "pending_entry gomap"
  ps_audit :: "audit_log option"

abbreviation (input) auditTypeVerifyPendingOpened :: string where
  "auditTypeVerifyPendingOpened \<equiv> ''verify_pending_opened''"
abbreviation (input) auditTypeVerifyPendingReleased :: string where
  "auditTypeVerifyPendingReleased \<equiv> ''verify_pending_released''"
abbreviation (input) auditTypeVerifyPendingExpired :: string where
  "auditTypeVerifyPendingExpired \<equiv> ''verify_pending_expired''"

definition ErrPhoneBusy :: go_error where
  "ErrPhoneBusy = ErrText ''twilio: phone has a pending verification within TTL''"

definition NewPendingSet :: "int \<Rightarrow> audit_log option \<Rightarrow> pending_set" where
  "NewPendingSet ttl audit = \<lparr>ps_ttl = ttl, ps_items = [], ps_audit = audit\<rparr>"

section \<open>Operations\<close>

definition pending_row :: "string \<Rightarrow> string \<Rightarrow> string \<Rightarrow> time \<Rightarrow> row" where
  "pending_row typ requestID phone ts =
     [(''type'', jstring typ), (''request_id'', jstring requestID), (''recipient_masked'', jstring (MaskPhone phone)),
      (''recipient_phone'', jstring phone), (''wall_ts'', jstring (format_time ts))]"

text \<open>A row written by the adapter; the errors of the audit log are only printed.\<close>

definition write_row :: "fs_outcome \<Rightarrow> time \<Rightarrow> row \<Rightarrow> pending_set \<Rightarrow> pending_set" where
  "write_row fs now row ps = ps\<lparr>ps_audit := map_option (\<lambda>a. snd (audit_Write fs now row a)) (ps_audit ps)\<rparr>"

definition emit :: "fs_outcome \<Rightarrow> string \<Rightarrow> string \<Rightarrow> string \<Rightarrow> time \<Rightarrow> pending_set \<Rightarrow> pending_set" where
  "emit fs typ requestID phone ts ps = write_row fs ts (pending_row typ requestID phone ts) ps"

definition drop_entry :: "fs_outcome \<Rightarrow> string \<Rightarrow> string \<Rightarrow> pending_entry \<Rightarrow> time \<Rightarrow> pending_set \<Rightarrow> pending_set" where
  "drop_entry fs typ phone entry now ps =
     emit fs typ (pe_RequestID entry) phone now (ps\<lparr>ps_items := gdel phone (ps_items ps)\<rparr>)"

definition OpenPending ::
    "time \<Rightarrow> fs_outcome \<Rightarrow> fs_outcome \<Rightarrow> string \<Rightarrow> string \<Rightarrow> pending_set \<Rightarrow> go_error option \<times> pending_set" where
  "OpenPending now fs1 fs2 phone requestID ps =
     (let claim = (\<lambda>ps. emit fs2 auditTypeVerifyPendingOpened requestID phone now
             (ps\<lparr>ps_items := gput phone \<lparr>pe_RequestID = requestID, pe_OpenedAt = now\<rparr> (ps_items ps)\<rparr>)) in
      case gget (ps_items ps) phone of
        Some existing \<Rightarrow>
          (if time_sub now (pe_OpenedAt existing) < ps_ttl ps then (Some ErrPhoneBusy, ps)
           else (None, claim (drop_entry fs1 auditTypeVerifyPendingExpired phone existing now ps)))
      | None \<Rightarrow> (None, claim ps))"

definition Resolve :: "time \<Rightarrow> fs_outcome \<Rightarrow> string \<Rightarrow> pending_set \<Rightarrow> string option \<times> pending_set" where
  "Resolve now fs phone ps =
     (case gget (ps_items ps) phone of
        None \<Rightarrow> (None, ps)
      | Some entry \<Rightarrow>
          (if time_sub now (pe_OpenedAt entry) \<ge> ps_ttl ps then
             (None, drop_entry fs auditTypeVerifyPendingExpired phone entry now ps)
           else (Some (pe_RequestID entry), ps)))"

definition Release :: "time \<Rightarrow> fs_outcome \<Rightarrow> string \<Rightarrow> pending_set \<Rightarrow> pending_set" where
  "Release now fs phone ps =
     (case gget (ps_items ps) phone of
        None \<Rightarrow> ps
      | Some entry \<Rightarrow> drop_entry fs auditTypeVerifyPendingReleased phone entry now ps)"

text \<open>
  \<open>order\<close> is the order in which the range loop visits the phones; the entries visited are those of
  the set at the start, since only the visited key is deleted.
\<close>

fun ExpireDue :: "time \<Rightarrow> (string \<Rightarrow> fs_outcome) \<Rightarrow> string list \<Rightarrow> pending_set \<Rightarrow> nat \<times> pending_set" where
  "ExpireDue now fs [] ps = (0, ps)"
| "ExpireDue now fs (phone # order) ps =
     (case gget (ps_items ps) phone of
        None \<Rightarrow> ExpireDue now fs order ps
      | Some entry \<Rightarrow>
          (if time_sub now (pe_OpenedAt entry) \<ge> ps_ttl ps then
             (let (count, ps') = ExpireDue now fs order
                (drop_entry (fs phone) auditTypeVerifyPendingExpired phone entry now ps)
              in (Suc count, ps'))
           else ExpireDue now fs order ps))"

section \<open>Replay\<close>

record audit_row =
  ar_Type :: string
  ar_RequestID :: string
  ar_RecipientPhone :: string
  ar_WallTS :: string

definition zero_audit_row :: audit_row where
  "zero_audit_row = \<lparr>ar_Type = [], ar_RequestID = [], ar_RecipientPhone = [], ar_WallTS = []\<rparr>"

definition audit_row_fields :: "audit_row fields" where
  "audit_row_fields =
     [(''type'', dec_field (\<lambda>x r. r\<lparr>ar_Type := x\<rparr>) ar_Type dec_string),
      (''request_id'', dec_field (\<lambda>x r. r\<lparr>ar_RequestID := x\<rparr>) ar_RequestID dec_string),
      (''recipient_phone'', dec_field (\<lambda>x r. r\<lparr>ar_RecipientPhone := x\<rparr>) ar_RecipientPhone dec_string),
      (''wall_ts'', dec_field (\<lambda>x r. r\<lparr>ar_WallTS := x\<rparr>) ar_WallTS dec_string)]"

definition unmarshal_audit_row :: "string \<Rightarrow> audit_row option" where
  "unmarshal_audit_row line = Option.bind (json_parse line) (\<lambda>j. dec_struct audit_row_fields j zero_audit_row)"

definition pending_type :: "string \<Rightarrow> bool" where
  "pending_type t \<longleftrightarrow> t = auditTypeVerifyPendingOpened \<or> t = auditTypeVerifyPendingReleased
     \<or> t = auditTypeVerifyPendingExpired"

text \<open>
  One line. The \<open>break\<close> in the default branch leaves only the switch, so an unterminated last line
  of another type goes on to the remaining checks and may be kept; the second loop ignores it.
\<close>

definition replay_row :: "bool \<Rightarrow> string \<Rightarrow> (audit_row \<times> time) option" where
  "replay_row eof line =
     (if line = [] then None
      else case unmarshal_audit_row line of
        None \<Rightarrow> None
      | Some row \<Rightarrow>
          (if \<not> pending_type (ar_Type row) \<and> \<not> eof then None
           else if ar_RecipientPhone row = [] \<or> ar_RequestID row = [] then None
           else case parse_time False (ar_WallTS row) of
             None \<Rightarrow> None
           | Some ts \<Rightarrow> Some (row, ts)))"

fun replay_rows :: "string list \<Rightarrow> (audit_row \<times> time) list" where
  "replay_rows [] = []"
| "replay_rows (line # ls) =
     (case replay_row (ls = []) line of None \<Rightarrow> [] | Some p \<Rightarrow> [p]) @ replay_rows ls"

definition apply_row :: "audit_row \<times> time \<Rightarrow> pending_entry gomap \<Rightarrow> pending_entry gomap" where
  "apply_row p items =
     (let row = fst p in
      if ar_Type row = auditTypeVerifyPendingOpened then
        gput (ar_RecipientPhone row) \<lparr>pe_RequestID = ar_RequestID row, pe_OpenedAt = snd p\<rparr> items
      else if ar_Type row = auditTypeVerifyPendingReleased \<or> ar_Type row = auditTypeVerifyPendingExpired then
        (case gget items (ar_RecipientPhone row) of
           Some existing \<Rightarrow>
             (if pe_RequestID existing = ar_RequestID row then gdel (ar_RecipientPhone row) items else items)
         | None \<Rightarrow> items)
      else items)"

text \<open>The file as read: an error, absent (\<open>None\<close>), or its contents.\<close>

definition ReplayFromAudit :: "string option result \<Rightarrow> pending_set \<Rightarrow> go_error option \<times> pending_set" where
  "ReplayFromAudit file ps =
     (case file of
        Inl err \<Rightarrow> (Some err, ps)
      | Inr None \<Rightarrow> (None, ps)
      | Inr (Some content) \<Rightarrow>
          (let rows = sort_key snd (replay_rows (read_lines content))
           in (None, ps\<lparr>ps_items := fold apply_row rows (ps_items ps)\<rparr>)))"

section \<open>Rows as replay reads them\<close>

lemma json_quote_plain_key: "plain_key k \<Longrightarrow> json_quote k = k"
proof (induction k)
  case (Cons c k)
  then have c: "95 \<le> byte c" "byte c < 123" by (simp_all add: plain_key_def)
  have d: "c \<noteq> d" if "byte d < 95" for d using that c(1) by auto
  have "quote_byte c = [c]"
    using c(1) d [of dquote] d [of bslash] d [of "CHR 0x0A"] d [of "CHR 0x0D"] d [of "CHR 0x09"]
      d [of "CHR ''<''"] d [of "CHR ''>''"] d [of "CHR ''&''"]
    unfolding quote_byte_def by (simp add: byte_def)
  with Cons c show ?case by (subst json_quote.simps(2)) (simp add: plain_key_def)
qed (simp add: json_quote.simps)

lemma gkeys_pending_row:
  "gkeys (pending_row typ rid phone ts) = [''recipient_masked'', ''recipient_phone'', ''request_id'', ''type'', ''wall_ts'']"
proof -
  have "sort (remdups [''type'', ''request_id'', ''recipient_masked'', ''recipient_phone'', ''wall_ts''])
      = [''recipient_masked'', ''recipient_phone'', ''request_id'', ''type'', ''wall_ts'']" by code_simp
  then show ?thesis by (simp add: gkeys_def pending_row_def)
qed

lemma row_json_pending:
  "row_json (pending_row typ rid phone ts) = JObj
     [(''recipient_masked'', jstring (MaskPhone phone)), (''recipient_phone'', jstring phone),
      (''request_id'', jstring rid), (''type'', jstring typ), (''wall_ts'', jstring (format_time ts))]"
  by (simp add: row_json_def gkeys_pending_row json_quote_plain_key plain_key_eval byte_def)
     (simp add: pending_row_def gget_def)

lemma dec_members_unknown:
  "plain_key k \<Longrightarrow> find_field fs k = None \<Longrightarrow> dec_members fs ((k, v) # ms) r = dec_members fs ms r"
  by (simp add: dec_members.simps(2) json_unquote_plain_key)

lemma ascii_lower_plain: "95 \<le> byte c \<Longrightarrow> byte c < 123 \<Longrightarrow> ascii_lower c = c"
  by (simp add: ascii_lower_def)

lemma fold_key_plain: "plain_key k \<Longrightarrow> fold_key k = k"
proof (induction k)
  case (Cons c k)
  then have c: "95 \<le> byte c" "byte c < 123" by (simp_all add: plain_key_def)
  then have "c \<noteq> CHR 0xC5" "c \<noteq> CHR 0xE2" by (auto simp: byte_def)
  with Cons c show ?case by (simp add: ascii_lower_plain plain_key_def)
qed simp

lemma find_field_audit:
  "plain_key k \<Longrightarrow> k \<notin> {''type'', ''request_id'', ''recipient_phone'', ''wall_ts''} \<Longrightarrow>
   find_field audit_row_fields k = None"
  by (auto simp: find_field_def audit_row_fields_def fold_key_plain plain_key_eval byte_def simp del: fold_key.simps)

lemma valid_utf8_format [simp]: "valid_utf8 (format_time t)"
  using format_time_chars [of _ t] by (intro valid_utf8_ascii_only) (fastforce simp: is_digit_def byte_def)

lemma row_line_parse:
  assumes "\<And>k v. gget row k = Some v \<Longrightarrow> wf_json v"
  shows "json_parse (row_line row) = Some (row_json row)" "newline \<notin> set (row_line row)" "row_line row \<noteq> []"
proof -
  have w: "wf_json (row_json row)" using wf_row_json assms by blast
  show "json_parse (row_line row) = Some (row_json row)" using json_parse_print [OF w] by (simp add: row_line_def)
  show "newline \<notin> set (row_line row)" using json_print_no_newline [OF w] by (simp add: row_line_def)
  show "row_line row \<noteq> []" by (simp add: row_line_def row_json_def)
qed

lemma wf_jstring [simp]: "wf_json (jstring s)"
  using canonical_scalars(1) [of s] by (simp add: canonical_def)

lemma wf_pending_row: "gget (pending_row typ rid phone ts) k = Some v \<Longrightarrow> wf_json v"
  by (auto simp: pending_row_def gget_def split: if_splits)

lemma unmarshal_pending_row:
  assumes "pending_type typ" "valid_utf8 rid" "valid_utf8 phone"
  shows "unmarshal_audit_row (row_line (pending_row typ rid phone ts)) =
    Some \<lparr>ar_Type = typ, ar_RequestID = rid, ar_RecipientPhone = phone, ar_WallTS = format_time ts\<rparr>"
proof -
  have t: "valid_utf8 typ" using assms(1) by (auto simp: pending_type_def byte_def)
  have m: "plain_key ''recipient_masked''" by (simp add: plain_key_eval byte_def)
  have "dec_struct audit_row_fields (row_json (pending_row typ rid phone ts)) zero_audit_row =
      Some \<lparr>ar_Type = typ, ar_RequestID = rid, ar_RecipientPhone = phone, ar_WallTS = format_time ts\<rparr>"
    unfolding row_json_pending dec_struct_JObj
    by (subst dec_members_unknown [OF m find_field_audit [OF m]])
       (use assms t in \<open>simp_all add: audit_row_fields_def zero_audit_row_def codec_simps\<close>)
  then show ?thesis using row_line_parse(1) [OF wf_pending_row] by (simp add: unmarshal_audit_row_def)
qed

lemma replay_pending_row:
  assumes "pending_type typ" "rid \<noteq> []" "phone \<noteq> []" "valid_utf8 rid" "valid_utf8 phone" "time_ok ts"
  shows "replay_row eof (row_line (pending_row typ rid phone ts)) =
    Some (\<lparr>ar_Type = typ, ar_RequestID = rid, ar_RecipientPhone = phone, ar_WallTS = format_time ts\<rparr>, ts)"
  using assms unmarshal_pending_row [of "typ" rid phone ts] row_line_parse(3) [OF wf_pending_row] parse_format_time
  by (simp add: replay_row_def)

text \<open>
  The other rows of the adapter carry no \<open>recipient_phone\<close>; whatever else is in them, replay skips
  them.
\<close>

definition foreign_row :: "row \<Rightarrow> bool" where
  "foreign_row row \<longleftrightarrow> (\<forall>k v. gget row k = Some v \<longrightarrow> plain_key k \<and> k \<noteq> ''recipient_phone'' \<and> wf_json v)"

lemma dec_field_keeps: "(\<And>x. g (upd x r) = g r) \<Longrightarrow> \<forall>r1. dec_field upd sel d j r = Some r1 \<longrightarrow> g r1 = g r"
  by (auto simp: dec_field_def)

lemma dec_members_keeps_phone:
  assumes "dec_members audit_row_fields ms r = Some r'"
    and "\<And>k v. (k, v) \<in> set ms \<Longrightarrow> plain_key k \<and> k \<noteq> ''recipient_phone''"
  shows "ar_RecipientPhone r' = ar_RecipientPhone r"
  using assms
proof (induction ms arbitrary: r)
  case (Cons m ms)
  obtain k v where m: "m = (k, v)" by (cases m)
  with Cons.prems(2) [of k v] have k: "plain_key k" "k \<noteq> ''recipient_phone''" by simp_all
  have ih: "dec_members audit_row_fields ms r1 = Some r' \<Longrightarrow> ar_RecipientPhone r' = ar_RecipientPhone r1" for r1
    using Cons.IH [of r1] Cons.prems(2) by (meson list.set_intros(2))
  show ?case
  proof (cases "find_field audit_row_fields k")
    case None
    with Cons.prems(1) m k ih show ?thesis by (simp add: dec_members_unknown)
  next
    case (Some d)
    with find_field_audit [OF k(1)] k(2) have "k = ''type'' \<or> k = ''request_id'' \<or> k = ''wall_ts''" by fastforce
    then have "\<exists>d. map_of audit_row_fields k = Some d \<and> (\<forall>r1. d v r = Some r1 \<longrightarrow> ar_RecipientPhone r1 = ar_RecipientPhone r)"
      by (elim disjE; simp add: audit_row_fields_def; intro dec_field_keeps; simp)
    then obtain d where d: "map_of audit_row_fields k = Some d"
      and keep: "d v r = Some r1 \<Longrightarrow> ar_RecipientPhone r1 = ar_RecipientPhone r" for r1 by blast
    from Cons.prems(1) m k(1) d obtain r1 where "d v r = Some r1" "dec_members audit_row_fields ms r1 = Some r'"
      by (auto simp: dec_members_plain bind_eq_Some_conv)
    with ih [of r1] keep [of r1] show ?thesis by simp
  qed
qed simp

lemma replay_foreign_row: "foreign_row row \<Longrightarrow> replay_row eof (row_line row) = None"
proof -
  assume f: "foreign_row row"
  then have w: "\<And>k v. gget row k = Some v \<Longrightarrow> wf_json v" by (auto simp: foreign_row_def)
  have "ar_RecipientPhone r = []" if "dec_struct audit_row_fields (row_json row) zero_audit_row = Some r" for r
  proof -
    have "ar_RecipientPhone r = ar_RecipientPhone zero_audit_row"
    proof (rule dec_members_keeps_phone)
      show "dec_members audit_row_fields (map (\<lambda>k. (json_quote k, the (gget row k))) (gkeys row)) zero_audit_row = Some r"
        using that by (simp add: row_json_def dec_struct_JObj)
      show "plain_key k \<and> k \<noteq> ''recipient_phone''" if "(k, v) \<in> set (map (\<lambda>k. (json_quote k, the (gget row k))) (gkeys row))" for k v
        using that f gm.keys_iff [of _ row] by (auto simp: foreign_row_def json_quote_plain_key)
    qed
    then show ?thesis by (simp add: zero_audit_row_def)
  qed
  then show ?thesis
    using row_line_parse(1) [OF w] by (auto simp: replay_row_def unmarshal_audit_row_def split: option.splits)
qed

section \<open>The audit log as durable state\<close>

definition entry_ok :: "string \<Rightarrow> string \<Rightarrow> bool" where
  "entry_ok phone rid \<longleftrightarrow> phone \<noteq> [] \<and> rid \<noteq> [] \<and> valid_utf8 phone \<and> valid_utf8 rid"

definition row_effect :: "row \<Rightarrow> (audit_row \<times> time) list" where
  "row_effect row = (case replay_row False (row_line row) of None \<Rightarrow> [] | Some p \<Rightarrow> [p])"

definition row_good :: "row \<Rightarrow> bool" where
  "row_good row \<longleftrightarrow> newline \<notin> set (row_line row) \<and> row_line row \<noteq> []"

definition tracks :: "time \<Rightarrow> row list \<Rightarrow> pending_set \<Rightarrow> bool" where
  "tracks t rs ps \<longleftrightarrow> (\<exists>a. ps_audit ps = Some a \<and> al_file a = file_lines row_line rs)
     \<and> list_all row_good rs
     \<and> sorted (map snd (concat (map row_effect rs))) \<and> (\<forall>p \<in> set (concat (map row_effect rs)). snd p \<le> t)
     \<and> fold apply_row (concat (map row_effect rs)) [] = ps_items ps
     \<and> (\<forall>phone e. gget (ps_items ps) phone = Some e \<longrightarrow> entry_ok phone (pe_RequestID e))"

lemma replay_rows_file: "replay_rows (map row_line rs @ [[]]) = concat (map row_effect rs)"
  by (induction rs) (simp_all add: row_effect_def replay_row_def split: option.splits)

lemma tracks_replay:
  assumes "tracks t rs ps" "ps_audit ps = Some a"
  shows "ReplayFromAudit (Inr (Some (al_file a))) (NewPendingSet ttl (Some a))
    = (None, \<lparr>ps_ttl = ttl, ps_items = ps_items ps, ps_audit = Some a\<rparr>)"
proof -
  have "read_lines (al_file a) = map row_line rs @ [[]]"
    using assms read_lines_file [of rs row_line] by (auto simp: tracks_def row_good_def list_all_iff)
  then have "replay_rows (read_lines (al_file a)) = concat (map row_effect rs)" by (simp only: replay_rows_file)
  moreover have "sort_key snd (concat (map row_effect rs)) = concat (map row_effect rs)"
    using assms(1) by (simp add: tracks_def sorted_sort_id sort_key_id_if_sorted)
  ultimately show ?thesis using assms(1) by (simp add: ReplayFromAudit_def NewPendingSet_def tracks_def)
qed

lemma write_row_tracks:
  assumes "tracks t rs ps" "t \<le> now" "row_good row" "with_wall_ts now row = row"
    and "\<And>p. p \<in> set (row_effect row) \<Longrightarrow> snd p = now"
    and "items = fold apply_row (row_effect row) (ps_items ps)"
    and "\<And>phone e. gget items phone = Some e \<Longrightarrow> entry_ok phone (pe_RequestID e)"
  shows "tracks now (rs @ [row]) (write_row FsOk now row (ps\<lparr>ps_items := items\<rparr>))"
proof -
  obtain a where a: "ps_audit ps = Some a" "al_file a = file_lines row_line rs" using assms(1) by (auto simp: tracks_def)
  have "sorted (map snd (row_effect row))" by (auto simp: row_effect_def split: option.splits)
  moreover have "\<forall>p \<in> set (concat (map row_effect rs)). \<forall>q \<in> set (row_effect row). snd p \<le> snd q"
    using assms(1,2,5) by (fastforce simp: tracks_def)
  ultimately have "sorted (map snd (concat (map row_effect (rs @ [row]))))"
    using assms(1) by (auto simp: tracks_def sorted_append)
  moreover have "\<forall>p \<in> set (concat (map row_effect (rs @ [row]))). snd p \<le> now"
    using assms(1,2,5) by (fastforce simp: tracks_def)
  ultimately show ?thesis
    using assms a by (simp add: tracks_def write_row_def audit_Write_def Let_def)
qed

lemma row_good_wf: "(\<And>k v. gget row k = Some v \<Longrightarrow> wf_json v) \<Longrightarrow> row_good row"
  using row_line_parse(2,3) by (simp add: row_good_def)

lemma emit_tracks:
  assumes "tracks t rs ps" "t \<le> now" "time_ok now" "pending_type typ" "entry_ok phone rid"
    and "items = apply_row (\<lparr>ar_Type = typ, ar_RequestID = rid, ar_RecipientPhone = phone, ar_WallTS = format_time now\<rparr>, now)
           (ps_items ps)"
    and "\<And>q e. gget items q = Some e \<Longrightarrow> entry_ok q (pe_RequestID e)"
  shows "\<exists>rs'. tracks now rs' (emit FsOk typ rid phone now (ps\<lparr>ps_items := items\<rparr>))"
proof -
  let ?row = "pending_row typ rid phone now"
  have e: "row_effect ?row = [(\<lparr>ar_Type = typ, ar_RequestID = rid, ar_RecipientPhone = phone, ar_WallTS = format_time now\<rparr>, now)]"
    using assms(3-5) replay_pending_row [of "typ" rid phone now] by (simp add: row_effect_def entry_ok_def)
  have w: "with_wall_ts now ?row = ?row" by (simp add: with_wall_ts_def pending_row_def gget_def)
  have g: "row_good ?row" by (rule row_good_wf) (rule wf_pending_row)
  have "tracks now (rs @ [?row]) (write_row FsOk now ?row (ps\<lparr>ps_items := items\<rparr>))"
    by (rule write_row_tracks [OF assms(1,2) g w]) (simp_all add: e assms(6) assms(7) [unfolded assms(6)])
  then show ?thesis unfolding emit_def by blast
qed

lemma tracks_entry: "tracks t rs ps \<Longrightarrow> gget (ps_items ps) phone = Some e \<Longrightarrow> entry_ok phone (pe_RequestID e)"
  by (simp add: tracks_def)

lemma drop_entry_tracks:
  assumes "tracks t rs ps" "t \<le> now" "time_ok now" "gget (ps_items ps) phone = Some e"
    and "typ = auditTypeVerifyPendingReleased \<or> typ = auditTypeVerifyPendingExpired"
  shows "\<exists>rs'. tracks now rs' (drop_entry FsOk typ phone e now ps)"
  unfolding drop_entry_def
proof (rule emit_tracks [OF assms(1-3)])
  show "pending_type typ" using assms(5) by (auto simp: pending_type_def)
  show "entry_ok phone (pe_RequestID e)" using tracks_entry [OF assms(1,4)] .
  show "gdel phone (ps_items ps) = apply_row (\<lparr>ar_Type = typ, ar_RequestID = pe_RequestID e, ar_RecipientPhone = phone,
      ar_WallTS = format_time now\<rparr>, now) (ps_items ps)"
    using assms(4,5) by (auto simp: apply_row_def)
  show "entry_ok q (pe_RequestID x)" if "gget (gdel phone (ps_items ps)) q = Some x" for q x
    using that tracks_entry [OF assms(1)] by (auto split: if_splits)
qed

lemma claim_tracks:
  assumes "tracks t rs ps" "t \<le> now" "time_ok now" "entry_ok phone rid"
  shows "\<exists>rs'. tracks now rs' (emit FsOk auditTypeVerifyPendingOpened rid phone now
      (ps\<lparr>ps_items := gput phone \<lparr>pe_RequestID = rid, pe_OpenedAt = now\<rparr> (ps_items ps)\<rparr>))"
proof (rule emit_tracks [OF assms(1-3)])
  show "entry_ok q (pe_RequestID x)" if "gget (gput phone \<lparr>pe_RequestID = rid, pe_OpenedAt = now\<rparr> (ps_items ps)) q = Some x" for q x
    using that assms(4) tracks_entry [OF assms(1)] by (auto split: if_splits)
qed (use assms(4) in \<open>simp_all add: pending_type_def apply_row_def\<close>)

lemma tracks_later: "tracks t rs ps \<Longrightarrow> t \<le> t' \<Longrightarrow> tracks t' rs ps"
  unfolding tracks_def by (meson order_trans)

lemma OpenPending_tracks:
  assumes "tracks t rs ps" "t \<le> now" "time_ok now" "entry_ok phone rid"
  shows "\<exists>rs'. tracks now rs' (snd (OpenPending now FsOk FsOk phone rid ps))"
proof (cases "gget (ps_items ps) phone")
  case None
  with claim_tracks [OF assms] show ?thesis by (simp add: OpenPending_def)
next
  case (Some e)
  obtain rs' where "tracks now rs' (drop_entry FsOk auditTypeVerifyPendingExpired phone e now ps)"
    using drop_entry_tracks [OF assms(1-3) Some] by blast
  from claim_tracks [OF this order_refl assms(3,4)] Some tracks_later [OF assms(1,2)] show ?thesis
    by (auto simp: OpenPending_def Let_def)
qed

lemma Resolve_tracks:
  assumes "tracks t rs ps" "t \<le> now" "time_ok now"
  shows "\<exists>rs'. tracks now rs' (snd (Resolve now FsOk phone ps))"
  using drop_entry_tracks [OF assms, of phone] tracks_later [OF assms(1,2)]
  by (auto simp: Resolve_def split: option.splits)

lemma Release_tracks:
  assumes "tracks t rs ps" "t \<le> now" "time_ok now"
  shows "\<exists>rs'. tracks now rs' (Release now FsOk phone ps)"
  using drop_entry_tracks [OF assms, of phone] tracks_later [OF assms(1,2)]
  by (auto simp: Release_def split: option.splits)

lemma ExpireDue_tracks:
  "tracks t rs ps \<Longrightarrow> t \<le> now \<Longrightarrow> time_ok now \<Longrightarrow> \<exists>rs'. tracks now rs' (snd (ExpireDue now (\<lambda>_. FsOk) order ps))"
proof (induction order arbitrary: t rs ps)
  case (Cons phone order)
  show ?case
  proof (cases "gget (ps_items ps) phone")
    case (Some e)
    obtain rs' where "tracks now rs' (drop_entry FsOk auditTypeVerifyPendingExpired phone e now ps)"
      using drop_entry_tracks [OF Cons.prems Some] by blast
    from Cons.IH [OF this order_refl Cons.prems(3)] Cons.IH [OF Cons.prems] Some show ?thesis
      by (auto split: prod.splits)
  qed (use Cons in simp)
qed (use tracks_later in \<open>auto; blast\<close>)

lemma foreign_tracks:
  assumes "tracks t rs ps" "t \<le> now" "foreign_row row"
  shows "\<exists>rs'. tracks now rs' (write_row FsOk now row ps)"
proof -
  let ?row = "with_wall_ts now row"
  have f: "foreign_row ?row"
    using assms(3) by (auto simp: foreign_row_def with_wall_ts_def plain_key_eval byte_def)
  have w: "with_wall_ts now ?row = ?row" by (simp add: with_wall_ts_def)
  have g: "row_good ?row" by (rule row_good_wf) (use f in \<open>auto simp: foreign_row_def\<close>)
  have e: "row_effect ?row = []" using replay_foreign_row [OF f] by (simp add: row_effect_def)
  have "tracks now (rs @ [?row]) (write_row FsOk now ?row (ps\<lparr>ps_items := ps_items ps\<rparr>))"
    by (rule write_row_tracks [OF assms(1,2) g w]) (simp_all add: e tracks_entry [OF assms(1)])
  moreover have "write_row FsOk now ?row ps = write_row FsOk now row ps"
    by (simp add: write_row_def audit_Write_def w)
  ultimately show ?thesis by auto
qed

section \<open>Sequences of calls\<close>

datatype ps_op =
    OpOpen string string
  | OpResolve string
  | OpRelease string
  | OpExpire "string list"
  | OpRow row

text \<open>A call with its clock reading and the outcomes of its audit writes.\<close>

type_synonym ps_call = "time \<times> fs_outcome \<times> fs_outcome \<times> ps_op"

fun ps_exec :: "ps_call \<Rightarrow> pending_set \<Rightarrow> pending_set" where
  "ps_exec (now, fs1, fs2, OpOpen phone rid) ps = snd (OpenPending now fs1 fs2 phone rid ps)"
| "ps_exec (now, fs1, fs2, OpResolve phone) ps = snd (Resolve now fs1 phone ps)"
| "ps_exec (now, fs1, fs2, OpRelease phone) ps = Release now fs1 phone ps"
| "ps_exec (now, fs1, fs2, OpExpire order) ps = snd (ExpireDue now (\<lambda>_. fs1) order ps)"
| "ps_exec (now, fs1, fs2, OpRow row) ps = write_row fs1 now row ps"

fun call_good :: "ps_call \<Rightarrow> bool" where
  "call_good (now, fs1, fs2, op) \<longleftrightarrow> time_ok now \<and> fs1 = FsOk \<and> fs2 = FsOk
     \<and> (case op of OpOpen phone rid \<Rightarrow> entry_ok phone rid | OpRow row \<Rightarrow> foreign_row row | _ \<Rightarrow> True)"

lemma ps_exec_tracks:
  assumes "tracks t rs ps" "call_good c" "t \<le> fst c"
  shows "\<exists>rs'. tracks (fst c) rs' (ps_exec c ps)"
proof -
  obtain now op where c: "c = (now, FsOk, FsOk, op)" "time_ok now" "t \<le> now" using assms(2,3) by (cases c) auto
  with assms(2) OpenPending_tracks [OF assms(1) c(3,2)] Resolve_tracks [OF assms(1) c(3,2)]
    Release_tracks [OF assms(1) c(3,2)] ExpireDue_tracks [OF assms(1) c(3,2)] foreign_tracks [OF assms(1) c(3)]
  show ?thesis by (cases op) auto
qed

lemma ps_run_tracks:
  "tracks t rs ps \<Longrightarrow> list_all call_good calls \<Longrightarrow> sorted (t # map fst calls) \<Longrightarrow>
   \<exists>t' rs'. tracks t' rs' (fold ps_exec calls ps)"
proof (induction calls arbitrary: t rs ps)
  case (Cons c calls)
  then obtain rs' where "tracks (fst c) rs' (ps_exec c ps)" using ps_exec_tracks [OF Cons.prems(1), of c] by auto
  from Cons.IH [OF this] Cons.prems(2,3) show ?case by simp
qed auto

text \<open>
  Restart of the adapter. Start with an empty audit log and run any sequence of calls with a
  clock that does not go backwards and audit writes that succeed, rows of other parts of the adapter
  among them. Replaying the log into a fresh set gives exactly the entries the set had: the phones,
  their requests and when they were opened.
\<close>

theorem replay_restores_pending:
  assumes "list_all call_good calls" "sorted (map fst calls)"
    and "ps = fold ps_exec calls (NewPendingSet ttl (Some \<lparr>al_path = path, al_file = []\<rparr>))"
  shows "\<exists>a. ps_audit ps = Some a \<and> ReplayFromAudit (Inr (Some (al_file a))) (NewPendingSet ttl (Some a))
    = (None, \<lparr>ps_ttl = ttl, ps_items = ps_items ps, ps_audit = Some a\<rparr>)"
proof -
  let ?t = "if calls = [] then 0 else fst (hd calls)"
  have "tracks ?t [] (NewPendingSet ttl (Some \<lparr>al_path = path, al_file = []\<rparr>))"
    by (simp add: tracks_def NewPendingSet_def)
  moreover have "sorted (?t # map fst calls)" using assms(2) by (cases calls) auto
  ultimately obtain t' rs' where "tracks t' rs' ps" using ps_run_tracks [OF _ assms(1)] assms(3) by blast
  moreover from this obtain a where "ps_audit ps = Some a" by (auto simp: tracks_def)
  ultimately show ?thesis using tracks_replay by blast
qed

section \<open>One verification per phone\<close>

lemma time_sub_mono: "t \<le> t' \<Longrightarrow> time_sub t u \<le> time_sub t' u"
  by (simp add: time_sub_def)

lemma write_row_simps [simp]:
  "ps_ttl (write_row fs now row ps) = ps_ttl ps" "ps_items (write_row fs now row ps) = ps_items ps"
  by (simp_all add: write_row_def)

lemma emit_simps [simp]:
  "ps_ttl (emit fs t r p now ps) = ps_ttl ps" "ps_items (emit fs t r p now ps) = ps_items ps"
  by (simp_all add: emit_def)

lemma drop_entry_simps [simp]:
  "ps_ttl (drop_entry fs t p e now ps) = ps_ttl ps" "ps_items (drop_entry fs t p e now ps) = gdel p (ps_items ps)"
  by (simp_all add: drop_entry_def)

definition holds :: "string \<Rightarrow> pending_entry \<Rightarrow> pending_set \<Rightarrow> bool" where
  "holds phone e ps \<longleftrightarrow> gget (ps_items ps) phone = Some e"

lemma ExpireDue_holds:
  "holds phone e ps \<Longrightarrow> time_sub now (pe_OpenedAt e) < ps_ttl ps \<Longrightarrow>
   holds phone e (snd (ExpireDue now fs order ps)) \<and> ps_ttl (snd (ExpireDue now fs order ps)) = ps_ttl ps"
proof (induction order arbitrary: ps)
  case (Cons p order)
  show ?case
  proof (cases "gget (ps_items ps) p")
    case (Some x)
    show ?thesis
    proof (cases "p = phone")
      case True
      with Cons.prems Some Cons.IH [of ps] show ?thesis by (simp add: holds_def)
    next
      case False
      then show ?thesis
      using Cons.IH [of ps] Cons.IH [of "drop_entry (fs p) auditTypeVerifyPendingExpired p x now ps"] Cons.prems Some
      by (auto simp: holds_def split: prod.splits)
    qed
  qed (use Cons in simp)
qed simp

lemma ps_exec_holds:
  assumes "holds phone e ps" "time_sub (fst c) (pe_OpenedAt e) < ps_ttl ps" "snd (snd (snd c)) \<noteq> OpRelease phone"
  shows "holds phone e (ps_exec c ps) \<and> ps_ttl (ps_exec c ps) = ps_ttl ps"
proof -
  obtain now f1 f2 op where c: "c = (now, f1, f2, op)" by (cases c) auto
  show ?thesis
  proof (cases op)
    case (OpExpire order)
    with ExpireDue_holds [OF assms(1)] assms(2) c show ?thesis by simp
  qed (use assms c in \<open>auto simp: holds_def OpenPending_def Resolve_def Release_def Let_def split: option.splits\<close>)
qed

lemma ps_run_holds:
  "holds phone e ps \<Longrightarrow> (\<And>c. c \<in> set calls \<Longrightarrow> time_sub (fst c) (pe_OpenedAt e) < ps_ttl ps
     \<and> snd (snd (snd c)) \<noteq> OpRelease phone) \<Longrightarrow>
   holds phone e (fold ps_exec calls ps) \<and> ps_ttl (fold ps_exec calls ps) = ps_ttl ps"
proof (induction calls arbitrary: ps)
  case (Cons c calls)
  have "holds phone e (ps_exec c ps) \<and> ps_ttl (ps_exec c ps) = ps_ttl ps"
    using ps_exec_holds [OF Cons.prems(1)] Cons.prems(2) [of c] by simp
  with Cons.IH [of "ps_exec c ps"] Cons.prems(2) show ?case by simp
qed simp

lemma OpenPending_claims:
  "fst (OpenPending now f g phone rid ps) = None \<Longrightarrow>
   holds phone \<lparr>pe_RequestID = rid, pe_OpenedAt = now\<rparr> (snd (OpenPending now f g phone rid ps))
   \<and> ps_ttl (snd (OpenPending now f g phone rid ps)) = ps_ttl ps"
  by (auto simp: OpenPending_def holds_def Let_def split: option.splits if_splits)

text \<open>
  C19 (one verification per phone). Once a phone has been claimed for a request, then until the time
  to live has passed or the phone is released, whatever other calls are made and however the audit
  writes end: no other request can claim the phone, and a reply from it resolves to this request.
\<close>

theorem phone_bound_to_request:
  assumes "fst (OpenPending t1 f1 f2 phone rid ps) = None"
    and "sorted (map fst calls @ [t2])" "\<And>c. c \<in> set calls \<Longrightarrow> snd (snd (snd c)) \<noteq> OpRelease phone"
    and "time_sub t2 t1 < ps_ttl ps"
  shows "let ps' = fold ps_exec calls (snd (OpenPending t1 f1 f2 phone rid ps)) in
     OpenPending t2 g1 g2 phone rid' ps' = (Some ErrPhoneBusy, ps') \<and> Resolve t2 g1 phone ps' = (Some rid, ps')"
proof -
  let ?e = "\<lparr>pe_RequestID = rid, pe_OpenedAt = t1\<rparr>" and ?ps1 = "snd (OpenPending t1 f1 f2 phone rid ps)"
  have "time_sub (fst c) t1 < ps_ttl ps" if "c \<in> set calls" for c
    using assms(2,4) that time_sub_mono [of "fst c" t2 t1] by (fastforce simp: sorted_append)
  then have "holds phone ?e (fold ps_exec calls ?ps1) \<and> ps_ttl (fold ps_exec calls ?ps1) = ps_ttl ps"
    using ps_run_holds [of phone ?e ?ps1 calls] OpenPending_claims [OF assms(1)] assms(3) by simp
  then show ?thesis using assms(4) by (simp add: holds_def OpenPending_def Resolve_def Let_def)
qed

section \<open>What the clients of the set rely on\<close>

text \<open>
  The slots as the SMS handler and the webhook use them: claiming a slot sets it and no other,
  resolving reads it and may only drop it, releasing frees it. The argument \<open>'c\<close> is what the
  environment answers.
\<close>

locale phone_slots =
  fixes slot :: "'s \<Rightarrow> string \<Rightarrow> string option"
    and claim :: "'c \<Rightarrow> string \<Rightarrow> string \<Rightarrow> 's \<Rightarrow> go_error option \<times> 's"
    and resolve :: "'c \<Rightarrow> string \<Rightarrow> 's \<Rightarrow> string option \<times> 's"
    and release :: "'c \<Rightarrow> string \<Rightarrow> 's \<Rightarrow> 's"
  assumes claim_ok: "claim c phone rid s = (None, s') \<Longrightarrow> slot s' q = (if q = phone then Some rid else slot s q)"
    and claim_busy: "claim c phone rid s = (Some err, s') \<Longrightarrow> s' = s"
    and resolve_Some: "resolve c phone s = (Some rid, s') \<Longrightarrow> slot s phone = Some rid \<and> s' = s"
    and resolve_None: "resolve c phone s = (None, s') \<Longrightarrow> slot s' q = (if q = phone then None else slot s q)"
    and release_slot: "slot (release c phone s) q = (if q = phone then None else slot s q)"
begin

definition allotted :: "(string \<Rightarrow> string \<Rightarrow> bool) \<Rightarrow> 's \<Rightarrow> bool" where
  "allotted Q s \<longleftrightarrow> (\<forall>phone rid. slot s phone = Some rid \<longrightarrow> Q phone rid)"

lemma allotted_slots: "allotted Q s \<Longrightarrow> (\<And>q rid. slot s' q = Some rid \<Longrightarrow> slot s q = Some rid) \<Longrightarrow> allotted Q s'"
  by (auto simp: allotted_def)

lemma claim_allotted: "claim c phone rid s = (r, s') \<Longrightarrow> allotted Q s \<Longrightarrow> Q phone rid \<Longrightarrow> allotted Q s'"
  using claim_ok [of c phone rid s s'] claim_busy [of c phone rid s _ s']
  by (cases r) (auto simp: allotted_def split: if_splits)

lemma resolve_allotted: "resolve c phone s = (r, s') \<Longrightarrow> allotted Q s \<Longrightarrow> allotted Q s'"
  using resolve_Some [of c phone s _ s'] resolve_None [of c phone s s']
  by (cases r) (auto simp: allotted_def split: if_splits)

lemma release_allotted: "allotted Q s \<Longrightarrow> allotted Q (release c phone s)"
  by (simp add: allotted_def release_slot)

lemma resolved_allotted: "resolve c phone s = (Some rid, s') \<Longrightarrow> allotted Q s \<Longrightarrow> Q phone rid"
  using resolve_Some [of c phone s rid s'] by (simp add: allotted_def)

end

definition slot_of :: "pending_set \<Rightarrow> string \<Rightarrow> string option" where
  "slot_of ps phone = map_option pe_RequestID (gget (ps_items ps) phone)"

interpretation slots: phone_slots slot_of "\<lambda>(now, f1, f2). OpenPending now f1 f2" "\<lambda>(now, f1, f2). Resolve now f1"
    "\<lambda>(now, f1, f2). Release now f1"
proof
  fix c :: "time \<times> fs_outcome \<times> fs_outcome" and phone rid :: string and s s' :: pending_set and q err
  obtain now f1 f2 where c: "c = (now, f1, f2)" by (cases c)
  show "slot_of s' q = (if q = phone then Some rid else slot_of s q)"
    if "(case c of (now, f1, f2) \<Rightarrow> OpenPending now f1 f2) phone rid s = (None, s')"
    using that by (auto simp: c OpenPending_def slot_of_def Let_def split: option.splits if_splits)
  show "s' = s" if "(case c of (now, f1, f2) \<Rightarrow> OpenPending now f1 f2) phone rid s = (Some err, s')"
    using that by (auto simp: c OpenPending_def Let_def split: option.splits if_splits)
  show "slot_of s phone = Some rid \<and> s' = s" if "(case c of (now, f1, f2) \<Rightarrow> Resolve now f1) phone s = (Some rid, s')"
    using that by (auto simp: c Resolve_def slot_of_def split: option.splits if_splits)
  show "slot_of s' q = (if q = phone then None else slot_of s q)"
    if "(case c of (now, f1, f2) \<Rightarrow> Resolve now f1) phone s = (None, s')"
    using that by (auto simp: c Resolve_def slot_of_def split: option.splits if_splits)
  show "slot_of ((case c of (now, f1, f2) \<Rightarrow> Release now f1) phone s) q = (if q = phone then None else slot_of s q)"
    by (auto simp: c Release_def slot_of_def split: option.splits)
qed

text \<open>
  C35 (a late release). \<open>Release\<close> frees the slot of the phone whatever request holds it. If between the
  resolution of a reply and its release the time to live runs out and the phone is claimed for
  another request, the release takes that request's slot: its replies are not bound to anything
  any more.
\<close>

theorem late_release_frees_other_request:
  assumes "Resolve t1 f1 phone ps = (Some rid, ps1)" "OpenPending t2 g1 g2 phone rid' ps1 = (None, ps2)"
  shows "slot_of ps2 phone = Some rid' \<and> fst (Resolve t4 h1 phone (Release t3 g3 phone ps2)) = None"
proof -
  have "slot_of ps2 phone = Some rid'" using slots.claim_ok [of "(t2, g1, g2)" phone rid' ps1 ps2 phone] assms(2) by simp
  moreover have "slot_of (Release t3 g3 phone ps2) phone = None" using slots.release_slot [of "(t3, g3, FsOk)" phone ps2 phone] by simp
  ultimately show ?thesis
    using slots.resolve_Some [of "(t4, h1, FsOk)" phone "Release t3 g3 phone ps2"]
    by (cases "Resolve t4 h1 phone (Release t3 g3 phone ps2)"; cases "fst (Resolve t4 h1 phone (Release t3 g3 phone ps2))") auto
qed

section \<open>Concrete calls\<close>

definition sample_calls :: "ps_call list" where
  "sample_calls =
     [(1000, FsOk, FsOk, OpOpen ''+15550001111'' ''req_1''),
      (2000, FsOk, FsOk, OpRow [(''type'', jstring ''sms_sent''), (''request_id'', jstring ''req_1'')]),
      (3000, FsOk, FsOk, OpOpen ''+15550002222'' ''req_2''),
      (4000, FsOk, FsOk, OpRelease ''+15550002222'')]"

lemma sample_row_foreign: "foreign_row [(''type'', jstring ''sms_sent''), (''request_id'', jstring ''req_1'')]"
  by (auto simp: foreign_row_def gget_def plain_key_eval byte_def split: if_splits)

theorem replay_restores_pending_witness:
  "\<exists>a. ReplayFromAudit (Inr (Some (al_file a))) (NewPendingSet 600 (Some a))
     = (None, \<lparr>ps_ttl = 600, ps_items = [(''+15550001111'', \<lparr>pe_RequestID = ''req_1'', pe_OpenedAt = 1000\<rparr>)], ps_audit = Some a\<rparr>)"
proof -
  let ?ps = "fold ps_exec sample_calls (NewPendingSet 600 (Some \<lparr>al_path = ''/a'', al_file = []\<rparr>))"
  have "list_all call_good sample_calls" "sorted (map fst sample_calls)"
    using sample_row_foreign by (simp_all add: sample_calls_def time_ok_def entry_ok_def byte_def)
  moreover have "ps_items ?ps = [(''+15550001111'', \<lparr>pe_RequestID = ''req_1'', pe_OpenedAt = 1000\<rparr>)]"
    by (simp add: sample_calls_def OpenPending_def Release_def NewPendingSet_def gget_def gput_def gdel_def Let_def)
  ultimately show ?thesis using replay_restores_pending [of sample_calls ?ps 600 "''/a''"] by auto
qed

theorem phone_bound_to_request_witness:
  "let ps' = fold ps_exec [(1500, FsOk, FsOk, OpResolve ''+15550001111''), (1600, FsOk, FsOk, OpExpire [''+15550001111''])]
       (snd (OpenPending 1000 FsOk FsOk ''+15550001111'' ''req_1'' (NewPendingSet 900 None)))
   in OpenPending 1700 FsOk FsOk ''+15550001111'' ''req_2'' ps' = (Some ErrPhoneBusy, ps')
    \<and> Resolve 1700 FsOk ''+15550001111'' ps' = (Some ''req_1'', ps')"
  by (rule phone_bound_to_request)
     (auto simp: OpenPending_def NewPendingSet_def time_sub_def max_duration_def min_duration_def)

theorem late_release_frees_other_request_witness:
  "let (r1, ps1) = Resolve 1500 FsOk ''+15550001''
         (snd (OpenPending 1000 FsOk FsOk ''+15550001'' ''req_1'' (NewPendingSet 600 None)));
       (r2, ps2) = OpenPending 1600 FsOk FsOk ''+15550001'' ''req_2'' ps1
   in r1 = Some ''req_1'' \<and> r2 = None \<and> slot_of ps2 ''+15550001'' = Some ''req_2''
     \<and> fst (Resolve 1602 FsOk ''+15550001'' (Release 1601 FsOk ''+15550001'' ps2)) = None"
proof -
  let ?e = "\<lparr>ps_ttl = 600, ps_items = [(''+15550001'', \<lparr>pe_RequestID = ''req_1'', pe_OpenedAt = 1000\<rparr>)], ps_audit = None\<rparr>"
  let ?f = "\<lparr>ps_ttl = 600, ps_items = [(''+15550001'', \<lparr>pe_RequestID = ''req_2'', pe_OpenedAt = 1600\<rparr>)], ps_audit = None\<rparr>"
  have o: "snd (OpenPending 1000 FsOk FsOk ''+15550001'' ''req_1'' (NewPendingSet 600 None)) = ?e"
    by (simp add: OpenPending_def NewPendingSet_def emit_def write_row_def gput_def Let_def)
  have r: "Resolve 1500 FsOk ''+15550001'' ?e = (Some ''req_1'', ?e)"
    by (simp add: Resolve_def gget_def time_sub_def max_duration_def min_duration_def)
  have p: "OpenPending 1600 FsOk FsOk ''+15550001'' ''req_2'' ?e = (None, ?f)"
    by (simp add: OpenPending_def gget_def gput_def gdel_def drop_entry_def emit_def write_row_def time_sub_def max_duration_def min_duration_def Let_def)
  from late_release_frees_other_request [OF r p, of 1602 FsOk 1601 FsOk] show ?thesis by (simp add: o r p)
qed

end
