(* ===== verification/Twilio.thy ===== *)
theory Twilio
  imports Pending_Set
begin

text \<open>
  The client of the Twilio Verify service (\<open>twilio.go\<close>, \<open>verify_check.go\<close>) and the loading of its
  credentials (\<open>config.go\<close>). The HTTP exchange is not code of the repository: it is the parameter
  \<open>http\<close>, from the request that is sent to a status and a body or an error. The text of a decoding
  error is the parameter \<open>decodeErr\<close>. The errors of loading the credentials end the adapter; their
  texts are given without the file name and without the quoting of \<open>%q\<close>.
\<close>

section \<open>net/url\<close>

type_synonym form = "string list gomap"

definition form_Get :: "form \<Rightarrow> string \<Rightarrow> string" where
  "form_Get fm key = (case gget fm key of Some (v # _) \<Rightarrow> v | _ \<Rightarrow> [])"

definition form_Set :: "string \<Rightarrow> string \<Rightarrow> form \<Rightarrow> form" where
  "form_Set key v fm = gput key [v] fm"

definition url_unreserved :: "char \<Rightarrow> bool" where
  "url_unreserved c \<longleftrightarrow> is_digit c \<or> (65 \<le> byte c \<and> byte c \<le> 90) \<or> (97 \<le> byte c \<and> byte c \<le> 122)
     \<or> c \<in> set ''-_.~''"

definition upper_hex :: "nat \<Rightarrow> char" where
  "upper_hex n = (if n < 10 then char_of (48 + n) else char_of (55 + n))"

definition percent :: "char \<Rightarrow> string" where
  "percent c = [CHR ''%'', upper_hex (byte c div 16), upper_hex (byte c mod 16)]"

definition QueryEscape :: "string \<Rightarrow> string" where
  "QueryEscape s = concat (map (\<lambda>c. if url_unreserved c then [c] else if c = CHR '' '' then ''+'' else percent c) s)"

definition PathEscape :: "string \<Rightarrow> string" where
  "PathEscape s = concat (map (\<lambda>c. if url_unreserved c \<or> c \<in> set ''$&+=:@'' then [c] else percent c) s)"

definition form_Encode :: "form \<Rightarrow> string" where
  "form_Encode fm = Join (concat (map (\<lambda>k. map (\<lambda>v. QueryEscape k @ ''='' @ QueryEscape v)
     (case gget fm k of Some vs \<Rightarrow> vs | None \<Rightarrow> [])) (gkeys fm))) ''&''"

section \<open>Decoding an answer\<close>

text \<open>
  \<open>json.Unmarshal\<close> into a struct of which the caller reads the fields even after an error: a field
  that cannot hold its value is left as it is and the rest is still decoded.
\<close>

fun dec_members_partial :: "'r fields \<Rightarrow> (string \<times> json) list \<Rightarrow> 'r \<Rightarrow> 'r \<times> bool" where
  "dec_members_partial fs [] r = (r, True)"
| "dec_members_partial fs ((k, v) # ms) r =
     (case Option.bind (json_unquote k) (find_field fs) of
        None \<Rightarrow> dec_members_partial fs ms r
      | Some d \<Rightarrow>
          (case d v r of
             None \<Rightarrow> (fst (dec_members_partial fs ms r), False)
           | Some r' \<Rightarrow> dec_members_partial fs ms r'))"

definition unmarshal_partial :: "'r fields \<Rightarrow> string \<Rightarrow> 'r \<Rightarrow> 'r \<times> bool" where
  "unmarshal_partial fs text r =
     (case json_parse text of
        None \<Rightarrow> (r, False)
      | Some (JObj ms) \<Rightarrow> dec_members_partial fs ms r
      | Some JNull \<Rightarrow> (r, True)
      | Some _ \<Rightarrow> (r, False))"

section \<open>Credentials\<close>

record twilio_config =
  tc_AccountSID :: string
  tc_AuthToken :: string
  tc_VerifyServiceSID :: string
  tc_FromNumber :: string
  tc_RoutingCallbackURL :: string
  tc_RoutingCallbackKey :: string

definition unquote_value :: "string \<Rightarrow> string" where
  "unquote_value value =
     (if 2 \<le> length value
         \<and> ((hd value = CHR 0x22 \<and> last value = CHR 0x22) \<or> (hd value = CHR 0x27 \<and> last value = CHR 0x27))
      then butlast (tl value) else value)"

definition env_line :: "string \<Rightarrow> string gomap \<Rightarrow> string gomap result" where
  "env_line text kv =
     (let line = TrimSpace text in
      if line = [] \<or> HasPrefix line ''#'' then Inr kv
      else let line = TrimPrefix line ''export '' in
        case IndexByte line (CHR ''='') of
          None \<Rightarrow> Inl (ErrText (''invalid env line: '' @ line))
        | Some eq \<Rightarrow>
            (if eq = 0 then Inl (ErrText (''invalid env line: '' @ line))
             else Inr (gput (TrimSpace (take eq line)) (unquote_value (TrimSpace (drop (Suc eq) line))) kv)))"

text \<open>The scanner of the text files of the adapter stops at lines of 1 MiB.\<close>

definition text_limit :: nat where
  "text_limit = 1024 * 1024"

definition parseEnvFile :: "string \<Rightarrow> string gomap result" where
  "parseEnvFile file =
     (let (ls, tooLong) = scan_lines text_limit file in
      result_bind (result_fold env_line ls []) (\<lambda>kv. if tooLong then Inl ErrTooLong else Inr kv))"

definition config_of :: "string gomap \<Rightarrow> twilio_config" where
  "config_of kv = (let get = (\<lambda>k. case gget kv k of None \<Rightarrow> [] | Some v \<Rightarrow> v) in
     \<lparr>tc_AccountSID = get ''TWILIO_ACCOUNT_SID'', tc_AuthToken = get ''TWILIO_AUTH_TOKEN'',
      tc_VerifyServiceSID = get ''TWILIO_VERIFY_SERVICE_SID'', tc_FromNumber = get ''TWILIO_FROM_NUMBER'',
      tc_RoutingCallbackURL = get ''SMS_ROUTING_CALLBACK_URL'', tc_RoutingCallbackKey = get ''SMS_ROUTING_CALLBACK_SECRET''\<rparr>)"

definition LoadTwilioEnv :: "string result \<Rightarrow> (string \<Rightarrow> string result) \<Rightarrow> string \<Rightarrow> twilio_config result" where
  "LoadTwilioEnv wd open path =
     result_bind (Abs wd path) (\<lambda>abs.
       result_bind (open abs) (\<lambda>file.
         result_bind (parseEnvFile file) (\<lambda>kv.
           let cfg = config_of kv in
           if tc_AccountSID cfg = [] then Inl (ErrText ''TWILIO_ACCOUNT_SID missing'')
           else if tc_AuthToken cfg = [] then Inl (ErrText ''TWILIO_AUTH_TOKEN missing'')
           else if tc_VerifyServiceSID cfg = [] then Inl (ErrText ''TWILIO_VERIFY_SERVICE_SID missing'')
           else if tc_RoutingCallbackURL cfg \<noteq> [] \<and> tc_RoutingCallbackKey cfg = [] then
             Inl (ErrText ''SMS_ROUTING_CALLBACK_URL set without SMS_ROUTING_CALLBACK_SECRET'')
           else Inr cfg)))"

section \<open>The client\<close>

record twilio_client =
  cl_cfg :: twilio_config
  cl_baseURL :: string

definition NewTwilioClient :: "twilio_config \<Rightarrow> twilio_client" where
  "NewTwilioClient cfg = \<lparr>cl_cfg = cfg, cl_baseURL = ''https://verify.twilio.com''\<rparr>"

record http_call =
  hc_url :: string
  hc_user :: string
  hc_password :: string
  hc_body :: string

type_synonym http = "http_call \<Rightarrow> (nat \<times> string) result"

record verify_result =
  vr_SID :: string
  vr_Status :: string
  vr_To :: string
  vr_ServiceSid :: string
  vr_DateCreated :: string
  vr_Approved :: bool

definition zero_verify :: verify_result where
  "zero_verify = \<lparr>vr_SID = [], vr_Status = [], vr_To = [], vr_ServiceSid = [], vr_DateCreated = [], vr_Approved = False\<rparr>"

definition verify_fields :: "verify_result fields" where
  "verify_fields =
     [(''sid'', dec_field (\<lambda>x r. r\<lparr>vr_SID := x\<rparr>) vr_SID dec_string),
      (''status'', dec_field (\<lambda>x r. r\<lparr>vr_Status := x\<rparr>) vr_Status dec_string),
      (''to'', dec_field (\<lambda>x r. r\<lparr>vr_To := x\<rparr>) vr_To dec_string),
      (''service_sid'', dec_field (\<lambda>x r. r\<lparr>vr_ServiceSid := x\<rparr>) vr_ServiceSid dec_string),
      (''date_created'', dec_field (\<lambda>x r. r\<lparr>vr_DateCreated := x\<rparr>) vr_DateCreated dec_string)]"

definition verify_call :: "twilio_client \<Rightarrow> string \<Rightarrow> form \<Rightarrow> http_call" where
  "verify_call c endpoint fm =
     \<lparr>hc_url = cl_baseURL c @ ''/v2/Services/'' @ PathEscape (tc_VerifyServiceSID (cl_cfg c)) @ endpoint,
      hc_user = tc_AccountSID (cl_cfg c), hc_password = tc_AuthToken (cl_cfg c), hc_body = form_Encode fm\<rparr>"

text \<open>
  \<open>newreq\<close> is the error of \<open>http.NewRequestWithContext\<close>. The result is returned beside the error,
  as the source does.
\<close>

definition SendVerificationSMS ::
    "(go_error \<Rightarrow> string) \<Rightarrow> (string \<Rightarrow> string) \<Rightarrow> go_error option \<Rightarrow> http \<Rightarrow> twilio_client \<Rightarrow> string \<Rightarrow>
     verify_result \<times> go_error option" where
  "SendVerificationSMS errtext decodeErr newreq http c to =
     (case newreq of
        Some err \<Rightarrow> (zero_verify, Some err)
      | None \<Rightarrow>
          (case http (verify_call c ''/Verifications'' (form_Set ''Channel'' ''sms'' (form_Set ''To'' to []))) of
             Inl err \<Rightarrow> (zero_verify, Some (ErrText (''twilio verify request: '' @ errtext err)))
           | Inr (status, body) \<Rightarrow>
               (if status < 200 \<or> 300 \<le> status then
                  (zero_verify, Some (ErrText (''twilio verify '' @ string_of_nat status @ '': '' @ body)))
                else case unmarshal_partial verify_fields body zero_verify of
                  (r, False) \<Rightarrow> (r, Some (ErrText (''decode twilio verify response: '' @ decodeErr body
                       @ '' (body='' @ body @ '')'')))
                | (r, True) \<Rightarrow> (r, None))))"

definition ErrNoPendingVerification :: go_error where
  "ErrNoPendingVerification = ErrText ''twilio: no pending verification for this phone''"

definition CheckVerification ::
    "(go_error \<Rightarrow> string) \<Rightarrow> (string \<Rightarrow> string) \<Rightarrow> go_error option \<Rightarrow> http \<Rightarrow> twilio_client \<Rightarrow> string \<Rightarrow> string \<Rightarrow>
     verify_result \<times> go_error option" where
  "CheckVerification errtext decodeErr newreq http c to code =
     (case newreq of
        Some err \<Rightarrow> (zero_verify, Some err)
      | None \<Rightarrow>
          (case http (verify_call c ''/VerificationCheck'' (form_Set ''Code'' code (form_Set ''To'' to []))) of
             Inl err \<Rightarrow> (zero_verify, Some (ErrText (''twilio verify check request: '' @ errtext err)))
           | Inr (status, body) \<Rightarrow>
               (if status = 404 then (zero_verify, Some ErrNoPendingVerification)
                else if status < 200 \<or> 300 \<le> status then
                  (zero_verify, Some (ErrText (''twilio verify check '' @ string_of_nat status @ '': '' @ body)))
                else case unmarshal_partial verify_fields body zero_verify of
                  (r, False) \<Rightarrow> (r, Some (ErrText (''decode twilio verify check response: '' @ decodeErr body
                       @ '' (body='' @ body @ '')'')))
                | (r, True) \<Rightarrow> (r\<lparr>vr_Approved := (vr_Status r = ''approved'')\<rparr>, None))))"

section \<open>Trimming\<close>

definition visible :: "char \<Rightarrow> bool" where
  "visible c \<longleftrightarrow> byte c < 128 \<and> \<not> ascii_space c"

lemma TrimSpace_ends:
  assumes "t \<noteq> []" "visible (hd t)" "visible (last t)"
  shows "TrimSpace (replicate k (CHR '' '') @ t) = t"
proof -
  obtain c r where t: "t = c # r" using assms(1) by (cases t) auto
  have f: "space_size t = 0" using assms(2) t by (auto simp: visible_def space2_def space3_def split: list.splits)
  have "trim_while space_size (replicate k (CHR '' '') @ t) = t"
    by (induction k) (simp add: f, subst trim_while.simps, simp add: ascii_space_def byte_def)
  moreover obtain d q where "rev t = d # q" "visible d" using assms(1,3) by (cases t rule: rev_cases) auto
  then have "space_size_rev (rev t) = 0" by (auto simp: visible_def space2_def space3_def split: list.splits)
  ultimately show ?thesis by (simp add: TrimSpace_def)
qed

lemmas TrimSpace_visible = TrimSpace_ends [of _ 0, simplified]

section \<open>Credentials files\<close>

text \<open>A setting as the setup guide writes it: the name, an equals sign, the quoted value.\<close>

definition env_text :: "string \<times> string \<Rightarrow> string" where
  "env_text e = fst e @ ''='' @ [dquote] @ snd e @ [dquote]"

definition env_name :: "string \<Rightarrow> bool" where
  "env_name k \<longleftrightarrow> k \<noteq> [] \<and> hd k \<noteq> CHR ''#'' \<and> list_all (\<lambda>c. visible c \<and> c \<noteq> CHR ''='') k"

definition env_ok :: "string \<times> string \<Rightarrow> bool" where
  "env_ok e \<longleftrightarrow> env_name (fst e) \<and> newline \<notin> set (snd e)"

definition env_read :: "string \<Rightarrow> (string \<times> string) option" where
  "env_read line = (case env_line line [] of Inr [e] \<Rightarrow> Some e | _ \<Rightarrow> None)"

lemma not_export: "list_all visible k \<Longrightarrow> \<not> HasPrefix (k @ CHR ''='' # r) ''export ''"
  by (cases k; cases "tl k"; cases "tl (tl k)"; cases "tl (tl (tl k))"; cases "tl (tl (tl (tl k)))";
      cases "tl (tl (tl (tl (tl k))))"; cases "tl (tl (tl (tl (tl (tl k)))))")
     (auto simp: visible_def ascii_space_def byte_def)

lemma env_line_text: "env_ok e \<Longrightarrow> env_line (env_text e) kv = Inr (gput (fst e) (snd e) kv)"
proof -
  assume e: "env_ok e"
  obtain k v where kv: "e = (k, v)" by (cases e)
  with e have k: "k \<noteq> []" "hd k \<noteq> CHR ''#''" "list_all visible k" "CHR ''='' \<notin> set k"
    by (auto simp: env_ok_def env_name_def list_all_iff)
  have q: "visible dquote" "dquote \<noteq> CHR ''#''" by (simp_all add: visible_def ascii_space_def byte_def)
  have hk: "visible (hd k)" "visible (last k)" using k by (auto simp: list_all_iff)
  have t: "env_text e = k @ CHR ''='' # dquote # v @ [dquote]" by (simp add: env_text_def kv)
  have 1: "TrimSpace (env_text e) = env_text e" unfolding t by (rule TrimSpace_visible) (use k hk q in auto)
  have 2: "TrimSpace k = k" using TrimSpace_visible k(1) hk by blast
  have 3: "TrimSpace (dquote # v @ [dquote]) = dquote # v @ [dquote]" by (rule TrimSpace_visible) (use q in auto)
  have 4: "\<not> HasPrefix (env_text e) ''#''" using k(1,2) by (cases k) (auto simp: t)
  have 5: "TrimPrefix (env_text e) ''export '' = env_text e" using not_export [OF k(3)] by (simp add: TrimPrefix_def t)
  have 6: "IndexByte (env_text e) (CHR ''='') = Some (length k)" using IndexByte_append [OF k(4)] by (simp add: t)
  have 7: "unquote_value (dquote # v @ [dquote]) = v" by (simp add: unquote_value_def)
  show ?thesis using 1 2 3 4 5 6 7 k(1) by (simp add: env_line_def Let_def kv) (simp add: t [unfolded kv])
qed

interpretation env: line_codec env_ok env_text env_read
proof
  fix e assume e: "env_ok e"
  show "env_read (env_text e) = Some e" using env_line_text [OF e, of "[]"] by (simp add: env_read_def gput_def)
  have "\<not> visible newline" by (simp add: visible_def ascii_space_def newline_def byte_def)
  with e show "newline \<notin> set (env_text e)"
    by (auto simp: env_text_def env_ok_def env_name_def list_all_iff newline_def)
  show "env_text e \<noteq> [] \<and> last (env_text e) \<noteq> CHR 0x0D" by (simp add: env_text_def)
qed

lemma parseEnvFile_text:
  assumes "list_all env_ok es" "list_all (\<lambda>e. length (env_text e) < text_limit) es"
  shows "parseEnvFile (file_lines env_text es) = Inr (fold (\<lambda>e. gput (fst e) (snd e)) es [])"
proof -
  have "result_fold env_line (map env_text es) kv = Inr (fold (\<lambda>e. gput (fst e) (snd e)) es kv)" for kv
    using assms(1) by (induction es arbitrary: kv) (simp_all add: env_line_text)
  then show ?thesis using env.scan_file [OF assms] by (simp add: parseEnvFile_def)
qed

definition config_entries :: "twilio_config \<Rightarrow> (string \<times> string) list" where
  "config_entries cfg =
     [(''TWILIO_ACCOUNT_SID'', tc_AccountSID cfg), (''TWILIO_AUTH_TOKEN'', tc_AuthToken cfg),
      (''TWILIO_VERIFY_SERVICE_SID'', tc_VerifyServiceSID cfg), (''TWILIO_FROM_NUMBER'', tc_FromNumber cfg),
      (''SMS_ROUTING_CALLBACK_URL'', tc_RoutingCallbackURL cfg), (''SMS_ROUTING_CALLBACK_SECRET'', tc_RoutingCallbackKey cfg)]"

definition config_complete :: "twilio_config \<Rightarrow> bool" where
  "config_complete cfg \<longleftrightarrow> tc_AccountSID cfg \<noteq> [] \<and> tc_AuthToken cfg \<noteq> [] \<and> tc_VerifyServiceSID cfg \<noteq> []
     \<and> (tc_RoutingCallbackURL cfg = [] \<or> tc_RoutingCallbackKey cfg \<noteq> [])"

lemma config_of_entries: "config_of (fold (\<lambda>e. gput (fst e) (snd e)) (config_entries cfg) []) = cfg"
  by (simp add: config_of_def config_entries_def)

text \<open>
  Credentials. A credentials file with the six settings as quoted values is loaded back exactly,
  whatever bytes but line breaks the values hold (shorter than the scanner's limit), if the three
  required values are there and a callback has its secret; otherwise loading fails.
\<close>

theorem credentials_roundtrip:
  assumes "IsAbs path"
    and "\<And>e. e \<in> set (config_entries cfg) \<Longrightarrow> newline \<notin> set (snd e) \<and> length (snd e) + 64 < text_limit"
  shows "let loaded = LoadTwilioEnv wd (\<lambda>_. Inr (file_lines env_text (config_entries cfg))) path in
    if config_complete cfg then loaded = Inr cfg else \<exists>err. loaded = Inl err"
proof -
  have n: "list_all (\<lambda>e. env_name (fst e) \<and> length (fst e) \<le> 32) (config_entries cfg)"
    by (simp add: config_entries_def env_name_def visible_def ascii_space_def byte_def)
  have "list_all env_ok (config_entries cfg)" "list_all (\<lambda>e. length (env_text e) < text_limit) (config_entries cfg)"
    using n assms(2) by (fastforce simp: list_all_iff env_ok_def env_text_def)+
  from parseEnvFile_text [OF this] have p:
    "parseEnvFile (file_lines env_text (config_entries cfg)) = Inr (fold (\<lambda>e. gput (fst e) (snd e)) (config_entries cfg) [])" .
  have "Abs wd path = Inr (Clean path)" using assms(1) by (simp add: Abs_def)
  then show ?thesis by (auto simp: LoadTwilioEnv_def p config_of_entries config_complete_def Let_def)
qed

theorem credentials_roundtrip_witness:
  "let cfg = \<lparr>tc_AccountSID = ''AC1'', tc_AuthToken = ''a=b # c'', tc_VerifyServiceSID = ''VA1'', tc_FromNumber = [],
      tc_RoutingCallbackURL = [], tc_RoutingCallbackKey = []\<rparr> in
   LoadTwilioEnv (Inr ''/'') (\<lambda>_. Inr (file_lines env_text (config_entries cfg))) ''/etc/twilio.env'' = Inr cfg"
proof -
  let ?cfg = "\<lparr>tc_AccountSID = ''AC1'', tc_AuthToken = ''a=b # c'', tc_VerifyServiceSID = ''VA1'', tc_FromNumber = [],
      tc_RoutingCallbackURL = [], tc_RoutingCallbackKey = []\<rparr>"
  have e: "newline \<notin> set (snd e) \<and> length (snd e) + 64 < text_limit" if "e \<in> set (config_entries ?cfg)" for e
    using that by (auto simp: config_entries_def text_limit_def newline_def)
  have "config_complete ?cfg" by (simp add: config_complete_def)
  with credentials_roundtrip [where path = "''/etc/twilio.env''" and wd = "Inr ''/''", OF _ e] show ?thesis by (simp add: IsAbs_def Let_def)
qed

end
