(* ===== verification/Webhook.thy ===== *)
theory Webhook
  imports Twilio
begin

text \<open>
  \<open>webhook.go\<close> and \<open>webhook_handler.go\<close>: the signature of an inbound message, the parsers of the
  reply, and the handler that turns a verified reply into a review of the broker. HMAC-SHA1 is the
  parameter \<open>mac\<close>, the answers of Twilio and of the broker are arguments of the handler.
\<close>

section \<open>Signature\<close>

definition b64_char :: "nat \<Rightarrow> char" where
  "b64_char n = (if n < 26 then char_of (65 + n) else if n < 52 then char_of (71 + n)
     else if n < 62 then char_of (n - 4) else if n = 62 then CHR ''+'' else CHR ''/'')"

fun base64 :: "string \<Rightarrow> string" where
  "base64 [] = []"
| "base64 [a] = [b64_char (byte a div 4), b64_char (byte a mod 4 * 16), CHR ''='', CHR ''='']"
| "base64 [a, b] =
     [b64_char (byte a div 4), b64_char (byte a mod 4 * 16 + byte b div 16), b64_char (byte b mod 16 * 4), CHR ''='']"
| "base64 (a # b # c # s) =
     b64_char (byte a div 4) # b64_char (byte a mod 4 * 16 + byte b div 16)
     # b64_char (byte b mod 16 * 4 + byte c div 64) # b64_char (byte c mod 64) # base64 s"

definition signed_text :: "string \<Rightarrow> form \<Rightarrow> string" where
  "signed_text fullURL fm = fullURL @ concat (map (\<lambda>k. k @ form_Get fm k) (gkeys fm))"

definition computeTwilioSignature :: "(string \<Rightarrow> string \<Rightarrow> string) \<Rightarrow> string \<Rightarrow> string \<Rightarrow> form \<Rightarrow> string" where
  "computeTwilioSignature mac authToken fullURL fm = base64 (mac authToken (signed_text fullURL fm))"

definition ValidateTwilioSignature ::
    "(string \<Rightarrow> string \<Rightarrow> string) \<Rightarrow> string \<Rightarrow> string \<Rightarrow> form \<Rightarrow> string \<Rightarrow> bool" where
  "ValidateTwilioSignature mac authToken fullURL fm signatureHeader =
     (if signatureHeader = [] \<or> authToken = [] then False
      else computeTwilioSignature mac authToken fullURL fm = signatureHeader)"

section \<open>The older reply parser\<close>

datatype reply_decision = ReplyMalformed | ReplyApprove | ReplyDeny

text \<open>\<open>strings.Fields\<close>: the maximal runs between white-space runes; \<open>w\<close> is the current run, reversed.\<close>

function fields_from :: "string \<Rightarrow> string \<Rightarrow> string list" where
  "fields_from w s =
     (if s = [] then (if w = [] then [] else [rev w])
      else if space_size s \<noteq> 0 then (if w = [] then [] else [rev w]) @ fields_from [] (drop (space_size s) s)
      else fields_from (hd s # w) (tl s))"
  by pat_completeness auto
termination
  by (relation "measure (\<lambda>(w, s). length s)") auto

declare fields_from.simps [simp del]

definition Fields :: "string \<Rightarrow> string list" where
  "Fields s = fields_from [] s"

definition isSixDigit :: "string \<Rightarrow> bool" where
  "isSixDigit s \<longleftrightarrow> length s = 6 \<and> list_all is_digit s"

text \<open>
  Lower-casing is on ASCII letters here: no other rune has one of the letters of the six words as
  its lower case.
\<close>

definition ParseReply :: "string \<Rightarrow> reply_decision \<times> string" where
  "ParseReply body =
     (let body = TrimSpace body in
      if body = [] then (ReplyMalformed, [])
      else case Fields body of
        [f0, f1] \<Rightarrow>
          (let decision = map ascii_lower f0; code = TrimSpace f1 in
           if \<not> isSixDigit code then (ReplyMalformed, [])
           else if decision = ''yes'' \<or> decision = ''y'' \<or> decision = ''approve'' then (ReplyApprove, code)
           else if decision = ''no'' \<or> decision = ''n'' \<or> decision = ''deny'' then (ReplyDeny, code)
           else (ReplyMalformed, []))
      | _ \<Rightarrow> (ReplyMalformed, []))"

section \<open>Anchored regular expressions\<close>

text \<open>
  The fragment of \<open>regexp\<close> the handler uses: a sequence of repeated character classes, possibly
  captured, and of alternatives (a letter in either case), anchored at both ends. \<open>re_all\<close> lists the
  captures of all matches, preferred ones first (longest repetition first).
\<close>

datatype re_item =
    ReClass "char \<Rightarrow> bool" nat "nat option" bool
  | ReAlt "string list"

definition re_lengths :: "(char \<Rightarrow> bool) \<Rightarrow> nat \<Rightarrow> nat option \<Rightarrow> string \<Rightarrow> nat list" where
  "re_lengths P lo hi s =
     (let n = length (takeWhile P s) in rev [lo ..< Suc (case hi of None \<Rightarrow> n | Some h \<Rightarrow> min n h)])"

primrec re_all :: "re_item list \<Rightarrow> string \<Rightarrow> string list list" where
  "re_all [] = (\<lambda>s. if s = [] then [[]] else [])"
| "re_all (i # r) = (\<lambda>s.
     (case i of
        ReAlt alts \<Rightarrow> concat (map (\<lambda>a. if HasPrefix s a then re_all r (drop (length a) s) else []) alts)
      | ReClass P lo hi cap \<Rightarrow>
          concat (map (\<lambda>k. map (\<lambda>cs. if cap then take k s # cs else cs) (re_all r (drop k s))) (re_lengths P lo hi s))))"

definition FindStringSubmatch :: "re_item list \<Rightarrow> string \<Rightarrow> string list option" where
  "FindStringSubmatch re s = (case re_all re s of [] \<Rightarrow> None | m # _ \<Rightarrow> Some m)"

definition re_space :: "char \<Rightarrow> bool" where
  "re_space c \<longleftrightarrow> byte c \<in> {9, 10, 12, 13, 32}"

abbreviation (input) re_spaces :: "nat \<Rightarrow> re_item" where "re_spaces lo \<equiv> ReClass re_space lo None False"
abbreviation (input) re_code :: re_item where "re_code \<equiv> ReClass is_digit 4 (Some 8) True"

text \<open>The simple case folding of the letter s also contains the long s, U+017F.\<close>

definition reYesCode :: "re_item list" where
  "reYesCode = [re_spaces 0, ReAlt [''y'', ''Y''], ReAlt [''e'', ''E''], ReAlt [''s'', ''S'', [CHR 0xC5, CHR 0xBF]],
     re_spaces 1, re_code, re_spaces 0]"

definition reNoCode :: "re_item list" where
  "reNoCode = [re_spaces 0, ReAlt [''n'', ''N''], ReAlt [''o'', ''O''], re_spaces 1, re_code, re_spaces 0]"

definition reDigits :: "re_item list" where
  "reDigits = [re_spaces 0, re_code, re_spaces 0]"

datatype reply_intent = ReplyIntentUnknown | ReplyIntentApprove | ReplyIntentDeny

definition ParseReplyIntent :: "string \<Rightarrow> reply_intent \<times> string" where
  "ParseReplyIntent body =
     (case FindStringSubmatch reYesCode body of
        Some m \<Rightarrow> (ReplyIntentApprove, hd m)
      | None \<Rightarrow>
          (case FindStringSubmatch reNoCode body of
             Some m \<Rightarrow> (ReplyIntentDeny, hd m)
           | None \<Rightarrow>
               (case FindStringSubmatch reDigits body of
                  Some m \<Rightarrow> (ReplyIntentApprove, hd m)
                | None \<Rightarrow> (ReplyIntentUnknown, []))))"

section \<open>The handler\<close>

record inbound_request =
  in_Method :: string
  in_PostForm :: "form result"
  in_Signature :: string

record inbound_deps =
  dp_AuthToken :: string
  dp_PublicURL :: string
  dp_ApproverID :: string
  dp_SocketPath :: string

text \<open>The answers of the environment: clock and audit outcomes of the three possible changes of the
  pending set and its log, the verification check, and the dialled broker.\<close>

record reply_env =
  rp_resolve :: "time \<times> fs_outcome"
  rp_release :: "time \<times> fs_outcome"
  rp_audit :: "time \<times> fs_outcome"
  rp_check :: "string \<Rightarrow> string \<Rightarrow> verify_result \<times> go_error option"
  rp_dial :: "string \<Rightarrow> wire_request \<Rightarrow> response result"

record inbound_result =
  ir_Status :: nat
  ir_Body :: string
  ir_Call :: "wire_request option"
  ir_Pending :: pending_set

definition emptyTwiML :: string where
  "emptyTwiML = ''<?xml version='' @ [dquote] @ ''1.0'' @ [dquote] @ '' encoding='' @ [dquote] @ ''UTF-8'' @ [dquote]
     @ ''?><Response></Response>''"

definition brokerSocketCaller_request :: "string \<Rightarrow> string \<Rightarrow> string \<Rightarrow> string \<Rightarrow> string \<Rightarrow> wire_request" where
  "brokerSocketCaller_request action requestID approverKind approverID reason =
     zero_wire_request\<lparr>wr_Action := action, wr_RequestID := requestID,
       wr_Approver := \<lparr>actor_Kind = approverKind, actor_ID = approverID\<rparr>, wr_Reason := reason\<rparr>"

definition emitUnbound :: "string \<Rightarrow> string \<Rightarrow> string \<Rightarrow> string \<Rightarrow> row" where
  "emitUnbound requestID from reason body =
     (let row = [(''type'', jstring ''verify_unbound_reply''), (''recipient_masked'', jstring (MaskPhone from)),
                 (''reason'', jstring reason), (''body_preview'', jstring (take 40 body))]
      in if requestID \<noteq> [] then gput ''request_id'' (jstring requestID) row else row)"

definition reject_info :: "(go_error \<Rightarrow> string) \<Rightarrow> string \<Rightarrow> string \<Rightarrow> verify_result \<Rightarrow> go_error option \<Rightarrow> row" where
  "reject_info errtext requestID from result err =
     (let row = [(''type'', jstring ''verify_check_rejected''), (''request_id'', jstring requestID),
                 (''recipient_masked'', jstring (MaskPhone from)), (''verify_status'', jstring (vr_Status result))];
          row = (case err of
                   None \<Rightarrow> row
                 | Some e \<Rightarrow> (if e = ErrNoPendingVerification
                              then gput ''reason'' (jstring ''no_pending_verification'') row
                              else gput ''error'' (jstring (errtext e)) row))
      in if vr_SID result \<noteq> [] then gput ''verify_session_sid'' (jstring (vr_SID result)) row else row)"

definition consumed_row :: "string \<Rightarrow> string \<Rightarrow> string \<Rightarrow> string option \<Rightarrow> response \<Rightarrow> row" where
  "consumed_row t requestID from sid resp =
     [(''type'', jstring t), (''request_id'', jstring requestID), (''recipient_masked'', jstring (MaskPhone from))]
     @ (case sid of None \<Rightarrow> [] | Some x \<Rightarrow> [(''verify_session_sid'', jstring x)])
     @ [(''broker_status'', jstring (rs_Status resp)), (''broker_message'', jstring (rs_Message resp))]"

definition HandleInboundReply ::
    "(string \<Rightarrow> string \<Rightarrow> string) \<Rightarrow> (go_error \<Rightarrow> string) \<Rightarrow> inbound_deps \<Rightarrow> reply_env \<Rightarrow> inbound_request \<Rightarrow> pending_set \<Rightarrow>
     inbound_result" where
  "HandleInboundReply mac errtext deps env r ps =
     (let write = (\<lambda>row ps. write_row (snd (rp_audit env)) (fst (rp_audit env)) row ps);
          release = (\<lambda>from ps. Release (fst (rp_release env)) (snd (rp_release env)) from ps);
          twiml = (\<lambda>call ps. \<lparr>ir_Status = 200, ir_Body = emptyTwiML, ir_Call = call, ir_Pending = ps\<rparr>);
          fail = (\<lambda>status text. \<lparr>ir_Status = status, ir_Body = text @ [newline], ir_Call = None, ir_Pending = ps\<rparr>)
      in
      if in_Method r \<noteq> ''POST'' then fail 405 ''method not allowed''
      else case in_PostForm r of
        Inl _ \<Rightarrow> fail 400 ''bad form''
      | Inr fm \<Rightarrow>
          (if \<not> ValidateTwilioSignature mac (dp_AuthToken deps) (dp_PublicURL deps) fm (in_Signature r)
           then fail 401 ''bad signature''
           else
             let from = form_Get fm ''From''; body = form_Get fm ''Body''; (intent, code) = ParseReplyIntent body in
             if intent = ReplyIntentUnknown then
               twiml None (write (emitUnbound [] from ''unparseable body'' body) ps)
             else case Resolve (fst (rp_resolve env)) (snd (rp_resolve env)) from ps of
               (None, ps) \<Rightarrow> twiml None (write (emitUnbound [] from ''no pending request for sender'' body) ps)
             | (Some requestID, ps) \<Rightarrow>
                 (if intent = ReplyIntentApprove then
                    (case rp_check env from code of
                       (result, err) \<Rightarrow>
                         (if err \<noteq> None \<or> \<not> vr_Approved result
                          then twiml None (write (reject_info errtext requestID from result err) ps)
                          else
                            let req = brokerSocketCaller_request ActionReviewApprove requestID ''twilio''
                                  (dp_ApproverID deps) ''approved via SMS''
                            in case rp_dial env (dp_SocketPath deps) req of
                                 Inl _ \<Rightarrow> twiml (Some req) ps
                               | Inr resp \<Rightarrow> twiml (Some req)
                                   (write (consumed_row ''sms_approval_consumed'' requestID from (Some (vr_SID result)) resp)
                                     (release from ps))))
                  else
                    let req = brokerSocketCaller_request ActionReviewDeny requestID ''twilio'' (dp_ApproverID deps) ''sms_denial''
                    in case rp_dial env (dp_SocketPath deps) req of
                         Inl _ \<Rightarrow> twiml (Some req) ps
                       | Inr resp \<Rightarrow> twiml (Some req)
                           (write (consumed_row ''sms_denial_consumed'' requestID from None resp) (release from ps)))))"

section \<open>What the patterns match\<close>

lemma takeWhile_length_iff: "k \<le> length (takeWhile P s) \<longleftrightarrow> k \<le> length s \<and> list_all P (take k s)"
proof (induction s arbitrary: k)
  case (Cons c s)
  then show ?case by (cases k) auto
qed simp

lemma set_re_lengths:
  "k \<in> set (re_lengths P lo hi s) \<longleftrightarrow>
     lo \<le> k \<and> k \<le> length s \<and> list_all P (take k s) \<and> (case hi of None \<Rightarrow> True | Some h \<Rightarrow> k \<le> h)"
  using takeWhile_length_iff [of k P s] by (auto simp: re_lengths_def Let_def split: option.splits)

lemma re_all_class:
  "cs \<in> set (re_all (ReClass P lo hi cap # r) s) \<longleftrightarrow>
   (\<exists>u v ds. s = u @ v \<and> list_all P u \<and> lo \<le> length u \<and> (case hi of None \<Rightarrow> True | Some h \<Rightarrow> length u \<le> h)
      \<and> ds \<in> set (re_all r v) \<and> cs = (if cap then u # ds else ds))" (is "?L \<longleftrightarrow> ?R")
proof
  assume ?L
  then have "\<exists>k ds. k \<in> set (re_lengths P lo hi s) \<and> ds \<in> set (re_all r (drop k s))
    \<and> cs = (if cap then take k s # ds else ds)" by (cases cap) auto
  then obtain k ds where "k \<in> set (re_lengths P lo hi s)" "ds \<in> set (re_all r (drop k s))"
    "cs = (if cap then take k s # ds else ds)" by blast
  then show ?R
    by (intro exI [of _ "take k s"] exI [of _ "drop k s"] exI [of _ ds]) (auto simp: set_re_lengths min_def split: option.splits)
next
  assume ?R
  then obtain u v ds where r: "s = u @ v" "length u \<in> set (re_lengths P lo hi s)" "ds \<in> set (re_all r v)"
    "cs = (if cap then u # ds else ds)" by (auto simp: set_re_lengths)
  then have "ds \<in> set (re_all r (drop (length u) s))" "cs = (if cap then take (length u) s # ds else ds)" by simp_all
  with r(2) show ?L by (cases cap) auto
qed

lemma re_all_alt:
  "cs \<in> set (re_all (ReAlt alts # r) s) \<longleftrightarrow> (\<exists>a \<in> set alts. \<exists>v. s = a @ v \<and> cs \<in> set (re_all r v))"
proof -
  have "cs \<in> set (if HasPrefix s a then re_all r (drop (length a) s) else []) \<longleftrightarrow> (\<exists>v. s = a @ v \<and> cs \<in> set (re_all r v))" for a
    by (auto simp: HasPrefix_iff)
  moreover have "cs \<in> set (concat (map f xs)) \<longleftrightarrow> (\<exists>a \<in> set xs. cs \<in> set (f a))" for f :: "string \<Rightarrow> string list list" and xs by auto
  ultimately show ?thesis by (simp only: re_all.simps re_item.case)
qed

declare re_all.simps(2) [simp del]

definition spaces :: "string \<Rightarrow> bool" where
  "spaces s \<longleftrightarrow> list_all re_space s"

definition code_text :: "string \<Rightarrow> bool" where
  "code_text c \<longleftrightarrow> list_all is_digit c \<and> 4 \<le> length c \<and> length c \<le> 8"

text \<open>The words a sequence of alternatives spells.\<close>

primrec spells :: "string list list \<Rightarrow> string \<Rightarrow> bool" where
  "spells [] w \<longleftrightarrow> w = []"
| "spells (alts # ws) w \<longleftrightarrow> (\<exists>a \<in> set alts. \<exists>v. w = a @ v \<and> spells ws v)"

lemma re_all_word:
  "m \<in> set (re_all (map ReAlt ws @ r) s) \<longleftrightarrow> (\<exists>w v. s = w @ v \<and> spells ws w \<and> m \<in> set (re_all r v))"
proof (induction ws arbitrary: s)
  case (Cons alts ws)
  show ?case by (simp add: re_all_alt Cons.IH) (metis append.assoc)
qed simp

lemma re_all_code:
  "m \<in> set (re_all [re_code, re_spaces 0] s) \<longleftrightarrow> (\<exists>d c. s = d @ c \<and> code_text d \<and> spaces c \<and> m = [d])"
  by (auto simp: re_all_class spaces_def code_text_def split: if_splits)

lemma reDigits_iff:
  "m \<in> set (re_all reDigits s) \<longleftrightarrow> (\<exists>a d c. s = a @ d @ c \<and> spaces a \<and> code_text d \<and> spaces c \<and> m = [d])"
  unfolding reDigits_def by (subst re_all_class) (auto simp: re_all_code spaces_def)

lemma re_word_iff:
  "m \<in> set (re_all (re_spaces 0 # map ReAlt ws @ [re_spaces 1, re_code, re_spaces 0]) s) \<longleftrightarrow>
   (\<exists>a w b d c. s = a @ w @ b @ d @ c \<and> spaces a \<and> spells ws w \<and> spaces b \<and> b \<noteq> [] \<and> code_text d \<and> spaces c \<and> m = [d])"
proof -
  have 1: "m \<in> set (re_all [re_spaces 1, re_code, re_spaces 0] s) \<longleftrightarrow>
      (\<exists>b d c. s = b @ d @ c \<and> spaces b \<and> b \<noteq> [] \<and> code_text d \<and> spaces c \<and> m = [d])" for s
    by (subst re_all_class) (auto simp: re_all_code spaces_def Suc_le_eq)
  show ?thesis
    by (subst re_all_class) (simp add: re_all_word 1 [unfolded One_nat_def] spaces_def, blast)
qed

definition yes_alts :: "string list list" where
  "yes_alts = [[''y'', ''Y''], [''e'', ''E''], [''s'', ''S'', [CHR 0xC5, CHR 0xBF]]]"

definition no_alts :: "string list list" where
  "no_alts = [[''n'', ''N''], [''o'', ''O'']]"

lemma word_patterns:
  "reYesCode = re_spaces 0 # map ReAlt yes_alts @ [re_spaces 1, re_code, re_spaces 0]"
  "reNoCode = re_spaces 0 # map ReAlt no_alts @ [re_spaces 1, re_code, re_spaces 0]"
  by (simp_all add: reYesCode_def reNoCode_def yes_alts_def no_alts_def)

lemma spells_chars:
  "spells yes_alts w \<Longrightarrow> w \<noteq> [] \<and> hd w \<in> {CHR ''y'', CHR ''Y''} \<and> list_all (\<lambda>c. \<not> re_space c) w"
  "spells no_alts w \<Longrightarrow> w \<noteq> [] \<and> hd w \<in> {CHR ''n'', CHR ''N''} \<and> list_all (\<lambda>c. \<not> re_space c) w"
  by (auto simp: yes_alts_def no_alts_def re_space_def byte_def)

lemma dropWhile_spaces: "spaces a \<Longrightarrow> r = [] \<or> \<not> re_space (hd r) \<Longrightarrow> dropWhile re_space (a @ r) = r"
  by (induction a) (auto simp: spaces_def dropWhile_eq_self_iff)

lemma digit_not_space: "is_digit c \<Longrightarrow> \<not> re_space c"
  by (auto simp: is_digit_def re_space_def)

lemma takeWhile_code: "code_text d \<Longrightarrow> spaces c \<Longrightarrow> takeWhile is_digit (d @ c) = d"
  using digit_not_space by (cases c) (auto simp: code_text_def spaces_def list_all_iff takeWhile_append)

lemma code_text_hd: "code_text d \<Longrightarrow> d \<noteq> [] \<and> is_digit (hd d)"
  by (cases d) (auto simp: code_text_def)

definition bare_code :: "string \<Rightarrow> string" where
  "bare_code s = takeWhile is_digit (dropWhile re_space s)"

definition word_code :: "string \<Rightarrow> string" where
  "word_code s = bare_code (dropWhile (\<lambda>c. \<not> re_space c) (dropWhile re_space s))"

lemma bare_code_eq: "spaces a \<Longrightarrow> code_text d \<Longrightarrow> spaces c \<Longrightarrow> bare_code (a @ d @ c) = d"
  using dropWhile_spaces [of a "d @ c"] takeWhile_code [of d c] code_text_hd [of d] digit_not_space by (auto simp: bare_code_def)

lemma word_code_eq:
  assumes "spaces a" "w \<noteq> []" "list_all (\<lambda>c. \<not> re_space c) w" "spaces b" "b \<noteq> []" "code_text d" "spaces c"
  shows "word_code (a @ w @ b @ d @ c) = d"
proof -
  have "\<not> re_space (hd (w @ b @ d @ c))" using assms(2,3) by (cases w) auto
  then have 1: "dropWhile re_space (a @ w @ b @ d @ c) = w @ b @ d @ c" using dropWhile_spaces [OF assms(1)] by blast
  have "dropWhile (\<lambda>c. \<not> re_space c) (w @ b @ d @ c) = b @ d @ c"
    using assms(3,4,5) by (cases b) (auto simp: spaces_def dropWhile_append list_all_iff)
  with 1 bare_code_eq [OF assms(4,6,7)] show ?thesis by (simp add: word_code_def)
qed

lemma FindStringSubmatch_iff:
  assumes "\<And>m. m \<in> set (re_all re s) \<longleftrightarrow> P m" "\<And>m. P m \<Longrightarrow> m = f s"
  shows "FindStringSubmatch re s = Some m \<longleftrightarrow> P m"
proof (cases "re_all re s")
  case Nil
  then show ?thesis using assms(1) [of m] by (simp add: FindStringSubmatch_def)
next
  case (Cons a l)
  then have "P a" using assms(1) [of a] by simp
  then show ?thesis using Cons assms(2) [of a] assms(2) [of m] by (auto simp: FindStringSubmatch_def)
qed

definition says :: "string list list \<Rightarrow> string \<Rightarrow> string \<Rightarrow> bool" where
  "says ws s d \<longleftrightarrow> (\<exists>a w b c. s = a @ w @ b @ d @ c \<and> spaces a \<and> spells ws w \<and> spaces b \<and> b \<noteq> [] \<and> code_text d \<and> spaces c)"

definition only_code :: "string \<Rightarrow> string \<Rightarrow> bool" where
  "only_code s d \<longleftrightarrow> (\<exists>a c. s = a @ d @ c \<and> spaces a \<and> code_text d \<and> spaces c)"

lemma says_code: "ws \<in> {yes_alts, no_alts} \<Longrightarrow> says ws s d \<Longrightarrow> d = word_code s"
  using word_code_eq spells_chars unfolding says_def by (metis empty_iff insert_iff)

lemma submatch_word:
  assumes "ws \<in> {yes_alts, no_alts}"
  shows "FindStringSubmatch (re_spaces 0 # map ReAlt ws @ [re_spaces 1, re_code, re_spaces 0]) s = Some m
    \<longleftrightarrow> (\<exists>d. says ws s d \<and> m = [d])"
proof (rule FindStringSubmatch_iff [where f = "\<lambda>s. [word_code s]"])
  show "m \<in> set (re_all (re_spaces 0 # map ReAlt ws @ [re_spaces 1, re_code, re_spaces 0]) s) \<longleftrightarrow> (\<exists>d. says ws s d \<and> m = [d])" for m
    unfolding re_word_iff says_def by blast
  show "m = [word_code s]" if "\<exists>d. says ws s d \<and> m = [d]" for m
    using that says_code [OF assms] by blast
qed

lemma submatch_digits: "FindStringSubmatch reDigits s = Some m \<longleftrightarrow> (\<exists>d. only_code s d \<and> m = [d])"
  by (rule FindStringSubmatch_iff [where f = "\<lambda>s. [bare_code s]"])
     (auto simp: reDigits_iff only_code_def bare_code_eq)


text \<open>The first visible character tells the three forms apart.\<close>

lemma first_visible:
  "says yes_alts s d \<Longrightarrow> hd (dropWhile re_space s) \<in> {CHR ''y'', CHR ''Y''}"
  "says no_alts s d \<Longrightarrow> hd (dropWhile re_space s) \<in> {CHR ''n'', CHR ''N''}"
  "only_code s d \<Longrightarrow> is_digit (hd (dropWhile re_space s))"
proof -
  have w: "hd (dropWhile re_space (a @ w @ r)) = hd w"
    if "spaces a" "w \<noteq> []" "list_all (\<lambda>c. \<not> re_space c) w" for a w r
    using that dropWhile_spaces [of a "w @ r"] by (cases w) auto
  show "says yes_alts s d \<Longrightarrow> hd (dropWhile re_space s) \<in> {CHR ''y'', CHR ''Y''}"
    unfolding says_def using w spells_chars(1) by metis
  show "says no_alts s d \<Longrightarrow> hd (dropWhile re_space s) \<in> {CHR ''n'', CHR ''N''}"
    unfolding says_def using w spells_chars(2) by metis
  have d: "list_all (\<lambda>c. \<not> re_space c) d" if "code_text d"
    using that digit_not_space by (auto simp: code_text_def list_all_iff)
  show "only_code s d \<Longrightarrow> is_digit (hd (dropWhile re_space s))"
    unfolding only_code_def using w d code_text_hd by metis
qed

lemma reply_forms_exclusive:
  "says yes_alts s d \<Longrightarrow> \<not> says no_alts s d'"
  "says yes_alts s d \<Longrightarrow> \<not> only_code s d'"
  "says no_alts s d \<Longrightarrow> \<not> only_code s d'"
  using first_visible [of s] by (fastforce simp: is_digit_def byte_def)+

lemma submatch_forms:
  "FindStringSubmatch reYesCode s = Some m \<longleftrightarrow> (\<exists>d. says yes_alts s d \<and> m = [d])"
  "FindStringSubmatch reNoCode s = Some m \<longleftrightarrow> (\<exists>d. says no_alts s d \<and> m = [d])"
  using submatch_word [of yes_alts s m] submatch_word [of no_alts s m] by (simp_all add: word_patterns)

lemma ParseReplyIntent_cases:
  obtains (yes) d where "says yes_alts s d" "ParseReplyIntent s = (ReplyIntentApprove, d)"
  | (no) d where "says no_alts s d" "ParseReplyIntent s = (ReplyIntentDeny, d)"
  | (code) d where "only_code s d" "ParseReplyIntent s = (ReplyIntentApprove, d)"
  | (unknown) "\<And>d. \<not> says yes_alts s d" "\<And>d. \<not> says no_alts s d" "\<And>d. \<not> only_code s d"
      "ParseReplyIntent s = (ReplyIntentUnknown, [])"
proof (cases "FindStringSubmatch reYesCode s")
  case (Some m)
  then obtain d where "says yes_alts s d" "m = [d]" using submatch_forms(1) by blast
  with Some show thesis by (intro yes) (simp_all add: ParseReplyIntent_def)
next
  case Y: None
  show thesis
  proof (cases "FindStringSubmatch reNoCode s")
    case (Some m)
    then obtain d where "says no_alts s d" "m = [d]" using submatch_forms(2) by blast
    with Y Some show thesis by (intro no) (simp_all add: ParseReplyIntent_def)
  next
    case N: None
    show thesis
    proof (cases "FindStringSubmatch reDigits s")
      case (Some m)
      then obtain d where "only_code s d" "m = [d]" using submatch_digits by blast
      with Y N Some show thesis by (intro code) (simp_all add: ParseReplyIntent_def)
    next
      case None
      have "\<not> says yes_alts s d" "\<not> says no_alts s d" "\<not> only_code s d" for d
        using Y N None submatch_forms [of s "[d]"] submatch_digits [of s "[d]"] by auto
      with Y N None show thesis by (intro unknown) (simp_all add: ParseReplyIntent_def)
    qed
  qed
qed

lemma submatch_unique:
  "says yes_alts s d \<Longrightarrow> says yes_alts s d' \<Longrightarrow> d = d'"
  "says no_alts s d \<Longrightarrow> says no_alts s d' \<Longrightarrow> d = d'"
  "only_code s d \<Longrightarrow> only_code s d' \<Longrightarrow> d = d'"
  using says_code [of yes_alts s] says_code [of no_alts s] by (auto simp: only_code_def) (metis bare_code_eq)

lemma ParseReplyIntent_meaning:
  shows "ParseReplyIntent body = (ReplyIntentApprove, code) \<longleftrightarrow> says yes_alts body code \<or> only_code body code" (is ?A)
    and "ParseReplyIntent body = (ReplyIntentDeny, code) \<longleftrightarrow> says no_alts body code" (is ?D)
    and "ParseReplyIntent body = (ReplyIntentUnknown, code) \<longleftrightarrow>
      code = [] \<and> (\<nexists>d. says yes_alts body d \<or> says no_alts body d \<or> only_code body d)" (is ?U)
proof -
  have "?A \<and> ?D \<and> ?U"
  proof (cases rule: ParseReplyIntent_cases [of body])
    case (yes d)
    with reply_forms_exclusive(1,2) [OF yes(1)] submatch_unique(1) [OF yes(1), of code] show ?thesis by auto
  next
    case (no d)
    with reply_forms_exclusive(1,3) [of body] submatch_unique(2) [OF no(1), of code] show ?thesis by auto
  next
    case (code d)
    with reply_forms_exclusive(2,3) [of body] submatch_unique(3) [OF code(1), of code] show ?thesis by auto
  next
    case unknown
    then show ?thesis by auto
  qed
  then show ?A ?D ?U by blast+
qed

text \<open>
  C22 (what a text message means). A reply is an approval exactly when it is the word yes, white space
  and a code of four to eight digits, or such a code alone; a denial exactly when it is the word no,
  white space and a code; anything else is unknown. Case does not matter, white space around is
  ignored, and the code that is extracted is the one that was written.
\<close>

theorem reply_intent_spec:
  "(ParseReplyIntent body = (ReplyIntentApprove, code) \<longleftrightarrow> says yes_alts body code \<or> only_code body code)
   \<and> (ParseReplyIntent body = (ReplyIntentDeny, code) \<longleftrightarrow> says no_alts body code)
   \<and> (ParseReplyIntent body = (ReplyIntentUnknown, code) \<longleftrightarrow>
        code = [] \<and> (\<nexists>d. says yes_alts body d \<or> says no_alts body d \<or> only_code body d))"
  by (intro conjI ParseReplyIntent_meaning)

section \<open>What the handler does\<close>

definition sender :: "inbound_request \<Rightarrow> string" where
  "sender r = (case in_PostForm r of Inl _ \<Rightarrow> [] | Inr fm \<Rightarrow> form_Get fm ''From'')"

text \<open>The entry a reply at time \<open>now\<close> may act on.\<close>

definition live :: "time \<Rightarrow> string \<Rightarrow> pending_set \<Rightarrow> pending_entry \<Rightarrow> bool" where
  "live now phone ps e \<longleftrightarrow> gget (ps_items ps) phone = Some e \<and> time_sub now (pe_OpenedAt e) < ps_ttl ps"

lemma Resolve_live: "Resolve now fs phone ps = (Some rid, ps') \<longleftrightarrow> (\<exists>e. live now phone ps e \<and> rid = pe_RequestID e) \<and> ps' = ps"
  by (auto simp: Resolve_def live_def split: option.splits if_splits)


definition consumed ::
    "reply_env \<Rightarrow> string \<Rightarrow> string \<Rightarrow> string \<Rightarrow> string option \<Rightarrow> response result \<Rightarrow> pending_set \<Rightarrow> pending_set" where
  "consumed env t requestID from sid answer ps = (case answer of
     Inl _ \<Rightarrow> ps
   | Inr resp \<Rightarrow> write_row (snd (rp_audit env)) (fst (rp_audit env)) (consumed_row t requestID from sid resp)
       (Release (fst (rp_release env)) (snd (rp_release env)) from ps))"

text \<open>Every way the handler reaches the broker.\<close>

lemma reply_calls:
  assumes "ir_Call (HandleInboundReply mac errtext deps env r ps) = Some req"
  obtains fm e code where
    "in_Method r = ''POST''" "in_PostForm r = Inr fm"
    "ValidateTwilioSignature mac (dp_AuthToken deps) (dp_PublicURL deps) fm (in_Signature r)"
    "live (fst (rp_resolve env)) (form_Get fm ''From'') ps e"
    "(ParseReplyIntent (form_Get fm ''Body'') = (ReplyIntentDeny, code)
        \<and> req = brokerSocketCaller_request ActionReviewDeny (pe_RequestID e) ''twilio'' (dp_ApproverID deps) ''sms_denial''
        \<and> ir_Pending (HandleInboundReply mac errtext deps env r ps) =
            consumed env ''sms_denial_consumed'' (pe_RequestID e) (form_Get fm ''From'') None (rp_dial env (dp_SocketPath deps) req) ps)
     \<or> (\<exists>v. ParseReplyIntent (form_Get fm ''Body'') = (ReplyIntentApprove, code)
        \<and> rp_check env (form_Get fm ''From'') code = (v, None) \<and> vr_Approved v
        \<and> req = brokerSocketCaller_request ActionReviewApprove (pe_RequestID e) ''twilio'' (dp_ApproverID deps) ''approved via SMS''
        \<and> ir_Pending (HandleInboundReply mac errtext deps env r ps) =
            consumed env ''sms_approval_consumed'' (pe_RequestID e) (form_Get fm ''From'') (Some (vr_SID v))
              (rp_dial env (dp_SocketPath deps) req) ps)"
proof -
  have m: "in_Method r = ''POST''" using assms by (auto simp: HandleInboundReply_def Let_def split: if_splits)
  obtain fm where fm: "in_PostForm r = Inr fm"
    using assms m by (cases "in_PostForm r") (simp_all add: HandleInboundReply_def Let_def)
  have v: "ValidateTwilioSignature mac (dp_AuthToken deps) (dp_PublicURL deps) fm (in_Signature r)"
    using assms m fm by (auto simp: HandleInboundReply_def Let_def split: if_splits)
  obtain intent code where i: "ParseReplyIntent (form_Get fm ''Body'') = (intent, code)" by fastforce
  have u: "intent \<noteq> ReplyIntentUnknown" using assms m fm v i by (auto simp: HandleInboundReply_def Let_def)
  obtain o1 ps1 where o1: "Resolve (fst (rp_resolve env)) (snd (rp_resolve env)) (form_Get fm ''From'') ps = (o1, ps1)" by fastforce
  have "o1 \<noteq> None" using assms m fm v i u o1 by (cases o1) (simp_all add: HandleInboundReply_def Let_def)
  then obtain e where e: "live (fst (rp_resolve env)) (form_Get fm ''From'') ps e" "o1 = Some (pe_RequestID e)" "ps1 = ps"
    using o1 Resolve_live by fastforce
  note h = m fm v i u o1 [unfolded e(2,3)]
  consider "intent = ReplyIntentDeny" | v where "intent = ReplyIntentApprove" "rp_check env (form_Get fm ''From'') code = (v, None)" "vr_Approved v"
    using assms h by (cases intent) (auto simp: HandleInboundReply_def Let_def split: prod.splits if_splits)
  then show thesis
  proof cases
    case 1
    with assms h show thesis
      by (intro that [of fm e code, OF m fm v e(1)] disjI1)
         (auto simp: HandleInboundReply_def Let_def consumed_def split: sum.splits)
  next
    case (2 w)
    with assms h show thesis
      by (intro that [of fm e code, OF m fm v e(1)] disjI2 exI [of _ w])
         (auto simp: HandleInboundReply_def Let_def consumed_def split: sum.splits)
  qed
qed

lemma reply_no_call:
  assumes "ir_Call (HandleInboundReply mac errtext deps env r ps) = None"
  shows "ps_items (ir_Pending (HandleInboundReply mac errtext deps env r ps)) =
    ps_items (snd (Resolve (fst (rp_resolve env)) (snd (rp_resolve env)) (sender r) ps))
    \<or> ps_items (ir_Pending (HandleInboundReply mac errtext deps env r ps)) = ps_items ps"
proof (cases "in_Method r = ''POST'' \<and> (\<exists>fm. in_PostForm r = Inr fm
    \<and> ValidateTwilioSignature mac (dp_AuthToken deps) (dp_PublicURL deps) fm (in_Signature r))")
  case False
  then show ?thesis by (auto simp: HandleInboundReply_def Let_def split: sum.splits)
next
  case True
  then obtain fm where t: "in_Method r = ''POST''" "in_PostForm r = Inr fm"
    "ValidateTwilioSignature mac (dp_AuthToken deps) (dp_PublicURL deps) fm (in_Signature r)" by blast
  then have s: "sender r = form_Get fm ''From''" by (simp add: sender_def)
  obtain intent code where i: "ParseReplyIntent (form_Get fm ''Body'') = (intent, code)" by fastforce
  obtain o1 ps1 where o: "Resolve (fst (rp_resolve env)) (snd (rp_resolve env)) (form_Get fm ''From'') ps = (o1, ps1)" by fastforce
  obtain v err where c: "rp_check env (form_Get fm ''From'') code = (v, err)" by fastforce
  show ?thesis
  proof (cases "intent = ReplyIntentUnknown \<or> o1 = None")
    case True
    with t i o s show ?thesis by (auto simp: HandleInboundReply_def Let_def)
  next
    case False
    with assms t i o s c show ?thesis
      by (cases o1; cases intent) (auto simp: HandleInboundReply_def Let_def split: if_splits sum.splits)
  qed
qed

lemma CheckVerification_approved:
  assumes "CheckVerification errtext decodeErr newreq http c to code = (v, None)" "vr_Approved v"
  obtains status body v' where
    "http (verify_call c ''/VerificationCheck'' (form_Set ''Code'' code (form_Set ''To'' to []))) = Inr (status, body)"
    "200 \<le> status" "status < 300" "unmarshal_partial verify_fields body zero_verify = (v', True)" "vr_Status v' = ''approved''"
  using assms by (auto simp: CheckVerification_def not_less not_le split: option.splits sum.splits if_splits prod.splits bool.splits)

text \<open>
  C7 (verdicts from text messages). The adapter asks the broker for a verdict only for a signed POST
  whose sender has an unexpired pending verification, under the request that verification was
  opened for and as the configured approver. It approves only if the message is an approval
  carrying a code, and Twilio, asked about exactly this sender and this code, answered with success
  and the status "approved"; it denies only if the message is a denial.
\<close>

theorem sms_verdicts_are_verified:
  assumes "rp_check env = CheckVerification errtext decodeErr newreq http c"
    and "ir_Call (HandleInboundReply mac errtext deps env r ps) = Some req"
  shows "\<exists>fm e code. in_Method r = ''POST'' \<and> in_PostForm r = Inr fm
    \<and> dp_AuthToken deps \<noteq> [] \<and> in_Signature r = computeTwilioSignature mac (dp_AuthToken deps) (dp_PublicURL deps) fm
    \<and> live (fst (rp_resolve env)) (form_Get fm ''From'') ps e \<and> wr_RequestID req = pe_RequestID e
    \<and> wr_Approver req = \<lparr>actor_Kind = ''twilio'', actor_ID = dp_ApproverID deps\<rparr>
    \<and> ((wr_Action req = ActionReviewDeny \<and> says no_alts (form_Get fm ''Body'') code)
       \<or> (wr_Action req = ActionReviewApprove
          \<and> (says yes_alts (form_Get fm ''Body'') code \<or> only_code (form_Get fm ''Body'') code)
          \<and> (\<exists>status body v.
               http (verify_call c ''/VerificationCheck'' (form_Set ''Code'' code (form_Set ''To'' (form_Get fm ''From'') [])))
                 = Inr (status, body)
               \<and> 200 \<le> status \<and> status < 300
               \<and> unmarshal_partial verify_fields body zero_verify = (v, True) \<and> vr_Status v = ''approved'')))"
  using assms(2)
proof (cases rule: reply_calls)
  case (1 fm e code)
  have s: "dp_AuthToken deps \<noteq> []" "in_Signature r = computeTwilioSignature mac (dp_AuthToken deps) (dp_PublicURL deps) fm"
    using 1(3) by (auto simp: ValidateTwilioSignature_def split: if_splits)
  note q = brokerSocketCaller_request_def
  from 1(5) show ?thesis
  proof (elim disjE exE conjE)
    assume i: "ParseReplyIntent (form_Get fm ''Body'') = (ReplyIntentDeny, code)"
      and r: "req = brokerSocketCaller_request ActionReviewDeny (pe_RequestID e) ''twilio'' (dp_ApproverID deps) ''sms_denial''"
    then show ?thesis using 1(1,2,4) s ParseReplyIntent_meaning(2)
      by (intro exI [of _ fm] exI [of _ e] exI [of _ code]) (simp add: q)
  next
    fix v assume i: "ParseReplyIntent (form_Get fm ''Body'') = (ReplyIntentApprove, code)"
      and v: "rp_check env (form_Get fm ''From'') code = (v, None)" "vr_Approved v"
      and r: "req = brokerSocketCaller_request ActionReviewApprove (pe_RequestID e) ''twilio'' (dp_ApproverID deps) ''approved via SMS''"
    from CheckVerification_approved [OF v(1) [unfolded assms(1)] v(2)] obtain status body v' where h:
      "http (verify_call c ''/VerificationCheck'' (form_Set ''Code'' code (form_Set ''To'' (form_Get fm ''From'') []))) = Inr (status, body)"
      "200 \<le> status" "status < 300" "unmarshal_partial verify_fields body zero_verify = (v', True)" "vr_Status v' = ''approved''" .
    have m: "says yes_alts (form_Get fm ''Body'') code \<or> only_code (form_Get fm ''Body'') code"
      using i ParseReplyIntent_meaning(1) by blast
    have "wr_Action req = ActionReviewApprove" "wr_RequestID req = pe_RequestID e"
      "wr_Approver req = \<lparr>actor_Kind = ''twilio'', actor_ID = dp_ApproverID deps\<rparr>" using r by (simp_all add: q)
    with 1(1,2,4) s m h show ?thesis by blast
  qed
qed

text \<open>
  The slot of a reply. A reply never touches the slot of another phone. If the broker is not
  asked, a live slot of the sender stays, so that the operator can try again. If it is asked, the
  slot stays when the call fails and is freed by any answer of the broker, an error or a rejection
  included.
\<close>

theorem reply_frees_slot_on_any_answer:
  "let res = HandleInboundReply mac errtext deps env r ps; items = ps_items (ir_Pending res) in
   (\<forall>phone. phone \<noteq> sender r \<longrightarrow> gget items phone = gget (ps_items ps) phone)
   \<and> (case ir_Call res of
        None \<Rightarrow> (\<forall>e. live (fst (rp_resolve env)) (sender r) ps e \<longrightarrow> gget items (sender r) = Some e)
      | Some req \<Rightarrow>
          (case rp_dial env (dp_SocketPath deps) req of
             Inl _ \<Rightarrow> ir_Pending res = ps
           | Inr resp \<Rightarrow> gget items (sender r) = None))"
proof (cases "ir_Call (HandleInboundReply mac errtext deps env r ps)")
  case (Some req)
  then show ?thesis
  proof (cases rule: reply_calls)
    case (1 fm e code)
    let ?f = "form_Get fm ''From''"
    have s: "sender r = ?f" using 1(2) by (simp add: sender_def)
    have p: "let items = ps_items (consumed env t i ?f sid a ps) in
        (\<forall>phone. phone \<noteq> ?f \<longrightarrow> gget items phone = gget (ps_items ps) phone)
        \<and> (case a of Inl _ \<Rightarrow> consumed env t i ?f sid a ps = ps | Inr _ \<Rightarrow> gget items ?f = None)" for t i sid a
      using 1(4) by (cases a) (simp_all add: consumed_def Release_def live_def Let_def)
    obtain t i sid where "ir_Pending (HandleInboundReply mac errtext deps env r ps) =
        consumed env t i ?f sid (rp_dial env (dp_SocketPath deps) req) ps" using 1(5) by blast
    then show ?thesis using p [of t i sid "rp_dial env (dp_SocketPath deps) req"] Some s
      by (cases "rp_dial env (dp_SocketPath deps) req") (simp_all add: Let_def)
  qed
next
  case None
  have "gget (ps_items (snd (Resolve now fs p ps))) q = (if p = q \<and> (\<nexists>e. live now p ps e) then None else gget (ps_items ps) q)" for now fs p q
    by (auto simp: Resolve_def live_def split: option.splits)
  with reply_no_call [OF None] None show ?thesis by (auto simp: Let_def live_def split: if_splits)
qed


section \<open>A concrete reply\<close>

definition sample_mac :: "string \<Rightarrow> string \<Rightarrow> string" where
  "sample_mac key text = ''mac''"

definition sample_deps :: inbound_deps where
  "sample_deps = \<lparr>dp_AuthToken = ''token'', dp_PublicURL = ''https://a.example/twilio/inbound'', dp_ApproverID = ''bob'',
     dp_SocketPath = ''/run/r.sock''\<rparr>"

definition sample_form :: "string \<Rightarrow> form" where
  "sample_form body = [(''From'', [''+15550001'']), (''Body'', [body])]"

definition sample_reply :: "string \<Rightarrow> inbound_request" where
  "sample_reply body = \<lparr>in_Method = ''POST'', in_PostForm = Inr (sample_form body),
     in_Signature = computeTwilioSignature sample_mac ''token'' ''https://a.example/twilio/inbound'' (sample_form body)\<rparr>"

definition sample_pending :: pending_set where
  "sample_pending = \<lparr>ps_ttl = 600, ps_items = [(''+15550001'', \<lparr>pe_RequestID = ''req_1'', pe_OpenedAt = 1000\<rparr>)], ps_audit = None\<rparr>"

definition sample_client :: twilio_client where
  "sample_client = NewTwilioClient \<lparr>tc_AccountSID = ''AC1'', tc_AuthToken = ''token'', tc_VerifyServiceSID = ''VA1'',
     tc_FromNumber = [], tc_RoutingCallbackURL = [], tc_RoutingCallbackKey = []\<rparr>"

definition sample_http :: http where
  "sample_http call = Inr (200, json_print (JObj [(''status'', jstring ''approved'')]))"

definition sample_reply_env :: "(string \<Rightarrow> wire_request \<Rightarrow> response result) \<Rightarrow> reply_env" where
  "sample_reply_env dial = \<lparr>rp_resolve = (1200, FsOk), rp_release = (1201, FsOk), rp_audit = (1202, FsOk),
     rp_check = CheckVerification (\<lambda>_. []) (\<lambda>_. []) None sample_http sample_client, rp_dial = dial\<rparr>"

lemma sample_signed:
  "ValidateTwilioSignature sample_mac (dp_AuthToken sample_deps) (dp_PublicURL sample_deps) (sample_form body)
     (in_Signature (sample_reply body))"
proof -
  have "computeTwilioSignature sample_mac ''token'' u fm \<noteq> []" for u fm by (simp add: computeTwilioSignature_def sample_mac_def)
  then show ?thesis by (simp add: ValidateTwilioSignature_def sample_deps_def sample_reply_def)
qed

lemma sample_fields:
  "form_Get (sample_form body) ''From'' = ''+15550001''" "form_Get (sample_form body) ''Body'' = body"
  by (simp_all add: form_Get_def sample_form_def gget_def)

lemma sample_check: "\<exists>v. CheckVerification (\<lambda>_. []) (\<lambda>_. []) None sample_http sample_client to code = (v, None) \<and> vr_Approved v"
proof -
  have p: "json_parse (json_print (JObj [(''status'', jstring ''approved'')])) = Some (JObj [(''status'', jstring ''approved'')])"
    by (rule json_parse_print) (simp add: raw_ok_plain_key plain_key_eval byte_def)
  have "unmarshal_partial verify_fields (json_print (JObj [(''status'', jstring ''approved'')])) zero_verify
      = (zero_verify\<lparr>vr_Status := ''approved''\<rparr>, True)"
    unfolding unmarshal_partial_def p
    by (simp add: verify_fields_def zero_verify_def json_unquote_plain_key plain_key_eval find_field_def codec_simps byte_def)
  then show ?thesis by (simp add: CheckVerification_def sample_http_def zero_verify_def)
qed

lemma sample_resolve: "Resolve 1200 fs ''+15550001'' sample_pending = (Some ''req_1'', sample_pending)"
  by (simp add: Resolve_def sample_pending_def gget_def time_sub_def min_duration_def max_duration_def)

lemma sample_intents:
  "ParseReplyIntent ''yes 123456'' = (ReplyIntentApprove, ''123456'')" "ParseReplyIntent ''NO 123456'' = (ReplyIntentDeny, ''123456'')"
  by code_simp+

lemma sample_calls_broker:
  "ir_Call (HandleInboundReply sample_mac (\<lambda>_. []) sample_deps (sample_reply_env dial) (sample_reply ''yes 123456'') sample_pending)
   = Some (brokerSocketCaller_request ActionReviewApprove ''req_1'' ''twilio'' ''bob'' ''approved via SMS'')"
proof -
  obtain v where v: "CheckVerification (\<lambda>_. []) (\<lambda>_. []) None sample_http sample_client ''+15550001'' ''123456'' = (v, None)" "vr_Approved v"
    using sample_check by blast
  have r: "in_Method (sample_reply b) = ''POST''" "in_PostForm (sample_reply b) = Inr (sample_form b)" for b by (simp_all add: sample_reply_def)
  show ?thesis
    using sample_signed v by (simp add: HandleInboundReply_def r sample_fields sample_intents sample_reply_env_def sample_resolve
      Let_def sample_deps_def split: sum.splits)
qed

theorem sms_verdicts_are_verified_witness:
  "\<exists>req e. ir_Call (HandleInboundReply sample_mac (\<lambda>_. []) sample_deps (sample_reply_env (\<lambda>_ _. Inr zero_response))
      (sample_reply ''yes 123456'') sample_pending) = Some req
    \<and> wr_Action req = ActionReviewApprove \<and> live 1200 ''+15550001'' sample_pending e \<and> wr_RequestID req = pe_RequestID e"
proof -
  let ?env = "sample_reply_env (\<lambda>_ _. Inr zero_response)"
  have c: "rp_check ?env = CheckVerification (\<lambda>_. []) (\<lambda>_. []) None sample_http sample_client" by (simp add: sample_reply_env_def)
  obtain fm e where e: "in_PostForm (sample_reply ''yes 123456'') = Inr fm"
    "live (fst (rp_resolve ?env)) (form_Get fm ''From'') sample_pending e"
    "wr_RequestID (brokerSocketCaller_request ActionReviewApprove ''req_1'' ''twilio'' ''bob'' ''approved via SMS'') = pe_RequestID e"
    using sms_verdicts_are_verified [OF c sample_calls_broker] by blast
  then have "live 1200 ''+15550001'' sample_pending e" by (auto simp: sample_reply_def sample_fields sample_reply_env_def)
  with e(3) sample_calls_broker show ?thesis
    by (intro exI [of _ "brokerSocketCaller_request ActionReviewApprove ''req_1'' ''twilio'' ''bob'' ''approved via SMS''"] exI [of _ e])
       (simp add: brokerSocketCaller_request_def)
qed

text \<open>The broker answers the approval with an error, and the verification is gone all the same.\<close>

theorem reply_frees_slot_on_any_answer_witness:
  "let answer = zero_response\<lparr>rs_Status := ''error''\<rparr>;
       res = HandleInboundReply sample_mac (\<lambda>_. []) sample_deps (sample_reply_env (\<lambda>_ _. Inr answer)) (sample_reply ''yes 123456'')
         sample_pending in
   gget (ps_items sample_pending) ''+15550001'' \<noteq> None \<and> gget (ps_items (ir_Pending res)) ''+15550001'' = None"
  using reply_frees_slot_on_any_answer [of sample_mac "\<lambda>_. []" sample_deps
      "sample_reply_env (\<lambda>_ _. Inr (zero_response\<lparr>rs_Status := ''error''\<rparr>))" "sample_reply ''yes 123456''" sample_pending]
    sample_calls_broker
  by (simp add: Let_def sample_reply_env_def sample_reply_def sender_def sample_fields, simp add: sample_pending_def gget_def)

end
