(* ===== verification/Approvers.thy ===== *)
theory Approvers
  imports Twilio
begin

text \<open>
  \<open>approvers.go\<close>: the routing policy, read from the two-space indented subset of YAML the adapter
  understands, and the lookup of the phones to notify. The reader is a line automaton; the names
  of its states and variables are those of the source.
\<close>

section \<open>The policy\<close>

record approvers_policy =
  ap_ApproverSets :: "string list gomap"
  ap_Phones :: "string list gomap"
  ap_Routing :: "string gomap"

text \<open>The inner loop over the phones of one member: \<open>seen\<close> and \<open>out\<close> hold the same phones.\<close>

fun add_phones :: "string list \<Rightarrow> string list \<Rightarrow> string list" where
  "add_phones [] out = out"
| "add_phones (phone # phones) out =
     (let phone = TrimSpace phone in
      if phone = [] \<or> phone \<in> set out then add_phones phones out
      else add_phones phones (out @ [phone]))"

definition phones_of :: "approvers_policy \<Rightarrow> string \<Rightarrow> string list" where
  "phones_of p member = (case gget (ap_Phones p) member of None \<Rightarrow> [] | Some phones \<Rightarrow> phones)"

definition LookupRecipients :: "approvers_policy \<Rightarrow> string \<Rightarrow> string list" where
  "LookupRecipients p requester =
     (case gget (ap_Routing p) requester of
        None \<Rightarrow> []
      | Some setName \<Rightarrow>
          (case gget (ap_ApproverSets p) setName of
             None \<Rightarrow> []
           | Some members \<Rightarrow> fold (\<lambda>member. add_phones (phones_of p member)) members []))"

section \<open>Reading the file\<close>

datatype yaml_section = secNone | secApproverSets | secApprovers | secRouting

record yaml_state =
  ys_policy :: approvers_policy
  ys_section :: yaml_section
  ys_currentSetName :: string
  ys_currentApprover :: string
  ys_currentRequester :: string
  ys_inPhones :: bool

definition stripComment :: "string \<Rightarrow> string" where
  "stripComment line = (case IndexByte line (CHR ''#'') of Some idx \<Rightarrow> take idx line | None \<Rightarrow> line)"

definition leadingSpaces :: "string \<Rightarrow> nat" where
  "leadingSpaces s = length (takeWhile (\<lambda>c. c = CHR '' '') s)"

abbreviation (input) quotes :: string where "quotes \<equiv> [CHR 0x22, CHR 0x27]"

definition yaml_item :: "string \<Rightarrow> string" where
  "yaml_item trimmed = TrimChars (TrimSpace (TrimPrefix trimmed ''- '')) quotes"

definition section_of :: "string \<Rightarrow> yaml_section" where
  "section_of head = (if head = ''approver_sets'' then secApproverSets else if head = ''approvers'' then secApprovers
     else if head = ''routing'' then secRouting else secNone)"

definition gappend :: "string \<Rightarrow> string \<Rightarrow> string list gomap \<Rightarrow> string list gomap" where
  "gappend k v m = gput k ((case gget m k of None \<Rightarrow> [] | Some vs \<Rightarrow> vs) @ [v]) m"

definition sets_line :: "nat \<Rightarrow> string \<Rightarrow> yaml_state \<Rightarrow> yaml_state" where
  "sets_line indent trimmed y =
     (let p = ys_policy y in
      if indent = 2 \<and> HasSuffix trimmed '':'' then
        (let name = TrimSuffix trimmed '':'' in
         y\<lparr>ys_currentSetName := name, ys_policy := p\<lparr>ap_ApproverSets := gput name [] (ap_ApproverSets p)\<rparr>\<rparr>)
      else if indent \<ge> 4 \<and> HasPrefix trimmed ''- '' \<and> ys_currentSetName y \<noteq> [] then
        y\<lparr>ys_policy := p\<lparr>ap_ApproverSets := gappend (ys_currentSetName y) (yaml_item trimmed) (ap_ApproverSets p)\<rparr>\<rparr>
      else y)"

definition approvers_line :: "nat \<Rightarrow> string \<Rightarrow> yaml_state \<Rightarrow> yaml_state" where
  "approvers_line indent trimmed y =
     (let p = ys_policy y in
      if indent = 2 \<and> HasSuffix trimmed '':'' then
        (let name = TrimSuffix trimmed '':'' in
         y\<lparr>ys_currentApprover := name, ys_policy := p\<lparr>ap_Phones := gput name [] (ap_Phones p)\<rparr>, ys_inPhones := False\<rparr>)
      else if indent = 4 \<and> trimmed = ''phones:'' then y\<lparr>ys_inPhones := True\<rparr>
      else if ys_inPhones y \<and> indent \<ge> 6 \<and> HasPrefix trimmed ''- '' \<and> ys_currentApprover y \<noteq> [] then
        y\<lparr>ys_policy := p\<lparr>ap_Phones := gappend (ys_currentApprover y) (yaml_item trimmed) (ap_Phones p)\<rparr>\<rparr>
      else if indent = 4 then y\<lparr>ys_inPhones := False\<rparr>
      else y)"

definition routing_line :: "nat \<Rightarrow> string \<Rightarrow> yaml_state \<Rightarrow> yaml_state" where
  "routing_line indent trimmed y =
     (let p = ys_policy y in
      if indent = 2 \<and> HasSuffix trimmed '':'' then y\<lparr>ys_currentRequester := TrimSuffix trimmed '':''\<rparr>
      else if indent \<ge> 4 \<and> ys_currentRequester y \<noteq> [] then
        (case IndexByte trimmed (CHR '':'') of
           None \<Rightarrow> y
         | Some colon \<Rightarrow>
             (let key = TrimSpace (take colon trimmed);
                  val = TrimChars (TrimSpace (drop (Suc colon) trimmed)) quotes
              in if key = ''approver_set''
                 then y\<lparr>ys_policy := p\<lparr>ap_Routing := gput (ys_currentRequester y) val (ap_Routing p)\<rparr>\<rparr>
                 else y))
      else y)"

definition yaml_line :: "string \<Rightarrow> yaml_state \<Rightarrow> yaml_state" where
  "yaml_line raw y =
     (let stripped = stripComment raw in
      if TrimSpace stripped = [] then y
      else
        let indent = leadingSpaces stripped; trimmed = TrimSpace stripped in
        if indent = 0 \<and> HasSuffix trimmed '':'' then
          y\<lparr>ys_section := section_of (TrimSuffix trimmed '':''), ys_currentSetName := [], ys_currentApprover := [],
            ys_currentRequester := [], ys_inPhones := False\<rparr>
        else if indent = 0 \<and> CHR '':'' \<in> set trimmed then y\<lparr>ys_section := secNone\<rparr>
        else case ys_section y of
          secApproverSets \<Rightarrow> sets_line indent trimmed y
        | secApprovers \<Rightarrow> approvers_line indent trimmed y
        | secRouting \<Rightarrow> routing_line indent trimmed y
        | secNone \<Rightarrow> y)"

definition yaml_start :: yaml_state where
  "yaml_start = \<lparr>ys_policy = \<lparr>ap_ApproverSets = [], ap_Phones = [], ap_Routing = []\<rparr>, ys_section = secNone,
     ys_currentSetName = [], ys_currentApprover = [], ys_currentRequester = [], ys_inPhones = False\<rparr>"

definition parseApprovers :: "string \<Rightarrow> approvers_policy result" where
  "parseApprovers file =
     (let (ls, tooLong) = scan_lines text_limit file; policy = ys_policy (fold yaml_line ls yaml_start) in
      if tooLong then Inl ErrTooLong
      else if ap_ApproverSets policy = [] \<and> ap_Routing policy = [] then
        Inl (ErrText ''approvers.yaml empty or unparseable (no approver_sets or routing)'')
      else Inr policy)"

definition LoadApprovers :: "string result \<Rightarrow> (string \<Rightarrow> string result) \<Rightarrow> string \<Rightarrow> approvers_policy result" where
  "LoadApprovers wd open path = result_bind (Abs wd path) (\<lambda>abs. result_bind (open abs) parseApprovers)"

section \<open>The recipients\<close>

lemma add_phones_spec:
  "add_phones phones out = out @ rev (remdups (rev (filter (\<lambda>x. x \<noteq> [] \<and> x \<notin> set out) (map TrimSpace phones))))"
proof (induction phones arbitrary: out)
  case (Cons p ps)
  let ?t = "TrimSpace p"
  have f: "filter (\<lambda>x. x \<noteq> [] \<and> x \<notin> set (out @ [?t])) xs = filter (\<lambda>x. x \<noteq> ?t) (filter (\<lambda>x. x \<noteq> [] \<and> x \<notin> set out) xs)" for xs
    by (induction xs) auto
  have d: "remdups (xs @ [a]) = remdups (filter (\<lambda>x. x \<noteq> a) xs) @ [a]" for xs and a :: string
    by (induction xs) auto
  show ?case
    using Cons.IH [of out] Cons.IH [of "out @ [?t]"] by (auto simp: Let_def f d rev_filter conj_ac)
qed simp

text \<open>The phones in the order they are first mentioned.\<close>

definition first_seen :: "string list \<Rightarrow> string list" where
  "first_seen xs = rev (remdups (rev (filter (\<lambda>x. x \<noteq> []) xs)))"

lemma first_seen_append:
  "first_seen (xs @ ys) = first_seen xs @ rev (remdups (rev (filter (\<lambda>x. x \<noteq> [] \<and> x \<notin> set (first_seen xs)) ys)))"
proof -
  have "remdups (bs @ as) = remdups (filter (\<lambda>x. x \<notin> set as) bs) @ remdups as" for as bs :: "string list"
    by (induction bs) auto
  moreover have "filter (\<lambda>x. x \<notin> A) (filter (\<lambda>x. x \<noteq> []) ys) = filter (\<lambda>x. x \<noteq> [] \<and> x \<notin> A) ys" if "[] \<notin> A" for A
    using that by (induction ys) auto
  ultimately show ?thesis by (simp add: first_seen_def rev_filter)
qed

lemma add_phones_first_seen: "add_phones ps (first_seen xs) = first_seen (xs @ map TrimSpace ps)"
  by (simp add: add_phones_spec first_seen_append)

definition members_of :: "approvers_policy \<Rightarrow> string \<Rightarrow> string list" where
  "members_of p requester =
     (case Option.bind (gget (ap_Routing p) requester) (gget (ap_ApproverSets p)) of None \<Rightarrow> [] | Some members \<Rightarrow> members)"

lemma LookupRecipients_first_seen:
  "LookupRecipients p requester = first_seen (map TrimSpace (concat (map (phones_of p) (members_of p requester))))"
proof -
  have f: "fold (\<lambda>member. add_phones (phones_of p member)) members (first_seen xs)
      = first_seen (xs @ map TrimSpace (concat (map (phones_of p) members)))" for members xs
    by (induction members arbitrary: xs) (simp_all add: add_phones_first_seen)
  show ?thesis
    using f [of _ "[]"] by (simp add: LookupRecipients_def members_of_def first_seen_def split: option.splits)
qed

lemma recipients_distinct: "distinct (LookupRecipients p requester)"
  by (simp add: LookupRecipients_first_seen first_seen_def)

text \<open>
  Who is notified. The recipients of a request are the trimmed, non-empty phones of the members
  of the approver set its requester is routed to, each once, in the order in which the policy
  mentions them first; without a route or a set there are none.
\<close>

theorem recipients_are_routed_phones:
  "let phones = map TrimSpace (concat (map (phones_of p) (members_of p requester))) in
   LookupRecipients p requester = first_seen phones \<and> distinct (LookupRecipients p requester)
   \<and> set (LookupRecipients p requester) = set phones - {[]}"
  by (auto simp: LookupRecipients_first_seen Let_def first_seen_def)

section \<open>Policies as text\<close>

definition yaml_text :: "nat \<times> string \<Rightarrow> string" where
  "yaml_text l = replicate (fst l) (CHR '' '') @ snd l"

definition yaml_ok :: "nat \<times> string \<Rightarrow> bool" where
  "yaml_ok l \<longleftrightarrow> snd l \<noteq> [] \<and> hd (snd l) \<noteq> CHR '' '' \<and> last (snd l) \<noteq> CHR '' ''
     \<and> list_all (\<lambda>c. 32 \<le> byte c \<and> byte c \<le> 126 \<and> c \<noteq> CHR ''#'') (snd l)"

lemma yaml_ok_ends: "yaml_ok l \<Longrightarrow> snd l \<noteq> [] \<and> visible (hd (snd l)) \<and> visible (last (snd l)) \<and> hd (snd l) \<noteq> CHR '' ''"
proof -
  assume y: "yaml_ok l"
  have "visible c" if "c \<in> set (snd l)" "c \<noteq> CHR '' ''" for c
  proof -
    have "byte c = 32 \<longleftrightarrow> c = CHR '' ''" using byte_inject [of c "CHR '' ''"] by (simp add: byte_def)
    moreover have "32 \<le> byte c" "byte c \<le> 126" using y that(1) by (simp_all add: yaml_ok_def list_all_iff)
    ultimately show ?thesis using that(2) by (simp add: visible_def ascii_space_def)
  qed
  with y show ?thesis by (simp add: yaml_ok_def)
qed

lemma yaml_text_read:
  assumes "yaml_ok (k, t)"
  shows "stripComment (yaml_text (k, t)) = yaml_text (k, t)" "TrimSpace (yaml_text (k, t)) = t"
    "leadingSpaces (yaml_text (k, t)) = k"
proof -
  have "CHR ''#'' \<notin> set (yaml_text (k, t))" using assms by (auto simp: yaml_ok_def yaml_text_def list_all_iff)
  then show "stripComment (yaml_text (k, t)) = yaml_text (k, t)" by (simp add: stripComment_def IndexByte_None [THEN iffD2])
  show "TrimSpace (yaml_text (k, t)) = t" using TrimSpace_ends [of t k] yaml_ok_ends [OF assms] by (simp add: yaml_text_def)
  show "leadingSpaces (yaml_text (k, t)) = k"
    using yaml_ok_ends [OF assms] by (cases t) (simp_all add: yaml_text_def leadingSpaces_def takeWhile_append)
qed

interpretation yl: line_codec yaml_ok yaml_text "\<lambda>line. Some (leadingSpaces line, TrimSpace line)"
proof
  fix l :: "nat \<times> string" assume l: "yaml_ok l"
  obtain k t where kt: "l = (k, t)" by (cases l)
  show "Some (leadingSpaces (yaml_text l), TrimSpace (yaml_text l)) = Some l"
    using yaml_text_read [of k t] l by (simp add: kt)
  have cr: "\<not> visible (CHR 0x0D)" by (simp add: visible_def ascii_space_def byte_def)
  have "\<not> 32 \<le> byte newline" "newline \<noteq> CHR '' ''" by (simp_all add: newline_def byte_def)
  with l show "newline \<notin> set (yaml_text l)" by (auto simp: yaml_ok_def yaml_text_def list_all_iff)
  show "yaml_text l \<noteq> [] \<and> last (yaml_text l) \<noteq> CHR 0x0D"
    using yaml_ok_ends [OF l] cr by (auto simp: yaml_text_def)
qed

text \<open>One printed line, by its indentation and text.\<close>

definition yaml_step :: "nat \<times> string \<Rightarrow> yaml_state \<Rightarrow> yaml_state" where
  "yaml_step l = yaml_line (yaml_text l)"

lemma yaml_step_body:
  assumes "yaml_ok (k, t)" "k \<noteq> 0"
  shows "yaml_step (k, t) y = (case ys_section y of secApproverSets \<Rightarrow> sets_line k t y
    | secApprovers \<Rightarrow> approvers_line k t y | secRouting \<Rightarrow> routing_line k t y | secNone \<Rightarrow> y)"
  using assms yaml_ok_ends [OF assms(1)] by (simp add: yaml_step_def yaml_line_def yaml_text_read [OF assms(1)] Let_def)

lemma has_colon: "HasSuffix (t @ '':'') '':''" "TrimSuffix (t @ '':'') '':'' = t"
  by (simp_all add: HasSuffix_def TrimSuffix_def)

lemma yaml_step_head:
  assumes "yaml_ok (0, h @ '':'')"
  shows "yaml_step (0, h @ '':'') y = y\<lparr>ys_section := section_of h, ys_currentSetName := [], ys_currentApprover := [],
            ys_currentRequester := [], ys_inPhones := False\<rparr>"
  using assms by (simp add: yaml_step_def yaml_line_def yaml_text_read [OF assms] has_colon Let_def)


text \<open>The names a policy is made of.\<close>

definition plain_name :: "string \<Rightarrow> bool" where
  "plain_name n \<longleftrightarrow> n \<noteq> [] \<and> list_all (\<lambda>c. 33 \<le> byte c \<and> byte c \<le> 126 \<and> c \<notin> set ''#:'' \<and> c \<notin> set quotes) n"

lemma plain_name_ends:
  assumes "plain_name n"
  shows "n \<noteq> []" "visible (hd n)" "visible (last n)" "CHR '':'' \<notin> set n" "TrimChars n quotes = n"
    "TrimChars (dquote # n @ [dquote]) quotes = n"
    "list_all (\<lambda>c. 32 \<le> byte c \<and> byte c \<le> 126 \<and> c \<noteq> CHR ''#'') n" "hd n \<noteq> CHR '' ''" "last n \<noteq> CHR '' ''"
proof -
  show 1: "n \<noteq> []" using assms by (simp add: plain_name_def)
  have c: "33 \<le> byte c" "byte c \<le> 126" "c \<noteq> CHR ''#''" "c \<noteq> CHR '':''" "c \<noteq> CHR 0x22" "c \<noteq> CHR 0x27" if "c \<in> set n" for c
    using assms that by (auto simp: plain_name_def list_all_iff)
  have v: "visible c" "c \<noteq> CHR '' ''" if "c \<in> set n" for c
    using c(1,2) [OF that] by (auto simp: visible_def ascii_space_def byte_def)
  show "visible (hd n)" "visible (last n)" "hd n \<noteq> CHR '' ''" "last n \<noteq> CHR '' ''" using v 1 by simp_all
  show "CHR '':'' \<notin> set n" using c(4) by blast
  have "hd n \<notin> {CHR 0x22, CHR 0x27}" "last n \<notin> {CHR 0x22, CHR 0x27}" using c(5,6) 1 by auto
  with 1 have "dropWhile (\<lambda>c. c \<in> set quotes) (n @ r) = n @ r" "dropWhile (\<lambda>c. c \<in> set quotes) (rev n @ r) = rev n @ r" for r
    by (auto simp: dropWhile_eq_self_iff hd_append hd_rev)
  from this(1) [of "[]"] this(1) [of "[dquote]"] this(2) [of "[]"]
  show "TrimChars n quotes = n" "TrimChars (dquote # n @ [dquote]) quotes = n" by (simp_all add: TrimChars_def)
  show "list_all (\<lambda>c. 32 \<le> byte c \<and> byte c \<le> 126 \<and> c \<noteq> CHR ''#'') n"
    using c(1-3) by (fastforce simp: list_all_iff)
qed

definition set_lines :: "string \<times> string list \<Rightarrow> (nat \<times> string) list" where
  "set_lines e = (2, fst e @ '':'') # map (\<lambda>m. (4, ''- '' @ m)) (snd e)"

definition approver_lines :: "string \<times> string list \<Rightarrow> (nat \<times> string) list" where
  "approver_lines e = (2, fst e @ '':'') # (4, ''phones:'') # map (\<lambda>p. (6, ''- '' @ [dquote] @ p @ [dquote])) (snd e)"

definition route_lines :: "string \<times> string \<Rightarrow> (nat \<times> string) list" where
  "route_lines e = [(2, fst e @ '':''), (4, ''approver_set: '' @ snd e)]"

definition policy_lines :: "approvers_policy \<Rightarrow> (nat \<times> string) list" where
  "policy_lines p =
     (0, ''approver_sets:'') # concat (map set_lines (ap_ApproverSets p))
     @ (0, ''approvers:'') # concat (map approver_lines (ap_Phones p))
     @ (0, ''routing:'') # concat (map route_lines (ap_Routing p))"

definition policy_ok :: "approvers_policy \<Rightarrow> bool" where
  "policy_ok p \<longleftrightarrow>
     list_all (\<lambda>e. plain_name (fst e) \<and> list_all plain_name (snd e)) (ap_ApproverSets p) \<and> distinct (map fst (ap_ApproverSets p))
   \<and> list_all (\<lambda>e. plain_name (fst e) \<and> list_all plain_name (snd e)) (ap_Phones p) \<and> distinct (map fst (ap_Phones p))
   \<and> list_all (\<lambda>e. plain_name (fst e) \<and> plain_name (snd e)) (ap_Routing p) \<and> distinct (map fst (ap_Routing p))"

lemma yaml_ok_lines:
  assumes "plain_name n"
  shows "yaml_ok (k, n @ '':'')" "yaml_ok (k, ''- '' @ n)" "yaml_ok (k, ''- '' @ [dquote] @ n @ [dquote])" "yaml_ok (k, ''approver_set: '' @ n)"
  using plain_name_ends(1,7,8,9) [OF assms] by (simp_all add: yaml_ok_def byte_def list_all_append)

lemma yaml_ok_heads: "yaml_ok (k, ''approver_sets:'')" "yaml_ok (k, ''approvers:'')" "yaml_ok (k, ''routing:'')" "yaml_ok (k, ''phones:'')"
  by (simp_all add: yaml_ok_def byte_def)

lemma yaml_item_name:
  assumes "plain_name n"
  shows "yaml_item (''- '' @ n) = n" "yaml_item (''- '' @ [dquote] @ n @ [dquote]) = n"
proof -
  have q: "visible dquote" by (simp add: visible_def ascii_space_def byte_def)
  have "TrimSpace n = n" "TrimSpace ([dquote] @ n @ [dquote]) = [dquote] @ n @ [dquote]"
    using TrimSpace_visible [of n] TrimSpace_visible [of "[dquote] @ n @ [dquote]"] plain_name_ends(1-3) [OF assms] q by simp_all
  then show "yaml_item (''- '' @ n) = n" "yaml_item (''- '' @ [dquote] @ n @ [dquote]) = n"
    using plain_name_ends(5,6) [OF assms] by (simp_all add: yaml_item_def TrimPrefix_def)
qed

lemma gput_gput: "gput k v (gput k w m) = gput k v m"
  by (induction m) (auto simp: gput_def)

lemma gappend_gput: "gappend k v (gput k vs m) = gput k (vs @ [v]) m"
  by (simp add: gappend_def gput_gput)

lemma gput_new: "k \<notin> fst ` set m \<Longrightarrow> gput k v m = m @ [(k, v)]"
  by (induction m) (auto simp: gput_def)

lemma fold_sets_items:
  assumes "list_all plain_name ms" "n \<noteq> []" "ys_section y = secApproverSets" "ys_currentSetName y = n"
    and "ap_ApproverSets (ys_policy y) = gput n vs m"
  shows "fold yaml_step (map (\<lambda>m. (4, ''- '' @ m)) ms) y = y\<lparr>ys_policy := (ys_policy y)\<lparr>ap_ApproverSets := gput n (vs @ ms) m\<rparr>\<rparr>"
  using assms
proof (induction ms arbitrary: y vs)
  case (Cons x ms)
  let ?y = "y\<lparr>ys_policy := (ys_policy y)\<lparr>ap_ApproverSets := gput n (vs @ [x]) m\<rparr>\<rparr>"
  have "yaml_step (4, ''- '' @ x) y = ?y"
    using Cons.prems yaml_item_name(1) [of x] yaml_ok_lines(2) [of x 4]
    by (simp add: yaml_step_body sets_line_def gappend_gput HasPrefix_iff Let_def)
  with Cons.IH [of ?y "vs @ [x]"] Cons.prems show ?case by simp
qed simp

lemma fold_phone_items:
  assumes "list_all plain_name ps" "n \<noteq> []" "ys_section y = secApprovers" "ys_currentApprover y = n" "ys_inPhones y"
    and "ap_Phones (ys_policy y) = gput n vs m"
  shows "fold yaml_step (map (\<lambda>p. (6, ''- '' @ [dquote] @ p @ [dquote])) ps) y
    = y\<lparr>ys_policy := (ys_policy y)\<lparr>ap_Phones := gput n (vs @ ps) m\<rparr>\<rparr>"
  using assms
proof (induction ps arbitrary: y vs)
  case (Cons x ps)
  let ?y = "y\<lparr>ys_policy := (ys_policy y)\<lparr>ap_Phones := gput n (vs @ [x]) m\<rparr>\<rparr>"
  have "yaml_step (6, ''- '' @ [dquote] @ x @ [dquote]) y = ?y"
    using Cons.prems yaml_item_name(2) [of x] yaml_ok_lines(3) [of x 6]
    by (simp add: yaml_step_body approvers_line_def gappend_gput HasPrefix_iff HasSuffix_def Let_def)
  with Cons.IH [of ?y "vs @ [x]"] Cons.prems show ?case by simp
qed simp

text \<open>Each section stores its entries, in order, and touches no other part of the policy.\<close>

lemma fold_sets:
  assumes "list_all (\<lambda>e. plain_name (fst e) \<and> list_all plain_name (snd e)) es" "ys_section y = secApproverSets"
  shows "\<exists>n. fold yaml_step (concat (map set_lines es)) y = y\<lparr>ys_currentSetName := n,
    ys_policy := (ys_policy y)\<lparr>ap_ApproverSets := fold (\<lambda>e. gput (fst e) (snd e)) es (ap_ApproverSets (ys_policy y))\<rparr>\<rparr>"
  using assms
proof (induction es arbitrary: y)
  case (Nil y)
  show ?case by (intro exI [of _ "ys_currentSetName y"]) simp
next
  case (Cons e es)
  obtain k ms where e: "e = (k, ms)" by (cases e)
  with Cons.prems have k: "plain_name k" "list_all plain_name ms" by simp_all
  let ?y1 = "y\<lparr>ys_currentSetName := k, ys_policy := (ys_policy y)\<lparr>ap_ApproverSets := gput k [] (ap_ApproverSets (ys_policy y))\<rparr>\<rparr>"
  let ?y2 = "y\<lparr>ys_currentSetName := k, ys_policy := (ys_policy y)\<lparr>ap_ApproverSets := gput k ms (ap_ApproverSets (ys_policy y))\<rparr>\<rparr>"
  have 1: "yaml_step (2, k @ '':'') y = ?y1"
    using Cons.prems yaml_ok_lines(1) [OF k(1), of 2] by (simp add: yaml_step_body sets_line_def has_colon Let_def)
  have 2: "fold yaml_step (map (\<lambda>m. (4, ''- '' @ m)) ms) ?y1 = ?y2"
    using fold_sets_items [OF k(2), of k ?y1 "[]"] k(1) Cons.prems(2) by (simp add: plain_name_def)
  have "fold yaml_step (set_lines e) y = ?y2" by (simp only: set_lines_def e fst_conv snd_conv fold_simps 1 2)
  with Cons.IH [of ?y2] Cons.prems show ?case by (auto simp: e)
qed

lemma fold_approvers:
  assumes "list_all (\<lambda>e. plain_name (fst e) \<and> list_all plain_name (snd e)) es" "ys_section y = secApprovers"
  shows "\<exists>n b. fold yaml_step (concat (map approver_lines es)) y = y\<lparr>ys_currentApprover := n, ys_inPhones := b,
    ys_policy := (ys_policy y)\<lparr>ap_Phones := fold (\<lambda>e. gput (fst e) (snd e)) es (ap_Phones (ys_policy y))\<rparr>\<rparr>"
  using assms
proof (induction es arbitrary: y)
  case (Nil y)
  show ?case by (intro exI [of _ "ys_currentApprover y"] exI [of _ "ys_inPhones y"]) simp
next
  case (Cons e es)
  obtain k ps where e: "e = (k, ps)" by (cases e)
  with Cons.prems have k: "plain_name k" "list_all plain_name ps" by simp_all
  let ?y1 = "y\<lparr>ys_currentApprover := k, ys_policy := (ys_policy y)\<lparr>ap_Phones := gput k [] (ap_Phones (ys_policy y))\<rparr>, ys_inPhones := False\<rparr>"
  let ?y2 = "?y1\<lparr>ys_inPhones := True\<rparr>"
  let ?y3 = "y\<lparr>ys_currentApprover := k, ys_inPhones := True,
    ys_policy := (ys_policy y)\<lparr>ap_Phones := gput k ps (ap_Phones (ys_policy y))\<rparr>\<rparr>"
  have 1: "yaml_step (2, k @ '':'') y = ?y1"
    using Cons.prems yaml_ok_lines(1) [OF k(1), of 2] by (simp add: yaml_step_body approvers_line_def has_colon Let_def)
  have 2: "yaml_step (4, ''phones:'') ?y1 = ?y2"
    using Cons.prems yaml_ok_heads(4) [of 4] by (simp add: yaml_step_body approvers_line_def Let_def)
  have 3: "fold yaml_step (map (\<lambda>p. (6, ''- '' @ [dquote] @ p @ [dquote])) ps) ?y2 = ?y3"
    using fold_phone_items [OF k(2), of k ?y2 "[]"] k(1) Cons.prems(2) by (simp add: plain_name_def)
  have "fold yaml_step (approver_lines e) y = ?y3" by (simp only: approver_lines_def e fst_conv snd_conv fold_simps 1 2 3)
  with Cons.IH [of ?y3] Cons.prems show ?case by (auto simp: e)
qed

lemma fold_routes:
  assumes "list_all (\<lambda>e. plain_name (fst e) \<and> plain_name (snd e)) es" "ys_section y = secRouting"
  shows "\<exists>n. fold yaml_step (concat (map route_lines es)) y = y\<lparr>ys_currentRequester := n,
    ys_policy := (ys_policy y)\<lparr>ap_Routing := fold (\<lambda>e. gput (fst e) (snd e)) es (ap_Routing (ys_policy y))\<rparr>\<rparr>"
  using assms
proof (induction es arbitrary: y)
  case (Nil y)
  show ?case by (intro exI [of _ "ys_currentRequester y"]) simp
next
  case (Cons e es)
  obtain k v where e: "e = (k, v)" by (cases e)
  with Cons.prems have k: "plain_name k" "plain_name v" by simp_all
  let ?y1 = "y\<lparr>ys_currentRequester := k\<rparr>"
  let ?y2 = "y\<lparr>ys_currentRequester := k, ys_policy := (ys_policy y)\<lparr>ap_Routing := gput k v (ap_Routing (ys_policy y))\<rparr>\<rparr>"
  have 1: "yaml_step (2, k @ '':'') y = ?y1"
    using Cons.prems yaml_ok_lines(1) [OF k(1), of 2] by (simp add: yaml_step_body routing_line_def has_colon Let_def)
  have t: "TrimSpace (CHR '' '' # v) = v" using TrimSpace_ends [of v 1] plain_name_ends(1-3) [OF k(2)] by simp
  have a: "TrimSpace ''approver_set'' = ''approver_set''" by (rule TrimSpace_visible) (simp_all add: visible_def ascii_space_def byte_def)
  have i: "IndexByte (''approver_set: '' @ v) (CHR '':'') = Some 12" by simp
  have 2: "yaml_step (4, ''approver_set: '' @ v) ?y1 = ?y2"
    using Cons.prems yaml_ok_lines(4) [OF k(2), of 4] k(1) plain_name_ends(5) [OF k(2)]
    by (simp add: yaml_step_body routing_line_def i t a Let_def plain_name_def)
  have "fold yaml_step (route_lines e) y = ?y2" by (simp only: route_lines_def e fst_conv snd_conv fold_simps 1 2)
  with Cons.IH [of ?y2] Cons.prems show ?case by (auto simp: e)
qed

lemma fold_gput_distinct: "distinct (map fst (m @ es)) \<Longrightarrow> fold (\<lambda>e. gput (fst e) (snd e)) es m = m @ es"
proof (induction es arbitrary: m)
  case (Cons e es)
  then have "gput (fst e) (snd e) m = m @ [e]" by (subst gput_new) (auto simp: image_iff)
  with Cons.IH [of "m @ [e]"] Cons.prems show ?case by simp
qed simp

lemma policy_lines_ok: "policy_ok p \<Longrightarrow> list_all yaml_ok (policy_lines p)"
  by (simp add: policy_ok_def policy_lines_def yaml_ok_heads list_all_append)
     (auto simp: list_all_iff set_lines_def approver_lines_def route_lines_def yaml_ok_heads
       yaml_ok_lines [unfolded append_Cons append_Nil])

lemma policy_lines_state:
  assumes "policy_ok p"
  shows "ys_policy (fold yaml_step (policy_lines p) yaml_start) = p"
proof -
  let ?h = "\<lambda>h y. y\<lparr>ys_section := section_of h, ys_currentSetName := [], ys_currentApprover := [],
            ys_currentRequester := [], ys_inPhones := False\<rparr>"
  have h: "yaml_step (0, ''approver_sets:'') y = ?h ''approver_sets'' y" "yaml_step (0, ''approvers:'') y = ?h ''approvers'' y"
    "yaml_step (0, ''routing:'') y = ?h ''routing'' y" for y
    using yaml_step_head [of "''approver_sets''" y] yaml_step_head [of "''approvers''" y] yaml_step_head [of "''routing''" y]
      yaml_ok_heads [of 0] by simp_all
  note o = assms [unfolded policy_ok_def]
  let ?y0 = "?h ''approver_sets'' yaml_start"
  obtain n1 where 1: "fold yaml_step (concat (map set_lines (ap_ApproverSets p))) ?y0 =
      ?y0\<lparr>ys_currentSetName := n1, ys_policy := (ys_policy ?y0)\<lparr>ap_ApproverSets := ap_ApproverSets p\<rparr>\<rparr>"
    using fold_sets [of "ap_ApproverSets p" ?y0] o fold_gput_distinct [of "[]" "ap_ApproverSets p"] by (auto simp: section_of_def yaml_start_def)
  let ?y1 = "?h ''approvers'' (?y0\<lparr>ys_currentSetName := n1, ys_policy := (ys_policy ?y0)\<lparr>ap_ApproverSets := ap_ApproverSets p\<rparr>\<rparr>)"
  obtain n2 b where 2: "fold yaml_step (concat (map approver_lines (ap_Phones p))) ?y1 =
      ?y1\<lparr>ys_currentApprover := n2, ys_inPhones := b, ys_policy := (ys_policy ?y1)\<lparr>ap_Phones := ap_Phones p\<rparr>\<rparr>"
    using fold_approvers [of "ap_Phones p" ?y1] o fold_gput_distinct [of "[]" "ap_Phones p"] by (auto simp: section_of_def yaml_start_def)
  let ?y2 = "?h ''routing'' (?y1\<lparr>ys_currentApprover := n2, ys_inPhones := b, ys_policy := (ys_policy ?y1)\<lparr>ap_Phones := ap_Phones p\<rparr>\<rparr>)"
  obtain n3 where 3: "fold yaml_step (concat (map route_lines (ap_Routing p))) ?y2 =
      ?y2\<lparr>ys_currentRequester := n3, ys_policy := (ys_policy ?y2)\<lparr>ap_Routing := ap_Routing p\<rparr>\<rparr>"
    using fold_routes [of "ap_Routing p" ?y2] o fold_gput_distinct [of "[]" "ap_Routing p"] by (auto simp: section_of_def yaml_start_def)
  show ?thesis
    unfolding policy_lines_def by (simp only: fold_append fold_simps o_apply h 1 2 3) (simp add: yaml_start_def)
qed

lemma fold_yaml_text: "fold yaml_line (map yaml_text ls) y = fold yaml_step ls y"
  by (induction ls arbitrary: y) (simp_all add: yaml_step_def)

text \<open>
  C36 (routing policies). A policy of plain names, written in the layout of the setup guide, is parsed
  to exactly the same sets, phones and routes; it is rejected only if it has neither a set nor a
  route.
\<close>

theorem policy_roundtrip:
  assumes "policy_ok p" "list_all (\<lambda>l. length (yaml_text l) < text_limit) (policy_lines p)"
  shows "parseApprovers (file_lines yaml_text (policy_lines p)) =
    (if ap_ApproverSets p = [] \<and> ap_Routing p = []
     then Inl (ErrText ''approvers.yaml empty or unparseable (no approver_sets or routing)'') else Inr p)"
  using yl.scan_file [OF policy_lines_ok [OF assms(1)] assms(2)] policy_lines_state [OF assms(1)]
  by (simp add: parseApprovers_def fold_yaml_text)

text \<open>
  Lines outside the subset. An indented line without a colon that is not a list item is skipped,
  wherever it stands: the file with it gives the policy the file gives without it.
\<close>

theorem unknown_lines_are_skipped:
  assumes "at_boundary file" "yaml_ok (k, t)" "length (yaml_text (k, t)) < text_limit" "0 < k"
    and "CHR '':'' \<notin> set t" "\<not> HasPrefix t ''- ''"
  shows "parseApprovers (file @ yaml_text (k, t) @ [newline]) = parseApprovers file"
proof -
  have c: "\<not> HasSuffix t '':''" using assms(5) by (auto simp: HasSuffix_def HasPrefix_iff)
  have p: "ys_policy (yaml_step (k, t) y) = ys_policy y" for y
    using assms(4-6) c IndexByte_None [of t "CHR '':''"]
    by (cases "ys_section y") (auto simp: yaml_step_body [OF assms(2)] sets_line_def approvers_line_def routing_line_def Let_def)
  have s: "scan_lines text_limit (yaml_text (k, t) @ [newline]) = ([yaml_text (k, t)], False)"
    using yl.scan_file [of "[(k, t)]" text_limit] assms(2,3) by simp
  show ?thesis
    using p by (simp add: parseApprovers_def scan_lines_append [OF assms(1)] s yaml_step_def split: prod.splits)
qed

section \<open>The policy of the setup guide\<close>

definition sample_policy :: approvers_policy where
  "sample_policy = \<lparr>ap_ApproverSets = [(''operators'', [''bob'', ''eve''])],
     ap_Phones = [(''bob'', [''+15550001'']), (''eve'', [''+447700900123'', ''+15550001''])], ap_Routing = [(''alice'', ''operators'')]\<rparr>"

lemma sample_policy_ok: "policy_ok sample_policy"
  by (simp add: policy_ok_def sample_policy_def plain_name_def byte_def)

theorem policy_roundtrip_witness:
  "parseApprovers (file_lines yaml_text (policy_lines sample_policy)) = Inr sample_policy
   \<and> LookupRecipients sample_policy ''alice'' = [''+15550001'', ''+447700900123'']"
proof -
  have "list_all (\<lambda>l. length (yaml_text l) < text_limit) (policy_lines sample_policy)"
    by (simp add: policy_lines_def set_lines_def approver_lines_def route_lines_def sample_policy_def yaml_text_def text_limit_def)
  moreover have "LookupRecipients sample_policy ''alice'' = [''+15550001'', ''+447700900123'']" by code_simp
  ultimately show ?thesis using policy_roundtrip [OF sample_policy_ok] by (simp add: sample_policy_def)
qed

theorem unknown_lines_are_skipped_witness:
  "parseApprovers (file_lines yaml_text (policy_lines sample_policy) @ ''    phones = +15559999'' @ [newline])
   = parseApprovers (file_lines yaml_text (policy_lines sample_policy))"
proof -
  have b: "at_boundary (file_lines yaml_text (policy_lines sample_policy))" by (rule yl.file_boundary)
  have y: "yaml_ok (4, ''phones = +15559999'')" by (simp add: yaml_ok_def byte_def)
  have "yaml_text (4, ''phones = +15559999'') = ''    phones = +15559999''" by (simp add: yaml_text_def numeral_eq_Suc)
  with unknown_lines_are_skipped [OF b y] show ?thesis by (simp add: text_limit_def)
qed

end
