(* ===== verification/Adapter.thy ===== *)
theory Adapter
  imports Webhook Approvers Canon_Tail
begin

text \<open>
  \<open>cmd/request-sudo-twilio-adapter\<close>: the start of the adapter, and \<open>handlePending\<close>, which texts the
  routed phones of a new request. The body of its loop is split where the pending set is changed:
  \<open>claim_phone\<close> up to the claim of the slot, \<open>settle_phone\<close> from the call of Twilio on.
\<close>

section \<open>Texting the approvers\<close>

text \<open>The answers of the environment while one phone is handled.\<close>

record phone_env =
  pv_open :: "time \<times> fs_outcome \<times> fs_outcome"
  pv_newreq :: "go_error option"
  pv_http :: http
  pv_release :: "time \<times> fs_outcome"
  pv_audit :: "time \<times> fs_outcome"

definition phone_row :: "string \<Rightarrow> string \<Rightarrow> string \<Rightarrow> row \<Rightarrow> row" where
  "phone_row t requestID phone rest =
     [(''type'', jstring t), (''request_id'', jstring requestID), (''recipient_masked'', jstring (MaskPhone phone))] @ rest"

definition audit_phone :: "phone_env \<Rightarrow> row \<Rightarrow> pending_set \<Rightarrow> pending_set" where
  "audit_phone env row ps = write_row (snd (pv_audit env)) (fst (pv_audit env)) row ps"

text \<open>The country guard and the claim of the slot; \<open>True\<close> if the phone is to be texted.\<close>

definition claim_phone :: "string list \<Rightarrow> pending_request \<Rightarrow> phone_env \<Rightarrow> string \<Rightarrow> pending_set \<Rightarrow> bool \<times> pending_set" where
  "claim_phone allowedCountryCodes p env phone ps =
     (if \<not> IsAllowedCountry phone allowedCountryCodes then
        (False, audit_phone env (phone_row ''unsupported_region'' (pr_RequestID p) phone []) ps)
      else case OpenPending (fst (pv_open env)) (fst (snd (pv_open env))) (snd (snd (pv_open env))) phone (pr_RequestID p) ps of
        (Some err, ps) \<Rightarrow>
          (if err = ErrPhoneBusy then
             (False, audit_phone env (phone_row ''routing_blocked_same_phone'' (pr_RequestID p) phone []) ps)
           else (False, ps))
      | (None, ps) \<Rightarrow> (True, ps))"

text \<open>
  \<open>errtext\<close> and \<open>decodeErr\<close> give the texts of errors, \<open>c\<close> is the Twilio client.
\<close>

definition text_phone ::
    "(go_error \<Rightarrow> string) \<Rightarrow> (string \<Rightarrow> string) \<Rightarrow> twilio_client \<Rightarrow> phone_env \<Rightarrow> string \<Rightarrow> verify_result \<times> go_error option" where
  "text_phone errtext decodeErr c env phone = SendVerificationSMS errtext decodeErr (pv_newreq env) (pv_http env) c phone"

definition settle_phone ::
    "(go_error \<Rightarrow> string) \<Rightarrow> (string \<Rightarrow> string) \<Rightarrow> twilio_client \<Rightarrow> bool \<Rightarrow> pending_request \<Rightarrow> phone_env \<Rightarrow> string \<Rightarrow> pending_set \<Rightarrow> pending_set" where
  "settle_phone errtext decodeErr c dryRun p env phone ps =
     (if dryRun then
        audit_phone env (phone_row ''sms_sent'' (pr_RequestID p) phone
          [(''verify_session_sid'', jstring ''DRY-RUN''), (''dry_run'', JBool True)]) ps
      else case text_phone errtext decodeErr c env phone of
        (_, Some err) \<Rightarrow>
          audit_phone env (phone_row ''twilio_send_failed'' (pr_RequestID p) phone [(''error'', jstring (errtext err))])
            (Release (fst (pv_release env)) (snd (pv_release env)) phone ps)
      | (result, None) \<Rightarrow>
          audit_phone env (phone_row ''sms_sent'' (pr_RequestID p) phone
            [(''verify_session_sid'', jstring (vr_SID result)), (''twilio_status'', jstring (vr_Status result))]) ps)"

text \<open>One iteration of the loop: whether Twilio is asked to text the phone, and the state after.\<close>

definition notify_phone ::
    "(go_error \<Rightarrow> string) \<Rightarrow> (string \<Rightarrow> string) \<Rightarrow> twilio_client \<Rightarrow> string list \<Rightarrow> bool \<Rightarrow> pending_request \<Rightarrow> phone_env \<Rightarrow> string \<Rightarrow> pending_set \<Rightarrow> bool \<times> pending_set" where
  "notify_phone errtext decodeErr c codes dryRun p env phone ps =
     (case claim_phone codes p env phone ps of
        (False, ps) \<Rightarrow> (False, ps)
      | (True, ps) \<Rightarrow> (\<not> dryRun, settle_phone errtext decodeErr c dryRun p env phone ps))"

fun notify_phones ::
    "(go_error \<Rightarrow> string) \<Rightarrow> (string \<Rightarrow> string) \<Rightarrow> twilio_client \<Rightarrow> string list \<Rightarrow> bool \<Rightarrow> pending_request \<Rightarrow> (string \<Rightarrow> phone_env) \<Rightarrow> string list \<Rightarrow> pending_set \<Rightarrow>
     string list \<times> pending_set" where
  "notify_phones errtext decodeErr c codes dryRun p env [] ps = ([], ps)"
| "notify_phones errtext decodeErr c codes dryRun p env (phone # recipients) ps =
     (case notify_phone errtext decodeErr c codes dryRun p (env phone) phone ps of
        (asked, ps) \<Rightarrow>
          (case notify_phones errtext decodeErr c codes dryRun p env recipients ps of
             (sent, ps) \<Rightarrow> ((if asked then [phone] else []) @ sent, ps)))"

definition handlePending ::
    "(go_error \<Rightarrow> string) \<Rightarrow> (string \<Rightarrow> string) \<Rightarrow> twilio_client \<Rightarrow> approvers_policy \<Rightarrow> string list \<Rightarrow> bool \<Rightarrow> (string \<Rightarrow> phone_env) \<Rightarrow> time \<times> fs_outcome \<Rightarrow>
     pending_request \<Rightarrow> pending_set \<Rightarrow> string list \<times> pending_set" where
  "handlePending errtext decodeErr c policy codes dryRun env audit p ps =
     (let recipients = LookupRecipients policy (pr_Requester p) in
      if recipients = [] then
        ([], write_row (snd audit) (fst audit) [(''type'', jstring ''sms_routing_empty''),
           (''request_id'', jstring (pr_RequestID p)), (''requester'', jstring (pr_Requester p))] ps)
      else notify_phones errtext decodeErr c codes dryRun p env recipients ps)"

section \<open>Start\<close>

record adapter_flags =
  af_envFile :: string
  af_approvers :: string
  af_eventLog :: string
  af_reviewSock :: string
  af_auditLog :: string
  af_webhookAddr :: string
  af_publicURL :: string
  af_dryRun :: bool
  af_approverID :: string
  af_allowedCountryCodes :: string
  af_pendingTTL :: int

record adapter_files =
  ax_wd :: "string result"
  ax_open :: "string \<Rightarrow> string result"
  ax_mkdir :: "unit result"
  ax_audit :: "string result"
  ax_replay :: "string option result"

record adapter =
  ad_codes :: "string list"
  ad_policy :: approvers_policy
  ad_client :: twilio_client
  ad_tailer :: canon_tailer
  ad_pending :: pending_set
  ad_deps :: inbound_deps

text \<open>Every error here ends the process, but a failed replay of the audit log is only printed.\<close>

definition adapter_start :: "adapter_flags \<Rightarrow> adapter_files \<Rightarrow> adapter result" where
  "adapter_start fl fx =
     result_bind (ParseAllowedCountryCodes (af_allowedCountryCodes fl)) (\<lambda>codes.
     result_bind (LoadTwilioEnv (ax_wd fx) (ax_open fx) (af_envFile fl)) (\<lambda>cfg.
     result_bind (LoadApprovers (ax_wd fx) (ax_open fx) (af_approvers fl)) (\<lambda>policy.
     result_bind (NewAuditLog (ax_wd fx) (ax_mkdir fx) (ax_audit fx) (af_auditLog fl)) (\<lambda>audit.
       Inr \<lparr>ad_codes = codes, ad_policy = policy, ad_client = NewTwilioClient cfg, ad_tailer = NewCanonTailer,
            ad_pending = snd (ReplayFromAudit (ax_replay fx) (NewPendingSet (af_pendingTTL fl) (Some audit))),
            ad_deps = \<lparr>dp_AuthToken = tc_AuthToken cfg, dp_PublicURL = af_publicURL fl, dp_ApproverID = af_approverID fl,
                       dp_SocketPath = af_reviewSock fl\<rparr>\<rparr>))))"

section \<open>Who is texted\<close>

definition busy :: "phone_env \<Rightarrow> string \<Rightarrow> pending_set \<Rightarrow> bool" where
  "busy env phone ps \<longleftrightarrow> (\<exists>e. live (fst (pv_open env)) phone ps e)"

definition textable :: "string list \<Rightarrow> phone_env \<Rightarrow> string \<Rightarrow> pending_set \<Rightarrow> bool" where
  "textable codes env phone ps \<longleftrightarrow> IsAllowedCountry phone codes \<and> \<not> busy env phone ps"

text \<open>The slot of a phone after it was claimed: kept in a dry run or if the text went out, else given back.\<close>

definition entry_after :: "bool \<Rightarrow> bool \<Rightarrow> pending_request \<Rightarrow> phone_env \<Rightarrow> pending_entry option" where
  "entry_after dryRun textFailed p env =
     (if dryRun \<or> \<not> textFailed then Some \<lparr>pe_RequestID = pr_RequestID p, pe_OpenedAt = fst (pv_open env)\<rparr> else None)"

lemma audit_phone_items [simp]: "ps_items (audit_phone env row ps) = ps_items ps" "ps_ttl (audit_phone env row ps) = ps_ttl ps"
  by (simp_all add: audit_phone_def)

lemma claim_phone_effect:
  "fst (claim_phone codes p env phone ps) \<longleftrightarrow> textable codes env phone ps"
  "ps_ttl (snd (claim_phone codes p env phone ps)) = ps_ttl ps"
  "gget (ps_items (snd (claim_phone codes p env phone ps))) q =
     (if q = phone \<and> textable codes env phone ps then Some \<lparr>pe_RequestID = pr_RequestID p, pe_OpenedAt = fst (pv_open env)\<rparr>
      else gget (ps_items ps) q)"
  by (auto simp: claim_phone_def textable_def busy_def live_def OpenPending_def Let_def split: option.splits if_splits)

lemma settle_phone_effect:
  "ps_ttl (settle_phone errtext decodeErr c dryRun p env phone ps) = ps_ttl ps"
  "gget (ps_items (settle_phone errtext decodeErr c dryRun p env phone ps)) q =
     (if q = phone \<and> \<not> dryRun \<and> snd (text_phone errtext decodeErr c env phone) \<noteq> None then None else gget (ps_items ps) q)"
  by (auto simp: settle_phone_def Release_def split: option.splits prod.splits)

lemma notify_phone_effect:
  "fst (notify_phone errtext decodeErr c codes dryRun p env phone ps) \<longleftrightarrow> \<not> dryRun \<and> textable codes env phone ps"
  "ps_ttl (snd (notify_phone errtext decodeErr c codes dryRun p env phone ps)) = ps_ttl ps"
  "gget (ps_items (snd (notify_phone errtext decodeErr c codes dryRun p env phone ps))) q =
     (if q = phone \<and> textable codes env phone ps then entry_after dryRun (snd (text_phone errtext decodeErr c env phone) \<noteq> None) p env else gget (ps_items ps) q)"
proof -
  obtain b ps1 where cl: "claim_phone codes p env phone ps = (b, ps1)" by fastforce
  with claim_phone_effect [of codes p env phone ps] have
    "b \<longleftrightarrow> textable codes env phone ps" "ps_ttl ps1 = ps_ttl ps"
    "gget (ps_items ps1) q = (if q = phone \<and> textable codes env phone ps
       then Some \<lparr>pe_RequestID = pr_RequestID p, pe_OpenedAt = fst (pv_open env)\<rparr> else gget (ps_items ps) q)" for q by simp_all
  then show "fst (notify_phone errtext decodeErr c codes dryRun p env phone ps) \<longleftrightarrow> \<not> dryRun \<and> textable codes env phone ps"
    "ps_ttl (snd (notify_phone errtext decodeErr c codes dryRun p env phone ps)) = ps_ttl ps"
    "gget (ps_items (snd (notify_phone errtext decodeErr c codes dryRun p env phone ps))) q =
       (if q = phone \<and> textable codes env phone ps then entry_after dryRun (snd (text_phone errtext decodeErr c env phone) \<noteq> None) p env else gget (ps_items ps) q)"
    by (cases b; auto simp: notify_phone_def cl settle_phone_effect entry_after_def)+
qed

lemma textable_cong:
  "gget (ps_items ps') phone = gget (ps_items ps) phone \<Longrightarrow> ps_ttl ps' = ps_ttl ps \<Longrightarrow>
   textable codes env phone ps' = textable codes env phone ps"
  by (simp add: textable_def busy_def live_def)

text \<open>
  C21 (who is texted). Unless in a dry run, Twilio is asked to text exactly the routed phones of the
  requester in an allowed country without a pending verification, each once and in the policy's
  order; in a dry run nobody. Afterwards the slots of these phones belong to the request, but for
  those whose text could not be sent, which are free; no other slot has changed.
\<close>

theorem texts_go_to_routed_free_phones:
  "let (sent, ps') = handlePending errtext decodeErr c policy codes dryRun env audit p ps;
       target = (\<lambda>phone. phone \<in> set (LookupRecipients policy (pr_Requester p)) \<and> textable codes (env phone) phone ps) in
   sent = (if dryRun then [] else filter target (LookupRecipients policy (pr_Requester p))) \<and> distinct sent
   \<and> (\<forall>phone. gget (ps_items ps') phone =
        (if target phone then entry_after dryRun (snd (text_phone errtext decodeErr c (env phone) phone) \<noteq> None) p (env phone)
         else gget (ps_items ps) phone))"
proof -
  let ?t = "\<lambda>phone. textable codes (env phone) phone"
  have loop: "let (sent, ps') = notify_phones errtext decodeErr c codes dryRun p env rs ps in
      sent = (if dryRun then [] else filter (\<lambda>phone. ?t phone ps) rs)
      \<and> (\<forall>phone. gget (ps_items ps') phone =
           (if phone \<in> set rs \<and> ?t phone ps
            then entry_after dryRun (snd (text_phone errtext decodeErr c (env phone) phone) \<noteq> None) p (env phone)
            else gget (ps_items ps) phone))" if "distinct rs" for rs
    using that
  proof (induction rs arbitrary: ps)
    case (Cons r rs)
    obtain a ps1 where n: "notify_phone errtext decodeErr c codes dryRun p (env r) r ps = (a, ps1)" by fastforce
    obtain sent ps2 where l: "notify_phones errtext decodeErr c codes dryRun p env rs ps1 = (sent, ps2)" by fastforce
    note e = notify_phone_effect [of errtext decodeErr c codes dryRun p "env r" r ps, unfolded n fst_conv snd_conv]
    have t: "?t q ps1 = ?t q ps" if "q \<in> set rs" for q
      using that Cons.prems e(2,3) by (intro textable_cong) auto
    then have f: "filter (\<lambda>q. ?t q ps1) rs = filter (\<lambda>q. ?t q ps) rs" by (simp cong: filter_cong)
    from Cons.IH [of ps1] Cons.prems l have
      "sent = (if dryRun then [] else filter (\<lambda>q. ?t q ps1) rs)"
      "\<forall>q. gget (ps_items ps2) q = (if q \<in> set rs \<and> ?t q ps1
         then entry_after dryRun (snd (text_phone errtext decodeErr c (env q) q) \<noteq> None) p (env q) else gget (ps_items ps1) q)"
      by simp_all
    with n l e t f Cons.prems show ?case by auto
  qed simp
  have d: "distinct (LookupRecipients policy (pr_Requester p))"
    using recipients_distinct by simp
  show ?thesis
  proof (cases "LookupRecipients policy (pr_Requester p) = []")
    case True
    then show ?thesis by (simp add: handlePending_def Let_def)
  next
    case False
    then show ?thesis using loop [OF d] d by (auto simp: handlePending_def Let_def cong: filter_cong)
  qed
qed

end
