(* ===== verification/Adapter_System.thy ===== *)
theory Adapter_System
  imports Adapter Socket_System
begin

text \<open>
  The adapter as a state machine. The handler of new requests and the webhook work on one pending
  set, whose operations are atomic, in any order; a reply may be overtaken between its call of the broker
  and the release of its slot. The invariant: every slot was claimed for a request the tailer
  announced, on a phone routed to its requester. The last section runs a reply through the review
  socket into the broker.
\<close>

section \<open>Interleaved operations\<close>

record adapter_sys =
  as_pending :: pending_set
  as_announced :: "pending_request set"
  as_calls :: "(string \<times> wire_request) set"

record adapter_conf =
  ac_mac :: "string \<Rightarrow> string \<Rightarrow> string"
  ac_errtext :: "go_error \<Rightarrow> string"
  ac_decodeErr :: "string \<Rightarrow> string"
  ac_client :: twilio_client
  ac_policy :: approvers_policy
  ac_codes :: "string list"
  ac_dryRun :: bool
  ac_deps :: inbound_deps

datatype adapter_act =
    ActClaim pending_request string phone_env
  | ActSettle pending_request string phone_env
  | ActReply inbound_request reply_env
  | ActReplyBegin inbound_request reply_env
  | ActReplyEnd string wire_request
  | ActExpire
  | ActRow

inductive adapter_step :: "adapter_conf \<Rightarrow> adapter_sys \<Rightarrow> adapter_act \<Rightarrow> adapter_sys \<Rightarrow> bool" for cf where
  a_claim: "phone \<in> set (LookupRecipients (ac_policy cf) (pr_Requester p)) \<Longrightarrow>
    claim_phone (ac_codes cf) p env phone (as_pending y) = (b, ps') \<Longrightarrow>
    adapter_step cf y (ActClaim p phone env) (y\<lparr>as_pending := ps', as_announced := insert p (as_announced y)\<rparr>)"
| a_settle: "ps' = settle_phone (ac_errtext cf) (ac_decodeErr cf) (ac_client cf) (ac_dryRun cf) p env phone (as_pending y) \<Longrightarrow>
    adapter_step cf y (ActSettle p phone env) (y\<lparr>as_pending := ps'\<rparr>)"
| a_reply: "res = HandleInboundReply (ac_mac cf) (ac_errtext cf) (ac_deps cf) env r (as_pending y) \<Longrightarrow>
    adapter_step cf y (ActReply r env) (y\<lparr>as_pending := ir_Pending res,
      as_calls := as_calls y \<union> {(sender r, req) | req. ir_Call res = Some req}\<rparr>)"
| a_begin: "ir_Call (HandleInboundReply (ac_mac cf) (ac_errtext cf) (ac_deps cf) env r (as_pending y)) = Some req \<Longrightarrow>
    adapter_step cf y (ActReplyBegin r env) (y\<lparr>as_calls := insert (sender r, req) (as_calls y)\<rparr>)"
| a_end: "(from, req) \<in> as_calls y \<Longrightarrow> ps' = consumed env t (wr_RequestID req) from sid reply (as_pending y) \<Longrightarrow>
    adapter_step cf y (ActReplyEnd from req) (y\<lparr>as_pending := ps'\<rparr>)"
| a_expire: "ps' = snd (ExpireDue now fs order (as_pending y)) \<Longrightarrow>
    adapter_step cf y ActExpire (y\<lparr>as_pending := ps'\<rparr>)"
| a_row: "ps' = write_row fs now row (as_pending y) \<Longrightarrow> adapter_step cf y ActRow (y\<lparr>as_pending := ps'\<rparr>)"

inductive_cases adapter_stepE: "adapter_step cf y act y'"

text \<open>A phone may speak for a request.\<close>

definition entitled :: "adapter_conf \<Rightarrow> pending_request set \<Rightarrow> string \<Rightarrow> string \<Rightarrow> bool" where
  "entitled cf A phone rid \<longleftrightarrow> (\<exists>p \<in> A. pr_RequestID p = rid \<and> phone \<in> set (LookupRecipients (ac_policy cf) (pr_Requester p))
     \<and> IsAllowedCountry phone (ac_codes cf))"

definition adapter_inv :: "adapter_conf \<Rightarrow> adapter_sys \<Rightarrow> bool" where
  "adapter_inv cf y \<longleftrightarrow> slots.allotted (entitled cf (as_announced y)) (as_pending y)
     \<and> (\<forall>(from, req) \<in> as_calls y. entitled cf (as_announced y) from (wr_RequestID req)
          \<and> wr_Approver req = \<lparr>actor_Kind = ''twilio'', actor_ID = dp_ApproverID (ac_deps cf)\<rparr>)"

lemma entitled_mono: "entitled cf A phone rid \<Longrightarrow> A \<subseteq> B \<Longrightarrow> entitled cf B phone rid"
  unfolding entitled_def by blast

lemma allotted_mono: "slots.allotted P s \<Longrightarrow> (\<And>q rid. P q rid \<Longrightarrow> Q q rid) \<Longrightarrow> slots.allotted Q s"
  by (simp add: slots.allotted_def)

lemma slot_of_items: "ps_items ps' = ps_items ps \<Longrightarrow> slot_of ps' = slot_of ps"
  by (simp add: slot_of_def fun_eq_iff)

lemma gget_slot_mono:
  "(\<And>q e. gget (ps_items ps') q = Some e \<Longrightarrow> gget (ps_items ps) q = Some e) \<Longrightarrow> slots.allotted Q ps \<Longrightarrow> slots.allotted Q ps'"
  by (auto simp: slots.allotted_def slot_of_def)

lemma claim_phone_allotted:
  assumes "claim_phone codes p env phone ps = (b, ps')" "slots.allotted Q ps" "IsAllowedCountry phone codes \<Longrightarrow> Q phone (pr_RequestID p)"
  shows "slots.allotted Q ps'"
  using assms claim_phone_effect(3) [of codes p env phone ps]
  by (auto simp: slots.allotted_def slot_of_def textable_def split: if_splits)

lemma settle_phone_allotted: "slots.allotted Q ps \<Longrightarrow> slots.allotted Q (settle_phone errtext decodeErr c dryRun p env phone ps)"
  by (rule gget_slot_mono) (auto simp: settle_phone_effect split: if_splits)

lemma ExpireDue_shrinks: "gget (ps_items (snd (ExpireDue now fs order ps))) q = Some e \<Longrightarrow> gget (ps_items ps) q = Some e"
proof (induction order arbitrary: ps)
  case (Cons x order)
  show ?case
  proof (cases "gget (ps_items ps) x")
    case None
    with Cons show ?thesis by simp
  next
    case (Some en)
    let ?d = "drop_entry (fs x) auditTypeVerifyPendingExpired x en now ps"
    show ?thesis
    proof (cases "time_sub now (pe_OpenedAt en) \<ge> ps_ttl ps")
      case True
      with Some Cons.prems have "gget (ps_items (snd (ExpireDue now fs order ?d))) q = Some e" by (simp split: prod.splits)
      from Cons.IH [OF this] show ?thesis by (simp split: if_splits)
    next
      case False
      with Some Cons show ?thesis by simp
    qed
  qed
qed simp

lemma consumed_shrinks: "gget (ps_items (consumed env t rid from sid reply ps)) q = Some e \<Longrightarrow> gget (ps_items ps) q = Some e"
  by (auto simp: consumed_def Release_def split: sum.splits option.splits if_splits)

lemma Resolve_shrinks: "gget (ps_items (snd (Resolve now fs phone ps))) q = Some e \<Longrightarrow> gget (ps_items ps) q = Some e"
  by (auto simp: Resolve_def split: option.splits if_splits)

lemma reply_shrinks:
  "gget (ps_items (ir_Pending (HandleInboundReply mac errtext deps env r ps))) q = Some e \<Longrightarrow> gget (ps_items ps) q = Some e"
proof (cases "ir_Call (HandleInboundReply mac errtext deps env r ps)")
  case None
  then show "gget (ps_items (ir_Pending (HandleInboundReply mac errtext deps env r ps))) q = Some e \<Longrightarrow> ?thesis"
    using reply_no_call [OF None] Resolve_shrinks by metis
next
  case (Some req)
  then show "gget (ps_items (ir_Pending (HandleInboundReply mac errtext deps env r ps))) q = Some e \<Longrightarrow> ?thesis"
    by (cases rule: reply_calls) (auto dest: consumed_shrinks)
qed

lemma reply_call_entitled:
  assumes "ir_Call (HandleInboundReply mac errtext deps env r ps) = Some req" "slots.allotted Q ps"
  shows "Q (sender r) (wr_RequestID req)" "wr_Approver req = \<lparr>actor_Kind = ''twilio'', actor_ID = dp_ApproverID deps\<rparr>"
proof -
  from assms(1) obtain e fm where e: "in_PostForm r = Inr fm" "live (fst (rp_resolve env)) (form_Get fm ''From'') ps e"
    "wr_RequestID req = pe_RequestID e" and a: "wr_Approver req = \<lparr>actor_Kind = ''twilio'', actor_ID = dp_ApproverID deps\<rparr>"
    by (cases rule: reply_calls) (auto simp: brokerSocketCaller_request_def)
  then have "slot_of ps (sender r) = Some (wr_RequestID req)" by (simp add: slot_of_def sender_def live_def)
  with assms(2) show "Q (sender r) (wr_RequestID req)" by (simp add: slots.allotted_def)
  from a show "wr_Approver req = \<lparr>actor_Kind = ''twilio'', actor_ID = dp_ApproverID deps\<rparr>" .
qed

interpretation ad: machine "\<lambda>y. \<exists>ttl audit. y = \<lparr>as_pending = NewPendingSet ttl audit, as_announced = {}, as_calls = {}\<rparr>"
    "adapter_step cf" "adapter_inv cf" for cf
proof
  show "adapter_inv cf y" if "\<exists>ttl audit. y = \<lparr>as_pending = NewPendingSet ttl audit, as_announced = {}, as_calls = {}\<rparr>" for y
    using that by (auto simp: adapter_inv_def slots.allotted_def slot_of_def NewPendingSet_def)
  fix y act y'
  assume inv: "adapter_inv cf y" and st: "adapter_step cf y act y'"
  have al: "slots.allotted (entitled cf (as_announced y)) (as_pending y)"
    and ca: "\<And>from req. (from, req) \<in> as_calls y \<Longrightarrow> entitled cf (as_announced y) from (wr_RequestID req)
      \<and> wr_Approver req = \<lparr>actor_Kind = ''twilio'', actor_ID = dp_ApproverID (ac_deps cf)\<rparr>"
    using inv by (auto simp: adapter_inv_def)
  from st show "adapter_inv cf y'"
  proof cases
    case (a_claim phone p env b ps')
    let ?A = "insert p (as_announced y)"
    have m: "entitled cf (as_announced y) q rid \<Longrightarrow> entitled cf ?A q rid" for q rid by (erule entitled_mono) blast
    have "slots.allotted (entitled cf ?A) ps'"
      by (rule claim_phone_allotted [OF a_claim(4) allotted_mono [OF al m]]) (use a_claim(3) in \<open>auto simp: entitled_def\<close>)
    with a_claim(2) ca m show ?thesis by (auto simp: adapter_inv_def)
  next
    case (a_settle ps' p env phone)
    with al ca settle_phone_allotted show ?thesis by (auto simp: adapter_inv_def)
  next
    case (a_reply res env r)
    have "slots.allotted (entitled cf (as_announced y)) (ir_Pending res)"
      unfolding a_reply(3) by (rule gget_slot_mono [OF reply_shrinks al])
    with a_reply ca reply_call_entitled [OF _ al] show ?thesis by (auto simp: adapter_inv_def)
  next
    case (a_begin env r req)
    with al ca reply_call_entitled [OF a_begin(3) al] show ?thesis by (auto simp: adapter_inv_def)
  next
    case (a_end "from" req ps' env t sid reply)
    have "slots.allotted (entitled cf (as_announced y)) ps'" unfolding a_end(4) by (rule gget_slot_mono [OF consumed_shrinks al])
    with a_end(2) ca show ?thesis by (auto simp: adapter_inv_def)
  next
    case (a_expire ps' now fs order)
    have "slots.allotted (entitled cf (as_announced y)) ps'" unfolding a_expire(3) by (rule gget_slot_mono [OF ExpireDue_shrinks al])
    with a_expire(2) ca show ?thesis by (auto simp: adapter_inv_def)
  next
    case (a_row ps' fs now row)
    have "slots.allotted (entitled cf (as_announced y)) ps'" unfolding a_row(3) by (rule gget_slot_mono [OF _ al]) simp
    with a_row(2) ca show ?thesis by (auto simp: adapter_inv_def)
  qed
qed

text \<open>
  Who may decide by text message. However new requests, replies, failed texts and expiries
  interleave on a fresh adapter: whenever the broker is asked to approve or deny a request because
  of a message from some phone, the tailer has announced that request before, the phone is one the
  policy routes to its requester and lies in an allowed country, and the verdict is given under the
  configured approver identity.
\<close>

theorem sms_verdicts_from_routed_phones:
  assumes "run (adapter_step cf) \<lparr>as_pending = NewPendingSet ttl audit, as_announced = {}, as_calls = {}\<rparr> acts y"
    and "(phone, req) \<in> as_calls y"
  shows "\<exists>p \<in> as_announced y. wr_RequestID req = pr_RequestID p
    \<and> phone \<in> set (LookupRecipients (ac_policy cf) (pr_Requester p)) \<and> IsAllowedCountry phone (ac_codes cf)
    \<and> wr_Approver req = \<lparr>actor_Kind = ''twilio'', actor_ID = dp_ApproverID (ac_deps cf)\<rparr>"
proof -
  have "adapter_inv cf y" by (rule ad.inv_run [OF _ assms(1)]) blast
  with assms(2) have "entitled cf (as_announced y) phone (wr_RequestID req)"
    "wr_Approver req = \<lparr>actor_Kind = ''twilio'', actor_ID = dp_ApproverID (ac_deps cf)\<rparr>" by (auto simp: adapter_inv_def)
  then show ?thesis unfolding entitled_def by metis
qed

section \<open>From the message to the broker\<close>

text \<open>The broker's review socket, as the caller dials it.\<close>

definition dial_review ::
    "(string \<Rightarrow> string) \<Rightarrow> (go_error \<Rightarrow> string) \<Rightarrow> (string \<Rightarrow> string) \<Rightarrow> call_env \<Rightarrow> peer_identity \<Rightarrow> server \<Rightarrow>
     string \<Rightarrow> wire_request \<Rightarrow> response result" where
  "dial_review sha errtext decodeErr cenv peer srv socketPath req =
     (if socketPath = sr_reviewSocketPath srv
      then Call (Inr (\<lambda>sent. Inr (fst (handleConn sha errtext decodeErr cenv (peer, None) ''review'' sent srv)))) req
      else Inl (ErrOs ''ENOENT''))"

lemma dispatch_sms_approval:
  assumes "reviewAllowed srv (peer_UID peer) (peer_GID peer)"
    and "valid_utf8 (lg_lastHash (sv_log (sr_service srv)))" "healthy (ce_io2 cenv)" "valid_utf8 rid" "valid_utf8 approver"
    and snap: "Get (sv_projection (sr_service srv)) rid = Some snap" "snap_Status snap = StatusPending"
      "ce_now cenv < req_ExpiresAt (snap_Request snap)" "utf8_request (snap_Request snap)" "snap_Execution snap = None"
      "validateApprover \<lparr>actor_Kind = ''twilio'', actor_ID = approver\<rparr> (req_Requester (snap_Request snap)) = None"
  defines "req \<equiv> brokerSocketCaller_request ActionReviewApprove rid ''twilio'' approver ''approved via SMS''"
  shows "utf8_wire_request req"
    and "\<exists>resp srv'. dispatch sha cenv ''review'' req peer srv = (Inr resp, srv') \<and> utf8_response resp \<and> rs_Status resp = ''approved''
      \<and> status_of (sv_projection (sr_service srv')) rid = Some StatusApproved"
proof -
  let ?a = "\<lparr>actor_Kind = ''twilio'', actor_ID = approver\<rparr>"
  let ?i = "\<lparr>ri_RequestID = rid, ri_Approver = ?a, ri_ApprovalCode = [], ri_Reason = []\<rparr>"
  have r: "route srv ''review'' req peer = CallApprove ?i"
    using assms(1) by (simp add: req_def brokerSocketCaller_request_def route_def zero_wire_request_def Let_def)
  show "utf8_wire_request req"
    using assms(4,5) by (simp add: req_def brokerSocketCaller_request_def utf8_wire_request_def utf8_actor_def zero_wire_request_def byte_def)
  have u: "utf8_actor (ri_Approver ?i)" using assms(5) by (simp add: utf8_actor_def byte_def)
  obtain e s' where g: "Approve sha (ce_now cenv) (ce_io1 cenv) (ce_io2 cenv) ?i (sr_service srv)
      = (Inr (FromSnapshot (stamped e (snap\<lparr>snap_Status := StatusApproved, snap_Approver := Some ?a\<rparr>)) ''request approved''), s')"
    "sv_projection s' = gput rid (stamped e (snap\<lparr>snap_Status := StatusApproved, snap_Approver := Some ?a\<rparr>)) (sv_projection (sr_service srv))"
    using Approve_granted [of "sr_service srv" "ce_io2 cenv" ?i snap "ce_now cenv" sha "ce_io1 cenv"] assms(2-4) u snap
    by (auto simp: Let_def)
  have d: "dispatch sha cenv ''review'' req peer srv =
      (Inr (FromSnapshot (stamped e (snap\<lparr>snap_Status := StatusApproved, snap_Approver := Some ?a\<rparr>)) ''request approved''),
       srv\<lparr>sr_service := s'\<rparr>)"
    using g(1) by (simp add: dispatch_def r)
  have "utf8_response (FromSnapshot (stamped e (snap\<lparr>snap_Status := StatusApproved, snap_Approver := Some ?a\<rparr>)) ''request approved'')"
    using snap(4,5) by (auto simp: utf8_response_def FromSnapshot_def zero_response_def utf8_request_def byte_def stamped_def Let_def)
  with d g(2) show "\<exists>resp srv'. dispatch sha cenv ''review'' req peer srv = (Inr resp, srv') \<and> utf8_response resp
      \<and> rs_Status resp = ''approved'' \<and> status_of (sv_projection (sr_service srv')) rid = Some StatusApproved"
    by (auto simp: status_of_def)
qed

text \<open>
  C11 (an approval by text message). A signed message that says yes with a code Twilio approves, from
  a phone with a live verification, takes a pending request to approved: the adapter calls the
  review socket, the broker stores the approval and answers it, the reply's slot is freed and the
  webhook answers 200. Assumed are a review peer the broker allows, working storage, an approver
  other than the requester, and texts in UTF-8.
\<close>

theorem sms_reply_approves_request:
  assumes "in_Method r = ''POST''" "in_PostForm r = Inr fm"
    and "ValidateTwilioSignature mac (dp_AuthToken deps) (dp_PublicURL deps) fm (in_Signature r)"
    and "says yes_alts (form_Get fm ''Body'') code" "live (fst (rp_resolve env)) (form_Get fm ''From'') ps e"
    and "rp_check env (form_Get fm ''From'') code = (v, None)" "vr_Approved v"
    and "rp_dial env = dial_review sha errtext decodeErr cenv peer srv" "dp_SocketPath deps = sr_reviewSocketPath srv"
    and "reviewAllowed srv (peer_UID peer) (peer_GID peer)"
    and "valid_utf8 (lg_lastHash (sv_log (sr_service srv)))" "healthy (ce_io2 cenv)"
    and "valid_utf8 (pe_RequestID e)" "valid_utf8 (dp_ApproverID deps)"
    and "Get (sv_projection (sr_service srv)) (pe_RequestID e) = Some snap" "snap_Status snap = StatusPending"
      "ce_now cenv < req_ExpiresAt (snap_Request snap)" "utf8_request (snap_Request snap)" "snap_Execution snap = None"
      "validateApprover \<lparr>actor_Kind = ''twilio'', actor_ID = dp_ApproverID deps\<rparr> (req_Requester (snap_Request snap)) = None"
  shows "\<exists>req. let res = HandleInboundReply mac errtext' deps env r ps;
           srv' = snd (handleConn sha errtext decodeErr cenv (peer, None) ''review'' (Encode (json_of_wire_request req)) srv) in
    ir_Status res = 200 \<and> ir_Call res = Some req
    \<and> status_of (sv_projection (sr_service srv')) (pe_RequestID e) = Some StatusApproved
    \<and> slot_of (ir_Pending res) (form_Get fm ''From'') = None"
proof -
  let ?req = "brokerSocketCaller_request ActionReviewApprove (pe_RequestID e) ''twilio'' (dp_ApproverID deps) ''approved via SMS''"
  note d = dispatch_sms_approval [OF assms(10-20)]
  obtain resp srv' where resp: "dispatch sha cenv ''review'' ?req peer srv = (Inr resp, srv')" "utf8_response resp"
    "status_of (sv_projection (sr_service srv')) (pe_RequestID e) = Some StatusApproved" using d(2) by blast
  have c: "rp_dial env (dp_SocketPath deps) ?req = Inr resp"
    using Call_handleConn(1) [OF d(1) resp(1)] resp(2) assms(8,9) by (simp add: dial_review_def)
  have s: "snd (handleConn sha errtext decodeErr cenv (peer, None) ''review'' (Encode (json_of_wire_request ?req)) srv) = srv'"
    using Call_handleConn(2) [OF d(1) resp(1)] resp(2) by simp
  have i: "ParseReplyIntent (form_Get fm ''Body'') = (ReplyIntentApprove, code)" using assms(4) ParseReplyIntent_meaning(1) by blast
  have l: "Resolve (fst (rp_resolve env)) (snd (rp_resolve env)) (form_Get fm ''From'') ps = (Some (pe_RequestID e), ps)"
    using assms(5) by (simp add: Resolve_live) blast
  have g: "gget (ps_items ps) (form_Get fm ''From'') = Some e" using assms(5) by (simp add: live_def)
  show ?thesis
    using assms(1-3,6,7) i l c s resp(3) g
    by (intro exI [of _ ?req]) (simp add: HandleInboundReply_def Release_def slot_of_def Let_def)
qed

section \<open>A concrete message\<close>

definition sample_announced :: pending_request where
  "sample_announced = \<lparr>pr_RequestID = ''req_1'', pr_Requester = ''alice'', pr_Argv = [''id'', ''-u''], pr_Reason = ''audit'', pr_CreatedAt = 1000\<rparr>"

definition sample_conf :: adapter_conf where
  "sample_conf = \<lparr>ac_mac = sample_mac, ac_errtext = \<lambda>_. [], ac_decodeErr = \<lambda>_. [], ac_client = sample_client,
     ac_policy = sample_policy, ac_codes = [''+1''], ac_dryRun = False, ac_deps = sample_deps\<rparr>"

definition sample_phone_env :: phone_env where
  "sample_phone_env = \<lparr>pv_open = (1000, FsOk, FsOk), pv_newreq = None, pv_http = sample_http, pv_release = (1001, FsOk), pv_audit = (1001, FsOk)\<rparr>"

lemma sample_claim: "claim_phone [''+1''] sample_announced sample_phone_env ''+15550001'' (NewPendingSet 600 None) = (True, sample_pending)"
  by (simp add: claim_phone_def IsAllowedCountry_def OpenPending_def NewPendingSet_def sample_phone_env_def sample_announced_def
      sample_pending_def emit_def write_row_def gput_def Let_def)

theorem sms_verdicts_from_routed_phones_witness:
  "\<exists>acts y req. run (adapter_step sample_conf) \<lparr>as_pending = NewPendingSet 600 None, as_announced = {}, as_calls = {}\<rparr> acts y
     \<and> (''+15550001'', req) \<in> as_calls y \<and> (\<exists>p \<in> as_announced y. wr_RequestID req = pr_RequestID p)"
proof -
  let ?y0 = "\<lparr>as_pending = NewPendingSet 600 None, as_announced = {}, as_calls = {}\<rparr>"
  let ?y1 = "?y0\<lparr>as_pending := sample_pending, as_announced := {sample_announced}\<rparr>"
  let ?env = "sample_reply_env (\<lambda>_ _. Inr zero_response)" and ?r = "sample_reply ''yes 123456''"
  let ?req = "brokerSocketCaller_request ActionReviewApprove ''req_1'' ''twilio'' ''bob'' ''approved via SMS''"
  let ?y2 = "?y1\<lparr>as_calls := {(sender ?r, ?req)}\<rparr>"
  have "LookupRecipients sample_policy ''alice'' = [''+15550001'', ''+447700900123'']" by code_simp
  then have "adapter_step sample_conf ?y0 (ActClaim sample_announced ''+15550001'' sample_phone_env) ?y1"
    using a_claim [of "''+15550001''" sample_conf sample_announced sample_phone_env ?y0 True sample_pending] sample_claim
    by (simp add: sample_conf_def sample_announced_def)
  moreover have "adapter_step sample_conf ?y1 (ActReplyBegin ?r ?env) ?y2"
    using a_begin [of sample_conf ?env ?r ?y1 ?req] sample_calls_broker by (simp add: sample_conf_def)
  ultimately have r: "run (adapter_step sample_conf) ?y0 [ActClaim sample_announced ''+15550001'' sample_phone_env, ActReplyBegin ?r ?env] ?y2"
    by (intro run_Cons run_single)
  have c: "(''+15550001'', ?req) \<in> as_calls ?y2" by (simp add: sender_def sample_reply_def sample_fields)
  from sms_verdicts_from_routed_phones [OF r c] r c show ?thesis by blast
qed

theorem sms_reply_approves_request_witness:
  "let srv = sample_server [(''req_1'', sample_snapshot StatusPending)];
       env = sample_reply_env (dial_review sample_sha (\<lambda>_. []) (\<lambda>_. []) sample_env root_peer srv);
       res = HandleInboundReply sample_mac (\<lambda>_. []) sample_deps env (sample_reply ''yes 123456'') sample_pending in
   \<exists>req srv'. ir_Call res = Some req
     \<and> srv' = snd (handleConn sample_sha (\<lambda>_. []) (\<lambda>_. []) sample_env (root_peer, None) ''review'' (Encode (json_of_wire_request req)) srv)
     \<and> status_of (sv_projection (sr_service srv')) ''req_1'' = Some StatusApproved"
proof -
  let ?srv = "sample_server [(''req_1'', sample_snapshot StatusPending)]" and ?r = "sample_reply ''yes 123456''"
  let ?env = "sample_reply_env (dial_review sample_sha (\<lambda>_. []) (\<lambda>_. []) sample_env root_peer ?srv)"
  let ?e = "\<lparr>pe_RequestID = ''req_1'', pe_OpenedAt = 1000\<rparr>" and ?snap = "sample_snapshot StatusPending"
  obtain v where v: "CheckVerification (\<lambda>_. []) (\<lambda>_. []) None sample_http sample_client ''+15550001'' ''123456'' = (v, None)" "vr_Approved v"
    using sample_check by blast
  have 1: "in_Method ?r = ''POST''" "in_PostForm ?r = Inr (sample_form ''yes 123456'')" by (simp_all add: sample_reply_def)
  have "\<not> only_code ''yes 123456'' ''123456''" using first_visible(3) [of "''yes 123456''" "''123456''"] by (auto simp: re_space_def is_digit_def byte_def)
  then have 2: "says yes_alts (form_Get (sample_form ''yes 123456'') ''Body'') ''123456''"
    using iffD1 [OF ParseReplyIntent_meaning(1) sample_intents(1)] unfolding sample_fields by blast
  have 3: "live (fst (rp_resolve ?env)) (form_Get (sample_form ''yes 123456'') ''From'') sample_pending ?e"
    by (simp add: live_def sample_fields sample_reply_env_def sample_pending_def gget_def time_sub_def min_duration_def max_duration_def)
  have 4: "rp_check ?env (form_Get (sample_form ''yes 123456'') ''From'') ''123456'' = (v, None)"
    using v(1) by (simp add: sample_reply_env_def sample_fields)
  have 5: "rp_dial ?env = dial_review sample_sha (\<lambda>_. []) (\<lambda>_. []) sample_env root_peer ?srv"
    "dp_SocketPath sample_deps = sr_reviewSocketPath ?srv" "reviewAllowed ?srv (peer_UID root_peer) (peer_GID root_peer)"
    by (simp_all add: sample_reply_env_def sample_deps_def sample_server_def NewServer_def reviewAllowed_def root_peer_def)
  have sv: "sr_service ?srv = sample_service [(''req_1'', ?snap)]" by (simp add: sample_server_def NewServer_def)
  have 6: "valid_utf8 (lg_lastHash (sv_log (sr_service ?srv)))" "healthy (ce_io2 sample_env)" "valid_utf8 (pe_RequestID ?e)"
    "valid_utf8 (dp_ApproverID sample_deps)" by (simp_all add: sv sample_env_def sample_deps_def byte_def)
  have 7: "Get (sv_projection (sr_service ?srv)) (pe_RequestID ?e) = Some ?snap" "snap_Status ?snap = StatusPending"
    "ce_now sample_env < req_ExpiresAt (snap_Request ?snap)" "utf8_request (snap_Request ?snap)" "snap_Execution ?snap = None"
    using sample_request_ok(1) [of "''req_1''"]
    by (simp_all add: sv Get_def gget_def sample_env_def byte_def) (simp add: sample_snapshot_def created_snapshot_def)
  have 8: "validateApprover \<lparr>actor_Kind = ''twilio'', actor_ID = dp_ApproverID sample_deps\<rparr> (req_Requester (snap_Request ?snap)) = None"
    using sample_validate [of "[]" "''req_1''"] by (simp add: validateApprover_None sample_deps_def sample_review_def)
  from sms_reply_approves_request [OF 1 sample_signed 2 3 4 v(2) 5 6 7 8, where errtext' = "\<lambda>_. []"]
  show ?thesis by (auto simp: Let_def)
qed

end
