(* ===== verification/Webhook_Form.thy ===== *)
theory Webhook_Form
  imports Webhook
begin

text \<open>
  The form of an inbound message, from the bytes of the POST: \<open>url.ParseQuery\<close> and what
  \<open>Request.ParseForm\<close> makes of a request, in front of the handler of \<open>webhook_handler.go\<close>. A form
  that Twilio encodes and signs arrives as the form the handler checks and reads.
\<close>

section \<open>Decoding of queries\<close>

definition unhex :: "char \<Rightarrow> nat option" where
  "unhex c = (if is_digit c then Some (byte c - 48)
     else if 97 \<le> byte c \<and> byte c \<le> 102 then Some (byte c - 87)
     else if 65 \<le> byte c \<and> byte c \<le> 70 then Some (byte c - 55)
     else None)"

fun QueryUnescape :: "string \<Rightarrow> string option" where
  "QueryUnescape [] = Some []"
| "QueryUnescape (c # s) =
     (if c = CHR ''%'' then
        (case s of
           a # b # t \<Rightarrow>
             (case (unhex a, unhex b) of
                (Some i, Some j) \<Rightarrow> map_option (Cons (char_of (16 * i + j))) (QueryUnescape t)
              | _ \<Rightarrow> None)
         | _ \<Rightarrow> None)
      else map_option (Cons (if c = CHR ''+'' then CHR '' '' else c)) (QueryUnescape s))"

definition cut_pair :: "string \<Rightarrow> string \<times> string" where
  "cut_pair p = (case IndexByte p (CHR ''='') of None \<Rightarrow> (p, []) | Some i \<Rightarrow> (take i p, drop (Suc i) p))"

definition form_Add :: "string \<Rightarrow> string \<Rightarrow> form \<Rightarrow> form" where
  "form_Add k v m = gput k ((case gget m k of None \<Rightarrow> [] | Some vs \<Rightarrow> vs) @ [v]) m"

text \<open>
  One pair of the query; the flag says that some pair was malformed. A malformed pair is skipped and
  the rest is still parsed.
\<close>

definition parse_pair :: "string \<Rightarrow> form \<times> bool \<Rightarrow> form \<times> bool" where
  "parse_pair p st =
     (case st of (m, bad) \<Rightarrow>
        if CHR '';'' \<in> set p then (m, True)
        else if p = [] then (m, bad)
        else case (QueryUnescape (fst (cut_pair p)), QueryUnescape (snd (cut_pair p))) of
          (Some k, Some v) \<Rightarrow> (form_Add k v m, bad)
        | _ \<Rightarrow> (m, True))"

definition ParseQuery :: "string \<Rightarrow> form \<times> bool" where
  "ParseQuery q = fold parse_pair (SplitByte (CHR ''&'') q) ([], False)"

section \<open>Requests\<close>

text \<open>
  A POST as the server hands it over: what \<open>mime.ParseMediaType\<close> made of its content type, the query
  of its URL, and the body or the error of reading it.
\<close>

record http_request =
  hq_Method :: string
  hq_MediaType :: "string \<times> go_error option"
  hq_RawQuery :: string
  hq_Body :: "string result"
  hq_Signature :: string

definition max_form_size :: nat where
  "max_form_size = 10 * 2 ^ 20"

text \<open>
  \<open>ParseForm\<close> of a POST: the posted form, unless the media type, the body, one of its pairs or one
  of the pairs of the URL is bad. A body of another media type is not read.
\<close>

definition ParseForm :: "http_request \<Rightarrow> form result" where
  "ParseForm r =
     result_bind
       (if fst (hq_MediaType r) = ''application/x-www-form-urlencoded'' then
          result_bind (hq_Body r) (\<lambda>b.
            if length b > max_form_size then Inl (ErrText ''http: POST too large'')
            else if snd (ParseQuery b) then Inl (ErrText ''bad form'') else Inr (fst (ParseQuery b)))
        else Inr [])
       (\<lambda>fm. case snd (hq_MediaType r) of
          Some err \<Rightarrow> Inl err
        | None \<Rightarrow> (if snd (ParseQuery (hq_RawQuery r)) then Inl (ErrText ''bad query'') else Inr fm))"

definition inbound_of :: "http_request \<Rightarrow> inbound_request" where
  "inbound_of r = \<lparr>in_Method = hq_Method r, in_PostForm = ParseForm r, in_Signature = hq_Signature r\<rparr>"

section \<open>Decoding what was encoded\<close>

lemma upper_hex_unhex: "n < 16 \<Longrightarrow> unhex (upper_hex n) = Some n"
  by (auto simp: unhex_def upper_hex_def is_digit_def byte_def)

lemma char_of_nibbles: "char_of (16 * (byte c div 16) + byte c mod 16) = c"
proof -
  have "16 * (byte c div 16) + byte c mod 16 = byte c" by simp
  then show ?thesis by (simp add: byte_def)
qed

lemma QueryUnescape_percent: "QueryUnescape (percent c @ s) = map_option (Cons c) (QueryUnescape s)"
proof -
  have "byte c mod 16 < 16" by simp
  then show ?thesis
    by (simp add: percent_def upper_hex_unhex char_of_nibbles del: mult_div_mod_eq)
qed

lemma unreserved_chars: "url_unreserved c \<Longrightarrow> c \<noteq> CHR ''%'' \<and> c \<noteq> CHR ''+'' \<and> c \<noteq> CHR '';'' \<and> c \<noteq> CHR ''='' \<and> c \<noteq> CHR ''&''"
  by (auto simp: url_unreserved_def is_digit_def byte_def)

lemma QueryEscape_Nil [simp]: "QueryEscape [] = []"
  by (simp add: QueryEscape_def)

lemma QueryEscape_Cons: "QueryEscape (c # s) =
  (if url_unreserved c then [c] else if c = CHR '' '' then ''+'' else percent c) @ QueryEscape s"
  by (simp add: QueryEscape_def)

lemma QueryUnescape_QueryEscape [simp]: "QueryUnescape (QueryEscape s) = Some s"
proof (induction s)
  case (Cons c s)
  then show ?case using unreserved_chars [of c] by (simp add: QueryEscape_Cons QueryUnescape_percent)
qed simp

lemma QueryEscape_chars: "c \<in> set (QueryEscape s) \<Longrightarrow> c \<noteq> CHR '';'' \<and> c \<noteq> CHR ''='' \<and> c \<noteq> CHR ''&''"
proof (induction s)
  case (Cons d s)
  have "c \<in> set (percent d) \<Longrightarrow> c \<noteq> CHR '';'' \<and> c \<noteq> CHR ''='' \<and> c \<noteq> CHR ''&''"
  proof -
    have "upper_hex n \<noteq> CHR '';'' \<and> upper_hex n \<noteq> CHR ''='' \<and> upper_hex n \<noteq> CHR ''&''" if "n < 16" for n
      using upper_hex_unhex [OF that] by (auto simp: unhex_def is_digit_def byte_def)
    then show "c \<in> set (percent d) \<Longrightarrow> c \<noteq> CHR '';'' \<and> c \<noteq> CHR ''='' \<and> c \<noteq> CHR ''&''" by (auto simp: percent_def)
  qed
  with Cons show ?case using unreserved_chars [of d] by (auto simp: QueryEscape_Cons split: if_splits)
qed simp

lemma QueryEscape_not [simp]:
  "CHR '';'' \<notin> set (QueryEscape s)" "CHR ''='' \<notin> set (QueryEscape s)" "CHR ''&'' \<notin> set (QueryEscape s)"
  using QueryEscape_chars by blast+

definition pair_text :: "string \<Rightarrow> string \<Rightarrow> string" where
  "pair_text k v = QueryEscape k @ ''='' @ QueryEscape v"

lemma parse_pair_text: "parse_pair (pair_text k v) (m, bad) = (form_Add k v m, bad)"
proof -
  have "cut_pair (pair_text k v) = (QueryEscape k, QueryEscape v)"
    by (simp add: cut_pair_def pair_text_def IndexByte_append)
  moreover have "CHR '';'' \<notin> set (pair_text k v)" by (simp add: pair_text_def)
  ultimately show ?thesis by (simp add: parse_pair_def pair_text_def)
qed

text \<open>Adding the values of one key after the other.\<close>

lemma fold_values:
  "\<exists>m'. fold parse_pair (map (pair_text k) vs) (m, bad) = (m', bad)
     \<and> gget m' = (gget m)(k := if vs = [] then gget m k else Some ((case gget m k of None \<Rightarrow> [] | Some us \<Rightarrow> us) @ vs))"
proof (induction vs arbitrary: m)
  case (Cons v vs)
  from Cons.IH [of "form_Add k v m"] obtain m' where "fold parse_pair (map (pair_text k) vs) (form_Add k v m, bad) = (m', bad)"
    "gget m' = (gget (form_Add k v m))(k := if vs = [] then gget (form_Add k v m) k
       else Some ((case gget (form_Add k v m) k of None \<Rightarrow> [] | Some us \<Rightarrow> us) @ vs))" by blast
  then show ?case
    by (intro exI [of _ m']) (auto simp: parse_pair_text form_Add_def fun_eq_iff split: option.splits)
qed auto

lemma fold_keys:
  assumes "distinct ks" "\<And>k. k \<in> set ks \<Longrightarrow> gget m k = None" "\<And>k. k \<in> set ks \<Longrightarrow> vals k \<noteq> []"
  shows "\<exists>m'. fold parse_pair (concat (map (\<lambda>k. map (pair_text k) (vals k)) ks)) (m, bad) = (m', bad)
     \<and> (\<forall>k. gget m' k = (if k \<in> set ks then Some (vals k) else gget m k))"
  using assms
proof (induction ks arbitrary: m)
  case (Cons k ks)
  obtain m1 where m1: "fold parse_pair (map (pair_text k) (vals k)) (m, bad) = (m1, bad)"
    "gget m1 = (gget m)(k := Some (vals k))"
    using fold_values [of k "vals k" m bad] Cons.prems by auto
  obtain m2 where m2: "fold parse_pair (concat (map (\<lambda>k. map (pair_text k) (vals k)) ks)) (m1, bad) = (m2, bad)"
    "\<forall>k'. gget m2 k' = (if k' \<in> set ks then Some (vals k') else gget m1 k')"
  proof -
    have "\<And>k'. k' \<in> set ks \<Longrightarrow> gget m1 k' = None" using Cons.prems m1(2) by auto
    from Cons.IH [OF _ this] Cons.prems that show thesis by auto
  qed
  from m1 m2 Cons.prems show ?case by (intro exI [of _ m2]) auto
qed auto

definition form_ok :: "form \<Rightarrow> bool" where
  "form_ok fm \<longleftrightarrow> (\<forall>k. gget fm k \<noteq> Some [])"

lemma ParseQuery_Encode:
  assumes "form_ok fm"
  shows "\<exists>m. ParseQuery (form_Encode fm) = (m, False) \<and> gget m = gget fm"
proof -
  let ?vals = "\<lambda>k. case gget fm k of Some vs \<Rightarrow> vs | None \<Rightarrow> []"
  let ?ps = "concat (map (\<lambda>k. map (pair_text k) (?vals k)) (gkeys fm))"
  have e: "form_Encode fm = Join ?ps ''&''" by (simp add: form_Encode_def pair_text_def [abs_def])
  have amp: "CHR ''&'' \<notin> set p" if "p \<in> set ?ps" for p
    using that by (auto simp: pair_text_def)
  have f: "fold parse_pair (SplitByte (CHR ''&'') (form_Encode fm)) = fold parse_pair ?ps"
  proof (cases "?ps = []")
    case True
    have "fold parse_pair [[]] = fold parse_pair []" by (simp add: fun_eq_iff parse_pair_def)
    then show ?thesis unfolding e True by simp
  next
    case False
    then show ?thesis unfolding e using amp by (subst Split_Join) blast+
  qed
  have v: "?vals k \<noteq> []" if "k \<in> set (gkeys fm)" for k
    using that assms gm.keys_iff [of k fm] by (auto simp: form_ok_def split: option.splits)
  obtain m where m: "fold parse_pair ?ps ([], False) = (m, False)"
    "\<forall>k. gget m k = (if k \<in> set (gkeys fm) then Some (?vals k) else gget [] k)"
    using fold_keys [of "gkeys fm" "[]" ?vals False] gm.keys_distinct v by auto
  have "gget m k = gget fm k" for k using m(2) gm.keys_iff [of k fm] by (auto split: option.splits)
  then show ?thesis using m(1) by (intro exI [of _ m]) (auto simp: ParseQuery_def f)
qed

text \<open>The handler reads a form only through its lookups.\<close>

lemma form_cong:
  assumes "gget m = gget fm"
  shows "form_Get m = form_Get fm" "signed_text url m = signed_text url fm"
proof -
  show g: "form_Get m = form_Get fm" using assms by (simp add: form_Get_def fun_eq_iff)
  have "gkeys m = gkeys fm" by (rule gm.keys_unique) (simp add: assms)
  with g show "signed_text url m = signed_text url fm" by (simp add: signed_text_def)
qed

definition posts :: "http_request \<Rightarrow> form \<Rightarrow> bool" where
  "posts r fm \<longleftrightarrow> hq_Method r = ''POST'' \<and> hq_MediaType r = (''application/x-www-form-urlencoded'', None)
     \<and> \<not> snd (ParseQuery (hq_RawQuery r)) \<and> hq_Body r = Inr (form_Encode fm) \<and> length (form_Encode fm) \<le> max_form_size"

text \<open>
  C39 (a signed post arrives). When a form is posted in its encoding, with the signature Twilio's
  rule gives for it, then whatever bytes its keys and values hold the form is parsed to the same
  lookups, the signature test succeeds, and the handler answers as it does on the form itself.
\<close>

theorem signed_post_arrives:
  assumes "posts r fm" "form_ok fm" "authToken \<noteq> []" "hq_Signature r = computeTwilioSignature mac authToken fullURL fm"
    and "hq_Signature r \<noteq> []"
  shows "\<exists>m. in_PostForm (inbound_of r) = Inr m \<and> (\<forall>key. form_Get m key = form_Get fm key)
    \<and> ValidateTwilioSignature mac authToken fullURL m (in_Signature (inbound_of r))
    \<and> (dp_AuthToken deps = authToken \<and> dp_PublicURL deps = fullURL \<longrightarrow>
         HandleInboundReply mac errtext deps env (inbound_of r) ps
         = HandleInboundReply mac errtext deps env \<lparr>in_Method = ''POST'', in_PostForm = Inr fm, in_Signature = hq_Signature r\<rparr> ps)"
proof -
  obtain m where m: "ParseQuery (form_Encode fm) = (m, False)" "gget m = gget fm" using ParseQuery_Encode [OF assms(2)] by blast
  have p: "ParseForm r = Inr m" using assms(1) m(1) by (simp add: ParseForm_def posts_def)
  note c = form_cong [OF m(2)]
  have v: "ValidateTwilioSignature mac authToken fullURL x (hq_Signature r)" if "x \<in> {m, fm}" for x
    using assms(3-5) c that by (auto simp: ValidateTwilioSignature_def computeTwilioSignature_def)
  have "HandleInboundReply mac errtext deps env (inbound_of r) ps
      = HandleInboundReply mac errtext deps env \<lparr>in_Method = ''POST'', in_PostForm = Inr fm, in_Signature = hq_Signature r\<rparr> ps"
    if "dp_AuthToken deps = authToken \<and> dp_PublicURL deps = fullURL"
    using that assms(1) p v c(1) by (simp add: HandleInboundReply_def inbound_of_def posts_def)
  with p c(1) v show ?thesis by (intro exI [of _ m]) (auto simp: inbound_of_def)
qed

text \<open>
  C40 (the signature does not delimit the fields). The signed text is the plain concatenation of keys
  and values. So the signature of a message from phone \<open>z\<close>, whose text was chosen as \<open>x\<close> followed by
  the word From and a phone \<open>y\<close>, is also valid for a form with text \<open>x\<close> and sender \<open>y\<close>: it does not by
  itself establish who sent the message. An approval still needs the code Twilio checks for \<open>y\<close>; a
  denial needs nothing else.
\<close>

theorem signature_does_not_bind_sender:
  assumes "z \<noteq> []"
  shows "\<exists>fm. form_Get fm ''From'' = y \<and> form_Get fm ''Body'' = x
    \<and> computeTwilioSignature mac authToken fullURL fm
      = computeTwilioSignature mac authToken fullURL [(''Body'', [x @ ''From'' @ y]), (''From'', [z])]"
proof -
  let ?a = "[(''Body'', [x @ ''From'' @ y]), (''From'', [z])]"
  let ?b = "[(''Body'', [x]), (''From'', [y]), (''From'' @ z, [[]])]"
  have ks: "gkeys ?a = [''Body'', ''From'']" "gkeys ?b = [''Body'', ''From'', ''From'' @ z]"
    using assms by (simp_all add: gkeys_def)
  have "signed_text fullURL ?b = signed_text fullURL ?a"
    using assms unfolding signed_text_def ks by (simp add: form_Get_def gget_def)
  then have "computeTwilioSignature mac authToken fullURL ?b = computeTwilioSignature mac authToken fullURL ?a"
    by (simp only: computeTwilioSignature_def)
  moreover have "form_Get ?b ''From'' = y" "form_Get ?b ''Body'' = x" by (simp_all add: form_Get_def gget_def)
  ultimately show ?thesis by blast
qed

theorem signature_does_not_bind_sender_witness:
  "\<exists>fm. form_Get fm ''From'' = ''+15550001'' \<and> ParseReplyIntent (form_Get fm ''Body'') = (ReplyIntentDeny, ''123456'')
    \<and> computeTwilioSignature sample_mac ''token'' [] fm
      = computeTwilioSignature sample_mac ''token'' [] [(''Body'', [''NO 123456'' @ ''From'' @ ''+15550001'']), (''From'', [''+19990009''])]"
proof -
  obtain fm where "form_Get fm ''From'' = ''+15550001''" "form_Get fm ''Body'' = ''NO 123456''"
    "computeTwilioSignature sample_mac ''token'' [] fm
      = computeTwilioSignature sample_mac ''token'' [] [(''Body'', [''NO 123456'' @ ''From'' @ ''+15550001'']), (''From'', [''+19990009''])]"
    using signature_does_not_bind_sender [of "''+19990009''" "''+15550001''" "''NO 123456''" sample_mac "''token''" "[]"] by blast
  then show ?thesis using sample_intents(2) by (intro exI [of _ fm]) (simp only: simp_thms)
qed

section \<open>A concrete post\<close>

definition sample_post :: "string \<Rightarrow> http_request" where
  "sample_post body = \<lparr>hq_Method = ''POST'', hq_MediaType = (''application/x-www-form-urlencoded'', None), hq_RawQuery = [],
     hq_Body = Inr (form_Encode (sample_form body)), hq_Signature = in_Signature (sample_reply body)\<rparr>"

theorem signed_post_arrives_witness:
  "\<exists>m. in_PostForm (inbound_of (sample_post ''yes 123456'')) = Inr m \<and> form_Get m ''From'' = ''+15550001''
    \<and> form_Get m ''Body'' = ''yes 123456''
    \<and> ir_Call (HandleInboundReply sample_mac (\<lambda>_. []) sample_deps (sample_reply_env (\<lambda>_ _. Inr zero_response))
        (inbound_of (sample_post ''yes 123456'')) sample_pending) \<noteq> None"
proof -
  let ?r = "sample_post ''yes 123456''" and ?fm = "sample_form ''yes 123456''"
  have ks: "gkeys ?fm = [''Body'', ''From'']" by code_simp
  have "length (form_Encode ?fm) \<le> max_form_size"
    unfolding form_Encode_def ks
    by (simp add: sample_form_def gget_def QueryEscape_Cons url_unreserved_def is_digit_def byte_def percent_def max_form_size_def)
  then have 1: "posts ?r ?fm" by (simp add: posts_def sample_post_def ParseQuery_def parse_pair_def)
  have 2: "form_ok ?fm" by (simp add: form_ok_def sample_form_def gget_def)
  have 3: "hq_Signature ?r = computeTwilioSignature sample_mac ''token'' ''https://a.example/twilio/inbound'' ?fm"
    by (simp add: sample_post_def sample_reply_def)
  have 4: "hq_Signature ?r \<noteq> []" using sample_signed [of "''yes 123456''"] by (auto simp: sample_post_def ValidateTwilioSignature_def)
  have 5: "dp_AuthToken sample_deps = ''token'' \<and> dp_PublicURL sample_deps = ''https://a.example/twilio/inbound''"
    by (simp add: sample_deps_def)
  from signed_post_arrives [OF 1 2 _ 3 4, where deps = sample_deps and errtext = "\<lambda>_. []"
      and env = "sample_reply_env (\<lambda>_ _. Inr zero_response)" and ps = sample_pending]
  obtain m where "in_PostForm (inbound_of ?r) = Inr m" "\<forall>key. form_Get m key = form_Get ?fm key"
    "HandleInboundReply sample_mac (\<lambda>_. []) sample_deps (sample_reply_env (\<lambda>_ _. Inr zero_response)) (inbound_of ?r) sample_pending
      = HandleInboundReply sample_mac (\<lambda>_. []) sample_deps (sample_reply_env (\<lambda>_ _. Inr zero_response))
          \<lparr>in_Method = ''POST'', in_PostForm = Inr ?fm, in_Signature = hq_Signature ?r\<rparr> sample_pending"
    using 5 by auto
  moreover have "\<lparr>in_Method = ''POST'', in_PostForm = Inr ?fm, in_Signature = hq_Signature ?r\<rparr> = sample_reply ''yes 123456''"
    by (simp add: sample_post_def sample_reply_def)
  ultimately show ?thesis using sample_calls_broker [of "\<lambda>_ _. Inr zero_response"] sample_fields by auto
qed

end
