(* ===== verification/Full_System.thy ===== *)
theory Full_System
  imports Adapter_System Webhook_Form
begin

text \<open>
  The broker behind its sockets and the adapter together, in the deployment where the adapter is the
  only process on the review socket: the operator decides by text message alone. A run interleaves
  the steps of both; the adapter learns of a request from the broker's event log, and a message on
  the review socket is one the adapter's webhook sent. The end-to-end guarantee is that a launched
  command was approved from a phone the policy routes to its requester.
\<close>

section \<open>Steps of the whole\<close>

type_synonym full_sys = "gate_sys \<times> adapter_sys"

datatype full_act = FBroker action | FAdapter adapter_act

text \<open>
  What a tailer of the broker's log may announce: a request of the history that replay accepts from
  the file, or one the running broker holds.
\<close>

definition announces :: "(string \<Rightarrow> string) \<Rightarrow> sys \<Rightarrow> pending_request \<Rightarrow> bool" where
  "announces sha y p \<longleftrightarrow> (\<exists>q rid snap. Get q rid = Some snap \<and> p = pending_of (snap_Request snap)
     \<and> (result_bind (Replay sha (Inr (sy_disk y))) Rebuild = Inr q
        \<or> (\<exists>s. sy_service y = Some s \<and> sv_projection s = q)))"

inductive full_step ::
    "(string \<Rightarrow> string) \<Rightarrow> server \<Rightarrow> adapter_conf \<Rightarrow> full_sys \<Rightarrow> full_act \<Rightarrow> full_sys \<Rightarrow> bool" for sha srv cf where
  f_broker: "gstep sha srv g act g' \<Longrightarrow>
     (\<And>lane q peer. (lane, q, peer) \<in> snd g' - snd g \<Longrightarrow> lane = ''review'' \<Longrightarrow> \<exists>from. (from, q) \<in> as_calls a) \<Longrightarrow>
     full_step sha srv cf (g, a) (FBroker act) (g', a)"
| f_adapter: "adapter_step cf a act a' \<Longrightarrow>
     (\<And>p. p \<in> as_announced a' - as_announced a \<Longrightarrow> announces sha (fst g) p) \<Longrightarrow>
     full_step sha srv cf (g, a) (FAdapter act) (g, a')"

section \<open>The invariant\<close>

text \<open>An announcement is of a request that was submitted.\<close>

lemma announces_submitted:
  assumes "sys_inv sha y" "announces sha y p"
  shows "\<exists>r. (pr_RequestID p, r) \<in> sy_submitted y \<and> p = pending_of r"
proof -
  obtain q rid snap where q: "Get q rid = Some snap" "p = pending_of (snap_Request snap)"
    and src: "result_bind (Replay sha (Inr (sy_disk y))) Rebuild = Inr q \<or> (\<exists>s. sy_service y = Some s \<and> sv_projection s = q)"
    using assms(2) by (auto simp: announces_def)
  have subs: "subs_ok (sy_submitted y)" using assms(1) by (simp add: sys_inv_def)
  have "good (sy_submitted y) (sy_reviews y) q"
  proof (cases "\<exists>s. sy_service y = Some s \<and> sv_projection s = q")
    case True
    then show ?thesis using inv_service [OF assms(1)] by (auto simp: svc_ok_def)
  next
    case False
    with src obtain es where es: "replayUnlocked sha (sy_disk y) = Inr es" "Rebuild es = Inr q"
      by (auto simp: Replay_def result_bind_eq_Inr)
    obtain mem where d: "disk_inv sha (sy_submitted y) (sy_reviews y) (launched_ids y) mem (sy_disk y)"
      using assms(1) by (auto simp: sys_inv_def svc_ok_def split: option.splits)
    let ?s = "\<lparr>sv_log = \<lparr>lg_file = sy_disk y, lg_lastHash = last_hash es\<rparr>, sv_projection = q, sv_executor = [], sv_ttl = 0, sv_hostname = []\<rparr>"
    have "svc_ok sha (sy_submitted y) (sy_reviews y) (launched_ids y) ?s" by (rule restart_ok [OF subs d es]) simp_all
    then show ?thesis by (simp add: svc_ok_def)
  qed
  then have "(rid, snap_Request snap) \<in> sy_submitted y" using q(1) by (simp add: good_def Get_def)
  moreover from this subs have "req_ID (snap_Request snap) = rid" by (auto simp: subs_ok_def)
  ultimately show ?thesis using q(2) by (auto simp: pending_of_def)
qed

definition full_inv :: "(string \<Rightarrow> string) \<Rightarrow> server \<Rightarrow> adapter_conf \<Rightarrow> full_sys \<Rightarrow> bool" where
  "full_inv sha srv cf z \<longleftrightarrow> gate_inv sha srv (fst z) \<and> adapter_inv cf (snd z)
     \<and> (\<forall>p \<in> as_announced (snd z). \<exists>r. (pr_RequestID p, r) \<in> sy_submitted (fst (fst z)) \<and> p = pending_of r)
     \<and> (\<forall>q peer. (''review'', q, peer) \<in> snd (fst z) \<longrightarrow> (\<exists>from. (from, q) \<in> as_calls (snd z)))"

lemma step_submitted_grows: "step sha y act y' \<Longrightarrow> sy_submitted y \<subseteq> sy_submitted y'"
  by (cases rule: step.cases) (auto simp: with_service_def)

lemma gstep_submitted_grows: "gstep sha srv g act g' \<Longrightarrow> sy_submitted (fst g) \<subseteq> sy_submitted (fst g')"
  by (erule gstep.cases) (simp_all add: step_submitted_grows)

lemma adapter_calls_grow: "adapter_step cf a act a' \<Longrightarrow> as_calls a \<subseteq> as_calls a'"
  by (cases rule: adapter_step.cases) auto

lemma full_inv_step:
  assumes "full_inv sha srv cf z" "full_step sha srv cf z act z'"
  shows "full_inv sha srv cf z'"
  using assms(2)
proof cases
  case (f_broker g b g' a)
  have "\<exists>from. (from, q) \<in> as_calls a" if "(''review'', q, peer) \<in> snd g'" for q peer
    using that f_broker(1,5) assms(1) by (cases "(''review'', q, peer) \<in> snd g") (auto simp: full_inv_def)
  with f_broker assms(1) gate_inv_step [of sha srv g b g'] gstep_submitted_grows [of sha srv g b g'] show ?thesis
    unfolding full_inv_def by fastforce
next
  case (f_adapter a b a' g)
  have new: "\<exists>r. (pr_RequestID p, r) \<in> sy_submitted (fst g) \<and> p = pending_of r" if "p \<in> as_announced a'" for p
    using that f_adapter(1,5) assms(1) announces_submitted [of sha "fst g" p]
    by (cases "p \<in> as_announced a") (auto simp: full_inv_def gate_inv_def)
  have "adapter_inv cf a'" using f_adapter(1,4) assms(1) ad.inv_step by (auto simp: full_inv_def)
  moreover have "\<exists>from. (from, q) \<in> as_calls a'" if "(''review'', q, peer) \<in> snd g" for q peer
    using that assms(1) f_adapter(1) adapter_calls_grow [OF f_adapter(4)] by (fastforce simp: full_inv_def)
  ultimately show ?thesis using new f_adapter(1,3) assms(1) by (simp add: full_inv_def)
qed

definition full_start :: "int \<Rightarrow> audit_log option \<Rightarrow> full_sys" where
  "full_start ttl audit = ((fresh_sys, {}), \<lparr>as_pending = NewPendingSet ttl audit, as_announced = {}, as_calls = {}\<rparr>)"

interpretation fs: machine "\<lambda>z. \<exists>ttl audit. z = full_start ttl audit" "full_step sha srv cf" "full_inv sha srv cf" for sha srv cf
proof
  show "full_inv sha srv cf z" if "\<exists>ttl audit. z = full_start ttl audit" for z
  proof -
    from that obtain ttl audit where z: "z = full_start ttl audit" by blast
    have "adapter_inv cf \<lparr>as_pending = NewPendingSet ttl audit, as_announced = {}, as_calls = {}\<rparr>" by (rule ad.inv_start) blast
    with gs.inv_start [OF refl, of sha srv] show ?thesis by (simp add: z full_inv_def full_start_def)
  qed
  show "full_inv sha srv cf z \<Longrightarrow> full_step sha srv cf z i t \<Longrightarrow> full_inv sha srv cf t" for z i t by (rule full_inv_step)
qed

text \<open>Every message of the adapter to the broker was sent for a reply handled in the run.\<close>

definition sent_for :: "adapter_conf \<Rightarrow> full_act list \<Rightarrow> string \<Rightarrow> wire_request \<Rightarrow> bool" where
  "sent_for cf acts phone req \<longleftrightarrow> (\<exists>r env ps. (FAdapter (ActReply r env) \<in> set acts \<or> FAdapter (ActReplyBegin r env) \<in> set acts)
     \<and> phone = sender r \<and> ir_Call (HandleInboundReply (ac_mac cf) (ac_errtext cf) (ac_deps cf) env r ps) = Some req)"

lemma calls_sent_for:
  "run (full_step sha srv cf) z acts z' \<Longrightarrow> (phone, req) \<in> as_calls (snd z') \<Longrightarrow>
   (phone, req) \<in> as_calls (snd z) \<or> sent_for cf acts phone req"
proof (induction rule: run.induct)
  case (run_snoc z acts t i u)
  show ?case
  proof (cases "(phone, req) \<in> as_calls (snd t)")
    case True
    with run_snoc.IH show ?thesis by (auto simp: sent_for_def)
  next
    case False
    from run_snoc.hyps(2) False run_snoc.prems obtain a b a' where
      st: "adapter_step cf a b a'" "i = FAdapter b" "(phone, req) \<in> as_calls a'" "(phone, req) \<notin> as_calls a"
      by (cases rule: full_step.cases) auto
    from st(1) show ?thesis
    proof cases
      case (a_reply res env r)
      with st(3,4) have "phone = sender r" "ir_Call (HandleInboundReply (ac_mac cf) (ac_errtext cf) (ac_deps cf) env r (as_pending a)) = Some req"
        by auto
      with a_reply(1) st(2) show ?thesis by (auto simp: sent_for_def)
    next
      case (a_begin env r req')
      with st(3,4) have "phone = sender r" "ir_Call (HandleInboundReply (ac_mac cf) (ac_errtext cf) (ac_deps cf) env r (as_pending a)) = Some req"
        by auto
      with a_begin(1) st(2) show ?thesis by (auto simp: sent_for_def)
    qed (use st in auto)
  qed
qed simp

section \<open>The end-to-end property\<close>

text \<open>
  Approval from the requester's phones, for the two machines. Let the adapter be the only process on the review
  socket, and let no two submissions draw the same random id. Then in every run of broker and
  adapter, with all interleavings, file failures, crashes and restarts: whatever is launched was
  approved by a signed text message, handled in this run, from a phone that the policy routes to the
  requester on record and that lies in an allowed country, and Twilio approved the code in it for
  this phone.
\<close>

theorem launches_approved_by_phone:
  assumes "run (full_step sha srv cf) (full_start ttl audit) acts ((y, cs), a)"
    and "(rid, req) \<in> set (sy_launches y)" and "inj_on fst (sy_submitted y)"
  shows "\<exists>phone r env fm code v. (FAdapter (ActReply r env) \<in> set acts \<or> FAdapter (ActReplyBegin r env) \<in> set acts)
    \<and> in_PostForm r = Inr fm \<and> phone = form_Get fm ''From''
    \<and> phone \<in> set (LookupRecipients (ac_policy cf) (requester_name (req_Requester req))) \<and> IsAllowedCountry phone (ac_codes cf)
    \<and> ValidateTwilioSignature (ac_mac cf) (dp_AuthToken (ac_deps cf)) (dp_PublicURL (ac_deps cf)) fm (in_Signature r)
    \<and> ParseReplyIntent (form_Get fm ''Body'') = (ReplyIntentApprove, code)
    \<and> rp_check env phone code = (v, None) \<and> vr_Approved v"
proof -
  have inv: "full_inv sha srv cf ((y, cs), a)" by (rule fs.inv_run [OF _ assms(1)]) blast
  then have "gate_inv sha srv (y, cs)" by (simp add: full_inv_def)
  then have sub: "(rid, req) \<in> sy_submitted y" and "authorised (sy_reviews y) rid req"
    using assms(2) by (auto simp: gate_inv_def sys_inv_def)
  with \<open>gate_inv sha srv (y, cs)\<close> obtain q peer where q: "(''review'', q, peer) \<in> cs" "wr_Action q = ActionReviewApprove" "wr_RequestID q = rid"
    by (fastforce simp: gate_inv_def authorised_def approved_by_def)
  then obtain phone where c: "(phone, q) \<in> as_calls a" using inv by (auto simp: full_inv_def)
  then have "entitled cf (as_announced a) phone rid" using inv q(3) by (auto simp: full_inv_def adapter_inv_def)
  then obtain p where p: "p \<in> as_announced a" "pr_RequestID p = rid"
    "phone \<in> set (LookupRecipients (ac_policy cf) (pr_Requester p))" "IsAllowedCountry phone (ac_codes cf)"
    by (auto simp: entitled_def)
  from p(1,2) inv obtain r' where "(rid, r') \<in> sy_submitted y" "p = pending_of r'" by (fastforce simp: full_inv_def)
  with inj_onD [OF assms(3) _ sub, of "(rid, r')"] have "pr_Requester p = requester_name (req_Requester req)"
    by (simp add: pending_of_def)
  moreover have "sent_for cf acts phone q" using calls_sent_for [OF assms(1)] c by (auto simp: full_start_def)
  then obtain r env ps where r: "FAdapter (ActReply r env) \<in> set acts \<or> FAdapter (ActReplyBegin r env) \<in> set acts" "phone = sender r"
    "ir_Call (HandleInboundReply (ac_mac cf) (ac_errtext cf) (ac_deps cf) env r ps) = Some q" by (auto simp: sent_for_def)
  from r(3) obtain fm code v where
    "in_PostForm r = Inr fm" "ValidateTwilioSignature (ac_mac cf) (dp_AuthToken (ac_deps cf)) (dp_PublicURL (ac_deps cf)) fm (in_Signature r)"
    "ParseReplyIntent (form_Get fm ''Body'') = (ReplyIntentApprove, code)" "rp_check env (form_Get fm ''From'') code = (v, None)" "vr_Approved v"
    using q(2) by (cases rule: reply_calls) (auto simp: brokerSocketCaller_request_def zero_wire_request_def)
  ultimately show ?thesis using p(3,4) r(1,2) by (intro exI [of _ phone] exI [of _ r] exI [of _ env]) (auto simp: sender_def)
qed

section \<open>A concrete run\<close>

text \<open>Start, submit, announce and text, reply, approve, execute.\<close>

definition sms_request :: wire_request where
  "sms_request = brokerSocketCaller_request ActionReviewApprove sample_rid ''twilio'' ''bob'' ''approved via SMS''"

definition sms_review :: review_input where
  "sms_review = \<lparr>ri_RequestID = sample_rid, ri_Approver = \<lparr>actor_Kind = ''twilio'', actor_ID = ''bob''\<rparr>, ri_ApprovalCode = [], ri_Reason = []\<rparr>"

lemma sms_broker_run:
  "\<exists>y2 y3 y4 s1. run (step sample_sha) fresh_sys
       [ARestart (\<lambda>_. sample_io FsOk) LocalExecutor_Name DefaultTTL (Some ''host''),
        ASubmit 1000 (Some ''abc'') 0 (sample_io FsOk) sample_input] y2
     \<and> sy_service y2 = Some s1 \<and> (\<exists>snap. Get (sv_projection s1) sample_rid = Some snap \<and> snap_Request snap = sample_request sample_rid)
     \<and> step sample_sha y2 (AApprove 2000 (sample_io FsOk) (sample_io FsOk) sms_review) y3
     \<and> step sample_sha y3 (ABegin 3000 (sample_io FsOk) (sample_io FsOk) sample_rid) y4
     \<and> (sample_rid, sample_request sample_rid) \<in> set (sy_launches y4)
     \<and> sy_submitted y4 = {(sample_rid, sample_request sample_rid)}"
proof -
  let ?w = "sample_io FsOk" and ?ws = "\<lambda>_ :: string. sample_io FsOk" and ?s0 = "sample_service New"
  have sub: "submission sample_sha 1000 (Some ''abc'') 0 sample_input ?s0 = (sample_rid, sample_request sample_rid)"
    by (simp add: submission_def sample_rid_def sample_request_def)
  let ?y1 = "with_service ?s0 fresh_sys"
  have 1: "step sample_sha fresh_sys (ARestart ?ws LocalExecutor_Name DefaultTTL (Some ''host'')) ?y1"
    by (rule restart [OF _ _ NewService_empty(2)]) (simp_all add: fresh_sys_def NewService_empty(1))
  have a: "valid_utf8 (actorIDForPeer (si_Requester sample_input))" "si_Argv sample_input \<noteq> []"
    by (simp_all add: actorIDForPeer_def sample_input_def byte_def)
  obtain s1 snap1 where s1: "Submit sample_sha 1000 (Some ''abc'') 0 ?w sample_input ?s0 = (Inr (FromSnapshot snap1 ''Approval required''), s1)"
    "Get (sv_projection s1) sample_rid = Some snap1" "snap_Request snap1 = sample_request sample_rid"
    "snap_Status snap1 = StatusPending" "valid_utf8 (lg_lastHash (sv_log s1))" "snap_Execution snap1 = None"
    using Submit_healthy [OF _ sample_healthy a(2,1) sample_rid_def _ _ sample_request_ok(1) [OF sample_rid_utf8]
        sample_request_ok(2), of ?s0 sample_sha 1000]
    by (auto simp: Get_def sample_request_def)
  let ?y2 = "with_service s1 (?y1\<lparr>sy_submitted := insert (sample_rid, sample_request sample_rid) (sy_submitted ?y1)\<rparr>)"
  have 2: "step sample_sha ?y1 (ASubmit 1000 (Some ''abc'') 0 ?w sample_input) ?y2"
    unfolding sub [symmetric]
    by (rule submit [OF _ s1(1) a]) (simp_all add: with_service_def sub sample_request_ok)
  have v: "validateApprover (ri_Approver sms_review) (req_Requester (snap_Request snap1)) = None"
    using sample_validate [of "[]" sample_rid] s1(3) by (simp add: validateApprover_None sms_review_def sample_review_def)
  have u: "valid_utf8 (ri_RequestID sms_review)" "utf8_actor (ri_Approver sms_review)"
    by (simp_all add: sms_review_def utf8_actor_def byte_def)
  obtain resp s2 snap2 where s2: "Approve sample_sha 2000 ?w ?w sms_review s1 = (Inr resp, s2)"
    and r: "reviewed 2000 (ri_Approver sms_review) StatusApproved sample_rid s1 (Inr resp, s2)"
    and u2: "valid_utf8 (lg_lastHash (sv_log s2))"
    and q: "Get (sv_projection s2) sample_rid = Some snap2" "snap_Request snap2 = sample_request sample_rid"
    using Approve_healthy [OF s1(5) sample_healthy sample_healthy u, of sample_sha 2000] s1(2,3)
    by (auto simp: sms_review_def)
  have "review_status 2000 (ri_Approver sms_review) StatusApproved snap1 = StatusApproved"
    using v s1(3,4) sample_validate [of "[]" sample_rid] by (simp add: review_status_def)
  then have ap: "snap_Status snap2 = StatusApproved" using r s1(2) q by (simp add: reviewed_def status_of_def Get_def)
  let ?y3 = "with_service s2 (?y2\<lparr>sy_reviews := insert (ri_RequestID sms_review, ri_Approver sms_review) (sy_reviews ?y2)\<rparr>)"
  have 3: "step sample_sha ?y2 (AApprove 2000 ?w ?w sms_review) ?y3"
    using approve [OF _ s2 u, of ?y2] by (simp add: with_service_def)
  obtain s3 where s3: "execute_begin sample_sha 3000 ?w ?w sample_rid s2 = (Launch (sample_request sample_rid), s3)"
    using execute_begin_healthy [OF u2 sample_healthy sample_rid_utf8 q(1) ap, of sample_sha 3000 ?w] q(2) by auto
  let ?y4 = "with_service s3 (?y3\<lparr>sy_running := sample_rid # sy_running ?y3,
      sy_launches := (sample_rid, sample_request sample_rid) # sy_launches ?y3\<rparr>)"
  have 4: "step sample_sha ?y3 (ABegin 3000 ?w ?w sample_rid) ?y4"
    by (rule launch [OF _ s3]) (simp_all add: with_service_def)
  have "run (step sample_sha) fresh_sys [ARestart ?ws LocalExecutor_Name DefaultTTL (Some ''host''),
      ASubmit 1000 (Some ''abc'') 0 ?w sample_input] ?y2" by (rule run_Cons [OF 1 run_single [where step = "step sample_sha", OF 2]])
  moreover have "sy_service ?y2 = Some s1" "(sample_rid, sample_request sample_rid) \<in> set (sy_launches ?y4)"
    "sy_submitted ?y4 = {(sample_rid, sample_request sample_rid)}" by (simp_all add: with_service_def fresh_sys_def)
  ultimately show ?thesis using 3 4 s1(2,3) by blast
qed

text \<open>A run of the broker with only its request socket in use is a run of the whole.\<close>

lemma run_lift_full:
  "run (step sha) y acts y' \<Longrightarrow>
   (\<And>act. act \<in> set acts \<Longrightarrow> internal act \<or> (\<exists>q peer. starts (route srv ''request'' q peer) act)) \<Longrightarrow>
   \<exists>cs'. run (full_step sha srv cf) ((y, cs), a) (map FBroker acts) ((y', cs'), a)"
proof (induction rule: run.induct)
  case (run_nil s)
  show ?case by (intro exI [of _ cs]) (simp add: run.run_nil)
next
  case (run_snoc s as t i u)
  then obtain cs' where r: "run (full_step sha srv cf) ((s, cs), a) (map FBroker as) ((t, cs'), a)" by auto
  have "\<exists>cs''. full_step sha srv cf ((t, cs'), a) (FBroker i) ((u, cs''), a)"
  proof (cases "internal i")
    case True
    from f_broker [OF g_internal [OF True run_snoc.hyps(2)], of cs' a] show ?thesis by auto
  next
    case False
    with run_snoc.prems [of i] obtain q peer where "starts (route srv ''request'' q peer) i" by auto
    from f_broker [OF g_conn [OF this run_snoc.hyps(2)], of cs' a] show ?thesis by auto
  qed
  then obtain cs'' where "full_step sha srv cf ((t, cs'), a) (FBroker i) ((u, cs''), a)" ..
  with run.run_snoc [OF r this] show ?case by auto
qed

definition sms_pending :: pending_set where
  "sms_pending = \<lparr>ps_ttl = 600, ps_items = [(''+15550001'', \<lparr>pe_RequestID = sample_rid, pe_OpenedAt = 1000\<rparr>)], ps_audit = None\<rparr>"

lemma sms_claim: "claim_phone [''+1''] (pending_of (sample_request sample_rid)) sample_phone_env ''+15550001'' (NewPendingSet 600 None) = (True, sms_pending)"
proof -
  have "req_ID (sample_request sample_rid) = sample_rid" by (simp add: sample_request_def build_request_def Let_def)
  then show ?thesis
    by (simp add: claim_phone_def IsAllowedCountry_def OpenPending_def NewPendingSet_def sample_phone_env_def pending_of_def
        sms_pending_def emit_def write_row_def gput_def Let_def)
qed

lemma sms_call:
  "ir_Call (HandleInboundReply sample_mac (\<lambda>_. []) sample_deps (sample_reply_env dial) (sample_reply ''yes 123456'') sms_pending)
   = Some sms_request"
proof -
  obtain v where v: "CheckVerification (\<lambda>_. []) (\<lambda>_. []) None sample_http sample_client ''+15550001'' ''123456'' = (v, None)" "vr_Approved v"
    using sample_check by blast
  have res: "Resolve 1200 fs ''+15550001'' sms_pending = (Some sample_rid, sms_pending)" for fs
    by (simp add: Resolve_def sms_pending_def gget_def time_sub_def min_duration_def max_duration_def)
  have r: "in_Method (sample_reply b) = ''POST''" "in_PostForm (sample_reply b) = Inr (sample_form b)" for b by (simp_all add: sample_reply_def)
  show ?thesis
    using sample_signed v by (simp add: HandleInboundReply_def r sample_fields sample_intents sample_reply_env_def res
      Let_def sample_deps_def sms_request_def split: sum.splits)
qed

lemma sms_routes:
  "starts (route (sample_server New) ''request'' sample_submit (si_Requester sample_input)) (ASubmit t rnd n w sample_input)"
  "starts (route (sample_server New) ''review'' sms_request root_peer) (AApprove t w1 w2 sms_review)"
  "starts (route (sample_server New) ''request'' (zero_wire_request\<lparr>wr_Action := ActionRequestExecute, wr_RequestID := sample_rid\<rparr>) root_peer)
     (ABegin t w1 w2 sample_rid)"
  by (simp_all add: route_def sample_submit_def zero_wire_request_def sample_input_def sms_request_def brokerSocketCaller_request_def
      reviewAllowed_def sample_server_def NewServer_def root_peer_def sms_review_def Let_def)

theorem launches_approved_by_phone_witness:
  "\<exists>acts y cs a r env phone. run (full_step sample_sha (sample_server New) sample_conf) (full_start 600 None) acts ((y, cs), a)
     \<and> (sample_rid, sample_request sample_rid) \<in> set (sy_launches y)
     \<and> (FAdapter (ActReply r env) \<in> set acts \<or> FAdapter (ActReplyBegin r env) \<in> set acts)
     \<and> phone \<in> set (LookupRecipients sample_policy (requester_name (req_Requester (sample_request sample_rid))))"
proof -
  let ?step = "full_step sample_sha (sample_server New) sample_conf"
  let ?ok = "sample_io FsOk" and ?p = "pending_of (sample_request sample_rid)"
  let ?a0 = "\<lparr>as_pending = NewPendingSet 600 None, as_announced = {}, as_calls = {}\<rparr>"
  let ?a1 = "?a0\<lparr>as_pending := sms_pending, as_announced := {?p}\<rparr>"
  let ?env = "sample_reply_env (\<lambda>_ _. Inr zero_response)" and ?r = "sample_reply ''yes 123456''"
  let ?a2 = "?a1\<lparr>as_calls := {(sender ?r, sms_request)}\<rparr>"
  obtain y2 y3 y4 s1 snap where b: "run (step sample_sha) fresh_sys
       [ARestart (\<lambda>_. ?ok) LocalExecutor_Name DefaultTTL (Some ''host''), ASubmit 1000 (Some ''abc'') 0 ?ok sample_input] y2"
    "sy_service y2 = Some s1" "Get (sv_projection s1) sample_rid = Some snap" "snap_Request snap = sample_request sample_rid"
    "step sample_sha y2 (AApprove 2000 ?ok ?ok sms_review) y3" "step sample_sha y3 (ABegin 3000 ?ok ?ok sample_rid) y4"
    "(sample_rid, sample_request sample_rid) \<in> set (sy_launches y4)" "sy_submitted y4 = {(sample_rid, sample_request sample_rid)}"
    using sms_broker_run by blast
  have req: "internal act \<or> (\<exists>q peer. starts (route (sample_server New) ''request'' q peer) act)"
    if "act \<in> set [ARestart (\<lambda>_. ?ok) LocalExecutor_Name DefaultTTL (Some ''host''), ASubmit 1000 (Some ''abc'') 0 ?ok sample_input]" for act
    using that sms_routes(1) [of 1000 "Some ''abc''" 0 ?ok] by auto
  obtain cs where 1: "run ?step ((fresh_sys, {}), ?a0) (map FBroker [ARestart (\<lambda>_. ?ok) LocalExecutor_Name DefaultTTL (Some ''host''),
      ASubmit 1000 (Some ''abc'') 0 ?ok sample_input]) ((y2, cs), ?a0)"
    using run_lift_full [OF b(1) req, of sample_conf "{}" ?a0] by blast
  have alice: "requester_name (req_Requester (sample_request sample_rid)) = ''alice''"
    by (simp add: requester_name_def sample_request_def build_request_def default_mode_def sample_input_def Let_def)
  have look: "LookupRecipients sample_policy ''alice'' = [''+15550001'', ''+447700900123'']" by code_simp
  have "adapter_step sample_conf ?a0 (ActClaim ?p ''+15550001'' sample_phone_env) ?a1"
    using a_claim [of "''+15550001''" sample_conf ?p sample_phone_env ?a0 True sms_pending] sms_claim look alice
    by (simp add: sample_conf_def pending_of_def)
  moreover have "announces sample_sha y2 ?p" using b(2-4) unfolding announces_def
    by (intro exI [of _ "sv_projection s1"] exI [of _ sample_rid] exI [of _ snap]) simp
  ultimately have 2: "?step ((y2, cs), ?a0) (FAdapter (ActClaim ?p ''+15550001'' sample_phone_env)) ((y2, cs), ?a1)"
    by (intro f_adapter) auto
  have "adapter_step sample_conf ?a1 (ActReplyBegin ?r ?env) ?a2"
    using a_begin [of sample_conf ?env ?r ?a1 sms_request] sms_call by (simp add: sample_conf_def)
  then have 3: "?step ((y2, cs), ?a1) (FAdapter (ActReplyBegin ?r ?env)) ((y2, cs), ?a2)" by (intro f_adapter) auto
  obtain cs1 where 4: "?step ((y2, cs), ?a2) (FBroker (AApprove 2000 ?ok ?ok sms_review)) ((y3, cs1), ?a2)"
    using f_broker [OF g_conn [OF sms_routes(2) b(5)], of cs ?a2] by auto
  obtain cs2 where 5: "?step ((y3, cs1), ?a2) (FBroker (ABegin 3000 ?ok ?ok sample_rid)) ((y4, cs2), ?a2)"
    using f_broker [OF g_conn [OF sms_routes(3) b(6)], of cs1 ?a2] by auto
  from run_trans [OF run_Cons [OF 2 run_Cons [OF 3 run_Cons [OF 4 run_single [where step = ?step, OF 5]]]] 1]
  obtain acts where r: "run ?step (full_start 600 None) acts ((y4, cs2), ?a2)" by (auto simp: full_start_def)
  from launches_approved_by_phone [OF r b(7)] b(8) r b(7) show ?thesis by (simp add: sample_conf_def) blast
qed

end
