(* ===== verification/Go_Flag.thy ===== *)
theory Go_Flag
  imports Go_Strings
begin

text \<open>
  Package \<open>flag\<close> with \<open>ExitOnError\<close>, as the four programs use it, and the two value parsers behind
  its boolean and duration flags. A flag set is the map of its flags to their current texts, the
  set of its boolean flags, and a test which texts a flag accepts.
\<close>

section \<open>Flag sets\<close>

definition split_flag :: "string \<Rightarrow> string \<times> string option" where
  "split_flag name = (case IndexByte name (CHR ''='') of
     None \<Rightarrow> (name, None)
   | Some i \<Rightarrow> (take i name, Some (drop (Suc i) name)))"

definition flag_name :: "string \<Rightarrow> string" where
  "flag_name s = (if s ! 1 = CHR ''-'' then drop 2 s else drop 1 s)"

definition flag_unknown :: "string \<Rightarrow> int" where
  "flag_unknown name = (if name = ''help'' \<or> name = ''h'' then 0 else 2)"

text \<open>
  \<open>FlagSet.Parse\<close>: \<open>m\<close> holds every defined flag with its current text. \<open>Inl\<close> is the status the
  program exits with; \<open>Inr\<close> the texts and the remaining arguments. A boolean flag takes a value only
  after an equals sign.
\<close>

fun parse_flags ::
    "string set \<Rightarrow> (string \<Rightarrow> string \<Rightarrow> bool) \<Rightarrow> string gomap \<Rightarrow> string list \<Rightarrow> int + string gomap \<times> string list" where
  "parse_flags bools ok m [] = Inr (m, [])"
| "parse_flags bools ok m (s # args) =
     (if length s < 2 \<or> hd s \<noteq> CHR ''-'' then Inr (m, s # args)
      else if s = ''--'' then Inr (m, args)
      else let name = flag_name s in
        if name = [] \<or> hd name = CHR ''-'' \<or> hd name = CHR ''='' then Inl 2
        else case split_flag name of
          (n, value) \<Rightarrow>
            (if gget m n = None then Inl (flag_unknown n)
             else case value of
               Some v \<Rightarrow> (if ok n v then parse_flags bools ok (gput n v m) args else Inl 2)
             | None \<Rightarrow>
                 (if n \<in> bools then parse_flags bools ok (gput n ''true'' m) args
                  else case args of
                    [] \<Rightarrow> Inl 2
                  | v # rest \<Rightarrow> (if ok n v then parse_flags bools ok (gput n v m) rest else Inl 2))))"

declare parse_flags.simps(2) [simp del]

text \<open>A flag set of string flags only.\<close>

definition flag_parse :: "string gomap \<Rightarrow> string list \<Rightarrow> int + string gomap \<times> string list" where
  "flag_parse = parse_flags {} (\<lambda>_ _. True)"

definition flag_value :: "string gomap \<Rightarrow> string \<Rightarrow> string" where
  "flag_value m name = (case gget m name of None \<Rightarrow> [] | Some v \<Rightarrow> v)"

section \<open>Values\<close>

definition ParseBool :: "string \<Rightarrow> bool option" where
  "ParseBool s =
     (if s \<in> {''1'', ''t'', ''T'', ''true'', ''TRUE'', ''True''} then Some True
      else if s \<in> {''0'', ''f'', ''F'', ''false'', ''FALSE'', ''False''} then Some False
      else None)"

text \<open>The units of a duration in nanoseconds; micro is written with either of two code points.\<close>

definition duration_unit :: "string \<Rightarrow> nat option" where
  "duration_unit u =
     (if u = ''ns'' then Some 1
      else if u = ''us'' \<or> u = [CHR 0xC2, CHR 0xB5, CHR ''s''] \<or> u = [CHR 0xCE, CHR 0xBC, CHR ''s''] then Some 1000
      else if u = ''ms'' then Some 1000000
      else if u = ''s'' then Some 1000000000
      else if u = ''m'' then Some 60000000000
      else if u = ''h'' then Some 3600000000000
      else None)"

text \<open>\<open>leadingFraction\<close>: the digits as far as they fit 63 bits, and the power of ten they are counted in.\<close>

definition leadingFraction :: "string \<Rightarrow> nat \<times> nat" where
  "leadingFraction ds =
     (let (x, scale, full) = foldl (\<lambda>(x, scale, full) c.
            if full \<or> x > (2 ^ 63 - 1) div 10 \<or> x * 10 + (byte c - 48) > 2 ^ 63 then (x, scale, True)
            else (x * 10 + (byte c - 48), scale * 10, False)) (0, 1, False) ds
      in (x, scale))"

definition duration_unit_char :: "char \<Rightarrow> bool" where
  "duration_unit_char c \<longleftrightarrow> c \<noteq> CHR ''.'' \<and> \<not> is_digit c"

lemma dropWhile_shorter: "takeWhile P s \<noteq> [] \<Longrightarrow> length (dropWhile P s) < length s"
  by (cases s) (auto simp: length_dropWhile_le le_imp_less_Suc split: if_splits)

text \<open>
  The loop of \<open>time.ParseDuration\<close> over the number-unit pairs, on unsigned 64-bit sums. The product
  of a fraction with its unit is computed in floating point and is the parameter \<open>frac\<close>.
\<close>

function duration_loop :: "(nat \<Rightarrow> nat \<Rightarrow> nat \<Rightarrow> nat) \<Rightarrow> nat \<Rightarrow> string \<Rightarrow> nat option" where
  "duration_loop frac d s =
     (if s = [] then Some d
      else
        let ds = takeWhile is_digit s; s1 = dropWhile is_digit s; v = nat_of_digits ds;
            (fs, s2) = (if s1 \<noteq> [] \<and> hd s1 = CHR ''.'' then (takeWhile is_digit (tl s1), dropWhile is_digit (tl s1)) else ([], s1));
            u = takeWhile duration_unit_char s2; rest = dropWhile duration_unit_char s2
        in
        if v > 2 ^ 63 \<or> (ds = [] \<and> fs = []) \<or> u = [] then None
        else case duration_unit u of
          None \<Rightarrow> None
        | Some unit \<Rightarrow>
            (let (f, scale) = leadingFraction fs; w = v * unit + (if f > 0 then frac f unit scale else 0) in
             if v > 2 ^ 63 div unit \<or> w > 2 ^ 63 \<or> d + w > 2 ^ 63 then None
             else duration_loop frac (d + w) rest))"
  by pat_completeness auto

termination
proof (relation "measure (\<lambda>(frac, d, s). length s)", simp, goal_cases)
  case (1 frac d s ds s1 v p fs s2 u rest unit q f scale w)
  have "length s1 \<le> length s" using 1 by (simp add: length_dropWhile_le)
  moreover have "length (dropWhile is_digit (tl s1)) \<le> length s1"
    using length_dropWhile_le [of is_digit "tl s1"] by (simp add: le_diff_conv)
  ultimately have "length s2 \<le> length s" using 1 by (auto split: if_splits)
  moreover have "length rest < length s2" using 1 dropWhile_shorter [of duration_unit_char s2] by simp
  ultimately show ?case by simp
qed

declare duration_loop.simps [simp del]

definition ParseDuration :: "(nat \<Rightarrow> nat \<Rightarrow> nat \<Rightarrow> nat) \<Rightarrow> string \<Rightarrow> int option" where
  "ParseDuration frac orig =
     (let neg = (orig \<noteq> [] \<and> hd orig = CHR ''-'');
          s = (if orig \<noteq> [] \<and> (hd orig = CHR ''-'' \<or> hd orig = CHR ''+'') then tl orig else orig)
      in if s = ''0'' then Some 0
         else if s = [] then None
         else case duration_loop frac 0 s of
           None \<Rightarrow> None
         | Some d \<Rightarrow> (if neg then Some (- int d) else if d > 2 ^ 63 - 1 then None else Some (int d)))"

section \<open>Parsing rendered flags\<close>

definition plain_flag :: "string \<Rightarrow> bool" where
  "plain_flag n \<longleftrightarrow> n \<noteq> [] \<and> hd n \<noteq> CHR ''-'' \<and> CHR ''='' \<notin> set n"

lemma plain_flag_split:
  assumes "plain_flag n"
  shows "split_flag n = (n, None)" "hd n \<noteq> CHR ''=''"
proof -
  show "split_flag n = (n, None)" using assms by (simp add: plain_flag_def split_flag_def IndexByte_None [THEN iffD2])
  show "hd n \<noteq> CHR ''=''" using assms hd_in_set [of n] unfolding plain_flag_def by metis
qed

lemma parse_flags_flag:
  assumes "plain_flag n" "gget m n \<noteq> None" "n \<notin> bools" "ok n v"
  shows "parse_flags bools ok m ((CHR ''-'' # CHR ''-'' # n) # v # args) = parse_flags bools ok (gput n v m) args"
  using assms plain_flag_split [OF assms(1)] by (auto simp: plain_flag_def flag_name_def parse_flags.simps(2))

lemma parse_flags_bool:
  assumes "plain_flag n" "gget m n \<noteq> None" "n \<in> bools"
  shows "parse_flags bools ok m ((CHR ''-'' # CHR ''-'' # n) # args) = parse_flags bools ok (gput n ''true'' m) args"
  using assms plain_flag_split [OF assms(1)] by (auto simp: plain_flag_def flag_name_def parse_flags.simps(2))

lemma parse_flags_bad:
  assumes "plain_flag n" "gget m n \<noteq> None" "n \<notin> bools" "\<not> ok n v"
  shows "parse_flags bools ok m ((CHR ''-'' # CHR ''-'' # n) # v # args) = Inl 2"
  using assms plain_flag_split [OF assms(1)] by (auto simp: plain_flag_def flag_name_def parse_flags.simps(2))

lemma flag_parse_flag:
  "plain_flag n \<Longrightarrow> gget m n \<noteq> None \<Longrightarrow>
   flag_parse m ((CHR ''-'' # CHR ''-'' # n) # v # args) = flag_parse (gput n v m) args"
  by (simp add: flag_parse_def parse_flags_flag)

lemma flag_parse_Nil: "flag_parse m [] = Inr (m, [])"
  by (simp add: flag_parse_def)

lemma flag_parse_end: "flag_parse m (''--'' # args) = Inr (m, args)"
  by (simp add: flag_parse_def parse_flags.simps(2))

lemma flag_parse_arg: "a \<noteq> [] \<Longrightarrow> hd a \<noteq> CHR ''-'' \<Longrightarrow> flag_parse m (a # args) = Inr (m, a # args)"
  by (simp add: flag_parse_def parse_flags.simps(2))

lemmas flag_run = flag_parse_flag flag_parse_end flag_parse_arg flag_parse_Nil plain_flag_def flag_value_def

text \<open>One step of the parser: it stops, or stores an acceptable text under a defined flag.\<close>

lemma parse_flags_Cons:
  obtains (failed) status where "parse_flags bools ok m (s # args) = Inl status"
  | (stopped) rest where "parse_flags bools ok m (s # args) = Inr (m, rest)"
  | (stored) n v rest where "parse_flags bools ok m (s # args) = parse_flags bools ok (gput n v m) rest"
      "gget m n \<noteq> None" "ok n v \<or> n \<in> bools \<and> v = ''true''" "length rest \<le> length args"
proof (cases "length s < 2 \<or> hd s \<noteq> CHR ''-'' \<or> s = ''--''")
  case True
  then have "\<exists>rest. parse_flags bools ok m (s # args) = Inr (m, rest)" by (auto simp: parse_flags.simps(2))
  with stopped show thesis by blast
next
  case False
  let ?name = "flag_name s"
  obtain n val where sp: "split_flag ?name = (n, val)" by fastforce
  show thesis
  proof (cases "?name = [] \<or> hd ?name = CHR ''-'' \<or> hd ?name = CHR ''='' \<or> gget m n = None")
    case True
    with False sp have "parse_flags bools ok m (s # args) = Inl 2 \<or> parse_flags bools ok m (s # args) = Inl (flag_unknown n)"
      by (auto simp: parse_flags.simps(2) Let_def)
    with failed show thesis by blast
  next
    case named: False
    have "parse_flags bools ok m (s # args) = (case val of
        Some v \<Rightarrow> (if ok n v then parse_flags bools ok (gput n v m) args else Inl 2)
      | None \<Rightarrow> (if n \<in> bools then parse_flags bools ok (gput n ''true'' m) args
          else case args of [] \<Rightarrow> Inl 2 | v # rest \<Rightarrow> (if ok n v then parse_flags bools ok (gput n v m) rest else Inl 2)))"
      using False named sp by (auto simp: parse_flags.simps(2) Let_def simp del: option.case_distrib)
    with named failed stored [of n] show thesis by (cases val; cases args) (auto split: if_splits)
  qed
qed

text \<open>A flag keeps or gains a text the set accepts, and no flag is added.\<close>

lemma parse_flags_ok:
  assumes "parse_flags bools ok m args = Inr (m', rest)"
    and "\<And>n v. gget m n = Some v \<Longrightarrow> ok n v" and "\<And>n. n \<in> bools \<Longrightarrow> ok n ''true''"
  shows "(\<forall>n v. gget m' n = Some v \<longrightarrow> ok n v) \<and> (\<forall>n. (gget m' n = None) = (gget m n = None))"
  using assms(1,2)
proof (induction "length args" arbitrary: m args rule: less_induct)
  case less
  show ?case
  proof (cases args)
    case Nil
    with less.prems show ?thesis by auto
  next
    case (Cons s as)
    show ?thesis
    proof (cases rule: parse_flags_Cons [of bools ok m s as])
      case (stored n v r)
      have "gget (gput n v m) k = Some w \<Longrightarrow> ok k w" for k w
        using stored(3) assms(3) less.prems(2) by (auto split: if_splits)
      with less.hyps [of r "gput n v m"] less.prems(1) stored Cons show ?thesis by auto
    qed (use less.prems Cons in auto)
  qed
qed

text \<open>A whole number of seconds.\<close>

lemma ParseDuration_seconds:
  assumes "n * 1000000000 < 2 ^ 63"
  shows "ParseDuration frac (string_of_nat n @ ''s'') = Some (int n * 1000000000)"
proof -
  let ?ds = "string_of_nat n"
  have d: "list_all is_digit ?ds" by (simp add: list_all_iff string_of_nat_digits)
  then have t: "takeWhile is_digit (?ds @ ''s'') = ?ds" "dropWhile is_digit (?ds @ ''s'') = ''s''"
    by (auto simp: list_all_iff is_digit_def byte_def takeWhile_append dropWhile_append)
  have h: "hd (?ds @ ''s'') \<noteq> CHR ''-''" "hd (?ds @ ''s'') \<noteq> CHR ''+''"
    using d string_of_nat_not_Nil [of n] by (cases ?ds; auto simp: is_digit_def byte_def)+
  have u: "duration_unit_char (CHR ''s'')"
    by (simp add: duration_unit_char_def is_digit_def byte_def)
  have "?ds @ ''s'' \<noteq> ''0''" by (cases ?ds rule: rev_cases) auto
  moreover have "duration_loop frac 0 (?ds @ ''s'') = Some (n * 1000000000)"
    using assms
    by (subst duration_loop.simps)
       (simp add: t u duration_unit_def leadingFraction_def duration_loop.simps [of frac _ "[]"])
  ultimately show ?thesis using h assms by (simp add: ParseDuration_def)
qed

end
