(* ===== verification/Adapter_Daemon.thy ===== *)
theory Adapter_Daemon
  imports Full_System Go_Flag
begin

text \<open>
  \<open>main\<close> of \<open>cmd/request-sudo-twilio-adapter\<close> around the handlers: the flags, the start with its fatal
  errors, and the shutdown. The tailer and the webhook of the running adapter are the steps of
  \<open>Adapter_System\<close>.
\<close>

section \<open>Flags\<close>

definition adapter_bools :: "string set" where
  "adapter_bools = {''dry-run''}"

text \<open>\<open>frac\<close> is the floating-point part of \<open>time.ParseDuration\<close>.\<close>

definition adapter_flag_ok :: "(nat \<Rightarrow> nat \<Rightarrow> nat \<Rightarrow> nat) \<Rightarrow> string \<Rightarrow> string \<Rightarrow> bool" where
  "adapter_flag_ok frac name v =
     (if name = ''dry-run'' then ParseBool v \<noteq> None
      else if name = ''pending-ttl'' then ParseDuration frac v \<noteq> None
      else True)"

definition adapter_defaults :: "string gomap" where
  "adapter_defaults =
     [(''env-file'', ''/etc/request-sudo/twilio.env''), (''approvers'', ''/etc/request-sudo/approvers.yaml''),
      (''event-log'', ''/var/lib/request-sudo/events.jsonl''), (''review-socket'', ''/run/request-sudo/review.sock''),
      (''audit-log'', ''/var/log/request-sudo/twilio-audit.jsonl''), (''webhook-addr'', ''127.0.0.1:9811''),
      (''public-url'', ''https://example.com/twilio/inbound''), (''dry-run'', ''false''),
      (''approver-id'', ''twilio-sms-overnight''), (''allowed-country-codes'', ''+1''), (''pending-ttl'', ''600s'')]"

definition adapter_parse :: "(nat \<Rightarrow> nat \<Rightarrow> nat \<Rightarrow> nat) \<Rightarrow> string list \<Rightarrow> int + adapter_flags" where
  "adapter_parse frac args =
     (case parse_flags adapter_bools (adapter_flag_ok frac) adapter_defaults args of
        Inl status \<Rightarrow> Inl status
      | Inr (m, _) \<Rightarrow> Inr \<lparr>af_envFile = flag_value m ''env-file'', af_approvers = flag_value m ''approvers'',
          af_eventLog = flag_value m ''event-log'', af_reviewSock = flag_value m ''review-socket'',
          af_auditLog = flag_value m ''audit-log'', af_webhookAddr = flag_value m ''webhook-addr'',
          af_publicURL = flag_value m ''public-url'', af_dryRun = (ParseBool (flag_value m ''dry-run'') = Some True),
          af_approverID = flag_value m ''approver-id'', af_allowedCountryCodes = flag_value m ''allowed-country-codes'',
          af_pendingTTL = (case ParseDuration frac (flag_value m ''pending-ttl'') of None \<Rightarrow> 0 | Some d \<Rightarrow> d)\<rparr>)"

section \<open>Start and stop\<close>

datatype adapter_outcome = AdapterExited int | AdapterServing adapter_flags adapter

text \<open>\<open>listen\<close> is what the operating system says to listening on the webhook's address.\<close>

definition adapter_main ::
    "(nat \<Rightarrow> nat \<Rightarrow> nat \<Rightarrow> nat) \<Rightarrow> adapter_files \<Rightarrow> (string \<Rightarrow> go_error option) \<Rightarrow> string list \<Rightarrow> adapter_outcome" where
  "adapter_main frac fx listen args =
     (case adapter_parse frac args of
        Inl status \<Rightarrow> AdapterExited status
      | Inr fl \<Rightarrow>
          (case adapter_start fl fx of
             Inl _ \<Rightarrow> AdapterExited 1
           | Inr ad \<Rightarrow>
               (case listen (af_webhookAddr fl) of
                  Some _ \<Rightarrow> AdapterExited 1
                | None \<Rightarrow> AdapterServing fl ad)))"

text \<open>After the context is done and the webhook server is shut down; the count is printed.\<close>

definition adapter_stop :: "time \<Rightarrow> (string \<Rightarrow> fs_outcome) \<Rightarrow> string list \<Rightarrow> adapter \<Rightarrow> nat \<times> adapter" where
  "adapter_stop now fs order ad =
     (let (n, ps) = ExpireDue now fs order (ad_pending ad) in (n, ad\<lparr>ad_pending := ps\<rparr>))"

section \<open>The running configuration\<close>

lemma ParseDuration_600s: "ParseDuration frac ''600s'' = Some 600000000000"
proof -
  have "string_of_nat 600 = ''600''" by code_simp
  then show ?thesis using ParseDuration_seconds [of 600 frac] by simp
qed

lemma adapter_defaults_ok: "gget adapter_defaults n = Some v \<Longrightarrow> adapter_flag_ok frac n v"
  using ParseDuration_600s [of frac] by (auto simp: adapter_defaults_def gget_def adapter_flag_ok_def ParseBool_def split: if_splits)

definition default_flags :: adapter_flags where
  "default_flags = \<lparr>af_envFile = ''/etc/request-sudo/twilio.env'', af_approvers = ''/etc/request-sudo/approvers.yaml'',
     af_eventLog = ''/var/lib/request-sudo/events.jsonl'', af_reviewSock = ''/run/request-sudo/review.sock'',
     af_auditLog = ''/var/log/request-sudo/twilio-audit.jsonl'', af_webhookAddr = ''127.0.0.1:9811'',
     af_publicURL = ''https://example.com/twilio/inbound'', af_dryRun = False, af_approverID = ''twilio-sms-overnight'',
     af_allowedCountryCodes = ''+1'', af_pendingTTL = 600 * 1000000000\<rparr>"

lemma adapter_parse_defaults: "adapter_parse frac [] = Inr default_flags"
  by (simp add: adapter_parse_def adapter_defaults_def flag_value_def gget_def default_flags_def ParseBool_def ParseDuration_600s)

lemma default_codes: "ParseAllowedCountryCodes ''+1'' = Inr [''+1'']"
proof -
  have "TrimSpace ''+1'' = ''+1''" by (rule TrimSpace_id) (simp_all add: ascii_space_def space2_def space3_def byte_def)
  then show ?thesis by (simp add: ParseAllowedCountryCodes_def is_digit_def byte_def)
qed

text \<open>Whatever the arguments, the texts of the boolean and of the duration parse when they are read.\<close>

lemma adapter_parse_typed:
  assumes "parse_flags adapter_bools (adapter_flag_ok frac) adapter_defaults args = Inr (m, rest)"
  shows "ParseBool (flag_value m ''dry-run'') \<noteq> None" "ParseDuration frac (flag_value m ''pending-ttl'') \<noteq> None"
proof -
  note ok = parse_flags_ok [OF assms adapter_defaults_ok]
  have t: "\<And>n. n \<in> adapter_bools \<Longrightarrow> adapter_flag_ok frac n ''true''"
    by (simp add: adapter_bools_def adapter_flag_ok_def ParseBool_def)
  have "gget m ''dry-run'' \<noteq> None" "gget m ''pending-ttl'' \<noteq> None"
    using ok t by (simp_all add: adapter_defaults_def gget_def)
  then obtain b d where v: "gget m ''dry-run'' = Some b" "gget m ''pending-ttl'' = Some d" by auto
  then have "adapter_flag_ok frac ''dry-run'' b" "adapter_flag_ok frac ''pending-ttl'' d" using ok t by blast+
  with v show "ParseBool (flag_value m ''dry-run'') \<noteq> None" "ParseDuration frac (flag_value m ''pending-ttl'') \<noteq> None"
    by (simp_all add: flag_value_def adapter_flag_ok_def)
qed

lemma LoadTwilioEnv_credentials:
  "LoadTwilioEnv wd opn path = Inr cfg \<Longrightarrow> tc_AccountSID cfg \<noteq> [] \<and> tc_AuthToken cfg \<noteq> [] \<and> tc_VerifyServiceSID cfg \<noteq> []"
  by (auto simp: LoadTwilioEnv_def Let_def result_bind_eq_Inr split: if_splits)

text \<open>
  An adapter that serves is configured. Whatever its arguments and files are, the adapter
  serves only with a non-empty authentication token, which is the one its webhook checks signatures
  with, and a non-empty list of well-formed country codes; the webhook speaks to the review socket
  and under the approver identity of the flags; and a duration and a boolean are read only from
  texts that parse. Without arguments, texts go to phones with prefix +1 only.
\<close>

theorem serving_adapter_is_configured:
  assumes "adapter_main frac fx listen args = AdapterServing fl ad"
  shows "dp_AuthToken (ad_deps ad) \<noteq> [] \<and> dp_AuthToken (ad_deps ad) = tc_AuthToken (cl_cfg (ad_client ad))
    \<and> ad_codes ad \<noteq> [] \<and> list_all country_code (ad_codes ad)
    \<and> dp_SocketPath (ad_deps ad) = af_reviewSock fl \<and> dp_ApproverID (ad_deps ad) = af_approverID fl
    \<and> dp_PublicURL (ad_deps ad) = af_publicURL fl \<and> ps_ttl (ad_pending ad) = af_pendingTTL fl
    \<and> listen (af_webhookAddr fl) = None
    \<and> (args = [] \<longrightarrow> af_pendingTTL fl = 600 * 1000000000 \<and> (\<forall>phone. IsAllowedCountry phone (ad_codes ad) \<longleftrightarrow> HasPrefix phone ''+1''))"
proof -
  have fl: "adapter_parse frac args = Inr fl" and st: "adapter_start fl fx = Inr ad" and ls: "listen (af_webhookAddr fl) = None"
    using assms by (auto simp: adapter_main_def split: sum.splits option.splits)
  from st obtain codes cfg policy audit where c: "ParseAllowedCountryCodes (af_allowedCountryCodes fl) = Inr codes"
    "LoadTwilioEnv (ax_wd fx) (ax_open fx) (af_envFile fl) = Inr cfg"
    and ad: "ad = \<lparr>ad_codes = codes, ad_policy = policy, ad_client = NewTwilioClient cfg, ad_tailer = NewCanonTailer,
            ad_pending = snd (ReplayFromAudit (ax_replay fx) (NewPendingSet (af_pendingTTL fl) (Some audit))),
            ad_deps = \<lparr>dp_AuthToken = tc_AuthToken cfg, dp_PublicURL = af_publicURL fl, dp_ApproverID = af_approverID fl,
                       dp_SocketPath = af_reviewSock fl\<rparr>\<rparr>"
    by (auto simp: adapter_start_def result_bind_eq_Inr)
  have ttl: "ps_ttl (snd (ReplayFromAudit f ps)) = ps_ttl ps" for f ps
    by (auto simp: ReplayFromAudit_def Let_def split: sum.splits option.splits)
  have codes: "codes \<noteq> []" "list_all country_code codes" "IsAllowedCountry phone codes \<longleftrightarrow> (\<exists>c \<in> set codes. HasPrefix phone c)" for phone
    using allowed_codes [OF c(1)] by blast+
  have "af_pendingTTL fl = 600 * 1000000000 \<and> codes = [''+1'']" if "args = []"
    using fl c(1) that adapter_parse_defaults [of frac] default_codes by (auto simp: default_flags_def)
  with LoadTwilioEnv_credentials [OF c(2)] codes ls show ?thesis
    by (auto simp: ad ttl NewTwilioClient_def NewPendingSet_def)
qed

section \<open>Restart\<close>

lemma ReplayFromAudit_any_audit:
  "snd (ReplayFromAudit file (ps\<lparr>ps_audit := x\<rparr>)) = snd (ReplayFromAudit file ps)\<lparr>ps_audit := x\<rparr>"
  by (auto simp: ReplayFromAudit_def Let_def split: sum.splits option.splits)

lemma tracks_replay_items:
  assumes "tracks t rs ps" "ps_audit ps = Some a"
  shows "snd (ReplayFromAudit (Inr (Some (al_file a))) (NewPendingSet ttl x)) = \<lparr>ps_ttl = ttl, ps_items = ps_items ps, ps_audit = x\<rparr>"
  using tracks_replay [OF assms, of ttl] ReplayFromAudit_any_audit [where ps = "NewPendingSet ttl (Some a)" and x = x]
  by (simp add: NewPendingSet_def)

lemma ExpireDue_items:
  "ps_ttl (snd (ExpireDue now fs order ps)) = ps_ttl ps
   \<and> gget (ps_items (snd (ExpireDue now fs order ps))) q =
      (if q \<in> set order \<and> (\<exists>e. gget (ps_items ps) q = Some e \<and> time_sub now (pe_OpenedAt e) \<ge> ps_ttl ps) then None
       else gget (ps_items ps) q)"
proof (induction order arbitrary: ps)
  case (Cons x order)
  show ?case
  proof (cases "gget (ps_items ps) x")
    case (Some e)
    then show ?thesis
      using Cons.IH [of ps] Cons.IH [of "drop_entry (fs x) auditTypeVerifyPendingExpired x e now ps"]
      by (auto split: prod.splits if_splits)
  qed (use Cons.IH [of ps] in auto)
qed simp

lemma ps_exec_ttl: "ps_ttl (ps_exec c ps) = ps_ttl ps"
proof -
  obtain now f1 f2 op where c: "c = (now, f1, f2, op)" by (cases c) auto
  show ?thesis
    by (cases op) (auto simp: c ExpireDue_items OpenPending_def Resolve_def Release_def Let_def split: option.splits)
qed

lemma ps_run_ttl: "ps_ttl (fold ps_exec calls ps) = ps_ttl ps"
  by (induction calls arbitrary: ps) (simp_all add: ps_exec_ttl)

lemma adapter_start_restart:
  assumes "adapter_start fl fx = Inr ad"
  shows "\<exists>audit. adapter_start fl (fx\<lparr>ax_audit := Inr file, ax_replay := rp\<rparr>) =
    Inr (ad\<lparr>ad_pending := snd (ReplayFromAudit rp (NewPendingSet (af_pendingTTL fl) (Some audit)))\<rparr>)"
  using assms by (auto simp: adapter_start_def result_bind_eq_Inr NewAuditLog_def split: if_splits)

text \<open>
  What a replay cannot know: \<open>OpenPending\<close> ignores the error of its audit write, so a claim whose row
  did not reach the log holds until the adapter stops, and after a restart the phone is free.
\<close>

lemma unlogged_claim_is_forgotten:
  assumes "tracks t rs ps" "ps_audit ps = Some a" "gget (ps_items ps) phone = None" "0 < af_pendingTTL fl"
    and "OpenPending now f (FsOpenErr m) phone rid ps = (r, ps')" "ps_ttl ps = af_pendingTTL fl"
  shows "r = None" "fst (Resolve now g phone ps') = Some rid" "map_option al_file (ps_audit ps') = Some (al_file a)"
    and "fst (Resolve now' g phone (snd (ReplayFromAudit (Inr (Some (al_file a))) (NewPendingSet (af_pendingTTL fl) (Some x))))) = None"
    and "fst (OpenPending now' g h phone rid' (snd (ReplayFromAudit (Inr (Some (al_file a))) (NewPendingSet (af_pendingTTL fl) (Some x))))) = None"
proof -
  have "time_sub now now = 0" by (simp add: time_sub_def max_duration_def min_duration_def)
  with assms(2-6) show "r = None" "fst (Resolve now g phone ps') = Some rid" "map_option al_file (ps_audit ps') = Some (al_file a)"
    by (auto simp: OpenPending_def Resolve_def emit_def write_row_def audit_Write_def Let_def)
  show "fst (Resolve now' g phone (snd (ReplayFromAudit (Inr (Some (al_file a))) (NewPendingSet (af_pendingTTL fl) (Some x))))) = None"
    "fst (OpenPending now' g h phone rid' (snd (ReplayFromAudit (Inr (Some (al_file a))) (NewPendingSet (af_pendingTTL fl) (Some x))))) = None"
    using assms(3) by (simp_all add: tracks_replay_items [OF assms(1,2)] Resolve_def OpenPending_def Let_def)
qed


section \<open>A started adapter\<close>

definition sample_env :: twilio_config where
  "sample_env = \<lparr>tc_AccountSID = ''AC1'', tc_AuthToken = ''a=b # c'', tc_VerifyServiceSID = ''VA1'', tc_FromNumber = [],
     tc_RoutingCallbackURL = [], tc_RoutingCallbackKey = []\<rparr>"

definition sample_files :: adapter_files where
  "sample_files = \<lparr>ax_wd = Inr ''/'',
     ax_open = (\<lambda>path. if path = ''/etc/request-sudo/twilio.env'' then Inr (file_lines env_text (config_entries sample_env))
                      else Inr (file_lines yaml_text (policy_lines sample_policy))),
     ax_mkdir = Inr (), ax_audit = Inr [], ax_replay = Inr (Some [])\<rparr>"

lemma sample_credentials:
  "LoadTwilioEnv (ax_wd sample_files) (ax_open sample_files) ''/etc/request-sudo/twilio.env'' = Inr sample_env"
proof -
  have e: "newline \<notin> set (snd e) \<and> length (snd e) + 64 < text_limit" if "e \<in> set (config_entries sample_env)" for e
    using that by (auto simp: config_entries_def sample_env_def text_limit_def newline_def)
  have "Clean ''/etc/request-sudo/twilio.env'' = ''/etc/request-sudo/twilio.env''" by code_simp
  then have "LoadTwilioEnv (ax_wd sample_files) (ax_open sample_files) ''/etc/request-sudo/twilio.env'' =
      LoadTwilioEnv (Inr ''/'') (\<lambda>_. Inr (file_lines env_text (config_entries sample_env))) ''/etc/request-sudo/twilio.env''"
    by (simp add: LoadTwilioEnv_def Abs_def IsAbs_def sample_files_def)
  with credentials_roundtrip [where path = "''/etc/request-sudo/twilio.env''" and wd = "Inr ''/''", OF _ e] show ?thesis
    by (simp add: IsAbs_def config_complete_def sample_env_def Let_def)
qed

lemma sample_approvers: "LoadApprovers (ax_wd sample_files) (ax_open sample_files) ''/etc/request-sudo/approvers.yaml'' = Inr sample_policy"
proof -
  have "list_all (\<lambda>l. length (yaml_text l) < text_limit) (policy_lines sample_policy)"
    by (simp add: policy_lines_def set_lines_def approver_lines_def route_lines_def sample_policy_def yaml_text_def text_limit_def)
  then have "parseApprovers (file_lines yaml_text (policy_lines sample_policy)) = Inr sample_policy"
    using yl.scan_file [OF policy_lines_ok [OF sample_policy_ok]] policy_lines_state [OF sample_policy_ok]
    by (simp add: parseApprovers_def fold_yaml_text sample_policy_def)
  moreover have "Clean ''/etc/request-sudo/approvers.yaml'' = ''/etc/request-sudo/approvers.yaml''" by code_simp
  ultimately show ?thesis by (simp add: LoadApprovers_def Abs_def IsAbs_def sample_files_def)
qed

lemma sample_start:
  "\<exists>a. al_file a = [] \<and> adapter_start default_flags sample_files = Inr \<lparr>ad_codes = [''+1''], ad_policy = sample_policy,
     ad_client = NewTwilioClient sample_env, ad_tailer = NewCanonTailer,
     ad_pending = NewPendingSet (600 * 1000000000) (Some a),
     ad_deps = \<lparr>dp_AuthToken = ''a=b # c'', dp_PublicURL = ''https://example.com/twilio/inbound'',
                dp_ApproverID = ''twilio-sms-overnight'', dp_SocketPath = ''/run/request-sudo/review.sock''\<rparr>\<rparr>"
  using sample_credentials sample_approvers default_codes
  by (simp add: adapter_start_def default_flags_def NewAuditLog_def Abs_def IsAbs_def)
     (simp add: sample_files_def ReplayFromAudit_def read_lines_def replay_row_def NewPendingSet_def sample_env_def)

theorem serving_adapter_is_configured_witness:
  "\<exists>ad. adapter_main frac sample_files (\<lambda>_. None) [] = AdapterServing default_flags ad \<and> ad_codes ad = [''+1'']
     \<and> IsAllowedCountry ''+15550001111'' (ad_codes ad) \<and> \<not> IsAllowedCountry ''+447700900123'' (ad_codes ad)
     \<and> dp_AuthToken (ad_deps ad) \<noteq> []"
proof -
  obtain ad where ad: "adapter_start default_flags sample_files = Inr ad" "ad_codes ad = [''+1'']" using sample_start by auto
  then have m: "adapter_main frac sample_files (\<lambda>_. None) [] = AdapterServing default_flags ad"
    by (simp add: adapter_main_def adapter_parse_defaults)
  from serving_adapter_is_configured [OF m] m ad(2) show ?thesis by (auto simp: HasPrefix_def)
qed


end
