(* ===== verification/Adapter_Run.thy ===== *)
theory Adapter_Run
  imports Adapter_Daemon
begin

text \<open>
  The running adapter as the turns of its goroutines: the tailer, which calls the handler of new
  requests in the middle of a scan, one goroutine per webhook request, and \<open>main\<close>, which waits for
  the signal, shuts the webhook server down and expires what is due. The handler of new requests
  takes a turn per critical section of the pending set, and so does a reply whose call of the broker
  is under way. The turns simulate the steps of \<open>Adapter_System\<close>.
\<close>

section \<open>Goroutines of the adapter\<close>

text \<open>Where the tailer's goroutine stands: between scans or lines, or in the loop over the phones.\<close>

datatype tail_stage =
    Waiting
  | Routing pending_request "string list"
  | Texting pending_request string "string list"
  | TailEnded

datatype adapter_stage = WebhookServing | Draining | AdapterStopped

text \<open>A reply whose call of the broker is under way: its sender, the message, and the row it will write.\<close>

record in_flight =
  fl_from :: string
  fl_req :: wire_request
  fl_type :: string
  fl_sid :: "string option"

text \<open>\<open>ar_announced\<close> and \<open>ar_called\<close> record what the scans announced and what was sent to the broker.\<close>

record adapter_run =
  ar_flags :: adapter_flags
  ar_ad :: adapter
  ar_cancelled :: bool
  ar_main :: adapter_stage
  ar_todo :: "pending_request list"
  ar_stage :: tail_stage
  ar_inflight :: "in_flight list"
  ar_announced :: "pending_request set"
  ar_called :: "(string \<times> wire_request) set"

definition serving :: "adapter_flags \<Rightarrow> adapter \<Rightarrow> adapter_run" where
  "serving fl ad = \<lparr>ar_flags = fl, ar_ad = ad, ar_cancelled = False, ar_main = WebhookServing, ar_todo = [],
     ar_stage = Waiting, ar_inflight = [], ar_announced = {}, ar_called = {}\<rparr>"

definition set_pending :: "pending_set \<Rightarrow> adapter_run \<Rightarrow> adapter_run" where
  "set_pending ps y = y\<lparr>ar_ad := (ar_ad y)\<lparr>ad_pending := ps\<rparr>\<rparr>"

subsection \<open>The tailer\<close>

definition scan_turn :: "tail_env \<Rightarrow> adapter_run \<Rightarrow> adapter_run" where
  "scan_turn env y =
     (case env of (file, seek, readErr) \<Rightarrow>
        (case scanOnce file seek readErr (ad_tailer (ar_ad y)) of
           (_, (out, _), t) \<Rightarrow> y\<lparr>ar_ad := (ar_ad y)\<lparr>ad_tailer := t\<rparr>, ar_todo := out, ar_announced := ar_announced y \<union> set out\<rparr>))"

text \<open>The head of \<open>handlePending\<close>.\<close>

definition route_turn :: "time \<times> fs_outcome \<Rightarrow> pending_request \<Rightarrow> adapter_run \<Rightarrow> adapter_run" where
  "route_turn audit p y =
     (case LookupRecipients (ad_policy (ar_ad y)) (pr_Requester p) of
        [] \<Rightarrow> set_pending (write_row (snd audit) (fst audit) [(''type'', jstring ''sms_routing_empty''),
                (''request_id'', jstring (pr_RequestID p)), (''requester'', jstring (pr_Requester p))] (ad_pending (ar_ad y))) y
      | recipients \<Rightarrow> y\<lparr>ar_stage := Routing p recipients\<rparr>)"

definition next_phone :: "pending_request \<Rightarrow> string list \<Rightarrow> tail_stage" where
  "next_phone p rest = (if rest = [] then Waiting else Routing p rest)"

definition claim_turn :: "phone_env \<Rightarrow> pending_request \<Rightarrow> string \<Rightarrow> string list \<Rightarrow> adapter_run \<Rightarrow> adapter_run" where
  "claim_turn env p phone rest y =
     (case claim_phone (ad_codes (ar_ad y)) p env phone (ad_pending (ar_ad y)) of
        (False, ps) \<Rightarrow> (set_pending ps y)\<lparr>ar_stage := next_phone p rest\<rparr>
      | (True, ps) \<Rightarrow> (set_pending ps y)\<lparr>ar_stage := Texting p phone rest\<rparr>)"

definition settle_turn ::
    "(go_error \<Rightarrow> string) \<Rightarrow> (string \<Rightarrow> string) \<Rightarrow> phone_env \<Rightarrow> pending_request \<Rightarrow> string \<Rightarrow> string list \<Rightarrow> adapter_run \<Rightarrow> adapter_run" where
  "settle_turn errtext decodeErr env p phone rest y =
     (set_pending (settle_phone errtext decodeErr (ad_client (ar_ad y)) (af_dryRun (ar_flags y)) p env phone (ad_pending (ar_ad y))) y)
       \<lparr>ar_stage := next_phone p rest\<rparr>"

subsection \<open>The webhook\<close>

definition reply_turn ::
    "(string \<Rightarrow> string \<Rightarrow> string) \<Rightarrow> (go_error \<Rightarrow> string) \<Rightarrow> reply_env \<Rightarrow> http_request \<Rightarrow> adapter_run \<Rightarrow> adapter_run" where
  "reply_turn mac errtext env r y =
     (let res = HandleInboundReply mac errtext (ad_deps (ar_ad y)) env (inbound_of r) (ad_pending (ar_ad y))
      in (set_pending (ir_Pending res) y)\<lparr>ar_called := ar_called y \<union> {(sender (inbound_of r), req) | req. ir_Call res = Some req}\<rparr>)"

text \<open>A reply up to its call of the broker, and from the broker's answer on.\<close>

definition in_flight_of :: "reply_env \<Rightarrow> inbound_request \<Rightarrow> wire_request \<Rightarrow> in_flight" where
  "in_flight_of env r req =
     (let from = sender r; (intent, code) = ParseReplyIntent (case in_PostForm r of Inl _ \<Rightarrow> [] | Inr fm \<Rightarrow> form_Get fm ''Body'') in
      if intent = ReplyIntentApprove
      then \<lparr>fl_from = from, fl_req = req, fl_type = ''sms_approval_consumed'', fl_sid = Some (vr_SID (fst (rp_check env from code)))\<rparr>
      else \<lparr>fl_from = from, fl_req = req, fl_type = ''sms_denial_consumed'', fl_sid = None\<rparr>)"

definition call_turn ::
    "(string \<Rightarrow> string \<Rightarrow> string) \<Rightarrow> (go_error \<Rightarrow> string) \<Rightarrow> reply_env \<Rightarrow> http_request \<Rightarrow> adapter_run \<Rightarrow> adapter_run option" where
  "call_turn mac errtext env r y =
     (case ir_Call (HandleInboundReply mac errtext (ad_deps (ar_ad y)) env (inbound_of r) (ad_pending (ar_ad y))) of
        None \<Rightarrow> None
      | Some req \<Rightarrow> Some (y\<lparr>ar_inflight := ar_inflight y @ [in_flight_of env (inbound_of r) req],
                              ar_called := insert (sender (inbound_of r), req) (ar_called y)\<rparr>))"

definition answer_turn :: "nat \<Rightarrow> reply_env \<Rightarrow> adapter_run \<Rightarrow> adapter_run" where
  "answer_turn i env y =
     (let f = ar_inflight y ! i
      in (set_pending (consumed env (fl_type f) (wr_RequestID (fl_req f)) (fl_from f) (fl_sid f)
            (rp_dial env (dp_SocketPath (ad_deps (ar_ad y))) (fl_req f)) (ad_pending (ar_ad y))) y)
           \<lparr>ar_inflight := take i (ar_inflight y) @ drop (Suc i) (ar_inflight y)\<rparr>)"

subsection \<open>Turns\<close>

datatype adapter_turn =
    TScan tail_env
  | TTailEnd
  | TRoute "time \<times> fs_outcome"
  | TClaim phone_env
  | TSettle phone_env
  | TReply http_request reply_env
  | TCall http_request reply_env
  | TAnswer nat reply_env
  | TSignal
  | TShutdown
  | TExpire time "string \<Rightarrow> fs_outcome" "string list" bool

text \<open>
  The turn an action stands for, \<open>None\<close> if it cannot be taken. A shut down webhook server takes no new
  requests; \<open>main\<close> goes on when those under way have ended, or when its two seconds have passed.
\<close>

definition adapter_turn ::
    "(string \<Rightarrow> string \<Rightarrow> string) \<Rightarrow> (go_error \<Rightarrow> string) \<Rightarrow> (string \<Rightarrow> string) \<Rightarrow> adapter_run \<Rightarrow> adapter_turn \<Rightarrow> adapter_run option" where
  "adapter_turn mac errtext decodeErr y act =
     (if ar_main y = AdapterStopped then None
      else case act of
        TScan env \<Rightarrow> (if ar_stage y = Waiting \<and> ar_todo y = [] then Some (scan_turn env y) else None)
      | TTailEnd \<Rightarrow> (if ar_cancelled y \<and> ar_stage y = Waiting \<and> ar_todo y = [] then Some (y\<lparr>ar_stage := TailEnded\<rparr>) else None)
      | TRoute audit \<Rightarrow> (case (ar_stage y, ar_todo y) of
            (Waiting, p # todo) \<Rightarrow> Some (route_turn audit p (y\<lparr>ar_todo := todo\<rparr>))
          | _ \<Rightarrow> None)
      | TClaim env \<Rightarrow> (case ar_stage y of Routing p (phone # rest) \<Rightarrow> Some (claim_turn env p phone rest y) | _ \<Rightarrow> None)
      | TSettle env \<Rightarrow> (case ar_stage y of Texting p phone rest \<Rightarrow> Some (settle_turn errtext decodeErr env p phone rest y) | _ \<Rightarrow> None)
      | TReply r env \<Rightarrow> (if ar_main y = WebhookServing then Some (reply_turn mac errtext env r y) else None)
      | TCall r env \<Rightarrow> (if ar_main y = WebhookServing then call_turn mac errtext env r y else None)
      | TAnswer i env \<Rightarrow> (if i < length (ar_inflight y) then Some (answer_turn i env y) else None)
      | TSignal \<Rightarrow> Some (y\<lparr>ar_cancelled := True\<rparr>)
      | TShutdown \<Rightarrow> (if ar_main y = WebhookServing \<and> ar_cancelled y then Some (y\<lparr>ar_main := Draining\<rparr>) else None)
      | TExpire now fs order timedOut \<Rightarrow>
          (if ar_main y = Draining \<and> (ar_inflight y = [] \<or> timedOut)
           then Some (y\<lparr>ar_ad := snd (adapter_stop now fs order (ar_ad y)), ar_main := AdapterStopped\<rparr>) else None))"

abbreviation adapter_turns ::
    "(string \<Rightarrow> string \<Rightarrow> string) \<Rightarrow> (go_error \<Rightarrow> string) \<Rightarrow> (string \<Rightarrow> string) \<Rightarrow> adapter_run \<Rightarrow> adapter_turn \<Rightarrow> adapter_run \<Rightarrow> bool" where
  "adapter_turns mac errtext decodeErr y act y' \<equiv> adapter_turn mac errtext decodeErr y act = Some y'"

section \<open>The turns of the handler of new requests\<close>

text \<open>Taken one after the other, without others between them, the turns for a request are \<open>handlePending\<close>.\<close>

lemma phones_turns:
  assumes "ar_main y \<noteq> AdapterStopped" "ar_stage y = next_phone p phones"
  shows "\<exists>acts. run (adapter_turns mac errtext decodeErr) y acts
    ((set_pending (snd (notify_phones errtext decodeErr (ad_client (ar_ad y)) (ad_codes (ar_ad y)) (af_dryRun (ar_flags y)) p env phones
        (ad_pending (ar_ad y)))) y)\<lparr>ar_stage := Waiting\<rparr>)"
  using assms
proof (induction phones arbitrary: y)
  case Nil
  then have "(set_pending (ad_pending (ar_ad y)) y)\<lparr>ar_stage := Waiting\<rparr> = y" by (simp add: set_pending_def next_phone_def)
  then show ?case using run_nil by (metis notify_phones.simps(1) snd_conv)
next
  case (Cons phone rest)
  let ?ad = "ar_ad y" and ?step = "adapter_turns mac errtext decodeErr"
  obtain b ps where c: "claim_phone (ad_codes ?ad) p (env phone) phone (ad_pending ?ad) = (b, ps)" by fastforce
  let ?y1 = "claim_turn (env phone) p phone rest y"
  have t1: "?step y (TClaim (env phone)) ?y1" using Cons.prems by (simp add: adapter_turn_def next_phone_def)
  show ?case
  proof (cases b)
    case False
    have "ar_main ?y1 \<noteq> AdapterStopped" "ar_stage ?y1 = next_phone p rest"
      using Cons.prems(1) c False by (simp_all add: claim_turn_def set_pending_def)
    from Cons.IH [OF this] run_Cons [where step = ?step, OF t1] c False show ?thesis
      by (fastforce simp: claim_turn_def set_pending_def notify_phone_def split: prod.splits)
  next
    case True
    let ?y2 = "settle_turn errtext decodeErr (env phone) p phone rest ?y1"
    have t2: "?step ?y1 (TSettle (env phone)) ?y2"
      using Cons.prems(1) c True by (simp add: adapter_turn_def claim_turn_def set_pending_def)
    have "ar_main ?y2 \<noteq> AdapterStopped" "ar_stage ?y2 = next_phone p rest"
      using Cons.prems(1) c True by (simp_all add: claim_turn_def settle_turn_def set_pending_def)
    from Cons.IH [OF this] run_Cons [where step = ?step, OF t1 run_Cons [where step = ?step, OF t2]] c True show ?thesis
      by (fastforce simp: claim_turn_def settle_turn_def set_pending_def notify_phone_def split: prod.splits)
  qed
qed

lemma handler_turns:
  assumes "ar_main y \<noteq> AdapterStopped" "ar_stage y = Waiting" "ar_todo y = p # todo"
  shows "\<exists>acts. run (adapter_turns mac errtext decodeErr) y acts
    (set_pending (snd (handlePending errtext decodeErr (ad_client (ar_ad y)) (ad_policy (ar_ad y)) (ad_codes (ar_ad y))
        (af_dryRun (ar_flags y)) env audit p (ad_pending (ar_ad y)))) (y\<lparr>ar_todo := todo\<rparr>))"
proof -
  let ?y1 = "route_turn audit p (y\<lparr>ar_todo := todo\<rparr>)" and ?step = "adapter_turns mac errtext decodeErr"
  let ?rs = "LookupRecipients (ad_policy (ar_ad y)) (pr_Requester p)"
  have t: "?step y (TRoute audit) ?y1" using assms by (simp add: adapter_turn_def)
  show ?thesis
  proof (cases "?rs = []")
    case True
    with run_single [where step = ?step, OF t] show ?thesis by (auto simp: route_turn_def handlePending_def set_pending_def)
  next
    case False
    then have y1: "?y1 = y\<lparr>ar_todo := todo, ar_stage := Routing p ?rs\<rparr>" by (auto simp: route_turn_def split: list.splits)
    then have "ar_main ?y1 \<noteq> AdapterStopped" "ar_stage ?y1 = next_phone p ?rs" using assms(1) False by (simp_all add: next_phone_def)
    from phones_turns [OF this, of mac errtext decodeErr env] obtain acts where r: "run ?step ?y1 acts
        ((set_pending (snd (notify_phones errtext decodeErr (ad_client (ar_ad ?y1)) (ad_codes (ar_ad ?y1)) (af_dryRun (ar_flags ?y1)) p env ?rs
           (ad_pending (ar_ad ?y1)))) ?y1)\<lparr>ar_stage := Waiting\<rparr>)" by blast
    have "(set_pending ps ?y1)\<lparr>ar_stage := Waiting\<rparr> = set_pending ps (y\<lparr>ar_todo := todo\<rparr>)" for ps
      unfolding y1 by (rule adapter_run.equality) (simp_all add: set_pending_def assms(2))
    with run_Cons [where step = ?step, OF t r] False show ?thesis by (auto simp: handlePending_def y1)
  qed
qed

text \<open>A reply in two turns, with nothing between them, is the reply in one.\<close>

lemma reply_turns:
  assumes "call_turn mac errtext env r y = Some y'"
  shows "answer_turn (length (ar_inflight y)) env y' = reply_turn mac errtext env r y"
proof -
  let ?res = "HandleInboundReply mac errtext (ad_deps (ar_ad y)) env (inbound_of r) (ad_pending (ar_ad y))"
  from assms obtain req where c: "ir_Call ?res = Some req" and y': "y' = y\<lparr>ar_inflight := ar_inflight y @ [in_flight_of env (inbound_of r) req],
      ar_called := insert (sender (inbound_of r), req) (ar_called y)\<rparr>"
    by (auto simp: call_turn_def split: option.splits)
  let ?f = "in_flight_of env (inbound_of r) req"
  have "ir_Pending ?res = consumed env (fl_type ?f) (wr_RequestID req) (fl_from ?f) (fl_sid ?f)
      (rp_dial env (dp_SocketPath (ad_deps (ar_ad y))) req) (ad_pending (ar_ad y)) \<and> fl_req ?f = req"
    by (rule reply_calls [OF c]) (auto simp: in_flight_of_def sender_def brokerSocketCaller_request_def)
  with c show ?thesis by (simp add: answer_turn_def reply_turn_def set_pending_def y' Let_def)
qed

section \<open>Simulation\<close>

text \<open>The configuration of a started adapter.\<close>

definition conf_of ::
    "(string \<Rightarrow> string \<Rightarrow> string) \<Rightarrow> (go_error \<Rightarrow> string) \<Rightarrow> (string \<Rightarrow> string) \<Rightarrow> adapter_flags \<Rightarrow> adapter \<Rightarrow> adapter_conf" where
  "conf_of mac errtext decodeErr fl ad =
     \<lparr>ac_mac = mac, ac_errtext = errtext, ac_decodeErr = decodeErr, ac_client = ad_client ad, ac_policy = ad_policy ad,
      ac_codes = ad_codes ad, ac_dryRun = af_dryRun fl, ac_deps = ad_deps ad\<rparr>"

fun stage_ok :: "pending_request set \<Rightarrow> adapter \<Rightarrow> tail_stage \<Rightarrow> bool" where
  "stage_ok A ad (Routing p phones) \<longleftrightarrow> p \<in> A \<and> set phones \<subseteq> set (LookupRecipients (ad_policy ad) (pr_Requester p))"
| "stage_ok A ad (Texting p phone phones) \<longleftrightarrow> p \<in> A \<and> set phones \<subseteq> set (LookupRecipients (ad_policy ad) (pr_Requester p))"
| "stage_ok A ad _ \<longleftrightarrow> True"

definition follows ::
    "(string \<Rightarrow> string \<Rightarrow> string) \<Rightarrow> (go_error \<Rightarrow> string) \<Rightarrow> (string \<Rightarrow> string) \<Rightarrow> adapter_conf \<Rightarrow> adapter_run \<Rightarrow> adapter_sys \<Rightarrow> bool" where
  "follows mac errtext decodeErr cf y g \<longleftrightarrow> conf_of mac errtext decodeErr (ar_flags y) (ar_ad y) = cf
     \<and> as_pending g = ad_pending (ar_ad y) \<and> as_calls g = ar_called y \<and> as_announced g \<subseteq> ar_announced y
     \<and> set (ar_todo y) \<subseteq> ar_announced y \<and> stage_ok (ar_announced y) (ar_ad y) (ar_stage y)
     \<and> (\<forall>f \<in> set (ar_inflight y). (fl_from f, fl_req f) \<in> ar_called y)"

lemma in_flight_of_call: "fl_from (in_flight_of env r req) = sender r" "fl_req (in_flight_of env r req) = req"
  by (simp_all add: in_flight_of_def Let_def split: prod.splits)

lemma stage_ok_mono: "stage_ok A ad st \<Longrightarrow> A \<subseteq> B \<Longrightarrow> stage_ok B (ad\<lparr>ad_tailer := t\<rparr>) st"
  by (cases st) auto

lemma stage_ok_pending [simp]: "stage_ok A (ad\<lparr>ad_pending := ps\<rparr>) st = stage_ok A ad st"
  by (cases st) simp_all

lemma stage_ok_next: "p \<in> A \<Longrightarrow> set phones \<subseteq> set (LookupRecipients (ad_policy ad) (pr_Requester p)) \<Longrightarrow> stage_ok A ad (next_phone p phones)"
  by (simp add: next_phone_def)

lemma conf_of_pending [simp]:
  "conf_of mac errtext decodeErr fl (ad\<lparr>ad_pending := ps\<rparr>) = conf_of mac errtext decodeErr fl ad"
  "conf_of mac errtext decodeErr fl (ad\<lparr>ad_tailer := t\<rparr>) = conf_of mac errtext decodeErr fl ad"
  by (simp_all add: conf_of_def)

text \<open>One step of the adapter's machine that leads to a state the turn's result follows.\<close>

lemma one_step:
  assumes "adapter_step cf g act g'" "follows mac errtext decodeErr cf y' g'"
  shows "\<exists>acts g'. run (adapter_step cf) g acts g' \<and> follows mac errtext decodeErr cf y' g'"
proof -
  have "run (adapter_step cf) g [act] g'" by (rule run_single [where step = "adapter_step cf", OF assms(1)])
  with assms(2) show ?thesis by blast
qed

lemma no_step:
  assumes "follows mac errtext decodeErr cf y' g"
  shows "\<exists>acts g'. run (adapter_step cf) g acts g' \<and> follows mac errtext decodeErr cf y' g'"
proof -
  have "run (adapter_step cf) g [] g" by (rule run_nil)
  with assms show ?thesis by blast
qed

lemma webhook_follows:
  assumes "follows mac errtext decodeErr cf y g"
  shows "\<exists>acts g'. run (adapter_step cf) g acts g' \<and> follows mac errtext decodeErr cf (reply_turn mac errtext env r y) g'"
    and "call_turn mac errtext env r y = Some y' \<Longrightarrow> \<exists>acts g'. run (adapter_step cf) g acts g' \<and> follows mac errtext decodeErr cf y' g'"
    and "i < length (ar_inflight y) \<Longrightarrow> \<exists>acts g'. run (adapter_step cf) g acts g' \<and> follows mac errtext decodeErr cf (answer_turn i env y) g'"
proof -
  have cf: "ac_mac cf = mac" "ac_errtext cf = errtext" "ac_deps cf = ad_deps (ar_ad y)" "as_pending g = ad_pending (ar_ad y)"
    using assms by (auto simp: follows_def conf_of_def)
  show "\<exists>acts g'. run (adapter_step cf) g acts g' \<and> follows mac errtext decodeErr cf (reply_turn mac errtext env r y) g'"
    by (rule one_step [OF a_reply [OF refl, of cf g "inbound_of r" env]])
       (use assms in \<open>auto simp: follows_def reply_turn_def set_pending_def cf Let_def\<close>)
  show "\<exists>acts g'. run (adapter_step cf) g acts g' \<and> follows mac errtext decodeErr cf y' g'"
    if "call_turn mac errtext env r y = Some y'"
  proof -
    from that obtain req where c: "ir_Call (HandleInboundReply mac errtext (ad_deps (ar_ad y)) env (inbound_of r) (ad_pending (ar_ad y))) = Some req"
      and y': "y' = y\<lparr>ar_inflight := ar_inflight y @ [in_flight_of env (inbound_of r) req],
        ar_called := insert (sender (inbound_of r), req) (ar_called y)\<rparr>" by (auto simp: call_turn_def split: option.splits)
    from c have "adapter_step cf g (ActReplyBegin (inbound_of r) env) (g\<lparr>as_calls := insert (sender (inbound_of r), req) (as_calls g)\<rparr>)"
      by (intro a_begin) (simp add: cf)
    then show ?thesis by (rule one_step) (use assms in \<open>auto simp: follows_def y' in_flight_of_call\<close>)
  qed
  show "\<exists>acts g'. run (adapter_step cf) g acts g' \<and> follows mac errtext decodeErr cf (answer_turn i env y) g'"
    if i: "i < length (ar_inflight y)"
  proof -
    let ?f = "ar_inflight y ! i"
    have "(fl_from ?f, fl_req ?f) \<in> as_calls g" using assms i by (auto simp: follows_def)
    from a_end [OF this refl, of cf env "fl_type ?f" "fl_sid ?f" "rp_dial env (dp_SocketPath (ad_deps (ar_ad y))) (fl_req ?f)"] show ?thesis
      by (rule one_step) (use assms in \<open>auto simp: follows_def answer_turn_def set_pending_def Let_def dest: in_set_takeD in_set_dropD\<close>)
  qed
qed

lemma tailer_follows:
  assumes "follows mac errtext decodeErr cf y g"
  shows "follows mac errtext decodeErr cf (scan_turn tenv y) g \<or> ar_todo y \<noteq> []"
    and "ar_stage y = Waiting \<Longrightarrow> ar_todo y = p # todo \<Longrightarrow>
      \<exists>acts g'. run (adapter_step cf) g acts g' \<and> follows mac errtext decodeErr cf (route_turn audit p (y\<lparr>ar_todo := todo\<rparr>)) g'"
    and "ar_stage y = Routing p (phone # rest) \<Longrightarrow>
      \<exists>acts g'. run (adapter_step cf) g acts g' \<and> follows mac errtext decodeErr cf (claim_turn env p phone rest y) g'"
    and "ar_stage y = Texting p phone rest \<Longrightarrow>
      \<exists>acts g'. run (adapter_step cf) g acts g' \<and> follows mac errtext decodeErr cf (settle_turn errtext decodeErr env p phone rest y) g'"
proof -
  have cf: "ac_codes cf = ad_codes (ar_ad y)" "ac_policy cf = ad_policy (ar_ad y)" "ac_client cf = ad_client (ar_ad y)"
    "ac_dryRun cf = af_dryRun (ar_flags y)" "ac_errtext cf = errtext" "ac_decodeErr cf = decodeErr"
    "as_pending g = ad_pending (ar_ad y)" using assms by (auto simp: follows_def conf_of_def)
  show "follows mac errtext decodeErr cf (scan_turn tenv y) g \<or> ar_todo y \<noteq> []"
    using assms by (auto simp: follows_def scan_turn_def split: prod.splits intro: stage_ok_mono)
  show "\<exists>acts g'. run (adapter_step cf) g acts g' \<and> follows mac errtext decodeErr cf (route_turn audit p (y\<lparr>ar_todo := todo\<rparr>)) g'"
    if st: "ar_stage y = Waiting" "ar_todo y = p # todo"
  proof (cases "LookupRecipients (ad_policy (ar_ad y)) (pr_Requester p)")
    case Nil
    show ?thesis
      by (rule one_step [OF a_row [OF refl, of cf g "snd audit" "fst audit"
            "[(''type'', jstring ''sms_routing_empty''), (''request_id'', jstring (pr_RequestID p)), (''requester'', jstring (pr_Requester p))]"]])
         (use assms st in \<open>simp add: follows_def route_turn_def Nil set_pending_def cf\<close>)
  next
    case (Cons r rs)
    show ?thesis by (rule no_step) (use assms st in \<open>simp add: follows_def route_turn_def Cons\<close>)
  qed
  show "\<exists>acts g'. run (adapter_step cf) g acts g' \<and> follows mac errtext decodeErr cf (claim_turn env p phone rest y) g'"
    if st: "ar_stage y = Routing p (phone # rest)"
  proof -
    obtain b ps where c: "claim_phone (ac_codes cf) p env phone (as_pending g) = (b, ps)" by fastforce
    have ok: "p \<in> ar_announced y" "phone \<in> set (LookupRecipients (ac_policy cf) (pr_Requester p))"
      "set rest \<subseteq> set (LookupRecipients (ad_policy (ar_ad y)) (pr_Requester p))"
      using assms st by (auto simp: follows_def cf)
    show ?thesis
      by (rule one_step [OF a_claim [OF ok(2) c]])
         (use assms ok c stage_ok_next [OF ok(1,3)] in \<open>cases b; auto simp: follows_def claim_turn_def set_pending_def cf\<close>)
  qed
  show "\<exists>acts g'. run (adapter_step cf) g acts g' \<and> follows mac errtext decodeErr cf (settle_turn errtext decodeErr env p phone rest y) g'"
    if st: "ar_stage y = Texting p phone rest"
  proof -
    have ok: "p \<in> ar_announced y" "set rest \<subseteq> set (LookupRecipients (ad_policy (ar_ad y)) (pr_Requester p))"
      using assms st by (auto simp: follows_def)
    show ?thesis
      by (rule one_step [OF a_settle [OF refl, where cf = cf and y = g and p = p and env = env and phone = phone]])
         (use assms stage_ok_next [OF ok] in \<open>auto simp: follows_def settle_turn_def set_pending_def cf\<close>)
  qed
qed

lemma adapter_turn_follows:
  assumes "adapter_turns mac errtext decodeErr y act y'" "follows mac errtext decodeErr cf y g"
  shows "\<exists>acts g'. run (adapter_step cf) g acts g' \<and> follows mac errtext decodeErr cf y' g'"
proof (cases act)
  case (TScan env)
  with assms(1) have "ar_todo y = []" "y' = scan_turn env y" by (auto simp: adapter_turn_def split: if_splits)
  with tailer_follows(1) [OF assms(2), of env] show ?thesis by (intro no_step) simp
next
  case (TRoute audit)
  with assms(1) obtain p todo where "ar_stage y = Waiting" "ar_todo y = p # todo" "y' = route_turn audit p (y\<lparr>ar_todo := todo\<rparr>)"
    by (auto simp: adapter_turn_def split: if_splits tail_stage.splits list.splits)
  with tailer_follows(2) [OF assms(2)] show ?thesis by simp
next
  case (TClaim env)
  with assms(1) obtain p phone rest where "ar_stage y = Routing p (phone # rest)" "y' = claim_turn env p phone rest y"
    by (auto simp: adapter_turn_def split: if_splits tail_stage.splits list.splits)
  with tailer_follows(3) [OF assms(2)] show ?thesis by simp
next
  case (TSettle env)
  with assms(1) obtain p phone rest where "ar_stage y = Texting p phone rest" "y' = settle_turn errtext decodeErr env p phone rest y"
    by (auto simp: adapter_turn_def split: if_splits tail_stage.splits list.splits)
  with tailer_follows(4) [OF assms(2)] show ?thesis by simp
next
  case (TReply r env)
  with assms(1) have "y' = reply_turn mac errtext env r y" by (auto simp: adapter_turn_def split: if_splits)
  with webhook_follows(1) [OF assms(2)] show ?thesis by simp
next
  case (TCall r env)
  with assms(1) have "call_turn mac errtext env r y = Some y'" by (auto simp: adapter_turn_def split: if_splits)
  with webhook_follows(2) [OF assms(2)] show ?thesis by simp
next
  case (TAnswer i env)
  with assms(1) have "i < length (ar_inflight y)" "y' = answer_turn i env y" by (auto simp: adapter_turn_def split: if_splits)
  with webhook_follows(3) [OF assms(2)] show ?thesis by simp
next
  case (TExpire now fs order timedOut)
  with assms(1) have y': "y' = y\<lparr>ar_ad := snd (adapter_stop now fs order (ar_ad y)), ar_main := AdapterStopped\<rparr>"
    by (auto simp: adapter_turn_def split: if_splits)
  have "follows mac errtext decodeErr cf y' (g\<lparr>as_pending := snd (ExpireDue now fs order (as_pending g))\<rparr>)"
    using assms(2) by (simp add: follows_def y' adapter_stop_def split: prod.splits)
  then show ?thesis by (rule one_step [OF a_expire [OF refl]])
next
  case TTailEnd
  with assms show ?thesis by (intro no_step) (auto simp: adapter_turn_def follows_def split: if_splits)
next
  case TSignal
  with assms show ?thesis by (intro no_step) (auto simp: adapter_turn_def follows_def split: if_splits)
next
  case TShutdown
  with assms show ?thesis by (intro no_step) (auto simp: adapter_turn_def follows_def split: if_splits)
qed

interpretation ra: simulation "adapter_turns mac errtext decodeErr" "adapter_step cf" "follows mac errtext decodeErr cf"
    for mac errtext decodeErr cf
  by unfold_locales (rule adapter_turn_follows)

text \<open>
  Who decides by text message, as the adapter runs. Start an adapter on an empty audit log and
  let its goroutines take turns in any order, on any event log and any webhook requests, up to and
  through the shutdown. Whenever it asks the broker for a verdict because of a message from some
  phone, one of its scans has announced that request before, the phone is one the policy routes to
  its requester and lies in an allowed country, and the verdict is given under the approver identity
  of the flags.
\<close>

theorem running_adapter_verdicts:
  assumes "adapter_start fl fx = Inr ad" "ax_replay fx = Inr (Some [])"
    and "run (adapter_turns mac errtext decodeErr) (serving fl ad) acts y" "(phone, req) \<in> ar_called y"
  shows "\<exists>p \<in> ar_announced y. wr_RequestID req = pr_RequestID p
    \<and> phone \<in> set (LookupRecipients (ad_policy ad) (pr_Requester p)) \<and> IsAllowedCountry phone (ad_codes ad)
    \<and> wr_Approver req = \<lparr>actor_Kind = ''twilio'', actor_ID = af_approverID fl\<rparr>"
proof -
  let ?cf = "conf_of mac errtext decodeErr fl ad"
  obtain audit where ad: "ad_pending ad = NewPendingSet (af_pendingTTL fl) (Some audit)" "dp_ApproverID (ad_deps ad) = af_approverID fl"
    using assms(1,2) by (auto simp: adapter_start_def result_bind_eq_Inr ReplayFromAudit_def NewPendingSet_def
        read_lines_def replay_row_def Let_def)
  let ?g = "\<lparr>as_pending = ad_pending ad, as_announced = {}, as_calls = {}\<rparr>"
  have "follows mac errtext decodeErr ?cf (serving fl ad) ?g" by (simp add: follows_def serving_def)
  from ra.sim_run [OF assms(3) this] obtain steps g' where g': "run (adapter_step ?cf) ?g steps g'" "follows mac errtext decodeErr ?cf y g'"
    by blast
  have "adapter_inv ?cf g'" by (rule ad.inv_run [OF _ g'(1)]) (auto simp: ad)
  moreover have "(phone, req) \<in> as_calls g'" "as_announced g' \<subseteq> ar_announced y" using g'(2) assms(4) by (simp_all add: follows_def)
  ultimately have "entitled ?cf (as_announced g') phone (wr_RequestID req)"
    "wr_Approver req = \<lparr>actor_Kind = ''twilio'', actor_ID = dp_ApproverID (ac_deps ?cf)\<rparr>" by (auto simp: adapter_inv_def)
  then obtain p where "p \<in> as_announced g'" "pr_RequestID p = wr_RequestID req"
    "phone \<in> set (LookupRecipients (ad_policy ad) (pr_Requester p))" "IsAllowedCountry phone (ad_codes ad)"
    "wr_Approver req = \<lparr>actor_Kind = ''twilio'', actor_ID = af_approverID fl\<rparr>"
    using ad(2) by (auto simp: entitled_def conf_of_def)
  with \<open>as_announced g' \<subseteq> _\<close> show ?thesis by (metis subsetD)
qed

section \<open>A denial on a started adapter\<close>

abbreviation sample_created :: event where
  "sample_created \<equiv> sample_creation sample_rid"

lemma sample_created_scan:
  "\<exists>errs t. scanOnce (Inr (Some (file_lines event_line [sample_created]))) None None NewCanonTailer
     = (None, ([pending_of (sample_request sample_rid)], errs), t)"
  using scan_grown [of "[sample_created]" 0 1 NewCanonTailer] sample_creation_event [of sample_rid] by (auto simp: NewCanonTailer_def created_ids_def)

text \<open>A reply as Twilio posts it, with a denial or an approval as its text.\<close>

definition sample_post :: "string \<Rightarrow> http_request" where
  "sample_post body = \<lparr>hq_Method = ''POST'', hq_MediaType = (''application/x-www-form-urlencoded'', None), hq_RawQuery = [],
     hq_Body = Inr (form_Encode (sample_form body)),
     hq_Signature = computeTwilioSignature sample_mac ''a=b # c'' ''https://example.com/twilio/inbound'' (sample_form body)\<rparr>"

lemma sample_post_parses:
  assumes "body \<in> {''NO 123456'', ''yes 123456''}"
  shows "\<exists>m. ParseForm (sample_post body) = Inr m \<and> gget m = gget (sample_form body)"
proof -
  let ?fm = "sample_form body"
  have ks: "gkeys (sample_form ''NO 123456'') = [''Body'', ''From'']" "gkeys (sample_form ''yes 123456'') = [''Body'', ''From'']" by code_simp+
  from assms have "length (form_Encode ?fm) \<le> max_form_size"
    unfolding form_Encode_def
    by (elim insertE emptyE) (simp_all only: ks, simp_all add: sample_form_def gget_def QueryEscape_Cons url_unreserved_def is_digit_def byte_def
        percent_def max_form_size_def)
  moreover have "form_ok ?fm" using assms by (auto simp: form_ok_def sample_form_def gget_def)
  ultimately show ?thesis
    using ParseQuery_Encode [of ?fm] by (auto simp: ParseForm_def sample_post_def ParseQuery_def parse_pair_def)
qed

lemma sample_post_received:
  assumes "body \<in> {''NO 123456'', ''yes 123456''}"
  shows "\<exists>m. in_PostForm (inbound_of (sample_post body)) = Inr m \<and> form_Get m = form_Get (sample_form body)
    \<and> ValidateTwilioSignature sample_mac ''a=b # c'' ''https://example.com/twilio/inbound'' m (in_Signature (inbound_of (sample_post body)))"
    and "sender (inbound_of (sample_post body)) = ''+15550001''"
proof -
  obtain m where m: "ParseForm (sample_post body) = Inr m" "gget m = gget (sample_form body)" using sample_post_parses [OF assms] by blast
  note f = form_cong [OF m(2)]
  have r: "in_PostForm (inbound_of (sample_post body)) = Inr m" by (simp add: inbound_of_def m(1))
  have "ValidateTwilioSignature sample_mac ''a=b # c'' ''https://example.com/twilio/inbound'' m (in_Signature (inbound_of (sample_post body)))"
    by (simp add: ValidateTwilioSignature_def computeTwilioSignature_def f(2) inbound_of_def sample_post_def sample_mac_def)
  with r f(1) show "\<exists>m. in_PostForm (inbound_of (sample_post body)) = Inr m \<and> form_Get m = form_Get (sample_form body)
    \<and> ValidateTwilioSignature sample_mac ''a=b # c'' ''https://example.com/twilio/inbound'' m (in_Signature (inbound_of (sample_post body)))" by blast
  show "sender (inbound_of (sample_post body)) = ''+15550001''" by (simp add: sender_def r f(1) sample_fields)
qed

lemma sample_post_method: "in_Method (inbound_of (sample_post body)) = ''POST''"
  by (simp add: inbound_of_def sample_post_def)

lemma sample_post_calls:
  assumes "dp_AuthToken deps = ''a=b # c''" "dp_PublicURL deps = ''https://example.com/twilio/inbound''"
    and "gget (ps_items ps) ''+15550001'' = Some \<lparr>pe_RequestID = rid, pe_OpenedAt = 1000\<rparr>" "ps_ttl ps = 600 * 1000000000"
  shows "\<exists>req. ir_Call (HandleInboundReply sample_mac errtext deps (sample_reply_env dial) (inbound_of (sample_post ''NO 123456'')) ps) = Some req"
    and "ir_Call (HandleInboundReply sample_mac (\<lambda>_. []) deps (sample_reply_env dial) (inbound_of (sample_post ''yes 123456'')) ps)
      = Some (brokerSocketCaller_request ActionReviewApprove rid ''twilio'' (dp_ApproverID deps) ''approved via SMS'')"
proof -
  have res: "Resolve 1200 FsOk ''+15550001'' ps = (Some rid, ps)"
    using assms(3,4) by (simp add: Resolve_def time_sub_def min_duration_def max_duration_def)
  obtain m where r: "in_PostForm (inbound_of (sample_post ''NO 123456'')) = Inr m" "form_Get m = form_Get (sample_form ''NO 123456'')"
    "ValidateTwilioSignature sample_mac ''a=b # c'' ''https://example.com/twilio/inbound'' m (in_Signature (inbound_of (sample_post ''NO 123456'')))"
    using sample_post_received(1) [of "''NO 123456''"] by blast
  then show "\<exists>req. ir_Call (HandleInboundReply sample_mac errtext deps (sample_reply_env dial) (inbound_of (sample_post ''NO 123456'')) ps) = Some req"
    using res assms(1,2) by (simp add: HandleInboundReply_def sample_post_method sample_fields sample_intents sample_reply_env_def Let_def split: sum.splits)
  obtain v where v: "CheckVerification (\<lambda>_. []) (\<lambda>_. []) None sample_http sample_client ''+15550001'' ''123456'' = (v, None)" "vr_Approved v"
    using sample_check by blast
  obtain m where r: "in_PostForm (inbound_of (sample_post ''yes 123456'')) = Inr m" "form_Get m = form_Get (sample_form ''yes 123456'')"
    "ValidateTwilioSignature sample_mac ''a=b # c'' ''https://example.com/twilio/inbound'' m (in_Signature (inbound_of (sample_post ''yes 123456'')))"
    using sample_post_received(1) [of "''yes 123456''"] by blast
  then show "ir_Call (HandleInboundReply sample_mac (\<lambda>_. []) deps (sample_reply_env dial) (inbound_of (sample_post ''yes 123456'')) ps)
      = Some (brokerSocketCaller_request ActionReviewApprove rid ''twilio'' (dp_ApproverID deps) ''approved via SMS'')"
    using res assms(1,2) v by (simp add: HandleInboundReply_def sample_post_method sample_fields sample_intents sample_reply_env_def Let_def split: sum.splits)
qed

theorem running_adapter_verdicts_witness:
  "\<exists>ad acts y req. adapter_start default_flags sample_files = Inr ad
     \<and> run (adapter_turns sample_mac (\<lambda>_. []) (\<lambda>_. [])) (serving default_flags ad) acts y \<and> (''+15550001'', req) \<in> ar_called y
     \<and> (\<exists>p \<in> ar_announced y. wr_RequestID req = pr_RequestID p \<and> ''+15550001'' \<in> set (LookupRecipients (ad_policy ad) (pr_Requester p)))"
proof -
  let ?p = "pending_of (sample_request sample_rid)" and ?step = "adapter_turns sample_mac (\<lambda>_. []) (\<lambda>_. [])"
  obtain a ad where ad: "adapter_start default_flags sample_files = Inr ad" "ad_codes ad = [''+1'']" "ad_policy ad = sample_policy"
    "ad_tailer ad = NewCanonTailer" "ad_pending ad = NewPendingSet (600 * 1000000000) (Some a)" "dp_AuthToken (ad_deps ad) = ''a=b # c''"
    "dp_PublicURL (ad_deps ad) = ''https://example.com/twilio/inbound''" using sample_start by auto
  obtain errs t where scan: "scanOnce (Inr (Some (file_lines event_line [sample_created]))) None None NewCanonTailer = (None, ([?p], errs), t)"
    using sample_created_scan by blast
  have "requester_name (req_Requester (sample_request sample_rid)) = ''alice''"
    by (simp add: requester_name_def sample_request_def build_request_def default_mode_def sample_input_def Let_def)
  moreover have "LookupRecipients sample_policy ''alice'' = [''+15550001'', ''+447700900123'']" by code_simp
  ultimately have rs: "LookupRecipients (ad_policy ad) (pr_Requester ?p) = [''+15550001'', ''+447700900123'']" by (simp add: ad(3) pending_of_def)
  let ?y1 = "scan_turn (tail_file (file_lines event_line [sample_created])) (serving default_flags ad)"
  have y1: "?y1 = (serving default_flags ad)\<lparr>ar_ad := ad\<lparr>ad_tailer := t\<rparr>, ar_todo := [?p], ar_announced := {?p}\<rparr>"
    using scan by (simp add: scan_turn_def serving_def ad(4))
  let ?y2 = "(serving default_flags ad)\<lparr>ar_ad := ad\<lparr>ad_tailer := t\<rparr>, ar_todo := [], ar_announced := {?p},
      ar_stage := Routing ?p [''+15550001'', ''+447700900123'']\<rparr>"
  obtain ps where cl: "claim_phone [''+1''] ?p sample_phone_env ''+15550001'' (NewPendingSet (600 * 1000000000) (Some a)) = (True, ps)"
    and ps: "gget (ps_items ps) ''+15550001'' = Some \<lparr>pe_RequestID = pr_RequestID ?p, pe_OpenedAt = 1000\<rparr>" "ps_ttl ps = 600 * 1000000000"
    by (simp add: claim_phone_def IsAllowedCountry_def OpenPending_def NewPendingSet_def sample_phone_env_def Let_def)
  let ?y3 = "claim_turn sample_phone_env ?p ''+15550001'' [''+447700900123''] ?y2"
  have y3: "ar_main ?y3 = WebhookServing" "ad_pending (ar_ad ?y3) = ps" "ad_deps (ar_ad ?y3) = ad_deps ad" "ar_announced ?y3 = {?p}"
    by (simp_all add: claim_turn_def set_pending_def serving_def ad(2,5) cl [simplified])
  obtain req where req: "ir_Call (HandleInboundReply sample_mac (\<lambda>_. []) (ad_deps (ar_ad ?y3)) (sample_reply_env (\<lambda>_ _. Inr zero_response))
      (inbound_of (sample_post ''NO 123456'')) (ad_pending (ar_ad ?y3))) = Some req"
    using sample_post_calls(1) [OF _ _ ps] ad(6,7) y3(2,3) by metis
  then obtain y4 where y4: "call_turn sample_mac (\<lambda>_. []) (sample_reply_env (\<lambda>_ _. Inr zero_response)) (sample_post ''NO 123456'') ?y3 = Some y4"
    "(''+15550001'', req) \<in> ar_called y4" "ar_announced y4 = {?p}"
    using sample_post_received(2) [of "''NO 123456''"] y3(4) by (auto simp: call_turn_def)
  have "?step (serving default_flags ad) (TScan (tail_file (file_lines event_line [sample_created]))) ?y1"
    by (simp add: adapter_turn_def) (simp add: serving_def)
  moreover have "?step ?y1 (TRoute (1, FsOk)) ?y2" unfolding y1 by (simp add: adapter_turn_def serving_def route_turn_def rs)
  moreover have "?step ?y2 (TClaim sample_phone_env) ?y3" by (simp add: adapter_turn_def serving_def)
  moreover have "?step ?y3 (TCall (sample_post ''NO 123456'') (sample_reply_env (\<lambda>_ _. Inr zero_response))) y4" using y3(1) y4(1) by (simp add: adapter_turn_def)
  ultimately obtain acts where r: "run ?step (serving default_flags ad) acts y4" by (meson run_Cons run_nil)
  have "ax_replay sample_files = Inr (Some [])" by (simp add: sample_files_def)
  from running_adapter_verdicts [OF ad(1) this r y4(2)] ad(1) r y4(2) show ?thesis by blast
qed

end
