(* ===== verification/Audit_Trail.thy ===== *)
theory Audit_Trail
  imports Adapter_Run
begin

text \<open>
  What the audit log of the adapter can give back. The log is written with rows of many kinds,
  whose writes may fail half-way, and a restarted adapter rebuilds its pending set from whatever is
  in the file. The theory shows that every claim it takes from there was made: a phone is bound
  to a request after a restart only if it was bound to it before.
\<close>

section \<open>Rows in a file that writes have torn\<close>

text \<open>Member names that cannot be mistaken for literals.\<close>

definition sharp_key :: "string \<Rightarrow> bool" where
  "sharp_key k \<longleftrightarrow> plain_key k \<and> list_ex (\<lambda>c. \<not> out_char c) k"

definition plain_row :: "row \<Rightarrow> bool" where
  "plain_row row \<longleftrightarrow> row \<noteq> [] \<and> (\<forall>k v. gget row k = Some v \<longrightarrow> sharp_key k \<and> wf_json v)"

lemma sharp_key_split:
  assumes "sharp_key k"
  obtains a c b where "k = a @ c # b" "\<forall>x \<in> set a. out_char x" "\<not> out_char c" "\<not> is_ws c" "c \<notin> {dquote, bslash} \<union> set ''{}[]''"
proof -
  from assms obtain a c b where k: "k = a @ c # b" "\<not> out_char c" "\<forall>x \<in> set a. out_char x"
    using split_list_first_prop [of k "\<lambda>c. \<not> out_char c"] by (auto simp: sharp_key_def list_ex_iff)
  have "95 \<le> byte c" "byte c < 123" using assms k(1) by (simp_all add: sharp_key_def plain_key_def)
  then have "c \<notin> {dquote, bslash} \<union> set ''{}[]''" by (auto simp: byte_def)
  moreover have "\<not> is_ws c" using k(2) by (simp add: out_char_def)
  ultimately show thesis using that k by blast
qed

lemma plain_row_front:
  assumes "plain_row row"
  shows "\<exists>a c r. row_line row = CHR ''{'' # dquote # a @ c # r \<and> (\<forall>x \<in> set a. out_char x) \<and> \<not> out_char c \<and> \<not> is_ws c
    \<and> c \<notin> {dquote, bslash} \<union> set ''{}[]''"
proof -
  obtain k ks where ks: "gkeys row = k # ks" using assms by (cases "gkeys row") (auto simp: plain_row_def gkeys_def dest: arg_cong [where f = set])
  then have "gget row k \<noteq> None" using gm.keys_iff [of k row] by simp
  with assms have k: "sharp_key k" by (auto simp: plain_row_def)
  then obtain a c b where s: "k = a @ c # b" "\<forall>x \<in> set a. out_char x" "\<not> out_char c" "\<not> is_ws c" "c \<notin> {dquote, bslash} \<union> set ''{}[]''"
    by (rule sharp_key_split)
  have "json_quote k = k" using k by (simp add: sharp_key_def json_quote_plain_key)
  then have "\<exists>r. row_line row = CHR ''{'' # dquote # a @ c # r" by (simp add: row_line_def row_json_def ks s(1))
  with s(2-5) show ?thesis by blast
qed

lemma plain_row_parse:
  assumes "plain_row row"
  shows "json_parse (row_line row) = Some (row_json row)" "newline \<notin> set (row_line row)" "row_line row \<noteq> []"
  using row_line_parse [of row] assms by (auto simp: plain_row_def)

lemma row_torn: "plain_row row \<Longrightarrow> 0 < n \<Longrightarrow> json_parse ((CHR ''{'' # u) @ take n (row_line row)) = None"
  using plain_row_front [of row] torn_object [OF _ plain_row_parse(1)] by blast

lemma row_prefix: "plain_row row \<Longrightarrow> n < length (row_line row) \<Longrightarrow> json_parse (take n (row_line row)) = None"
proof -
  assume row: "plain_row row" and n: "n < length (row_line row)"
  obtain r where r: "row_line row = CHR ''{'' # r" by (simp add: row_line_def row_json_def)
  have "wf_json (row_json row)" using row wf_row_json [of row] by (auto simp: plain_row_def)
  then have "last (row_line row) = CHR ''}''" using json_print_last by (simp add: row_line_def row_json_def)
  then have "\<not> is_ws (last (row_line row))" by (simp add: is_ws_def)
  from torn_prefix [OF r plain_row_parse(1) [OF row] this n] show ?thesis .
qed

text \<open>A line that, where replay takes it for a claim, speaks of a pair in \<open>Q\<close>.\<close>

definition speaks :: "(string \<Rightarrow> string \<Rightarrow> bool) \<Rightarrow> string \<Rightarrow> bool" where
  "speaks Q line \<longleftrightarrow> (\<forall>eof r t. replay_row eof line = Some (r, t) \<longrightarrow> ar_Type r = auditTypeVerifyPendingOpened \<longrightarrow>
     Q (ar_RecipientPhone r) (ar_RequestID r))"

inductive logged :: "(string \<Rightarrow> string \<Rightarrow> bool) \<Rightarrow> string \<Rightarrow> bool" for Q where
  logged_nil: "logged Q []"
| logged_piece: "logged Q f \<Longrightarrow> plain_row row \<Longrightarrow> speaks Q (row_line row) \<Longrightarrow> logged Q (f @ take n (row_line row @ [newline]))"

lemma speaks_mono: "speaks Q line \<Longrightarrow> (\<And>phone rid. Q phone rid \<Longrightarrow> R phone rid) \<Longrightarrow> speaks R line"
  by (auto simp: speaks_def)

lemma logged_mono: "logged Q f \<Longrightarrow> (\<And>phone rid. Q phone rid \<Longrightarrow> R phone rid) \<Longrightarrow> logged R f"
  by (induction rule: logged.induct) (auto simp del: take_append intro: logged.intros speaks_mono)

lemma speaks_unparsed: "json_parse line = None \<Longrightarrow> speaks Q line"
  by (simp add: speaks_def replay_row_def unmarshal_audit_row_def)

lemma SplitByte_snoc:
  "c \<notin> set t \<Longrightarrow> SplitByte c (s @ t) = butlast (SplitByte c s) @ [last (SplitByte c s) @ t]"
  "c \<notin> set t \<Longrightarrow> SplitByte c (s @ t @ [c]) = butlast (SplitByte c s) @ [last (SplitByte c s) @ t, []]"
proof (induction s)
  case (Cons x s)
  { case 1 with Cons show ?case by (cases "SplitByte c s") auto
  next case 2 with Cons show ?case by (cases "SplitByte c s") auto }
qed (simp_all add: SplitByte_token SplitByte_append)

lemma logged_line: "logged Q f \<Longrightarrow> plain_row row \<Longrightarrow> speaks Q (row_line row) \<Longrightarrow> logged Q (f @ row_line row @ [newline])"
  using logged_piece [of Q f row "Suc (length (row_line row))"] by simp

lemma logged_torn: "logged Q f \<Longrightarrow> plain_row row \<Longrightarrow> speaks Q (row_line row) \<Longrightarrow> logged Q (f @ take n (row_line row))"
  using logged_piece [of Q f row "min n (length (row_line row))"] by (simp add: min_def split: if_splits)

text \<open>A row, or the beginning of it, behind the unfinished last line of the file.\<close>

lemma speaks_behind:
  assumes "plain_row row" "speaks Q (row_line row)" "speaks Q l" "l = [] \<or> (\<exists>u. l = CHR ''{'' # u)"
  shows "speaks Q (l @ take n (row_line row))"
  using assms(4)
proof
  assume "l = []"
  then show ?thesis
    using assms(2) speaks_unparsed [OF row_prefix [OF assms(1)], of n Q] by (cases "n < length (row_line row)") simp_all
next
  assume "\<exists>u. l = CHR ''{'' # u"
  with assms(3) speaks_unparsed [OF row_torn [OF assms(1)], of n Q] show ?thesis by (cases "n = 0") auto
qed

lemma logged_lines:
  "logged Q f \<Longrightarrow> (\<forall>line \<in> set (read_lines f). speaks Q line)
     \<and> (last (read_lines f) = [] \<or> (\<exists>u. last (read_lines f) = CHR ''{'' # u))"
proof (induction rule: logged.induct)
  case logged_nil
  show ?case by (simp add: read_lines_def speaks_def replay_row_def)
next
  case (logged_piece f row n)
  let ?l = "last (read_lines f)" and ?row = "row_line row"
  have ne: "read_lines f \<noteq> []" by (simp add: read_lines_def)
  with logged_piece.IH have l: "speaks Q ?l" "?l = [] \<or> (\<exists>u. ?l = CHR ''{'' # u)"
    and rest: "\<forall>line \<in> set (butlast (read_lines f)). speaks Q line" by (auto dest: in_set_butlastD)
  have nl: "newline \<notin> set ?row" using plain_row_parse(2) [OF logged_piece.hyps(2)] .
  have empty: "speaks Q []" by (simp add: speaks_def replay_row_def)
  show ?case
  proof (cases "n \<le> length ?row")
    case True
    have "newline \<notin> set (take n ?row)" using nl by (auto dest: in_set_takeD)
    from SplitByte_snoc(1) [OF this, of f] True
    have r: "read_lines (f @ take n (?row @ [newline])) = butlast (read_lines f) @ [?l @ take n ?row]" by (simp add: read_lines_def)
    obtain r where "?row = CHR ''{'' # r" by (simp add: row_line_def row_json_def)
    with l(2) have "?l @ take n ?row = [] \<or> (\<exists>u. ?l @ take n ?row = CHR ''{'' # u)" by (cases n) auto
    with rest speaks_behind [OF logged_piece.hyps(2,3) l, of n] show ?thesis unfolding r by auto
  next
    case False
    then have "take n (?row @ [newline]) = ?row @ [newline]" by simp
    with SplitByte_snoc(2) [OF nl, of f]
    have r: "read_lines (f @ take n (?row @ [newline])) = butlast (read_lines f) @ [?l @ ?row, []]" by (simp add: read_lines_def)
    have "speaks Q (?l @ ?row)" using speaks_behind [OF logged_piece.hyps(2,3) l, of "length ?row"] by simp
    with rest empty show ?thesis unfolding r by auto
  qed
qed

section \<open>What replay takes from such a file\<close>

lemma replay_rows_speak:
  assumes "\<forall>line \<in> set ls. speaks Q line" "(r, t) \<in> set (replay_rows ls)" "ar_Type r = auditTypeVerifyPendingOpened"
  shows "Q (ar_RecipientPhone r) (ar_RequestID r)"
  using assms
proof (induction ls)
  case (Cons line ls)
  show ?case
  proof (cases "replay_row (ls = []) line = Some (r, t)")
    case True
    with Cons.prems(1,3) show ?thesis unfolding speaks_def by (meson list.set_intros(1))
  next
    case False
    with Cons show ?thesis by (auto split: option.splits)
  qed
qed simp

lemma apply_rows_allotted:
  assumes "\<And>r t. (r, t) \<in> set rows \<Longrightarrow> ar_Type r = auditTypeVerifyPendingOpened \<Longrightarrow> Q (ar_RecipientPhone r) (ar_RequestID r)"
    and "\<And>phone e. gget items phone = Some e \<Longrightarrow> Q phone (pe_RequestID e)"
    and "gget (fold apply_row rows items) phone = Some e"
  shows "Q phone (pe_RequestID e)"
  using assms
proof (induction rows arbitrary: items)
  case (Cons row rows)
  obtain r t where row: "row = (r, t)" by fastforce
  have "Q phone (pe_RequestID e)" if "gget (apply_row row items) phone = Some e" for phone e
    using that Cons.prems(1) [of r t] Cons.prems(2)
    by (auto simp: apply_row_def row Let_def split: if_splits option.splits)
  with Cons show ?case by (auto intro: Cons.IH [of "apply_row row items"])
qed simp

theorem replay_allotted:
  assumes "logged Q f"
  shows "slots.allotted Q (snd (ReplayFromAudit (Inr (Some f)) (NewPendingSet ttl audit)))"
proof -
  let ?rows = "sort_key snd (replay_rows (read_lines f))"
  have "Q phone (pe_RequestID e)" if "gget (fold apply_row ?rows []) phone = Some e" for phone e
    by (rule apply_rows_allotted [OF _ _ that]) (use logged_lines [OF assms] in \<open>auto intro: replay_rows_speak\<close>)
  then show ?thesis by (auto simp: slots.allotted_def slot_of_def ReplayFromAudit_def NewPendingSet_def Let_def)
qed

section \<open>The rows of the adapter\<close>

text \<open>Rows that replay does not look at.\<close>

definition quiet_row :: "row \<Rightarrow> bool" where
  "quiet_row row \<longleftrightarrow> list_all (\<lambda>(k, v). sharp_key k \<and> k \<noteq> ''recipient_phone'' \<and> wf_json v) row"

lemma quiet_gput: "quiet_row row \<Longrightarrow> sharp_key k \<Longrightarrow> k \<noteq> ''recipient_phone'' \<Longrightarrow> wf_json v \<Longrightarrow> quiet_row (gput k v row)"
  unfolding quiet_row_def gput_def by (induction row) auto

lemma quiet_foreign: "quiet_row row \<Longrightarrow> foreign_row row"
  by (auto simp: quiet_row_def foreign_row_def gget_def sharp_key_def list_all_iff dest!: map_of_SomeD)

lemma quiet_plain: "quiet_row row \<Longrightarrow> row \<noteq> [] \<Longrightarrow> plain_row row"
  by (auto simp: quiet_row_def plain_row_def gget_def list_all_iff dest!: map_of_SomeD)

lemmas key_eval = sharp_key_def plain_key_eval out_char_def is_ws_def num_char_def is_digit_def byte_def

lemma sharp_keys:
  "list_all sharp_key [''type'', ''request_id'', ''recipient_masked'', ''recipient_phone'', ''wall_ts'', ''requester'', ''verify_session_sid'',
     ''dry_run'', ''error'', ''twilio_status'', ''reason'', ''body_preview'', ''verify_status'', ''broker_status'', ''broker_message'']"
  by (simp add: key_eval)

lemma quiet_rows:
  "quiet_row [(''type'', jstring t), (''request_id'', jstring rid), (''requester'', jstring name)]"
  "quiet_row rest \<Longrightarrow> quiet_row (phone_row t rid phone rest)"
  "quiet_row [(''verify_session_sid'', jstring x), (''dry_run'', JBool b)]"
  "quiet_row [(''error'', jstring x)]" "quiet_row [(''verify_session_sid'', jstring x), (''twilio_status'', jstring y)]" "quiet_row []"
  "quiet_row (consumed_row t rid phone sid resp)" "quiet_row (emitUnbound rid phone reason body)"
  "quiet_row (reject_info errtext rid phone result err)"
proof -
  note k = sharp_keys [simplified]
  show "quiet_row (consumed_row t rid phone sid resp)"
    using k by (auto simp: quiet_row_def consumed_row_def split: option.splits)
  show "quiet_row (emitUnbound rid phone reason body)"
    using k by (auto simp: emitUnbound_def Let_def intro!: quiet_gput) (simp_all add: quiet_row_def)
  show "quiet_row (reject_info errtext rid phone result err)"
    using k by (auto simp: reject_info_def Let_def intro!: quiet_gput split: option.splits) (simp_all add: quiet_row_def)
qed (use sharp_keys in \<open>auto simp: quiet_row_def phone_row_def\<close>)

section \<open>A set whose claims are in \<open>Q\<close>, with its log\<close>

definition texts :: "(string \<Rightarrow> string \<Rightarrow> bool) \<Rightarrow> bool" where
  "texts Q \<longleftrightarrow> (\<forall>phone rid. Q phone rid \<longrightarrow> valid_utf8 phone \<and> valid_utf8 rid)"

definition kept :: "(string \<Rightarrow> string \<Rightarrow> bool) \<Rightarrow> pending_set \<Rightarrow> bool" where
  "kept Q ps \<longleftrightarrow> slots.allotted Q ps \<and> (\<forall>a. ps_audit ps = Some a \<longrightarrow> logged Q (al_file a))"

named_theorems keeping

lemma kept_mono: "kept Q ps \<Longrightarrow> (\<And>phone rid. Q phone rid \<Longrightarrow> R phone rid) \<Longrightarrow> kept R ps"
  by (auto simp: kept_def intro: allotted_mono logged_mono)

lemma kept_write:
  assumes "kept Q ps" "plain_row (with_wall_ts now row)" "speaks Q (row_line (with_wall_ts now row))"
  shows "kept Q (write_row fs now row ps)"
proof -
  let ?row = "row_line (with_wall_ts now row)"
  have "logged Q (al_file (snd (audit_Write fs now row a)))" if "logged Q (al_file a)" for a
    using logged_line [OF that assms(2,3)] logged_torn [OF that assms(2,3)] that
    by (cases fs) (simp_all add: audit_Write_def Let_def)
  moreover have "slot_of (write_row fs now row ps) = slot_of ps" by (rule slot_of_items) simp
  ultimately show ?thesis using assms(1) by (auto simp: kept_def slots.allotted_def write_row_def)
qed

lemma kept_quiet [keeping]:
  assumes "kept Q ps" "quiet_row row"
  shows "kept Q (write_row fs now row ps)"
proof -
  have w: "quiet_row (with_wall_ts now row)" using assms(2) sharp_keys by (auto simp: with_wall_ts_def intro!: quiet_gput)
  have "with_wall_ts now row \<noteq> []" by (auto simp: with_wall_ts_def gget_def gput_def)
  moreover have "speaks Q (row_line (with_wall_ts now row))" using replay_foreign_row [OF quiet_foreign [OF w]] by (simp add: speaks_def)
  ultimately show ?thesis using kept_write [OF assms(1)] quiet_plain [OF w] by blast
qed

lemma kept_emit:
  assumes "kept Q ps" "pending_type typ" "valid_utf8 rid" "valid_utf8 phone" "typ = auditTypeVerifyPendingOpened \<Longrightarrow> Q phone rid"
  shows "kept Q (emit fs typ rid phone ts ps)"
proof -
  let ?row = "pending_row typ rid phone ts"
  have w: "with_wall_ts ts ?row = ?row" by (simp add: with_wall_ts_def pending_row_def gget_def)
  have "plain_row ?row" using sharp_keys by (auto simp: plain_row_def pending_row_def gget_def split: if_splits)
  moreover have "speaks Q (row_line ?row)" using unmarshal_pending_row [OF assms(2-4), of ts] assms(5)
    by (auto simp: speaks_def replay_row_def split: if_splits option.splits)
  ultimately show ?thesis using kept_write [OF assms(1)] by (simp add: emit_def w)
qed

lemma kept_items: "kept Q ps \<Longrightarrow> (\<And>phone e. gget items phone = Some e \<Longrightarrow> Q phone (pe_RequestID e)) \<Longrightarrow> kept Q (ps\<lparr>ps_items := items\<rparr>)"
  by (auto simp: kept_def slots.allotted_def slot_of_def)

lemma kept_entry: "kept Q ps \<Longrightarrow> gget (ps_items ps) phone = Some e \<Longrightarrow> Q phone (pe_RequestID e)"
  by (auto simp: kept_def slots.allotted_def slot_of_def)

lemma kept_drop [keeping]:
  assumes "kept Q ps" "texts Q" "gget (ps_items ps) phone = Some e" "typ \<in> {auditTypeVerifyPendingReleased, auditTypeVerifyPendingExpired}"
  shows "kept Q (drop_entry fs typ phone e now ps)"
  unfolding drop_entry_def
proof (rule kept_emit)
  show "kept Q (ps\<lparr>ps_items := gdel phone (ps_items ps)\<rparr>)" by (rule kept_items [OF assms(1)]) (auto dest: kept_entry [OF assms(1)] split: if_splits)
qed (use assms(2,4) kept_entry [OF assms(1,3)] in \<open>auto simp: texts_def pending_type_def\<close>)

lemma kept_claim:
  assumes "kept Q ps" "texts Q" "Q phone rid"
  shows "kept Q (emit fs auditTypeVerifyPendingOpened rid phone now (ps\<lparr>ps_items := gput phone \<lparr>pe_RequestID = rid, pe_OpenedAt = t\<rparr> (ps_items ps)\<rparr>))"
proof (rule kept_emit)
  show "kept Q (ps\<lparr>ps_items := gput phone \<lparr>pe_RequestID = rid, pe_OpenedAt = t\<rparr> (ps_items ps)\<rparr>)"
    by (rule kept_items [OF assms(1)]) (auto simp: assms(3) dest: kept_entry [OF assms(1)] split: if_splits)
qed (use assms(2,3) in \<open>auto simp: texts_def pending_type_def\<close>)

lemma kept_Open:
  assumes "kept Q ps" "texts Q" "Q phone rid"
  shows "kept Q (snd (OpenPending now fs1 fs2 phone rid ps))"
proof (cases "gget (ps_items ps) phone")
  case (Some e)
  from kept_claim [OF kept_drop [OF assms(1,2) Some] assms(2,3)] Some assms(1) show ?thesis
    by (simp add: OpenPending_def Let_def)
qed (use kept_claim [OF assms] in \<open>simp add: OpenPending_def Let_def\<close>)

lemma kept_Resolve [keeping]: "kept Q ps \<Longrightarrow> texts Q \<Longrightarrow> kept Q (snd (Resolve now fs phone ps))"
  by (auto simp: Resolve_def split: option.splits intro!: keeping)

lemma kept_Release [keeping]: "kept Q ps \<Longrightarrow> texts Q \<Longrightarrow> kept Q (Release now fs phone ps)"
  by (auto simp: Release_def split: option.splits intro!: keeping)

lemma kept_Expire [keeping]: "kept Q ps \<Longrightarrow> texts Q \<Longrightarrow> kept Q (snd (ExpireDue now fs order ps))"
proof (induction order arbitrary: ps)
  case (Cons phone order)
  then show ?case by (auto split: option.splits prod.splits) (metis Cons.IH insertCI kept_drop snd_conv)
qed simp

section \<open>The handlers\<close>

lemma kept_claim_phone:
  assumes "kept Q ps" "texts Q" "IsAllowedCountry phone codes \<Longrightarrow> Q phone (pr_RequestID p)"
  shows "kept Q (snd (claim_phone codes p env phone ps))"
  using kept_Open [OF assms(1,2), of phone "pr_RequestID p" "fst (pv_open env)" "fst (snd (pv_open env))" "snd (snd (pv_open env))"] assms(3)
  by (auto simp: claim_phone_def audit_phone_def split: prod.splits option.splits intro!: kept_quiet quiet_rows assms(1))

lemma kept_settle [keeping]:
  assumes "kept Q ps" "texts Q"
  shows "kept Q (settle_phone errtext decodeErr c dryRun p env phone ps)"
  using assms by (auto simp: settle_phone_def audit_phone_def split: prod.splits option.splits intro!: keeping quiet_rows)

lemma kept_consumed [keeping]: "kept Q ps \<Longrightarrow> texts Q \<Longrightarrow> kept Q (consumed env t rid phone sid br ps)"
  by (auto simp: consumed_def split: sum.splits intro!: keeping quiet_rows)

lemma kept_reply [keeping]:
  assumes "kept Q ps" "texts Q"
  shows "kept Q (ir_Pending (HandleInboundReply mac errtext deps env r ps))"
proof (cases "ir_Call (HandleInboundReply mac errtext deps env r ps)")
  case (Some req)
  then show ?thesis by (cases rule: reply_calls) (auto simp: kept_consumed assms)
next
  case None
  show ?thesis
  proof (cases "in_Method r = ''POST'' \<and> (\<exists>fm. in_PostForm r = Inr fm
      \<and> ValidateTwilioSignature mac (dp_AuthToken deps) (dp_PublicURL deps) fm (in_Signature r))")
    case False
    then show ?thesis using assms(1) by (auto simp: HandleInboundReply_def Let_def split: sum.splits)
  next
    case True
    then obtain fm where t: "in_Method r = ''POST''" "in_PostForm r = Inr fm"
      "ValidateTwilioSignature mac (dp_AuthToken deps) (dp_PublicURL deps) fm (in_Signature r)" by blast
    obtain intent code where i: "ParseReplyIntent (form_Get fm ''Body'') = (intent, code)" by fastforce
    obtain o1 ps1 where o: "Resolve (fst (rp_resolve env)) (snd (rp_resolve env)) (form_Get fm ''From'') ps = (o1, ps1)" by fastforce
    obtain v err where c: "rp_check env (form_Get fm ''From'') code = (v, err)" by fastforce
    have k: "kept Q ps1" using kept_Resolve [OF assms] o by (metis snd_conv)
    note w = kept_quiet [OF assms(1) quiet_rows(8)] kept_quiet [OF k quiet_rows(8)] kept_quiet [OF k quiet_rows(9)]
    show ?thesis
    proof (cases o1)
      case None
      with t i o show ?thesis by (simp add: HandleInboundReply_def Let_def w)
    next
      case (Some rid)
      with t i o c \<open>ir_Call _ = None\<close> show ?thesis
        by (auto simp: HandleInboundReply_def Let_def w split: if_splits sum.splits)
    qed
  qed
qed

section \<open>The running adapter and its restart\<close>

lemma entitled_texts_mono: "texts (entitled cf B) \<Longrightarrow> A \<subseteq> B \<Longrightarrow> texts (entitled cf A)"
  unfolding texts_def using entitled_mono by blast

lemma turn_kept:
  assumes turn: "adapter_turns mac errtext decodeErr x act x'" and cf: "conf_of mac errtext decodeErr (ar_flags x) (ar_ad x) = cf"
    and stage: "stage_ok (ar_announced x) (ar_ad x) (ar_stage x)"
    and k: "kept (entitled cf (ar_announced x)) (ad_pending (ar_ad x))" and texts: "texts (entitled cf (ar_announced x'))"
  shows "kept (entitled cf (ar_announced x')) (ad_pending (ar_ad x'))"
proof (cases act)
  case (TScan env)
  have "ar_announced x \<subseteq> ar_announced x'" "ad_pending (ar_ad x') = ad_pending (ar_ad x)"
    using turn TScan by (auto simp: adapter_turn_def scan_turn_def split: if_splits prod.splits)
  with kept_mono [OF k] entitled_mono show ?thesis by metis
next
  case (TRoute audit)
  with turn k show ?thesis
    by (auto simp: adapter_turn_def route_turn_def set_pending_def split: if_splits tail_stage.splits list.splits intro!: kept_quiet quiet_rows)
next
  case (TClaim env)
  with turn obtain p phone rest where st: "ar_stage x = Routing p (phone # rest)" "x' = claim_turn env p phone rest x"
    by (auto simp: adapter_turn_def split: if_splits tail_stage.splits list.splits)
  then have a: "ar_announced x' = ar_announced x"
    and ps: "ad_pending (ar_ad x') = snd (claim_phone (ad_codes (ar_ad x)) p env phone (ad_pending (ar_ad x)))"
    by (simp_all add: claim_turn_def set_pending_def split: prod.splits bool.splits)
  have "IsAllowedCountry phone (ad_codes (ar_ad x)) \<Longrightarrow> entitled cf (ar_announced x) phone (pr_RequestID p)"
    using stage st(1) cf by (auto simp: entitled_def conf_of_def)
  with kept_claim_phone [OF k] texts show ?thesis by (simp add: a ps)
next
  case (TSettle env)
  with turn k texts kept_settle show ?thesis
    by (auto simp: adapter_turn_def settle_turn_def set_pending_def split: if_splits tail_stage.splits)
next
  case (TReply r env)
  with turn k texts kept_reply show ?thesis
    by (auto simp: adapter_turn_def reply_turn_def set_pending_def Let_def split: if_splits)
next
  case (TCall r env)
  with turn k show ?thesis by (auto simp: adapter_turn_def call_turn_def split: if_splits option.splits)
next
  case (TAnswer i env)
  with turn k texts kept_consumed show ?thesis
    by (auto simp: adapter_turn_def answer_turn_def set_pending_def Let_def split: if_splits)
next
  case (TExpire now fs order timedOut)
  with turn k texts kept_Expire [of "entitled cf (ar_announced x)" "ad_pending (ar_ad x)" now fs order] show ?thesis
    by (auto simp: adapter_turn_def adapter_stop_def split: if_splits prod.splits)
qed (use turn k in \<open>auto simp: adapter_turn_def split: if_splits\<close>)

lemma start_kept:
  assumes "adapter_start fl fx = Inr ad" "ax_audit fx = Inr []" "ax_replay fx = Inr (Some [])"
  shows "kept Q (ad_pending ad)"
  using assms logged_nil [of Q]
  by (auto simp: adapter_start_def result_bind_eq_Inr NewAuditLog_def ReplayFromAudit_def NewPendingSet_def read_lines_def replay_row_def Let_def
      kept_def slots.allotted_def slot_of_def split: if_splits)

text \<open>Started again on its audit log, an adapter has the same configuration and claims that are in \<open>Q\<close> again.\<close>

theorem restart_kept:
  assumes "adapter_start fl fx = Inr ad" "kept Q ps" "ps_audit ps = Some a"
    and "adapter_start fl (fx\<lparr>ax_audit := Inr (al_file a), ax_replay := Inr (Some (al_file a))\<rparr>) = Inr ad'"
  shows "conf_of mac errtext decodeErr fl ad' = conf_of mac errtext decodeErr fl ad" "kept Q (ad_pending ad')"
proof -
  have l: "logged Q (al_file a)" using assms(2,3) by (simp add: kept_def)
  obtain audit where ad': "ad' = ad\<lparr>ad_pending := snd (ReplayFromAudit (Inr (Some (al_file a))) (NewPendingSet (af_pendingTTL fl) (Some audit)))\<rparr>"
    and audit: "al_file audit = al_file a"
    using assms(1,4) by (auto simp: adapter_start_def result_bind_eq_Inr NewAuditLog_def split: if_splits)
  show "conf_of mac errtext decodeErr fl ad' = conf_of mac errtext decodeErr fl ad" by (simp add: ad')
  show "kept Q (ad_pending ad')"
    using replay_allotted [OF l] l audit by (simp add: ad' kept_def) (simp add: ReplayFromAudit_def NewPendingSet_def Let_def)
qed

end
