(* ===== verification/Go_Indent.thy ===== *)
theory Go_Indent
  imports Protocol
begin

text \<open>
  \<open>json.MarshalIndent\<close> with an empty prefix and two spaces per level, and the answers the clients
  print with it. The parser reads an indented text back to the tree that was printed.
\<close>

section \<open>Indented printing\<close>

definition line_indent :: "nat \<Rightarrow> string" where
  "line_indent d = newline # replicate (2 * d) (CHR '' '')"

text \<open>
  \<open>Indent\<close> on the compact text of a tree: every element and member starts a line one level deeper, the
  closing bracket a line of its own, a colon is followed by a space; empty brackets stay together.
\<close>

fun indent_value :: "nat \<Rightarrow> json \<Rightarrow> string"
  and indent_elems :: "nat \<Rightarrow> json list \<Rightarrow> string"
  and indent_members :: "nat \<Rightarrow> (string \<times> json) list \<Rightarrow> string" where
  "indent_value d JNull = ''null''"
| "indent_value d (JBool b) = (if b then ''true'' else ''false'')"
| "indent_value d (JNum s) = s"
| "indent_value d (JStr s) = dquote # s @ [dquote]"
| "indent_value d (JArr xs) = CHR ''['' # indent_elems d xs"
| "indent_value d (JObj ms) = CHR ''{'' # indent_members d ms"
| "indent_elems d [] = '']''"
| "indent_elems d (x # xs) = line_indent (Suc d) @ indent_value (Suc d) x
     @ (if xs = [] then line_indent d @ '']'' else CHR '','' # indent_elems d xs)"
| "indent_members d [] = ''}''"
| "indent_members d ((k, v) # ms) = line_indent (Suc d) @ dquote # k @ dquote # CHR '':'' # CHR '' '' # indent_value (Suc d) v
     @ (if ms = [] then line_indent d @ ''}'' else CHR '','' # indent_members d ms)"

definition MarshalIndent :: "json \<Rightarrow> string" where
  "MarshalIndent j = indent_value 0 j"

text \<open>\<open>printJSON\<close> of \<open>request-sudo\<close> and \<open>request-sudoctl\<close>: what goes to standard output.\<close>

definition printJSON :: "response \<Rightarrow> string" where
  "printJSON r = MarshalIndent (json_of_response r) @ [newline]"

section \<open>Reading it back\<close>

lemma skip_ws_line [simp]: "skip_ws (line_indent d @ s) = skip_ws s"
proof -
  have "skip_ws (replicate n (CHR '' '') @ s) = skip_ws s" for n
    by (induction n) (simp_all add: skip_ws_def is_ws_def)
  then show ?thesis by (simp add: line_indent_def skip_ws_def is_ws_def newline_def)
qed

lemma length_line_indent [simp]: "length (line_indent d) = Suc (2 * d)"
  by (simp add: line_indent_def)

lemma skip_ws_space [simp]: "skip_ws (CHR '' '' # s) = skip_ws s"
  by (simp add: skip_ws_def is_ws_def)

lemma pvalue_space: "skip_ws t = skip_ws s \<Longrightarrow> pvalue n t = pvalue n s"
  by (cases n) simp_all

lemma pelems_space: "skip_ws t = skip_ws s \<Longrightarrow> pelems n t = pelems n s"
  by (cases n) (simp_all add: pvalue_space [of t s])

lemma stops_line [simp]: "stops (line_indent d @ s)"
  by (simp add: line_indent_def stops_def num_char_def newline_def is_digit_def byte_def)

lemma indent_value_hd:
  "wf_json j \<Longrightarrow> \<exists>c t. indent_value d j = c # t \<and> \<not> is_ws c \<and> c \<noteq> CHR '']''"
proof (cases j)
  case (JNum s)
  assume "wf_json j"
  with JNum num_ok_hd [of s] obtain c t where "s = c # t" "num_start c" by auto
  with JNum num_start_not_special [of c] show ?thesis by simp
qed (auto simp: is_ws_def)

lemma parse_indent_mutual:
  shows "wf_json j \<Longrightarrow> length (indent_value d j) \<le> n \<Longrightarrow> stops s \<Longrightarrow> pvalue n (indent_value d j @ s) = Some (j, s)"
    and "wf_elems xs \<Longrightarrow> xs \<noteq> [] \<Longrightarrow> length (indent_elems d xs) \<le> n \<Longrightarrow>
           pelems n (indent_elems d xs @ s) = Some (xs, s) \<and> (\<exists>c t. skip_ws (indent_elems d xs @ s) = c # t \<and> c \<noteq> CHR '']'')"
    and "wf_members ms \<Longrightarrow> ms \<noteq> [] \<Longrightarrow> length (indent_members d ms) \<le> n \<Longrightarrow>
           pmembers n (indent_members d ms @ s) = Some (ms, s) \<and> (\<exists>t. skip_ws (indent_members d ms @ s) = dquote # t)"
proof (induction d j and d xs and d ms arbitrary: n s and n s and n s
    rule: indent_value_indent_elems_indent_members.induct)
  case (3 d l)
  then obtain m where "n = Suc m" using num_ok_hd by (cases n) auto
  with 3 pvalue_num show ?case by simp
next
  case (4 d r)
  then obtain m where "n = Suc m" by (cases n) auto
  with 4 scan_str_raw [of r s] show ?case by simp
next
  case (5 d xs)
  then obtain m where n: "n = Suc m" by (cases n) auto
  show ?case
  proof (cases "xs = []")
    case False
    with 5 n obtain c t where "pelems m (indent_elems d xs @ s) = Some (xs, s)"
      "skip_ws (indent_elems d xs @ s) = c # t" "c \<noteq> CHR '']''" by fastforce
    moreover from this have "pelems m (c # t) = Some (xs, s)"
      using pelems_space [of "c # t" "indent_elems d xs @ s" m]
      by (metis dropWhile_idem dropWhile_eq_Cons_conv skip_ws_def skip_ws_non)
    ultimately show ?thesis using n by simp
  qed (use n in simp)
next
  case (6 d ms)
  then obtain m where n: "n = Suc m" by (cases n) auto
  show ?case
  proof (cases "ms = []")
    case False
    with 6 n obtain t where "pmembers m (indent_members d ms @ s) = Some (ms, s)"
      "skip_ws (indent_members d ms @ s) = dquote # t" by fastforce
    moreover from this have "pmembers m (dquote # t) = Some (ms, s)" by (cases m) auto
    ultimately show ?thesis using n by simp
  qed (use n in simp)
next
  case (8 d x xs)
  then obtain m where n: "n = Suc m" by (cases n) (auto split: if_splits)
  have v: "pvalue m (line_indent (Suc d) @ indent_value (Suc d) x @ u) = Some (x, u)" if "stops u" for u
    using 8 n that pvalue_space [OF skip_ws_line] by (auto split: if_splits)
  obtain c t where c: "indent_value (Suc d) x = c # t" "\<not> is_ws c" "c \<noteq> CHR '']''"
    using indent_value_hd [of x "Suc d"] 8 by auto
  show ?case
  proof (cases "xs = []")
    case True
    with n c v [of "line_indent d @ '']'' @ s"] show ?thesis by simp
  next
    case False
    then have "pelems m (indent_elems d xs @ s) = Some (xs, s)" using 8 n by simp
    with False n c v [of "CHR '','' # indent_elems d xs @ s"] show ?thesis by simp
  qed
next
  case (10 d k v ms)
  then obtain m where n: "n = Suc m" by (cases n) auto
  have pv: "pvalue m (CHR '' '' # indent_value (Suc d) v @ u) = Some (v, u)" if "stops u" for u
    using 10 n that pvalue_space [OF skip_ws_space] by simp
  have sk: "scan_str (k @ dquote # u) = Some (k, u)" for u
    using 10 by (simp add: scan_str_raw)
  show ?case
  proof (cases "ms = []")
    case True
    with n sk pv [of "line_indent d @ ''}'' @ s"] show ?thesis by simp
  next
    case False
    then have "pmembers m (indent_members d ms @ s) = Some (ms, s)" using 10 n by simp
    with False n sk pv [of "CHR '','' # indent_members d ms @ s"] show ?thesis by simp
  qed
next
  case (1 d)
  then obtain m where "n = Suc m" by (cases n) auto
  then show ?case by simp
next
  case (2 d b)
  then obtain m where "n = Suc m" by (cases n) (auto split: if_splits)
  then show ?case by simp
qed simp_all

lemma json_parse_MarshalIndent: "wf_json j \<Longrightarrow> json_parse (MarshalIndent j @ [newline]) = Some j"
  using parse_indent_mutual(1) [of j 0 "Suc (length (MarshalIndent j @ [newline]))" "[newline]"]
  by (simp add: json_parse_def MarshalIndent_def stops_def num_char_def newline_def is_digit_def byte_def skip_ws_def is_ws_def
      del: pvalue.simps)

text \<open>
  What the clients print. The text \<open>request-sudo\<close> and \<open>request-sudoctl\<close> print for an answer is one
  JSON document, from which the answer can be read back completely.
\<close>

theorem printed_answer_roundtrip:
  assumes "utf8_response r"
  shows "Option.bind (json_parse (printJSON r)) (\<lambda>j. dec_struct response_fields j zero_response) = Some r"
  using dec_response [OF assms] canonical_response [of r]
  by (simp add: printJSON_def json_parse_MarshalIndent canonical_def)

theorem printed_answer_roundtrip_witness:
  "let r = zero_response\<lparr>rs_Status := ''executed'', rs_ExitCode := Some 0, rs_Stdout := ''ok''\<rparr>
   in Option.bind (json_parse (printJSON r)) (\<lambda>j. dec_struct response_fields j zero_response) = Some r"
  unfolding Let_def
  by (rule printed_answer_roundtrip) (simp add: utf8_response_def zero_response_def byte_def)

end
