(* ===== verification/Commands.thy ===== *)
theory Commands
  imports Socket_System Go_Flag Go_Indent
begin

text \<open>
  The two clients of the sockets: the requester's \<open>cmd/request-sudo\<close> and the reviewer's
  \<open>cmd/request-sudoctl\<close>, from the arguments to the message sent, the exit status and the texts printed
  on standard output and, by the commands themselves, on standard error.
\<close>

section \<open>request-sudo\<close>

text \<open>
  A command exits in its parsing of the flags, whose messages are the library's, exits with a
  status and a message of its own, or calls the broker.
\<close>

datatype cli_outcome = FlagExit int | CliExit int string | CliCall string wire_request

definition failf :: "string \<Rightarrow> cli_outcome" where
  "failf text = CliExit 1 (text @ [newline])"

definition request_sudo_usage :: cli_outcome where
  "request_sudo_usage = CliExit 2 (''usage: request-sudo <request|status|execute> [args]'' @ [newline])"

definition mustGetwd :: "string option \<Rightarrow> string" where
  "mustGetwd wd = (case wd of None \<Rightarrow> ''/'' | Some cwd \<Rightarrow> cwd)"

definition handleRequest :: "string option \<Rightarrow> string list \<Rightarrow> cli_outcome" where
  "handleRequest wd args =
     (case flag_parse [(''socket'', ''/run/request-sudo/request.sock''), (''reason'', []), (''mode'', ModePoll),
                       (''cwd'', mustGetwd wd)] args of
        Inl status \<Rightarrow> FlagExit status
      | Inr (m, argv) \<Rightarrow>
          (if argv = [] then failf ''request requires argv after flags''
           else CliCall (flag_value m ''socket'')
             (zero_wire_request\<lparr>wr_Action := ActionRequestSubmit, wr_Argv := argv, wr_Reason := flag_value m ''reason'',
                wr_Mode := flag_value m ''mode'', wr_Cwd := flag_value m ''cwd''\<rparr>)))"

definition handle_one_id :: "string \<Rightarrow> string \<Rightarrow> string list \<Rightarrow> cli_outcome" where
  "handle_one_id name action args =
     (case flag_parse [(''socket'', ''/run/request-sudo/request.sock'')] args of
        Inl status \<Rightarrow> FlagExit status
      | Inr (m, rest) \<Rightarrow>
          (case rest of
             [requestID] \<Rightarrow> CliCall (flag_value m ''socket'')
               (zero_wire_request\<lparr>wr_Action := action, wr_RequestID := requestID\<rparr>)
           | _ \<Rightarrow> failf (name @ '' requires exactly one request id'')))"

definition handleStatus :: "string list \<Rightarrow> cli_outcome" where
  "handleStatus = handle_one_id ''status'' ActionRequestStatus"

definition handleExecute :: "string list \<Rightarrow> cli_outcome" where
  "handleExecute = handle_one_id ''execute'' ActionRequestExecute"

definition request_sudo_main :: "string option \<Rightarrow> string list \<Rightarrow> cli_outcome" where
  "request_sudo_main wd osArgs =
     (case osArgs of
        _ # cmd # args \<Rightarrow>
          (if cmd = ''request'' then handleRequest wd args
           else if cmd = ''status'' then handleStatus args
           else if cmd = ''execute'' then handleExecute args
           else request_sudo_usage)
      | _ \<Rightarrow> request_sudo_usage)"

section \<open>request-sudoctl\<close>

definition currentUser :: "string option \<Rightarrow> nat \<Rightarrow> string" where
  "currentUser usr euid = (case usr of None \<Rightarrow> ''uid:'' @ string_of_nat euid | Some name \<Rightarrow> name)"

definition chooseCode :: "string \<Rightarrow> string \<Rightarrow> string" where
  "chooseCode primary alias = (if primary \<noteq> [] then primary else alias)"

definition handleApprove :: "string \<Rightarrow> string list \<Rightarrow> cli_outcome" where
  "handleApprove user args =
     (case flag_parse [(''socket'', ''/run/request-sudo/review.sock''), (''approver-kind'', ''local''),
                       (''approver-id'', user), (''approval-code'', []), (''code'', [])] args of
        Inl status \<Rightarrow> FlagExit status
      | Inr (m, rest) \<Rightarrow>
          (case rest of
             [requestID] \<Rightarrow> CliCall (flag_value m ''socket'')
               (zero_wire_request\<lparr>wr_Action := ActionReviewApprove, wr_RequestID := requestID,
                  wr_Approver := \<lparr>actor_Kind = flag_value m ''approver-kind'', actor_ID = flag_value m ''approver-id''\<rparr>,
                  wr_ApprovalCode := chooseCode (flag_value m ''approval-code'') (flag_value m ''code'')\<rparr>)
           | _ \<Rightarrow> failf ''approve requires exactly one request id''))"

definition handleDeny :: "string \<Rightarrow> string list \<Rightarrow> cli_outcome" where
  "handleDeny user args =
     (case flag_parse [(''socket'', ''/run/request-sudo/review.sock''), (''approver-kind'', ''local''),
                       (''approver-id'', user), (''reason'', ''Denied by approver'')] args of
        Inl status \<Rightarrow> FlagExit status
      | Inr (m, rest) \<Rightarrow>
          (case rest of
             [requestID] \<Rightarrow> CliCall (flag_value m ''socket'')
               (zero_wire_request\<lparr>wr_Action := ActionReviewDeny, wr_RequestID := requestID,
                  wr_Approver := \<lparr>actor_Kind = flag_value m ''approver-kind'', actor_ID = flag_value m ''approver-id''\<rparr>,
                  wr_Reason := flag_value m ''reason''\<rparr>)
           | _ \<Rightarrow> failf ''deny requires exactly one request id''))"

definition sudoctl_usage :: cli_outcome where
  "sudoctl_usage = CliExit 2 (''usage: request-sudoctl <approve|deny> [args]'' @ [newline])"

definition sudoctl_main :: "string \<Rightarrow> string list \<Rightarrow> cli_outcome" where
  "sudoctl_main user osArgs =
     (case osArgs of
        _ # cmd # args \<Rightarrow>
          (if cmd = ''approve'' then handleApprove user args
           else if cmd = ''deny'' then handleDeny user args
           else sudoctl_usage)
      | _ \<Rightarrow> sudoctl_usage)"

text \<open>An error of the call ends the command, with the exit status and the two outputs.\<close>

definition cli_fail :: "(go_error \<Rightarrow> string) \<Rightarrow> go_error \<Rightarrow> int \<times> string \<times> string" where
  "cli_fail errtext err = (1, [], errtext err @ [newline])"

text \<open>The rest of a client run: the exit status, and what it prints on standard output and standard error.\<close>

fun cli_finish :: "(go_error \<Rightarrow> string) \<Rightarrow> (string \<Rightarrow> (string \<Rightarrow> string result) result) \<Rightarrow> cli_outcome \<Rightarrow> int \<times> string \<times> string" where
  "cli_finish errtext dial (FlagExit status) = (status, [], [])"
| "cli_finish errtext dial (CliExit status message) = (status, [], message)"
| "cli_finish errtext dial (CliCall path q) =
     (case Call (dial path) q of
        Inl err \<Rightarrow> cli_fail errtext err
      | Inr resp \<Rightarrow> (0, printJSON resp, []))"

section \<open>The clients and the broker\<close>

text \<open>
  A command prints an answer and exits with status 0 only if the broker gave that answer; apart from
  what the flags make it do it otherwise prints one message and exits with another status. It never
  prints on both outputs.
\<close>

lemma cli_finish_reports:
  assumes "cli_finish errtext dial outcome = (status, out, err)" "outcome \<in> {request_sudo_main wd args, sudoctl_main user args}"
    and "\<forall>st. outcome \<noteq> FlagExit st"
  shows "(\<exists>path q resp. outcome = CliCall path q \<and> Call (dial path) q = Inr resp \<and> status = 0 \<and> out = printJSON resp \<and> err = [])
    \<or> status \<in> {1, 2} \<and> out = [] \<and> (\<exists>message. err = message @ [newline])"
proof (cases outcome)
  case (CliCall path q)
  with assms(1) show ?thesis by (auto simp: cli_fail_def split: sum.splits)
next
  case (CliExit st message)
  have "CliExit st message = failf t \<Longrightarrow> st = 1 \<and> message = t @ [newline]" for t by (simp add: failf_def)
  moreover have "CliExit st message = request_sudo_usage \<or> CliExit st message = sudoctl_usage \<Longrightarrow> st = 2 \<and> (\<exists>m. message = m @ [newline])"
    by (auto simp: request_sudo_usage_def sudoctl_usage_def)
  ultimately have "st \<in> {1, 2} \<and> (\<exists>m. message = m @ [newline])" using assms(2) CliExit
    by (auto simp: request_sudo_main_def sudoctl_main_def handleRequest_def handle_one_id_def handleStatus_def handleExecute_def
        handleApprove_def handleDeny_def split: sum.splits list.splits if_splits prod.splits)
  with assms(1) CliExit show ?thesis by auto
qed (use assms(3) in simp)

text \<open>
  C33 (the submit command, end to end). Running \<open>request-sudo request --reason r --cwd c -- argv\<close>
  against a served request socket submits exactly argv, reason and directory in mode poll for the
  connecting peer, prints the broker's answer, nothing else, and exits with status 0. Arguments of argv that look
  like flags are not interpreted.
\<close>

theorem request_command_submits:
  assumes "argv \<noteq> []" "list_all valid_utf8 argv" "valid_utf8 r" "valid_utf8 c"
    and "Submit sha (ce_now env) (ce_rand env) (ce_nanos env) (ce_io1 env)
           \<lparr>si_Argv = argv, si_Reason = r, si_Mode = ''poll'', si_Requester = peer, si_Cwd = c\<rparr> (sr_service srv) = (Inr resp, s')"
    and "utf8_response resp"
  shows "cli_finish errtext (\<lambda>_. Inr (\<lambda>sent. Inr (fst (handleConn sha errtext decodeErr env (peer, None) ''request'' sent srv))))
      (request_sudo_main wd ([prog, ''request'', ''--reason'', r, ''--cwd'', c, ''--''] @ argv)) = (0, printJSON resp, [])"
proof -
  let ?q = "zero_wire_request\<lparr>wr_Action := ActionRequestSubmit, wr_Argv := argv, wr_Reason := r, wr_Mode := ''poll'', wr_Cwd := c\<rparr>"
  have m: "request_sudo_main wd ([prog, ''request'', ''--reason'', r, ''--cwd'', c, ''--''] @ argv)
      = CliCall ''/run/request-sudo/request.sock'' ?q"
    using assms(1) by (simp add: request_sudo_main_def handleRequest_def flag_run gget_def gput_def)
  have q: "utf8_wire_request ?q"
    using assms(2-4) by (simp add: utf8_wire_request_def zero_wire_request_def utf8_actor_def zero_actor_def byte_def)
  have "dispatch sha env ''request'' ?q peer srv = (Inr resp, srv\<lparr>sr_service := s'\<rparr>)"
    using assms(5) by (simp add: dispatch_def route_def zero_wire_request_def Let_def)
  from Call_handleConn(1) [OF q this] assms(6) show ?thesis unfolding m by simp
qed

text \<open>
  C34 (the approver is whom the client claims). The self-approval check compares the requester with
  the approver named in the message, and \<open>request-sudoctl\<close> lets its user choose that name: for
  every requester there is a name with which the requester's own process, if allowed on the review
  socket, sends a verdict that the broker's check accepts.
\<close>

theorem approver_identity_is_claimed:
  assumes "rid \<noteq> []" "hd rid \<noteq> CHR ''-''" and "reviewAllowed srv (peer_UID requester) (peer_GID requester)"
  shows "\<exists>claimed q i. sudoctl_main user [prog, ''approve'', ''--approver-id'', claimed, rid]
        = CliCall ''/run/request-sudo/review.sock'' q
      \<and> route srv ''review'' q requester = CallApprove i \<and> ri_RequestID i = rid
      \<and> validateApprover (ri_Approver i) requester = None"
proof -
  let ?claimed = "''x'' @ peer_Username requester"
  have m: "sudoctl_main user [prog, ''approve'', ''--approver-id'', ?claimed, rid] = CliCall ''/run/request-sudo/review.sock''
      (zero_wire_request\<lparr>wr_Action := ActionReviewApprove, wr_RequestID := rid,
         wr_Approver := \<lparr>actor_Kind = ''local'', actor_ID = ?claimed\<rparr>\<rparr>)"
    using assms(1,2) by (simp add: sudoctl_main_def handleApprove_def flag_run gget_def gput_def chooseCode_def
        zero_wire_request_def)
  have "c \<in> set (string_of_nat n) \<Longrightarrow> c \<noteq> CHR ''x''" for c n
    using string_of_nat_digits [of c n] by (auto simp: is_digit_def byte_def)
  then have "CHR ''x'' # t \<noteq> string_of_nat n" for n t by (metis list.set_intros(1))
  then have v: "validateApprover \<lparr>actor_Kind = ''local'', actor_ID = ?claimed\<rparr> requester = None"
    by (simp add: validateApprover_None)
  have r: "route srv ''review'' (zero_wire_request\<lparr>wr_Action := ActionReviewApprove, wr_RequestID := rid,
         wr_Approver := \<lparr>actor_Kind = ''local'', actor_ID = ?claimed\<rparr>\<rparr>) requester
      = CallApprove \<lparr>ri_RequestID = rid, ri_Approver = \<lparr>actor_Kind = ''local'', actor_ID = ?claimed\<rparr>,
          ri_ApprovalCode = [], ri_Reason = []\<rparr>"
    using assms(3) by (simp add: route_def zero_wire_request_def)
  from m r v show ?thesis by fastforce
qed

section \<open>Concrete commands\<close>

lemma sample_submit_answer:
  "\<exists>s snap. Submit sample_sha 1000 (Some ''abc'') 0 (sample_io FsOk)
        \<lparr>si_Argv = [''id'', ''-u''], si_Reason = ''audit'', si_Mode = ''poll'', si_Requester = si_Requester sample_input, si_Cwd = ''/srv''\<rparr>
        (sample_service New) = (Inr (FromSnapshot snap ''Approval required''), s)
     \<and> snap_Status snap = StatusPending \<and> utf8_response (FromSnapshot snap ''Approval required'')"
proof -
  let ?i = "default_mode sample_input"
  have i: "\<lparr>si_Argv = [''id'', ''-u''], si_Reason = ''audit'', si_Mode = ''poll'', si_Requester = si_Requester sample_input,
      si_Cwd = ''/srv''\<rparr> = ?i" by (simp add: default_mode_def sample_input_def)
  have a: "valid_utf8 (actorIDForPeer (si_Requester ?i))" "si_Argv ?i \<noteq> []"
    by (simp_all add: actorIDForPeer_def sample_input_def default_mode_def byte_def)
  have b: "sample_request sample_rid = build_request sample_sha 1000 sample_rid (default_mode ?i) (sample_service New)"
    by (simp add: sample_request_def default_mode_def sample_input_def)
  note ok = sample_request_ok(1) [OF sample_rid_utf8] sample_request_ok(2) [of sample_rid]
  obtain s snap where s: "Submit sample_sha 1000 (Some ''abc'') 0 (sample_io FsOk) ?i (sample_service New)
      = (Inr (FromSnapshot snap ''Approval required''), s)"
    "snap_Request snap = sample_request sample_rid" "snap_Status snap = StatusPending" "snap_Execution snap = None"
    using Submit_healthy [OF _ sample_healthy a(2,1) sample_rid_def _ b ok] by (auto simp: Get_def New_def)
  have "utf8_response (FromSnapshot snap ''Approval required'')"
    using s(2-4) ok(1) by (auto simp: utf8_response_def FromSnapshot_def zero_response_def utf8_request_def byte_def Let_def)
  with s(1,3) show ?thesis unfolding i by blast
qed

theorem request_command_submits_witness:
  "\<exists>resp. cli_finish (\<lambda>_. []) (\<lambda>_. Inr (\<lambda>sent. Inr (fst (handleConn sample_sha (\<lambda>_. []) (\<lambda>_. []) (sample_env\<lparr>ce_now := 1000\<rparr>)
        (si_Requester sample_input, None) ''request'' sent (sample_server New)))))
      (request_sudo_main None [''rs'', ''request'', ''--reason'', ''audit'', ''--cwd'', ''/srv'', ''--'', ''id'', ''-u'']) = (0, printJSON resp, [])
    \<and> rs_Status resp = ''pending''"
proof -
  let ?env = "sample_env\<lparr>ce_now := 1000\<rparr>"
  obtain s snap where s: "Submit sample_sha (ce_now ?env) (ce_rand ?env) (ce_nanos ?env) (ce_io1 ?env)
        \<lparr>si_Argv = [''id'', ''-u''], si_Reason = ''audit'', si_Mode = ''poll'', si_Requester = si_Requester sample_input, si_Cwd = ''/srv''\<rparr>
        (sr_service (sample_server New)) = (Inr (FromSnapshot snap ''Approval required''), s)"
    and snap: "snap_Status snap = StatusPending" "utf8_response (FromSnapshot snap ''Approval required'')"
    using sample_submit_answer by (auto simp: sample_env_def sample_server_def NewServer_def)
  have v: "[''id'', ''-u''] \<noteq> []" "list_all valid_utf8 [''id'', ''-u'']" "valid_utf8 ''audit''" "valid_utf8 ''/srv''"
    by (simp_all add: byte_def)
  from request_command_submits [OF v s snap(2), where prog = "''rs''" and wd = None and errtext = "\<lambda>_. []" and decodeErr = "\<lambda>_. []"]
  show ?thesis using snap(1) by (intro exI [of _ "FromSnapshot snap ''Approval required''"]) simp
qed

theorem approver_identity_is_claimed_witness:
  "\<exists>claimed q i. sudoctl_main ''root'' [''ctl'', ''approve'', ''--approver-id'', claimed, ''req_1'']
        = CliCall ''/run/request-sudo/review.sock'' q
      \<and> route (sample_server New) ''review'' q root_peer = CallApprove i
      \<and> validateApprover (ri_Approver i) root_peer = None"
proof -
  have "reviewAllowed (sample_server New) (peer_UID root_peer) (peer_GID root_peer)"
    by (simp add: reviewAllowed_def sample_server_def NewServer_def root_peer_def)
  from approver_identity_is_claimed [OF _ _ this, of "''req_1''" "''root''" "''ctl''"] show ?thesis by (simp) blast
qed

end
