(* ===== verification/Daemon.thy ===== *)
theory Daemon
  imports Commands Socket_Run
begin

text \<open>
  \<open>cmd/request-sudod\<close>: the flags of the daemon, its start from the event log to the running server,
  and the ways it exits.
\<close>

section \<open>Allow lists\<close>

fun parse_parts :: "string list \<Rightarrow> 32 word list" where
  "parse_parts [] = []"
| "parse_parts (part # parts) =
     (let part = TrimSpace part in
      if part = [] then parse_parts parts
      else case ParseUint32 part of
        None \<Rightarrow> parse_parts parts
      | Some value \<Rightarrow> value # parse_parts parts)"

definition parseIDs :: "32 word \<Rightarrow> string \<Rightarrow> 32 word list" where
  "parseIDs euid raw =
     (let out = parse_parts (SplitByte (CHR '','') raw) in if out = [] then [euid] else out)"

section \<open>The daemon\<close>

record sudod_flags =
  sf_requestSocket :: string
  sf_reviewSocket :: string
  sf_eventLog :: string
  sf_reviewUIDs :: string
  sf_reviewGIDs :: string

text \<open>The flags, with the daemon's own effective ids as the default allow lists.\<close>

definition sudod_parse :: "32 word \<Rightarrow> 32 word \<Rightarrow> string list \<Rightarrow> int + sudod_flags" where
  "sudod_parse euid egid args =
     (case flag_parse [(''request-socket'', ''/run/request-sudo/request.sock''), (''review-socket'', ''/run/request-sudo/review.sock''),
                       (''event-log'', ''/var/lib/request-sudo/events.jsonl''), (''review-uids'', string_of_nat (unat euid)),
                       (''review-gids'', string_of_nat (unat egid))] args of
        Inl status \<Rightarrow> Inl status
      | Inr (m, _) \<Rightarrow> Inr \<lparr>sf_requestSocket = flag_value m ''request-socket'', sf_reviewSocket = flag_value m ''review-socket'',
          sf_eventLog = flag_value m ''event-log'', sf_reviewUIDs = flag_value m ''review-uids'',
          sf_reviewGIDs = flag_value m ''review-gids''\<rparr>)"

text \<open>
  \<open>main\<close> up to \<open>Run\<close>: \<open>mkdir\<close> and \<open>disk\<close> say what happened to the directory of the log and what the
  file held; the result is the server that is then run, or the error the daemon exits with.
\<close>

definition sudod_start ::
    "(string \<Rightarrow> string) \<Rightarrow> (string \<Rightarrow> io) \<Rightarrow> string option \<Rightarrow> 32 word \<Rightarrow> (string \<Rightarrow> unit result) \<Rightarrow> (string \<Rightarrow> string result) \<Rightarrow>
     sudod_flags \<Rightarrow> server result" where
  "sudod_start sha ws hostname euid mkdir disk fl =
     result_bind (NewLog sha (mkdir (sf_eventLog fl)) (disk (sf_eventLog fl))) (\<lambda>l.
       case NewService sha ws LocalExecutor_Name DefaultTTL hostname l of
         (Inl err, _) \<Rightarrow> Inl err
       | (Inr s, _) \<Rightarrow> Inr (NewServer s (sf_requestSocket fl) (sf_reviewSocket fl)
           (parseIDs euid (sf_reviewUIDs fl)) (parseIDs euid (sf_reviewGIDs fl))))"

text \<open>
  The whole of \<open>main\<close> until the accept loops run, with the calls made for the sockets. \<open>signalled\<close>
  says whether a signal has cancelled the context by the time \<open>Run\<close> has failed. An exit after the
  parsing of the flags comes with what \<open>fail\<close> prints.
\<close>

datatype daemon_outcome = FlagExited int | Exited int string | Serving run_state

definition sudod_fail :: "(go_error \<Rightarrow> string) \<Rightarrow> go_error \<Rightarrow> daemon_outcome" where
  "sudod_fail errtext err = Exited 1 (errtext err @ [newline])"

definition sudod_main ::
    "(go_error \<Rightarrow> string) \<Rightarrow> (string \<Rightarrow> string) \<Rightarrow> (string \<Rightarrow> io) \<Rightarrow> string option \<Rightarrow> 32 word \<Rightarrow> 32 word \<Rightarrow> (string \<Rightarrow> unit result) \<Rightarrow> (string \<Rightarrow> string result) \<Rightarrow>
     (os_call \<Rightarrow> go_error option) \<Rightarrow> bool \<Rightarrow> string list \<Rightarrow> daemon_outcome \<times> os_call list" where
  "sudod_main errtext sha ws hostname euid egid mkdir disk os signalled args =
     (case sudod_parse euid egid args of
        Inl status \<Rightarrow> (FlagExited status, [])
      | Inr fl \<Rightarrow>
          (case sudod_start sha ws hostname euid mkdir disk fl of
             Inl err \<Rightarrow> (sudod_fail errtext err, [])
           | Inr srv \<Rightarrow>
               (case Run_listen os srv of
                  (Inl err, calls) \<Rightarrow> (if signalled then Exited 0 [] else sudod_fail errtext err, calls)
                | (Inr _, calls) \<Rightarrow> (Serving (Run_start srv), calls))))"

section \<open>Parsing of the allow lists\<close>

lemma TrimSpace_digits: "list_all is_digit s \<Longrightarrow> TrimSpace s = s"
proof (rule TrimSpace_id)
  assume d: "list_all is_digit s"
  show "space_size s = 0" using d by (cases s) (auto simp: ascii_space_def is_digit_def space2_def space3_def split: list.splits)
  show "space_size_rev (rev s) = 0" using d by (cases s rule: rev_cases) (auto simp: ascii_space_def is_digit_def space2_def space3_def split: list.splits)
qed

text \<open>
  A comma-separated list of decimal ids is parsed to exactly these ids; the result
  is never empty, and every other input whose parts are all unusable gives the daemon's own
  effective user id, for the group list as well as for the user list.
\<close>

lemma parseIDs_lists:
  "(ids \<noteq> [] \<longrightarrow> parseIDs euid (Join (map (\<lambda>w. string_of_nat (unat w)) ids) '','') = ids)
   \<and> parseIDs euid raw \<noteq> []
   \<and> (list_all (\<lambda>part. ParseUint32 (TrimSpace part) = None) (SplitByte (CHR '','') raw) \<longrightarrow> parseIDs euid raw = [euid])"
proof -
  have parts: "parse_parts (map (\<lambda>w. string_of_nat (unat w)) ids) = ids" for ids
    by (induction ids)
       (simp_all add: TrimSpace_digits string_of_nat_all_digits ParseUint32_roundtrip string_of_nat_not_Nil)
  have "SplitByte (CHR '','') (Join (map (\<lambda>w. string_of_nat (unat w)) ids) '','') = map (\<lambda>w. string_of_nat (unat w)) ids"
    if "ids \<noteq> []"
    using that string_of_nat_digits [of "CHR '',''"] by (intro Split_Join) (auto simp: is_digit_def byte_def)
  then have 1: "ids \<noteq> [] \<longrightarrow> parseIDs euid (Join (map (\<lambda>w. string_of_nat (unat w)) ids) '','') = ids"
    using parts by (simp add: parseIDs_def)
  have "list_all (\<lambda>part. ParseUint32 (TrimSpace part) = None) ps \<Longrightarrow> parse_parts ps = []" for ps
    by (induction ps) (simp_all add: Let_def)
  then show ?thesis using 1 by (simp add: parseIDs_def Let_def)
qed

section \<open>What a running daemon guarantees\<close>

lemma in_fold_insert [simp]: "fold insert xs A = set xs \<union> A"
  by (induction xs arbitrary: A) auto

lemma NewServer_reviewAllowed:
  "reviewAllowed (NewServer s p q uids gids) uid gid \<longleftrightarrow> uid \<in> set uids \<or> gid \<in> set gids"
  by (simp add: reviewAllowed_def NewServer_def)

lemma sudod_start_cases:
  assumes "sudod_start sha ws hostname euid mkdir disk fl = Inr srv"
  obtains content es p s l' where "disk (sf_eventLog fl) = Inr content" "Replay sha (Inr content) = Inr es" "Rebuild es = Inr p"
    "NewService sha ws LocalExecutor_Name DefaultTTL hostname \<lparr>lg_file = content, lg_lastHash = last_hash es\<rparr> = (Inr s, l')"
    "srv = NewServer s (sf_requestSocket fl) (sf_reviewSocket fl)
       (parseIDs euid (sf_reviewUIDs fl)) (parseIDs euid (sf_reviewGIDs fl))"
proof -
  from assms obtain l where l: "NewLog sha (mkdir (sf_eventLog fl)) (disk (sf_eventLog fl)) = Inr l"
    and n: "(case NewService sha ws LocalExecutor_Name DefaultTTL hostname l of
         (Inl err, _) \<Rightarrow> Inl err
       | (Inr s, _) \<Rightarrow> Inr (NewServer s (sf_requestSocket fl) (sf_reviewSocket fl)
           (parseIDs euid (sf_reviewUIDs fl)) (parseIDs euid (sf_reviewGIDs fl)))) = Inr srv"
    by (auto simp: sudod_start_def result_bind_eq_Inr)
  from l obtain content es where c: "disk (sf_eventLog fl) = Inr content" "Replay sha (Inr content) = Inr es"
    "l = \<lparr>lg_file = content, lg_lastHash = last_hash es\<rparr>"
    by (cases "disk (sf_eventLog fl)") (auto simp: NewLog_def result_bind_eq_Inr)
  from n obtain s l' where s: "NewService sha ws LocalExecutor_Name DefaultTTL hostname l = (Inr s, l')"
    "srv = NewServer s (sf_requestSocket fl) (sf_reviewSocket fl)
       (parseIDs euid (sf_reviewUIDs fl)) (parseIDs euid (sf_reviewGIDs fl))"
    by (auto split: prod.splits sum.splits)
  from s(1) c obtain p where "Rebuild es = Inr p"
    by (auto simp: NewService_def split: sum.splits prod.splits)
  with c s that show thesis by metis
qed

text \<open>
  C17 (a daemon that serves). Whatever its arguments and whatever the operating system does, the
  daemon serves only after the whole event log was read, its hash chain verified and every event
  accepted by the life cycle; exactly the users and groups of its flags may review; and both
  sockets were created with their modes, 0660 for requests and 0600 for reviews. Without arguments
  the reviewers are the daemon's own effective user and group.
\<close>

theorem daemon_serves_verified_log:
  assumes "sudod_main errtext sha ws hostname euid egid mkdir disk os signalled args = (Serving y, calls)"
  shows "\<exists>fl content es p. sudod_parse euid egid args = Inr fl
    \<and> disk (sf_eventLog fl) = Inr content \<and> Replay sha (Inr content) = Inr es \<and> Rebuild es = Inr p
    \<and> (\<forall>uid gid. reviewAllowed (ru_server y) uid gid \<longleftrightarrow>
         uid \<in> set (parseIDs euid (sf_reviewUIDs fl)) \<or> gid \<in> set (parseIDs euid (sf_reviewGIDs fl)))
    \<and> calls = opened (sf_requestSocket fl) 432 @ opened (sf_reviewSocket fl) 384
    \<and> (args = [] \<longrightarrow> (\<forall>uid gid. reviewAllowed (ru_server y) uid gid \<longleftrightarrow> uid = euid \<or> gid = egid))"
proof -
  from assms obtain fl srv where fl: "sudod_parse euid egid args = Inr fl"
    and st: "sudod_start sha ws hostname euid mkdir disk fl = Inr srv" and rl: "Run_listen os srv = (Inr (), calls)"
    and y: "y = Run_start srv"
    by (auto simp: sudod_main_def sudod_fail_def split: sum.splits prod.splits if_splits)
  from st obtain content es p s l' where c: "disk (sf_eventLog fl) = Inr content" "Replay sha (Inr content) = Inr es" "Rebuild es = Inr p"
    and srv: "srv = NewServer s (sf_requestSocket fl) (sf_reviewSocket fl)
       (parseIDs euid (sf_reviewUIDs fl)) (parseIDs euid (sf_reviewGIDs fl))"
    by (rule sudod_start_cases)
  have r: "reviewAllowed (ru_server y) uid gid \<longleftrightarrow>
      uid \<in> set (parseIDs euid (sf_reviewUIDs fl)) \<or> gid \<in> set (parseIDs euid (sf_reviewGIDs fl))" for uid gid
    unfolding y srv by (simp add: Run_start_def NewServer_reviewAllowed)
  have calls: "calls = opened (sf_requestSocket fl) 432 @ opened (sf_reviewSocket fl) 384"
    using listeners_opened_or_closed [OF rl] by (simp add: srv NewServer_def)
  have one: "parseIDs euid (string_of_nat (unat w)) = [w]" for w
    using parseIDs_lists [of "[w]" euid "[]"] by simp
  have "\<forall>uid gid. reviewAllowed (ru_server y) uid gid \<longleftrightarrow> uid = euid \<or> gid = egid" if "args = []"
    using fl that r by (auto simp: sudod_parse_def flag_run one gget_def)
  with fl c calls r show ?thesis by blast
qed

section \<open>A concrete start\<close>

theorem daemon_serves_verified_log_witness:
  "\<exists>y calls. sudod_main (\<lambda>_. []) sample_sha (\<lambda>_. sample_io FsOk) (Some ''host'') 0 27 (\<lambda>_. Inr ()) (\<lambda>_. Inr []) (\<lambda>_. None) False []
       = (Serving y, calls)
     \<and> (\<forall>uid gid. reviewAllowed (ru_server y) uid gid \<longleftrightarrow> uid = 0 \<or> gid = 27)"
proof -
  let ?fl = "\<lparr>sf_requestSocket = ''/run/request-sudo/request.sock'', sf_reviewSocket = ''/run/request-sudo/review.sock'',
    sf_eventLog = ''/var/lib/request-sudo/events.jsonl'', sf_reviewUIDs = string_of_nat (unat (0 :: 32 word)),
    sf_reviewGIDs = string_of_nat (unat (27 :: 32 word))\<rparr>"
  have fl: "sudod_parse 0 27 [] = Inr ?fl" by (simp add: sudod_parse_def flag_run gget_def)
  obtain srv where st: "sudod_start sample_sha (\<lambda>_. sample_io FsOk) (Some ''host'') 0 (\<lambda>_. Inr ()) (\<lambda>_. Inr []) ?fl = Inr srv"
    using NewService_empty(1) [of sample_sha] NewService_empty(2) [of sample_sha "\<lambda>_. sample_io FsOk"] by (simp add: sudod_start_def)
  obtain calls where rl: "Run_listen (\<lambda>_. None) srv = (Inr (), calls)" by (simp add: Run_listen_def listenSocket_def Let_def)
  have m: "sudod_main (\<lambda>_. []) sample_sha (\<lambda>_. sample_io FsOk) (Some ''host'') 0 27 (\<lambda>_. Inr ()) (\<lambda>_. Inr []) (\<lambda>_. None) False []
      = (Serving (Run_start srv), calls)"
    unfolding sudod_main_def fl sum.case st rl prod.case by (rule refl)
  from daemon_serves_verified_log [OF m] m show ?thesis by blast
qed

lemma parseIDs_lists_example:
  "parseIDs 0 (Join (map (\<lambda>w. string_of_nat (unat w)) [0, 1000 :: 32 word]) '','') = [0, 1000] \<and> parseIDs 0 ''wheel'' = [0]"
proof -
  have "list_all (\<lambda>part. ParseUint32 (TrimSpace part) = None) (SplitByte (CHR '','') ''wheel'')"
  proof -
    have "TrimSpace ''wheel'' = ''wheel''" by (rule TrimSpace_id) (simp_all add: ascii_space_def space2_def space3_def byte_def)
    then show ?thesis by (simp add: ParseUint32_def is_digit_def byte_def)
  qed
  then show ?thesis
    using parseIDs_lists [of "[0, 1000]" 0 "''wheel''"] by (simp del: SplitByte.simps Join.simps)
qed

end
