(* ===== verification/Deployment.thy ===== *)
theory Deployment
  imports Log_Written Run_Refines Audit_Trail Daemon Full_System
begin

text \<open>
  Both daemons as they run. The broker's server and the adapter take turns, their goroutines
  interleaved in any way; each may stop at any point and be started again, the server on the event
  log and the adapter on the audit log it left. The adapter
  follows the server's event log with scans that end at any byte, and it is the only process on the
  review socket, where a connection may be cut off after any byte. What connects them is only this
  file and this socket, so the guarantee that a launched command was approved from one of the
  requester's phones holds of the code on both sides.
\<close>

section \<open>What the review socket carries\<close>

text \<open>A decoder that gets the beginning of an encoded object gives this object or fails.\<close>

theorem Decode_cut:
  assumes "wf_json (JObj ms)" "Decode (take n (Encode (JObj ms))) = Some j"
  shows "j = JObj ms"
proof -
  let ?l = "json_print (JObj ms)" and ?s = "take n (Encode (JObj ms))"
  obtain t where t: "pvalue (Suc (length ?s)) ?s = Some (j, t)" using assms(2) by (auto simp: Decode_def simp del: pvalue.simps)
  show ?thesis
  proof (cases "length ?l \<le> n")
    case True
    then obtain e where s: "?s = ?l @ e" "e = [] \<or> e = [newline]"
      by (cases "n - length ?l") (auto simp: Encode_def)
    then have "stops e" by (auto simp: stops_def num_char_def is_digit_def byte_def newline_def)
    from parse_print_mutual(1) [OF assms(1) _ this, of "Suc (length ?s)"] s(1) have "pvalue (Suc (length ?s)) ?s = Some (JObj ms, e)" by simp
    with t show ?thesis by simp
  next
    case False
    let ?u = "print_members ms"
    have s: "?s = take n ?l" using False by (simp add: Encode_def del: json_print.simps)
    obtain m where n: "n = Suc m" using t by (cases n) auto
    have s': "?s = CHR ''{'' # take m ?u" by (simp only: s) (simp add: n)
    from t obtain p where p: "take m ?u = p @ t" "lexes (Out 1) p = Out 0"
      using pvalue_object_lexes [of "length ?s" "take m ?u" j t] s' by (auto simp del: pvalue.simps)
    have "lexes (Out 1) ?u = Out 0"
      using json_parse_object_lexes json_parse_print [OF assms(1)] by simp
    moreover have u: "?u = p @ (t @ drop m ?u)" using p(1) append_take_drop_id [of m ?u] by simp
    ultimately have "lexes (Out 0) (t @ drop m ?u) = Out 0" using p(2) by (metis foldl_append)
    then have "\<forall>c \<in> set (drop m ?u). is_ws c" using lexes_Out0 by fastforce
    moreover have "drop m ?u \<noteq> []" using False n by simp
    moreover from this have "last (drop m ?u) = CHR ''}''" using json_print_last [OF assms(1)] by (cases ?u) auto
    ultimately have "is_ws (CHR ''}'')" using last_in_set by metis
    then show ?thesis by simp
  qed
qed


lemma wf_wire_request: "wf_json (json_of_wire_request q)"
  using canonical_wire_request by (simp add: canonical_def)

text \<open>The messages the adapter sends.\<close>

definition sms_message :: "string \<Rightarrow> wire_request \<Rightarrow> bool" where
  "sms_message approver q \<longleftrightarrow>
     q = brokerSocketCaller_request ActionReviewApprove (wr_RequestID q) ''twilio'' approver ''approved via SMS''
   \<or> q = brokerSocketCaller_request ActionReviewDeny (wr_RequestID q) ''twilio'' approver ''sms_denial''"

lemma caller_request_utf8:
  "valid_utf8 act \<Longrightarrow> valid_utf8 rid \<Longrightarrow> valid_utf8 kind \<Longrightarrow> valid_utf8 approver \<Longrightarrow> valid_utf8 reason \<Longrightarrow>
   utf8_wire_request (brokerSocketCaller_request act rid kind approver reason)"
  by (simp add: brokerSocketCaller_request_def utf8_wire_request_def utf8_actor_def zero_wire_request_def)

lemma sms_message_utf8:
  assumes "sms_message approver q" "valid_utf8 approver" "valid_utf8 (wr_RequestID q)"
  shows "utf8_wire_request q"
proof -
  have "valid_utf8 ''twilio''" "valid_utf8 ''approved via SMS''" "valid_utf8 ''sms_denial''" "valid_utf8 ActionReviewApprove" "valid_utf8 ActionReviewDeny"
    by (simp_all add: byte_def)
  with assms caller_request_utf8 show ?thesis unfolding sms_message_def by metis
qed

lemma handler_message:
  "ir_Call (HandleInboundReply mac errtext deps env r ps) = Some q \<Longrightarrow> sms_message (dp_ApproverID deps) q"
  by (erule reply_calls) (auto simp: sms_message_def brokerSocketCaller_request_def zero_wire_request_def)

text \<open>What the server decodes from a connection that carries such a message, or the beginning of it.\<close>

lemma conn_asks_cut:
  assumes "cn_received c = take n (Encode (json_of_wire_request q0))" "utf8_wire_request q0" "(lane, q, peer) \<in> conn_asks c"
  shows "q = q0"
proof -
  obtain j where j: "Decode (cn_received c) = Some j" "dec_struct wire_request_fields j zero_wire_request = Some q"
    using assms(3) by (auto simp: conn_asks_def bind_eq_Some_conv)
  obtain ms where ms: "json_of_wire_request q0 = JObj ms" by (simp add: json_of_wire_request_def)
  have "j = JObj ms" by (rule Decode_cut [OF _ j(1) [unfolded assms(1) ms]]) (use wf_wire_request [of q0] ms in simp)
  with j(2) dec_wire_request [OF assms(2)] ms show ?thesis by simp
qed

section \<open>Steps of the deployment\<close>

text \<open>\<open>dp_drawn\<close> records the submissions the servers have drawn up.\<close>

record deployment =
  dp_server :: "run_state option"
  dp_disk :: string
  dp_adapter :: adapter_run
  dp_drawn :: submissions

datatype deploy_act =
    DServer run_act
  | DAdapter adapter_turn
  | DCrash
  | DStart "string \<Rightarrow> io" "string option"
  | DRestart

text \<open>A scan that opens the log reads it up to some byte.\<close>

definition reads_log :: "string \<Rightarrow> adapter_turn \<Rightarrow> bool" where
  "reads_log disk act \<longleftrightarrow> (\<forall>content seek readErr. act = TScan (Inr (Some content), seek, readErr) \<longrightarrow> (\<exists>k. content = take k disk))"

text \<open>A connection served on the review socket carries a message of the adapter, up to some byte.\<close>

definition reviewed_by_adapter :: "adapter_run \<Rightarrow> accepted \<Rightarrow> bool" where
  "reviewed_by_adapter x c \<longleftrightarrow> (cn_lane c = ''review'' \<longrightarrow>
     (\<exists>from q n. (from, q) \<in> ar_called x \<and> cn_received c = take n (Encode (json_of_wire_request q))))"

fun served_conns :: "run_state \<Rightarrow> run_act \<Rightarrow> accepted set" where
  "served_conns y (TurnServe i env) = {ru_conns y ! i}"
| "served_conns y (TurnLaunch i env) = {ru_conns y ! i}"
| "served_conns y _ = {}"

text \<open>
  The adapter stops at any point and is started again, with the same flags and files, on the audit log
  it left. What it has announced and called is history, and stays.
\<close>

definition resumed :: "adapter_flags \<Rightarrow> adapter \<Rightarrow> adapter_run \<Rightarrow> adapter_run" where
  "resumed af ad x = (serving af ad)\<lparr>ar_announced := ar_announced x, ar_called := ar_called x\<rparr>"

lemma resumed_history [simp]: "ar_announced (resumed af ad x) = ar_announced x" "ar_called (resumed af ad x) = ar_called x"
  by (simp_all add: resumed_def)

inductive deploy_step ::
    "(string \<Rightarrow> string) \<Rightarrow> (string \<Rightarrow> string \<Rightarrow> string) \<Rightarrow> (go_error \<Rightarrow> string) \<Rightarrow> (string \<Rightarrow> string) \<Rightarrow> 32 word \<Rightarrow> sudod_flags \<Rightarrow>
     adapter_flags \<Rightarrow> adapter_files \<Rightarrow> deployment \<Rightarrow> deploy_act \<Rightarrow> deployment \<Rightarrow> bool" for sha mac errtext decodeErr euid fl af fx where
  d_server: "dp_server z = Some y \<Longrightarrow> ok_turn sha errtext decodeErr y act y' \<Longrightarrow>
     (\<And>c. c \<in> served_conns y act \<Longrightarrow> reviewed_by_adapter (dp_adapter z) c) \<Longrightarrow>
     deploy_step sha mac errtext decodeErr euid fl af fx z (DServer act)
       (z\<lparr>dp_server := Some y', dp_disk := lg_file (sv_log (sr_service (ru_server y'))), dp_drawn := dp_drawn z \<union> drawn sha y act\<rparr>)"
| d_adapter: "adapter_turns mac errtext decodeErr (dp_adapter z) act x' \<Longrightarrow> reads_log (dp_disk z) act \<Longrightarrow>
     deploy_step sha mac errtext decodeErr euid fl af fx z (DAdapter act) (z\<lparr>dp_adapter := x'\<rparr>)"
| d_crash: "deploy_step sha mac errtext decodeErr euid fl af fx z DCrash (z\<lparr>dp_server := None\<rparr>)"
| d_start: "dp_server z = None \<Longrightarrow> sudod_start sha ws hostname euid (\<lambda>_. Inr ()) (\<lambda>_. Inr (dp_disk z)) fl = Inr srv \<Longrightarrow>
     deploy_step sha mac errtext decodeErr euid fl af fx z (DStart ws hostname)
       (z\<lparr>dp_server := Some (Run_start srv), dp_disk := lg_file (sv_log (sr_service srv))\<rparr>)"
| d_failed_start: "dp_server z = None \<Longrightarrow> NewLog sha (Inr ()) (Inr (dp_disk z)) = Inr l \<Longrightarrow>
     NewService sha ws LocalExecutor_Name DefaultTTL hostname l = (Inl err, l') \<Longrightarrow>
     deploy_step sha mac errtext decodeErr euid fl af fx z (DStart ws hostname) (z\<lparr>dp_disk := lg_file l'\<rparr>)"
| d_restart: "ps_audit (ad_pending (ar_ad (dp_adapter z))) = Some a \<Longrightarrow>
     adapter_start af (fx\<lparr>ax_audit := Inr (al_file a), ax_replay := Inr (Some (al_file a))\<rparr>) = Inr ad \<Longrightarrow>
     deploy_step sha mac errtext decodeErr euid fl af fx z DRestart (z\<lparr>dp_adapter := resumed af ad (dp_adapter z)\<rparr>)"

definition deployed :: "adapter_flags \<Rightarrow> adapter \<Rightarrow> deployment" where
  "deployed af ad = \<lparr>dp_server = None, dp_disk = [], dp_adapter = serving af ad, dp_drawn = {}\<rparr>"

section \<open>The invariant\<close>

text \<open>The configuration of the sockets; only the service of the server changes.\<close>

definition gate_of :: "32 word \<Rightarrow> sudod_flags \<Rightarrow> server" where
  "gate_of euid fl = NewServer \<lparr>sv_log = \<lparr>lg_file = [], lg_lastHash = []\<rparr>, sv_projection = New, sv_executor = [], sv_ttl = 0, sv_hostname = []\<rparr>
     (sf_requestSocket fl) (sf_reviewSocket fl) (parseIDs euid (sf_reviewUIDs fl)) (parseIDs euid (sf_reviewGIDs fl))"

definition matches :: "(string \<Rightarrow> string) \<Rightarrow> server \<Rightarrow> deployment \<Rightarrow> gate_sys \<Rightarrow> bool" where
  "matches sha srv z g \<longleftrightarrow> gate_inv sha srv g \<and> disk_written sha (fst g) \<and> sy_disk (fst g) = dp_disk z
     \<and> sy_submitted (fst g) \<subseteq> dp_drawn z
     \<and> (case dp_server z of None \<Rightarrow> sy_service (fst g) = None \<and> sy_running (fst g) = [] | Some y \<Rightarrow> mirrors srv y g)
     \<and> (\<forall>p \<in> ar_announced (dp_adapter z). \<exists>r. (pr_RequestID p, r) \<in> sy_submitted (fst g) \<and> p = pending_of r)
     \<and> (\<forall>q peer. (''review'', q, peer) \<in> snd g \<longrightarrow> (\<exists>from. (from, q) \<in> ar_called (dp_adapter z)))"

definition adapter_side ::
    "(string \<Rightarrow> string \<Rightarrow> string) \<Rightarrow> (go_error \<Rightarrow> string) \<Rightarrow> (string \<Rightarrow> string) \<Rightarrow> adapter_conf \<Rightarrow> adapter_run \<Rightarrow> bool" where
  "adapter_side mac errtext decodeErr cf x \<longleftrightarrow> (\<exists>a. adapter_inv cf a \<and> follows mac errtext decodeErr cf x a)
     \<and> kept (entitled cf (ar_announced x)) (ad_pending (ar_ad x))
     \<and> (\<forall>(from, q) \<in> ar_called x. sms_message (dp_ApproverID (ac_deps cf)) q)"

definition deploy_inv ::
    "(string \<Rightarrow> string) \<Rightarrow> (string \<Rightarrow> string \<Rightarrow> string) \<Rightarrow> (go_error \<Rightarrow> string) \<Rightarrow> (string \<Rightarrow> string) \<Rightarrow> 32 word \<Rightarrow> sudod_flags \<Rightarrow>
     adapter_flags \<Rightarrow> adapter_files \<Rightarrow> adapter_conf \<Rightarrow> deployment \<Rightarrow> bool" where
  "deploy_inv sha mac errtext decodeErr euid fl af fx cf z \<longleftrightarrow> adapter_side mac errtext decodeErr cf (dp_adapter z)
     \<and> (\<exists>ad. adapter_start af fx = Inr ad \<and> cf = conf_of mac errtext decodeErr af ad)
     \<and> (\<forall>name. list_all valid_utf8 (LookupRecipients (ac_policy cf) name))
     \<and> valid_utf8 (dp_ApproverID (ac_deps cf)) \<and> (\<exists>g. matches sha (gate_of euid fl) z g)"

subsection \<open>The adapter's turns\<close>

lemmas turn_defs = adapter_turn_def scan_turn_def route_turn_def claim_turn_def settle_turn_def reply_turn_def call_turn_def
  answer_turn_def set_pending_def Let_def

lemmas turn_splits = if_splits prod.splits bool.splits tail_stage.splits list.splits option.splits

lemma turn_called:
  assumes "adapter_turns mac errtext decodeErr x act x'" "(phone, q) \<in> ar_called x'"
  shows "(phone, q) \<in> ar_called x \<or> (\<exists>r env. (act = TReply r env \<or> act = TCall r env) \<and> phone = sender (inbound_of r)
    \<and> ir_Call (HandleInboundReply mac errtext (ad_deps (ar_ad x)) env (inbound_of r) (ad_pending (ar_ad x))) = Some q)"
  using assms
  by (cases act)
     (auto simp: turn_defs split: turn_splits)

lemma turn_announced:
  assumes "adapter_turns mac errtext decodeErr x act x'" "p \<in> ar_announced x'"
  shows "p \<in> ar_announced x \<or> (\<exists>src seek readErr. act = TScan (src, seek, readErr)
    \<and> p \<in> set (fst (fst (snd (scanOnce src seek readErr (ad_tailer (ar_ad x)))))))"
  using assms
  by (cases act)
     (auto simp: turn_defs split: turn_splits)

lemma turn_called_grows: "adapter_turns mac errtext decodeErr x act x' \<Longrightarrow> ar_called x \<subseteq> ar_called x'"
  by (cases act)
     (auto simp: turn_defs split: turn_splits)

lemma scan_none: "p \<in> set (fst (fst (snd (scanOnce src seek readErr t)))) \<Longrightarrow> \<exists>content. src = Inr (Some content)"
  by (auto simp: scanOnce_def split: sum.splits option.splits)

lemma adapter_side_turn:
  assumes "adapter_side mac errtext decodeErr cf x" "adapter_turns mac errtext decodeErr x act x'"
    and "texts (entitled cf (ar_announced x'))"
  shows "adapter_side mac errtext decodeErr cf x'"
proof -
  obtain a where a: "adapter_inv cf a" "follows mac errtext decodeErr cf x a" using assms(1) by (auto simp: adapter_side_def)
  obtain acts a' where a': "run (adapter_step cf) a acts a'" "follows mac errtext decodeErr cf x' a'"
    using adapter_turn_follows [OF assms(2) a(2)] by blast
  have "adapter_inv cf a'" by (rule ad.inv_run_from [OF a'(1) a(1)])
  moreover have "ad_deps (ar_ad x) = ac_deps cf" using a(2) by (auto simp: follows_def conf_of_def)
  then have "sms_message (dp_ApproverID (ac_deps cf)) q" if "(phone, q) \<in> ar_called x'" for phone q
    using turn_called [OF assms(2) that] handler_message assms(1) by (fastforce simp: adapter_side_def)
  moreover have "kept (entitled cf (ar_announced x')) (ad_pending (ar_ad x'))"
    using turn_kept [OF assms(2) _ _ _ assms(3)] a(2) assms(1) by (simp add: adapter_side_def follows_def)
  ultimately show ?thesis using a'(2) by (auto simp: adapter_side_def)
qed

text \<open>Started again on its audit log, the adapter knows only claims its phones are entitled to.\<close>

lemma adapter_side_restart:
  assumes "adapter_side mac errtext decodeErr cf x" "adapter_start af fx = Inr ad0" "cf = conf_of mac errtext decodeErr af ad0"
    and "ps_audit (ad_pending (ar_ad x)) = Some a"
    and "adapter_start af (fx\<lparr>ax_audit := Inr (al_file a), ax_replay := Inr (Some (al_file a))\<rparr>) = Inr ad"
  shows "adapter_side mac errtext decodeErr cf (resumed af ad x)"
proof -
  obtain g where g: "adapter_inv cf g" "follows mac errtext decodeErr cf x g" and k: "kept (entitled cf (ar_announced x)) (ad_pending (ar_ad x))"
    using assms(1) by (auto simp: adapter_side_def)
  note r = restart_kept [OF assms(2) k assms(4,5)]
  let ?g = "\<lparr>as_pending = ad_pending ad, as_announced = ar_announced x, as_calls = ar_called x\<rparr>"
  have "adapter_inv cf ?g"
    using g r(2) entitled_mono by (fastforce simp: adapter_inv_def follows_def kept_def)
  moreover have "follows mac errtext decodeErr cf (resumed af ad x) ?g"
    using r(1) [of mac errtext decodeErr] by (simp add: follows_def resumed_def serving_def assms(3))
  ultimately show ?thesis using r(2) assms(1) by (auto simp: adapter_side_def resumed_def serving_def)
qed

text \<open>The phones of the policy and the ids of announced requests are valid UTF-8.\<close>

lemma announced_texts:
  assumes "\<forall>name. list_all valid_utf8 (LookupRecipients (ac_policy cf) name)"
    and "\<forall>p \<in> A. \<exists>r. (pr_RequestID p, r) \<in> subs \<and> p = pending_of r" "subs_ok subs"
  shows "texts (entitled cf A)"
proof -
  have "valid_utf8 phone \<and> valid_utf8 rid" if e: "entitled cf A phone rid" for phone rid
  proof -
    from e assms(2) obtain p r where "p \<in> A" "(pr_RequestID p, r) \<in> subs" "pr_RequestID p = rid"
      "phone \<in> set (LookupRecipients (ac_policy cf) (pr_Requester p))" by (fastforce simp: entitled_def)
    with assms(1,3) show ?thesis by (auto simp: subs_ok_def utf8_request_def list_all_iff)
  qed
  then show ?thesis by (simp add: texts_def)
qed

text \<open>The texts of a message the adapter has sent are valid UTF-8.\<close>

lemma called_utf8:
  assumes "adapter_side mac errtext decodeErr cf x" "valid_utf8 (dp_ApproverID (ac_deps cf))" "(from, q) \<in> ar_called x"
    and "\<forall>p \<in> ar_announced x. \<exists>r. (pr_RequestID p, r) \<in> subs \<and> p = pending_of r" "subs_ok subs"
  shows "utf8_wire_request q"
proof -
  obtain a where a: "adapter_inv cf a" "follows mac errtext decodeErr cf x a" using assms(1) by (auto simp: adapter_side_def)
  with assms(3) obtain p where "p \<in> ar_announced x" "pr_RequestID p = wr_RequestID q"
    by (fastforce simp: adapter_inv_def follows_def entitled_def)
  with assms(4) obtain r where r: "(wr_RequestID q, r) \<in> subs" by metis
  have "valid_utf8 (wr_RequestID q)" using r assms(5) by (auto simp: subs_ok_def utf8_request_def)
  with sms_message_utf8 assms(1-3) show ?thesis by (auto simp: adapter_side_def)
qed

subsection \<open>The steps of the server\<close>

lemma gate_run_written: "run (gstep sha srv) g acts g' \<Longrightarrow> disk_written sha (fst g) \<Longrightarrow> disk_written sha (fst g')"
proof (induction rule: run.induct)
  case (run_snoc g acts h act g')
  then show ?case by (auto elim!: gstep.cases intro: dw.inv_step)
qed simp

lemma gate_run_grows: "run (gstep sha srv) g acts g' \<Longrightarrow> sy_submitted (fst g) \<subseteq> sy_submitted (fst g')"
  by (induction rule: run.induct) (auto dest: gstep_submitted_grows)

lemma gate_disk: "gate_inv sha srv g \<Longrightarrow> sy_service (fst g) = Some s \<Longrightarrow> sy_disk (fst g) = lg_file (sv_log s)"
  by (simp add: gate_inv_def sys_inv_def)

lemma asked_served: "asked y act \<subseteq> \<Union> (conn_asks ` served_conns y act)"
  by (cases act) auto

lemma matches_server:
  assumes "matches sha srv z g" "dp_server z = Some y" "ok_turn sha errtext decodeErr y act y'"
    and "\<And>c. c \<in> served_conns y act \<Longrightarrow> reviewed_by_adapter (dp_adapter z) c"
    and "adapter_side mac errtext decodeErr cf (dp_adapter z)" "valid_utf8 (dp_ApproverID (ac_deps cf))"
  shows "\<exists>g'. matches sha srv (z\<lparr>dp_server := Some y', dp_disk := lg_file (sv_log (sr_service (ru_server y'))),
           dp_drawn := dp_drawn z \<union> drawn sha y act\<rparr>) g'"
proof -
  have m: "mirrors srv y g" "gate_inv sha srv g" "disk_written sha (fst g)" "sy_submitted (fst g) \<subseteq> dp_drawn z"
    and ann: "\<forall>p \<in> ar_announced (dp_adapter z). \<exists>r. (pr_RequestID p, r) \<in> sy_submitted (fst g) \<and> p = pending_of r"
    and rev: "\<forall>q peer. (''review'', q, peer) \<in> snd g \<longrightarrow> (\<exists>from. (from, q) \<in> ar_called (dp_adapter z))"
    using assms(1,2) by (auto simp: matches_def)
  obtain acts g' where g': "run (gstep sha srv) g acts g'" "adds (asked y act) (drawn sha y act) g g'" "mirrors srv y' g'"
    using turn_mirrors [OF assms(3) m(1)] by blast
  have inv: "gate_inv sha srv g'" by (rule gs.inv_run_from [OF g'(1) m(2)])
  have sv: "sy_service (fst g') = Some (sr_service (ru_server y'))" using g'(3) by (simp add: mirrors_def)
  have subs: "subs_ok (sy_submitted (fst g))" using m(2) by (simp add: gate_inv_def sys_inv_def)
  have "\<exists>from. (from, q) \<in> ar_called (dp_adapter z)" if c: "(''review'', q, peer) \<in> snd g'" for q peer
  proof (cases "(''review'', q, peer) \<in> snd g")
    case True
    with rev show ?thesis by blast
  next
    case False
    with c g'(2) asked_served [of y act] obtain c where c: "c \<in> served_conns y act" "(''review'', q, peer) \<in> conn_asks c"
      by (auto simp: adds_def)
    then have "cn_lane c = ''review''" by (auto simp: conn_asks_def)
    with assms(4) [OF c(1)] obtain phone q0 n where q0: "(phone, q0) \<in> ar_called (dp_adapter z)"
      "cn_received c = take n (Encode (json_of_wire_request q0))" by (auto simp: reviewed_by_adapter_def)
    have "q = q0" by (rule conn_asks_cut [OF q0(2) called_utf8 [OF assms(5,6) q0(1) ann subs] c(2)])
    with q0(1) show ?thesis by blast
  qed
  moreover have "\<forall>p \<in> ar_announced (dp_adapter z). \<exists>r. (pr_RequestID p, r) \<in> sy_submitted (fst g') \<and> p = pending_of r"
    using ann gate_run_grows [OF g'(1)] by blast
  moreover have "sy_submitted (fst g') \<subseteq> dp_drawn z \<union> drawn sha y act" using g'(2) m(4) by (auto simp: adds_def)
  ultimately show ?thesis
    using inv gate_run_written [OF g'(1) m(3)] gate_disk [OF inv sv] g'(3) by (intro exI [of _ g']) (simp add: matches_def)
qed

text \<open>One step of the broker's machine that comes from inside the server's process.\<close>

lemma matches_internal:
  assumes "matches sha srv z g" "internal act" "step sha (fst g) act y'"
    and "sy_disk y' = dp_disk z'" "sy_submitted y' = sy_submitted (fst g)" "dp_drawn z' = dp_drawn z" "dp_adapter z' = dp_adapter z"
    and "case dp_server z' of None \<Rightarrow> sy_service y' = None \<and> sy_running y' = [] | Some y \<Rightarrow> mirrors srv y (y', snd g)"
  shows "matches sha srv z' (y', snd g)"
proof -
  have st: "gstep sha srv (fst g, snd g) act (y', snd g)" by (rule g_internal [OF assms(2,3)])
  have "gate_inv sha srv (y', snd g)" by (rule gate_inv_step [OF _ st]) (use assms(1) in \<open>simp add: matches_def\<close>)
  moreover have "disk_written sha y'" using assms(1,3) dw.inv_step by (auto simp: matches_def)
  ultimately show ?thesis using assms(1,4-8) by (simp add: matches_def split: option.splits)
qed

lemma matches_crash:
  assumes "matches sha srv z g"
  shows "\<exists>g'. matches sha srv (z\<lparr>dp_server := None\<rparr>) g'"
proof -
  let ?y' = "(fst g)\<lparr>sy_service := None, sy_running := []\<rparr>"
  have "sy_disk (fst g) = dp_disk z" using assms by (simp add: matches_def)
  then have "matches sha srv (z\<lparr>dp_server := None\<rparr>) (?y', snd g)"
    by (intro matches_internal [OF assms _ step.crash]) simp_all
  then show ?thesis by blast
qed

lemma matches_start:
  assumes "matches sha (gate_of euid fl) z g" "dp_server z = None"
    and "sudod_start sha ws hostname euid (\<lambda>_. Inr ()) (\<lambda>_. Inr (dp_disk z)) fl = Inr srv"
  shows "\<exists>g'. matches sha (gate_of euid fl) (z\<lparr>dp_server := Some (Run_start srv), dp_disk := lg_file (sv_log (sr_service srv))\<rparr>) g'"
proof -
  obtain l s l' where l: "NewLog sha (Inr ()) (Inr (dp_disk z)) = Inr l" "NewService sha ws LocalExecutor_Name DefaultTTL hostname l = (Inr s, l')"
    and srv: "srv = NewServer s (sf_requestSocket fl) (sf_reviewSocket fl) (parseIDs euid (sf_reviewUIDs fl)) (parseIDs euid (sf_reviewGIDs fl))"
  proof -
    obtain l where l: "NewLog sha (Inr ()) (Inr (dp_disk z)) = Inr l"
      and n: "(case NewService sha ws LocalExecutor_Name DefaultTTL hostname l of
         (Inl err, _) \<Rightarrow> Inl err
       | (Inr s, _) \<Rightarrow> Inr (NewServer s (sf_requestSocket fl) (sf_reviewSocket fl)
           (parseIDs euid (sf_reviewUIDs fl)) (parseIDs euid (sf_reviewGIDs fl)))) = Inr srv"
      using assms(3) by (auto simp: sudod_start_def result_bind_eq_Inr)
    obtain r l' where r: "NewService sha ws LocalExecutor_Name DefaultTTL hostname l = (r, l')" by fastforce
    with n show thesis by (cases r) (auto intro: that l)
  qed
  have y: "sy_service (fst g) = None" "sy_running (fst g) = []" "sy_disk (fst g) = dp_disk z"
    using assms(1,2) by (simp_all add: matches_def)
  let ?y' = "with_service s (fst g)"
  have st: "step sha (fst g) (ARestart ws LocalExecutor_Name DefaultTTL hostname) ?y'"
    using step.restart [OF y(1) _ l(2)] l(1) y(3) by simp
  have "mirrors (gate_of euid fl) (Run_start srv) (?y', snd g)"
    using y(2) by (simp add: mirrors_def with_service_def Run_start_def srv gate_of_def NewServer_def)
  moreover have "sr_service srv = s" by (simp add: srv NewServer_def)
  ultimately show ?thesis
    by (intro exI [of _ "(?y', snd g)"] matches_internal [OF assms(1) _ st]) (simp_all add: with_service_def)
qed

lemma matches_failed_start:
  assumes "matches sha srv z g" "dp_server z = None" "NewLog sha (Inr ()) (Inr (dp_disk z)) = Inr l"
    and "NewService sha ws LocalExecutor_Name DefaultTTL hostname l = (Inl err, l')"
  shows "\<exists>g'. matches sha srv (z\<lparr>dp_disk := lg_file l'\<rparr>) g'"
proof -
  have y: "sy_service (fst g) = None" "sy_running (fst g) = []" "sy_disk (fst g) = dp_disk z"
    using assms(1,2) by (simp_all add: matches_def)
  have st: "step sha (fst g) (ARestart ws LocalExecutor_Name DefaultTTL hostname) ((fst g)\<lparr>sy_disk := lg_file l'\<rparr>)"
    using step.failed_restart [OF y(1) _ assms(4)] assms(3) y(3) by simp
  show ?thesis
    by (intro exI [of _ "((fst g)\<lparr>sy_disk := lg_file l'\<rparr>, snd g)"] matches_internal [OF assms(1) _ st]) (simp_all add: assms(2) y)
qed

lemma matches_adapter:
  assumes "matches sha srv z g" "adapter_turns mac errtext decodeErr (dp_adapter z) act x'" "reads_log (dp_disk z) act"
  shows "matches sha srv (z\<lparr>dp_adapter := x'\<rparr>) g"
proof -
  have "\<exists>r. (pr_RequestID p, r) \<in> sy_submitted (fst g) \<and> p = pending_of r" if p: "p \<in> ar_announced x'" for p
    using turn_announced [OF assms(2) p]
  proof (elim disjE exE conjE)
    assume "p \<in> ar_announced (dp_adapter z)"
    with assms(1) show ?thesis by (auto simp: matches_def)
  next
    fix src seek readErr
    assume act: "act = TScan (src, seek, readErr)" and s: "p \<in> set (fst (fst (snd (scanOnce src seek readErr (ad_tailer (ar_ad (dp_adapter z)))))))"
    from scan_none [OF s] obtain content where c: "src = Inr (Some content)" by blast
    with act assms(3) obtain k where "content = take k (dp_disk z)" by (auto simp: reads_log_def)
    with assms(1) have "disk_written sha (fst g)" "sublist content (sy_disk (fst g))" by (simp_all add: matches_def)
    from scan_of_disk [OF this] s c show ?thesis by simp
  qed
  with assms(1) turn_called_grows [OF assms(2)] show ?thesis by (fastforce simp: matches_def)
qed

lemma deploy_inv_step:
  assumes "deploy_inv sha mac errtext decodeErr euid fl af fx cf z" "deploy_step sha mac errtext decodeErr euid fl af fx z act z'"
  shows "deploy_inv sha mac errtext decodeErr euid fl af fx cf z'"
proof -
  obtain g where g: "matches sha (gate_of euid fl) z g" and a: "adapter_side mac errtext decodeErr cf (dp_adapter z)"
    and u: "valid_utf8 (dp_ApproverID (ac_deps cf))" using assms(1) by (auto simp: deploy_inv_def)
  obtain ad0 where ad0: "adapter_start af fx = Inr ad0" "cf = conf_of mac errtext decodeErr af ad0"
    and phones: "\<forall>name. list_all valid_utf8 (LookupRecipients (ac_policy cf) name)" using assms(1) by (auto simp: deploy_inv_def)
  have texts: "texts (entitled cf (ar_announced (dp_adapter z)))" if "matches sha (gate_of euid fl) z g" for z g
    using announced_texts [OF phones] that by (auto simp: matches_def gate_inv_def sys_inv_def)
  from assms(2) show ?thesis
  proof cases
    case (d_server y act y')
    from matches_server [OF g d_server(3,4,5) a u] a u ad0 phones show ?thesis by (auto simp: deploy_inv_def d_server(2))
  next
    case (d_adapter act x')
    note m = matches_adapter [OF g d_adapter(3,4)]
    have "adapter_side mac errtext decodeErr cf x'" using adapter_side_turn [OF a d_adapter(3)] texts [OF m] by simp
    with m u ad0 phones show ?thesis unfolding d_adapter(2) deploy_inv_def by (simp del: split_paired_Ex) blast
  next
    case d_crash
    with matches_crash [OF g] a u ad0 phones show ?thesis by (auto simp: deploy_inv_def)
  next
    case (d_start ws hostname srv)
    from matches_start [OF g d_start(3,4)] a u ad0 phones show ?thesis by (auto simp: deploy_inv_def d_start(2))
  next
    case (d_failed_start l ws hostname err l')
    from matches_failed_start [OF g d_failed_start(3-5)] a u ad0 phones show ?thesis by (auto simp: deploy_inv_def d_failed_start(2))
  next
    case (d_restart b ad)
    have "matches sha (gate_of euid fl) (z\<lparr>dp_adapter := resumed af ad (dp_adapter z)\<rparr>) g"
      using g by (simp add: matches_def resumed_def)
    with adapter_side_restart [OF a ad0 d_restart(3,4)] u ad0 phones show ?thesis
      unfolding d_restart(2) deploy_inv_def by (simp del: split_paired_Ex) blast
  qed
qed

lemma deploy_inv_start:
  assumes "adapter_start af fx = Inr ad" "ax_audit fx = Inr []" "ax_replay fx = Inr (Some [])" "valid_utf8 (af_approverID af)"
    and "\<forall>name. list_all valid_utf8 (LookupRecipients (ad_policy ad) name)"
  shows "deploy_inv sha mac errtext decodeErr euid fl af fx (conf_of mac errtext decodeErr af ad) (deployed af ad)"
proof -
  let ?cf = "conf_of mac errtext decodeErr af ad"
  obtain audit where ad: "ad_pending ad = NewPendingSet (af_pendingTTL af) (Some audit)" "dp_ApproverID (ad_deps ad) = af_approverID af"
    using assms(1,3) by (auto simp: adapter_start_def result_bind_eq_Inr ReplayFromAudit_def NewPendingSet_def
        read_lines_def replay_row_def Let_def)
  let ?a = "\<lparr>as_pending = ad_pending ad, as_announced = {}, as_calls = {}\<rparr>"
  have "adapter_inv ?cf ?a" by (rule ad.inv_start) (auto simp: ad)
  moreover have "follows mac errtext decodeErr ?cf (serving af ad) ?a" by (simp add: follows_def serving_def)
  ultimately have "adapter_side mac errtext decodeErr ?cf (serving af ad)"
    using start_kept [OF assms(1-3)] by (auto simp: adapter_side_def serving_def)
  moreover have "matches sha (gate_of euid fl) (deployed af ad) (fresh_sys, {})"
    using gs.inv_start [OF refl, of sha "gate_of euid fl"] disk_written_fresh [of sha]
    by (simp add: matches_def deployed_def serving_def) (simp add: fresh_sys_def)
  ultimately show ?thesis using assms(1,4,5) ad(2) by (auto simp: deploy_inv_def deployed_def conf_of_def)
qed

interpretation dm: machine
    "\<lambda>z. \<exists>ad. z = deployed af ad \<and> cf = conf_of mac errtext decodeErr af ad \<and> adapter_start af fx = Inr ad
       \<and> ax_audit fx = Inr [] \<and> ax_replay fx = Inr (Some []) \<and> valid_utf8 (af_approverID af)
       \<and> (\<forall>name. list_all valid_utf8 (LookupRecipients (ad_policy ad) name))"
    "deploy_step sha mac errtext decodeErr euid fl af fx" "deploy_inv sha mac errtext decodeErr euid fl af fx cf"
    for sha mac errtext decodeErr euid fl af fx cf
  by unfold_locales (use deploy_inv_start in blast, use deploy_inv_step in blast)

section \<open>The end-to-end property\<close>

text \<open>An approval is sent only for a signed reply of a phone whose live slot holds the request.\<close>

lemma approving_call:
  assumes "ir_Call (HandleInboundReply mac errtext deps env r ps) = Some q" "wr_Action q = ActionReviewApprove"
  obtains fm e code v where "in_PostForm r = Inr fm" "ValidateTwilioSignature mac (dp_AuthToken deps) (dp_PublicURL deps) fm (in_Signature r)"
    "live (fst (rp_resolve env)) (form_Get fm ''From'') ps e" "pe_RequestID e = wr_RequestID q"
    "ParseReplyIntent (form_Get fm ''Body'') = (ReplyIntentApprove, code)" "rp_check env (form_Get fm ''From'') code = (v, None)" "vr_Approved v"
  using assms by (auto elim!: reply_calls simp: brokerSocketCaller_request_def zero_wire_request_def)

text \<open>
  Every message the adapter has sent was sent for a reply it handled in the run, at a turn where its
  handler, on the pending set of that moment, called the broker with this message.
\<close>

definition handled_for ::
    "(string \<Rightarrow> string \<Rightarrow> string) \<Rightarrow> (go_error \<Rightarrow> string) \<Rightarrow> inbound_deps \<Rightarrow> (deployment \<Rightarrow> deploy_act \<Rightarrow> deployment \<Rightarrow> bool) \<Rightarrow>
     deployment \<Rightarrow> deploy_act list \<Rightarrow> string \<Rightarrow> wire_request \<Rightarrow> bool" where
  "handled_for mac errtext deps dstep z acts phone q \<longleftrightarrow> (\<exists>r env as1 act as2 z1. acts = as1 @ DAdapter act # as2 \<and> run dstep z as1 z1
     \<and> (act = TReply r env \<or> act = TCall r env) \<and> phone = sender (inbound_of r)
     \<and> ir_Call (HandleInboundReply mac errtext deps env (inbound_of r) (ad_pending (ar_ad (dp_adapter z1)))) = Some q)"

lemma handled_for_mono:
  assumes "handled_for mac errtext deps dstep z acts phone q"
  shows "handled_for mac errtext deps dstep z (acts @ [act]) phone q"
proof -
  from assms obtain r env as1 b as2 z1 where h: "acts = as1 @ DAdapter b # as2" "run dstep z as1 z1" "b = TReply r env \<or> b = TCall r env"
    "phone = sender (inbound_of r)" "ir_Call (HandleInboundReply mac errtext deps env (inbound_of r) (ad_pending (ar_ad (dp_adapter z1)))) = Some q"
    unfolding handled_for_def by (elim exE conjE)
  have "acts @ [act] = as1 @ DAdapter b # (as2 @ [act])" by (simp add: h(1))
  with h(2-5) show ?thesis unfolding handled_for_def by (intro exI conjI)
qed

lemma called_handled:
  fixes mac :: "string \<Rightarrow> string \<Rightarrow> string"
  defines "st \<equiv> \<lambda>sha decodeErr errtext euid fl af fx. deploy_step sha mac errtext decodeErr euid fl af fx"
  assumes "run (st sha decodeErr errtext euid fl af fx) z acts z'" "deploy_inv sha mac errtext decodeErr euid fl af fx cf z"
    and "(phone, q) \<in> ar_called (dp_adapter z')"
  shows "(phone, q) \<in> ar_called (dp_adapter z)
    \<or> handled_for mac errtext (ac_deps cf) (st sha decodeErr errtext euid fl af fx) z acts phone q"
  using assms(2-)
proof (induction rule: run.induct)
  case (run_snoc z acts z1 act z2)
  show ?case
  proof (cases "(phone, q) \<in> ar_called (dp_adapter z1)")
    case True
    with run_snoc handled_for_mono show ?thesis by blast
  next
    case False
    from run_snoc.hyps(2) [unfolded st_def] run_snoc.prems(2) False
    obtain b x' where b: "act = DAdapter b" "adapter_turns mac errtext decodeErr (dp_adapter z1) b x'"
      "(phone, q) \<in> ar_called x'" by (cases rule: deploy_step.cases) auto
    have "deploy_inv sha mac errtext decodeErr euid fl af fx cf z1"
      by (rule dm.inv_run_from [OF run_snoc.hyps(1) [unfolded st_def] run_snoc.prems(1)])
    then have "ad_deps (ar_ad (dp_adapter z1)) = ac_deps cf" by (auto simp: deploy_inv_def adapter_side_def follows_def conf_of_def)
    with turn_called [OF b(2,3)] False obtain r env where r: "b = TReply r env \<or> b = TCall r env" "phone = sender (inbound_of r)"
      "ir_Call (HandleInboundReply mac errtext (ac_deps cf) env (inbound_of r) (ad_pending (ar_ad (dp_adapter z1)))) = Some q" by auto
    have "acts @ [act] = acts @ DAdapter b # []" by (simp add: b(1))
    with r run_snoc.hyps(1) have "handled_for mac errtext (ac_deps cf) (st sha decodeErr errtext euid fl af fx) z (acts @ [act]) phone q"
      unfolding handled_for_def by (intro exI conjI)
    then show ?thesis ..
  qed
qed simp

text \<open>
  C4 (approval from the requester's phones, as both daemons run). Start the adapter on an empty audit
  log beside a server on an empty event log. Three premises concern the deployment: the adapter is the
  only process that connects to the review socket (no code enforces this; a local approval with
  request-sudoctl by another reviewer is outside the theorem), its approver id and the phones of its
  policy are valid UTF-8, and no two submissions draw the same random id. Usernames and the host name
  are valid UTF-8 and clocks lie in the years that Go prints.
  Then in every interleaving of the goroutines of both, with any bytes on the request socket and any webhook
  requests, with file operations that fail or tear lines in both logs, crashes and restarts of both
  daemons, connections cut off and scans that end inside a line: for a command the server is running
  under the id rid there was a turn of the adapter in this run that handled a signed text message from
  a phone whose live verification was for rid; the message was an approval with a code that
  Twilio approved for this phone; the phone is one that the policy routes to the requester on record of
  rid and lies in an allowed country; and what the handler then sent to the broker was the approval of rid.
\<close>

theorem running_commands_were_approved_by_phone:
  assumes "adapter_start af fx = Inr ad" "ax_audit fx = Inr []" "ax_replay fx = Inr (Some [])" "valid_utf8 (af_approverID af)"
    and "\<forall>name. list_all valid_utf8 (LookupRecipients (ad_policy ad) name)"
    and "run (deploy_step sha mac errtext decodeErr euid fl af fx) (deployed af ad) acts z"
    and "dp_server z = Some y" "(rid, req) \<in> set (ru_running y)" "inj_on fst (dp_drawn z)"
  shows "\<exists>phone r env fm code v e q as1 act as2 z1. acts = as1 @ DAdapter act # as2 \<and> (act = TReply r env \<or> act = TCall r env)
    \<and> run (deploy_step sha mac errtext decodeErr euid fl af fx) (deployed af ad) as1 z1
    \<and> in_PostForm (inbound_of r) = Inr fm \<and> phone = form_Get fm ''From''
    \<and> ValidateTwilioSignature mac (dp_AuthToken (ad_deps ad)) (dp_PublicURL (ad_deps ad)) fm (in_Signature (inbound_of r))
    \<and> live (fst (rp_resolve env)) phone (ad_pending (ar_ad (dp_adapter z1))) e \<and> pe_RequestID e = rid
    \<and> ParseReplyIntent (form_Get fm ''Body'') = (ReplyIntentApprove, code)
    \<and> rp_check env phone code = (v, None) \<and> vr_Approved v
    \<and> ir_Call (HandleInboundReply mac errtext (ad_deps ad) env (inbound_of r) (ad_pending (ar_ad (dp_adapter z1)))) = Some q
    \<and> wr_Action q = ActionReviewApprove \<and> wr_RequestID q = rid
    \<and> phone \<in> set (LookupRecipients (ad_policy ad) (requester_name (req_Requester req))) \<and> IsAllowedCountry phone (ad_codes ad)"
proof -
  let ?cf = "conf_of mac errtext decodeErr af ad"
  have start: "deploy_inv sha mac errtext decodeErr euid fl af fx ?cf (deployed af ad)" by (rule deploy_inv_start [OF assms(1-5)])
  have "deploy_inv sha mac errtext decodeErr euid fl af fx ?cf z" by (rule dm.inv_run_from [OF assms(6) start])
  then obtain g a where g: "matches sha (gate_of euid fl) z g" and a: "adapter_inv ?cf a" "follows mac errtext decodeErr ?cf (dp_adapter z) a"
    by (auto simp: deploy_inv_def adapter_side_def)
  then have m: "mirrors (gate_of euid fl) y g" and inv: "gate_inv sha (gate_of euid fl) g" and d: "sy_submitted (fst g) \<subseteq> dp_drawn z"
    using assms(7) by (simp_all add: matches_def)
  have l: "(rid, req) \<in> set (sy_launches (fst g))" using m assms(8) by (auto simp: mirrors_def)
  with inv have sub: "(rid, req) \<in> sy_submitted (fst g)" and "authorised (sy_reviews (fst g)) rid req"
    by (auto simp: gate_inv_def sys_inv_def)
  with inv obtain q peer where q: "(''review'', q, peer) \<in> snd g" "wr_Action q = ActionReviewApprove" "wr_RequestID q = rid"
    by (fastforce simp: gate_inv_def authorised_def approved_by_def)
  with g obtain phone where c: "(phone, q) \<in> ar_called (dp_adapter z)" by (auto simp: matches_def)
  with a obtain p where p: "p \<in> ar_announced (dp_adapter z)" "pr_RequestID p = rid"
    "phone \<in> set (LookupRecipients (ad_policy ad) (pr_Requester p))" "IsAllowedCountry phone (ad_codes ad)"
    using q(3) by (fastforce simp: adapter_inv_def follows_def entitled_def conf_of_def)
  from p(1,2) g obtain r' where "(rid, r') \<in> sy_submitted (fst g)" "p = pending_of r'" by (fastforce simp: matches_def)
  with inj_onD [OF assms(9), of "(rid, r')" "(rid, req)"] d sub have "pr_Requester p = requester_name (req_Requester req)"
    by (auto simp: pending_of_def)
  with p(3) have ph: "phone \<in> set (LookupRecipients (ad_policy ad) (requester_name (req_Requester req)))" by simp
  let ?step = "deploy_step sha mac errtext decodeErr euid fl af fx"
  have "handled_for mac errtext (ad_deps ad) ?step (deployed af ad) acts phone q"
    using called_handled [OF assms(6) start c] by (simp add: deployed_def serving_def conf_of_def)
  then obtain r env as1 act as2 z1 where r: "acts = as1 @ DAdapter act # as2" "run ?step (deployed af ad) as1 z1" "act = TReply r env \<or> act = TCall r env"
    and s: "phone = sender (inbound_of r)"
    and h: "ir_Call (HandleInboundReply mac errtext (ad_deps ad) env (inbound_of r) (ad_pending (ar_ad (dp_adapter z1)))) = Some q"
    unfolding handled_for_def by (elim exE conjE)
  from approving_call [OF h q(2)] obtain fm e code v where f: "in_PostForm (inbound_of r) = Inr fm"
    "ValidateTwilioSignature mac (dp_AuthToken (ad_deps ad)) (dp_PublicURL (ad_deps ad)) fm (in_Signature (inbound_of r))"
    "live (fst (rp_resolve env)) (form_Get fm ''From'') (ad_pending (ar_ad (dp_adapter z1))) e" "pe_RequestID e = rid"
    "ParseReplyIntent (form_Get fm ''Body'') = (ReplyIntentApprove, code)" "rp_check env (form_Get fm ''From'') code = (v, None)" "vr_Approved v"
    unfolding q(3) .
  have "phone = form_Get fm ''From''" using s f(1) by (simp add: sender_def)
  with r f h q(2,3) ph p(4) show ?thesis by (intro exI conjI) simp_all
qed

section \<open>A command approved by a text message\<close>

text \<open>A server with no connection open takes one and serves it, or launches the command it asks for.\<close>

lemma without_only [simp]: "without 0 [c] = []"
  by (simp add: without_def)

lemma dep_accepts:
  assumes "dp_server z = Some (Run_start srv)" "dp_disk z = lg_file (sv_log (sr_service srv))" "cn_lane c \<in> lanes"
  shows "deploy_step sha mac errtext decodeErr euid fl af fx z (DServer (TurnAccept (cn_lane c) (Some c)))
    (z\<lparr>dp_server := Some ((Run_start srv)\<lparr>ru_conns := [c]\<rparr>)\<rparr>)"
proof -
  let ?y = "(Run_start srv)\<lparr>ru_conns := [c]\<rparr>"
  have "ok_turn sha errtext decodeErr (Run_start srv) (TurnAccept (cn_lane c) (Some c)) ?y"
    by (rule ok_turnI) (use assms(3) in \<open>simp_all add: run_turn_def serve_iteration_def Run_start_def\<close>)
  from d_server [OF assms(1) this, where mac = mac and euid = euid and fl = fl and af = af and fx = fx]
  have "deploy_step sha mac errtext decodeErr euid fl af fx z (DServer (TurnAccept (cn_lane c) (Some c)))
    (z\<lparr>dp_server := Some ?y, dp_disk := lg_file (sv_log (sr_service srv)), dp_drawn := dp_drawn z\<rparr>)" by (simp add: Run_start_def)
  moreover have "z\<lparr>dp_server := Some ?y, dp_disk := lg_file (sv_log (sr_service srv)), dp_drawn := dp_drawn z\<rparr> = z\<lparr>dp_server := Some ?y\<rparr>"
    using assms(2) by (cases z) simp
  ultimately show ?thesis by simp
qed

lemma dep_serves:
  assumes "dp_server z = Some (Run_start srv)" "dp_disk z = lg_file (sv_log (sr_service srv))" "cn_lane c \<in> lanes"
    and "conn_call srv c = Some call" "storable sha env (sr_service srv) call" "perform sha env call (sr_service srv) = (r, s)"
    and "reviewed_by_adapter (dp_adapter z) c"
  shows "\<exists>z'. run (deploy_step sha mac errtext decodeErr euid fl af fx) z [DServer (TurnAccept (cn_lane c) (Some c)), DServer (TurnServe 0 env)] z'
    \<and> dp_server z' = Some (Run_start (srv\<lparr>sr_service := s\<rparr>)) \<and> dp_disk z' = lg_file (sv_log s) \<and> dp_adapter z' = dp_adapter z
    \<and> dp_drawn z' = dp_drawn z \<union> {submission sha (ce_now env) (ce_rand env) (ce_nanos env) input (sr_service srv) | input. call = CallSubmit input}"
proof -
  let ?z1 = "z\<lparr>dp_server := Some ((Run_start srv)\<lparr>ru_conns := [c]\<rparr>)\<rparr>" and ?y = "Run_start (srv\<lparr>sr_service := s\<rparr>)"
  let ?z2 = "?z1\<lparr>dp_server := Some ?y, dp_disk := lg_file (sv_log (sr_service (ru_server ?y))),
    dp_drawn := dp_drawn ?z1 \<union> drawn sha ((Run_start srv)\<lparr>ru_conns := [c]\<rparr>) (TurnServe 0 env)\<rparr>"
  have "ok_turn sha errtext decodeErr ((Run_start srv)\<lparr>ru_conns := [c]\<rparr>) (TurnServe 0 env) ?y"
    by (rule ok_turnI) (use assms(4-6) in \<open>auto simp: run_turn_def served Run_start_def Let_def\<close>)
  from d_server [OF _ this, of ?z1] assms(7)
  have st: "deploy_step sha mac errtext decodeErr euid fl af fx ?z1 (DServer (TurnServe 0 env)) ?z2" by simp
  note r = run_Cons [where step = "deploy_step sha mac errtext decodeErr euid fl af fx", OF dep_accepts [OF assms(1-3)]
      run_single [where step = "deploy_step sha mac errtext decodeErr euid fl af fx", OF st]]
  show ?thesis by (intro exI [of _ ?z2] conjI r) (use assms(4) in \<open>auto simp: Run_start_def\<close>)
qed

lemma dep_launches:
  assumes "dp_server z = Some (Run_start srv)" "dp_disk z = lg_file (sv_log (sr_service srv))" "cn_lane c = ''request''"
    and "conn_call srv c = Some (CallExecute rid)"
    and "execute_begin sha (ce_now env) (ce_io1 (env :: call_env)) (ce_io2 env) rid (sr_service srv) = (Launch q, s)"
  shows "\<exists>acts z' y. run (deploy_step sha mac errtext decodeErr euid fl af fx) z acts z' \<and> dp_server z' = Some y
    \<and> (rid, q) \<in> set (ru_running y) \<and> dp_adapter z' = dp_adapter z \<and> dp_drawn z' = dp_drawn z"
proof -
  let ?z1 = "z\<lparr>dp_server := Some ((Run_start srv)\<lparr>ru_conns := [c]\<rparr>)\<rparr>"
  let ?y = "(Run_start (srv\<lparr>sr_service := s\<rparr>))\<lparr>ru_running := [(rid, q)]\<rparr>"
  have "ok_turn sha errtext decodeErr ((Run_start srv)\<lparr>ru_conns := [c]\<rparr>) (TurnLaunch 0 env) ?y"
    by (rule ok_turnI) (use assms(4,5) in \<open>auto simp: run_turn_def launch_turn_def Run_start_def\<close>)
  from d_server [OF _ this, of ?z1] assms(3)
  have "deploy_step sha mac errtext decodeErr euid fl af fx ?z1 (DServer (TurnLaunch 0 env))
    (?z1\<lparr>dp_server := Some ?y, dp_disk := lg_file (sv_log (sr_service (ru_server ?y))), dp_drawn := dp_drawn ?z1\<rparr>)"
    by (simp add: reviewed_by_adapter_def)
  moreover have "cn_lane c \<in> lanes" using assms(3) by (simp add: lanes_def)
  ultimately show ?thesis
    using run_Cons [where step = "deploy_step sha mac errtext decodeErr euid fl af fx", OF dep_accepts [OF assms(1,2)]
      run_single [where step = "deploy_step sha mac errtext decodeErr euid fl af fx"]] by fastforce
qed

text \<open>The adapter's turns from a request in the log to the call of the broker.\<close>

definition sample_sms :: wire_request where
  "sample_sms = brokerSocketCaller_request ActionReviewApprove sample_rid ''twilio'' ''twilio-sms-overnight'' ''approved via SMS''"

lemma adapter_approves:
  assumes ad: "adapter_start default_flags sample_files = Inr ad"
    and scan: "scanOnce (Inr (Some disk)) None None NewCanonTailer = (None, ([pending_of (sample_request sample_rid)], errs), t)"
  shows "\<exists>acts x. run (adapter_turns sample_mac (\<lambda>_. []) (\<lambda>_. [])) (serving default_flags ad) acts x
    \<and> (\<forall>act \<in> set acts. reads_log disk act) \<and> (''+15550001'', sample_sms) \<in> ar_called x"
proof -
  let ?p = "pending_of (sample_request sample_rid)" and ?step = "adapter_turns sample_mac (\<lambda>_. []) (\<lambda>_. [])"
  let ?env = "sample_reply_env (\<lambda>_ _. Inr zero_response)" and ?r = "sample_post ''yes 123456''"
  obtain a where c: "ad_codes ad = [''+1'']" "ad_policy ad = sample_policy"
    "ad_tailer ad = NewCanonTailer" "ad_pending ad = NewPendingSet (600 * 1000000000) (Some a)" "dp_AuthToken (ad_deps ad) = ''a=b # c''"
    "dp_PublicURL (ad_deps ad) = ''https://example.com/twilio/inbound''" "dp_ApproverID (ad_deps ad) = ''twilio-sms-overnight''"
    using sample_start ad by auto
  have "LookupRecipients sample_policy ''alice'' = [''+15550001'', ''+447700900123'']" by code_simp
  then have rs: "LookupRecipients (ad_policy ad) (pr_Requester ?p) = [''+15550001'', ''+447700900123'']"
    by (simp add: c(2) pending_of_def requester_name_def)
  have i: "pr_RequestID ?p = sample_rid" by (simp add: pending_of_def)
  let ?y1 = "scan_turn (Inr (Some disk), None, None) (serving default_flags ad)"
  have y1: "?y1 = (serving default_flags ad)\<lparr>ar_ad := ad\<lparr>ad_tailer := t\<rparr>, ar_todo := [?p], ar_announced := {?p}\<rparr>"
    using scan by (simp add: scan_turn_def serving_def c(3))
  let ?y2 = "(serving default_flags ad)\<lparr>ar_ad := ad\<lparr>ad_tailer := t\<rparr>, ar_todo := [], ar_announced := {?p},
      ar_stage := Routing ?p [''+15550001'', ''+447700900123'']\<rparr>"
  obtain ps where cl: "claim_phone [''+1''] ?p sample_phone_env ''+15550001'' (NewPendingSet (600 * 1000000000) (Some a)) = (True, ps)"
    and ps: "gget (ps_items ps) ''+15550001'' = Some \<lparr>pe_RequestID = pr_RequestID ?p, pe_OpenedAt = 1000\<rparr>" "ps_ttl ps = 600 * 1000000000"
    by (simp add: claim_phone_def IsAllowedCountry_def OpenPending_def NewPendingSet_def sample_phone_env_def Let_def)
  let ?y3 = "claim_turn sample_phone_env ?p ''+15550001'' [''+447700900123''] ?y2"
  have y3: "ar_main ?y3 = WebhookServing" "ad_pending (ar_ad ?y3) = ps" "ad_deps (ar_ad ?y3) = ad_deps ad"
    by (simp_all add: claim_turn_def set_pending_def serving_def c(1,4) cl [simplified])
  have "ir_Call (HandleInboundReply sample_mac (\<lambda>_. []) (ad_deps (ar_ad ?y3)) ?env (inbound_of ?r) (ad_pending (ar_ad ?y3))) = Some sample_sms"
    using sample_post_calls(2) [OF _ _ ps] c(5-7) y3(2,3) by (simp add: sample_sms_def i)
  then obtain y4 where y4: "call_turn sample_mac (\<lambda>_. []) ?env ?r ?y3 = Some y4" "(''+15550001'', sample_sms) \<in> ar_called y4"
    using sample_post_received(2) [of "''yes 123456''"] by (auto simp: call_turn_def)
  have "?step (serving default_flags ad) (TScan (Inr (Some disk), None, None)) ?y1" by (simp add: adapter_turn_def) (simp add: serving_def)
  moreover have "?step ?y1 (TRoute (1, FsOk)) ?y2" unfolding y1 by (simp add: adapter_turn_def serving_def route_turn_def rs)
  moreover have "?step ?y2 (TClaim sample_phone_env) ?y3" by (simp add: adapter_turn_def serving_def)
  moreover have "?step ?y3 (TCall ?r ?env) y4" using y3(1) y4(1) by (simp add: adapter_turn_def)
  ultimately have "run ?step (serving default_flags ad)
      [TScan (Inr (Some disk), None, None), TRoute (1, FsOk), TClaim sample_phone_env, TCall ?r ?env] y4"
    by (meson run_Cons run_nil)
  moreover have "\<exists>k. disk = take k disk" by (intro exI [of _ "length disk"]) simp
  ultimately show ?thesis using y4(2) by (intro exI conjI) (assumption, auto simp: reads_log_def)
qed

lemma adapter_turns_deployed:
  "run (adapter_turns mac errtext decodeErr) x acts x' \<Longrightarrow> (\<forall>act \<in> set acts. reads_log (dp_disk z) act) \<Longrightarrow> dp_adapter z = x \<Longrightarrow>
   \<exists>acts'. run (deploy_step sha mac errtext decodeErr euid fl af fx) z acts' (z\<lparr>dp_adapter := x'\<rparr>)"
proof (induction rule: run.induct)
  case (run_nil x)
  then have "z\<lparr>dp_adapter := x\<rparr> = z" by auto
  then show ?case using run.run_nil by metis
next
  case (run_snoc x as x1 act x2)
  then obtain acts' where r: "run (deploy_step sha mac errtext decodeErr euid fl af fx) z acts' (z\<lparr>dp_adapter := x1\<rparr>)" by auto
  have "deploy_step sha mac errtext decodeErr euid fl af fx (z\<lparr>dp_adapter := x1\<rparr>) (DAdapter act) ((z\<lparr>dp_adapter := x1\<rparr>)\<lparr>dp_adapter := x2\<rparr>)"
    using run_snoc.hyps(2) run_snoc.prems(1) by (intro d_adapter) simp_all
  then show ?case using run.run_snoc [OF r] by auto
qed

definition sample_sudod :: sudod_flags where
  "sample_sudod = \<lparr>sf_requestSocket = ''/run/q.sock'', sf_reviewSocket = ''/run/r.sock'', sf_eventLog = ''/var/events'',
     sf_reviewUIDs = [], sf_reviewGIDs = []\<rparr>"

definition sample_gate :: "service \<Rightarrow> server" where
  "sample_gate s = NewServer s ''/run/q.sock'' ''/run/r.sock'' [0] [0]"

lemma sample_sudod_start:
  "sudod_start sample_sha (\<lambda>_. sample_io FsOk) (Some ''host'') 0 (\<lambda>_. Inr ()) (\<lambda>_. Inr []) sample_sudod = Inr (sample_gate (sample_service New))"
proof -
  have "parseIDs 0 [] = [0]" using parseIDs_lists [of "[]" 0 "[]"] by (simp add: parseIDs_def Let_def)
  then show ?thesis
    using NewService_empty(1) [of sample_sha] NewService_empty(2) [of sample_sha "\<lambda>_. sample_io FsOk"]
    by (simp add: sudod_start_def sample_sudod_def sample_gate_def)
qed

lemma sample_gate_service: "sr_service (sample_gate s) = s" "(sample_gate s)\<lparr>sr_service := s'\<rparr> = sample_gate s'"
  by (simp_all add: sample_gate_def NewServer_def)

definition sample_link :: "string \<Rightarrow> peer_identity \<Rightarrow> wire_request \<Rightarrow> accepted" where
  "sample_link lane peer q = \<lparr>cn_lane = lane, cn_ident = (peer, None), cn_received = Encode (json_of_wire_request q)\<rparr>"

lemma sample_link_call:
  assumes "utf8_wire_request q"
  shows "conn_call srv (sample_link lane peer q) = Some (route srv lane q peer)"
  using wire_request_decodes [OF assms] by (simp add: conn_call_def sample_link_def conn_peer_def)

abbreviation sample_execute :: wire_request where
  "sample_execute \<equiv> zero_wire_request\<lparr>wr_Action := ActionRequestExecute, wr_RequestID := sample_rid\<rparr>"

abbreviation sms_approval :: review_input where
  "sms_approval \<equiv> \<lparr>ri_RequestID = sample_rid, ri_Approver = \<lparr>actor_Kind = ''twilio'', actor_ID = ''twilio-sms-overnight''\<rparr>,
     ri_ApprovalCode = [], ri_Reason = []\<rparr>"

lemma sample_links:
  "conn_call (sample_gate s) (sample_link ''request'' (si_Requester sample_input) sample_submit) = Some (CallSubmit sample_input)"
  "conn_call (sample_gate s) (sample_link ''review'' root_peer sample_sms) = Some (CallApprove sms_approval)"
  "conn_call (sample_gate s) (sample_link ''request'' (si_Requester sample_input) sample_execute) = Some (CallExecute sample_rid)"
proof -
  have u: "utf8_wire_request sample_submit" "utf8_wire_request sample_sms" "utf8_wire_request sample_execute"
    by (simp_all add: sample_submit_def sample_sms_def brokerSocketCaller_request_def utf8_wire_request_def zero_wire_request_def zero_actor_def
        utf8_actor_def byte_def)
  show "conn_call (sample_gate s) (sample_link ''request'' (si_Requester sample_input) sample_submit) = Some (CallSubmit sample_input)"
    unfolding sample_link_call [OF u(1)] by (simp add: route_def sample_submit_def zero_wire_request_def sample_input_def Let_def)
  show "conn_call (sample_gate s) (sample_link ''review'' root_peer sample_sms) = Some (CallApprove sms_approval)"
    unfolding sample_link_call [OF u(2)]
    by (simp add: route_def sample_sms_def brokerSocketCaller_request_def zero_wire_request_def reviewAllowed_def sample_gate_def NewServer_def
        root_peer_def Let_def)
  show "conn_call (sample_gate s) (sample_link ''request'' (si_Requester sample_input) sample_execute) = Some (CallExecute sample_rid)"
    unfolding sample_link_call [OF u(3)] by (simp add: route_def zero_wire_request_def Let_def)
qed

lemma sms_approval_launches:
  assumes "Get (sv_projection s1) sample_rid = Some snap" "snap_Request snap = sample_request sample_rid" "snap_Status snap = StatusPending"
    and "valid_utf8 (lg_lastHash (sv_log s1))"
  shows "\<exists>resp s2 s3. Approve sample_sha 2000 (sample_io FsOk) (sample_io FsOk) sms_approval s1 = (Inr resp, s2)
    \<and> execute_begin sample_sha 2000 (sample_io FsOk) (sample_io FsOk) sample_rid s2 = (Launch (sample_request sample_rid), s3)"
proof -
  let ?w = "sample_io FsOk" and ?a = "\<lparr>actor_Kind = ''twilio'', actor_ID = ''twilio-sms-overnight''\<rparr>"
  have u: "valid_utf8 (ri_RequestID sms_approval)" "utf8_actor (ri_Approver sms_approval)" "valid_utf8 (ri_ApprovalCode sms_approval)"
    by (simp_all add: utf8_actor_def byte_def)
  obtain resp s2 snap2 where s2: "Approve sample_sha 2000 ?w ?w sms_approval s1 = (Inr resp, s2)"
    and r: "reviewed 2000 ?a StatusApproved sample_rid s1 (Inr resp, s2)" and u2: "valid_utf8 (lg_lastHash (sv_log s2))"
    and q: "Get (sv_projection s2) sample_rid = Some snap2" "snap_Request snap2 = sample_request sample_rid"
    using Approve_healthy [OF assms(4) sample_healthy sample_healthy u, of sample_sha 2000] assms(1,2) by auto
  have "c \<in> set (string_of_nat n) \<Longrightarrow> c \<noteq> CHR ''t''" for c n
    using string_of_nat_digits [of c n] by (auto simp: is_digit_def byte_def)
  then have "''twilio-sms-overnight'' \<noteq> string_of_nat n" for n by (metis list.set_intros(1))
  then have v: "validateApprover ?a (req_Requester (sample_request sample_rid)) = None" by (simp add: validateApprover_None)
  then have "review_status 2000 ?a StatusApproved snap = StatusApproved" using assms(2,3) by (simp add: review_status_def)
  then have "snap_Status snap2 = StatusApproved" using r assms(1) q by (simp add: reviewed_def status_of_def Get_def)
  from execute_begin_healthy [OF u2 sample_healthy sample_rid_utf8 q(1) this, of sample_sha 2000 ?w] q(2) s2 show ?thesis by auto
qed

lemma sample_phones: "list_all valid_utf8 (LookupRecipients sample_policy name)"
proof (cases "name = ''alice''")
  case True
  have "LookupRecipients sample_policy ''alice'' = [''+15550001'', ''+447700900123'']" by code_simp
  with True show ?thesis by (simp add: byte_def)
qed (simp add: LookupRecipients_def sample_policy_def gget_def)

text \<open>The server starts and takes a submission, which a scan of its log then announces.\<close>

abbreviation sample_step :: "deployment \<Rightarrow> deploy_act \<Rightarrow> deployment \<Rightarrow> bool" where
  "sample_step \<equiv> deploy_step sample_sha sample_mac (\<lambda>_. []) (\<lambda>_. []) 0 sample_sudod default_flags sample_files"

lemma sample_lanes: "cn_lane (sample_link ''request'' peer q) \<in> lanes" "cn_lane (sample_link ''review'' peer q) \<in> lanes"
  by (simp_all add: sample_link_def lanes_def)

lemma sample_submitted:
  "\<exists>acts z s snap errs t. run sample_step (deployed default_flags ad) acts z \<and> dp_server z = Some (Run_start (sample_gate s))
     \<and> dp_disk z = lg_file (sv_log s) \<and> dp_adapter z = serving default_flags ad \<and> dp_drawn z = {(sample_rid, sample_request sample_rid)}
     \<and> Get (sv_projection s) sample_rid = Some snap \<and> snap_Request snap = sample_request sample_rid \<and> snap_Status snap = StatusPending
     \<and> valid_utf8 (lg_lastHash (sv_log s))
     \<and> scanOnce (Inr (Some (lg_file (sv_log s)))) None None NewCanonTailer = (None, ([pending_of (sample_request sample_rid)], errs), t)"
proof -
  let ?s0 = "sample_service New" and ?env = "Socket.sample_env\<lparr>ce_now := 1000\<rparr>"
  let ?z0 = "deployed default_flags ad"
  let ?z1 = "?z0\<lparr>dp_server := Some (Run_start (sample_gate ?s0)), dp_disk := lg_file (sv_log (sr_service (sample_gate ?s0)))\<rparr>"
  have 1: "sample_step ?z0 (DStart (\<lambda>_. sample_io FsOk) (Some ''host'')) ?z1"
    by (rule d_start) (simp_all add: deployed_def sample_sudod_start)
  obtain s es snap where s: "Submit sample_sha 1000 (Some ''abc'') 0 (sample_io FsOk) sample_input ?s0 = (Inr (FromSnapshot snap ''Approval required''), s)"
    "persisted sample_sha s es" "set (gkeys (sv_projection s)) = {sample_rid}" "Get (sv_projection s) sample_rid = Some snap"
    "snap_Request snap = sample_request sample_rid" "snap_Status snap = StatusPending" "valid_utf8 (lg_lastHash (sv_log s))"
    using sample_Submit by blast
  have sub: "submission sample_sha 1000 (Some ''abc'') 0 sample_input ?s0 = (sample_rid, sample_request sample_rid)"
    by (simp add: submission_def sample_rid_def sample_request_def)
  have "valid_utf8 (actorIDForPeer (si_Requester sample_input))" by (simp add: actorIDForPeer_def sample_input_def byte_def)
  then have st: "storable sample_sha ?env (sr_service (sample_gate ?s0)) (CallSubmit sample_input)"
    using sub sample_request_ok by (simp add: storable_def sample_gate_service Socket.sample_env_def)
  have p: "perform sample_sha ?env (CallSubmit sample_input) (sr_service (sample_gate ?s0)) = (Inr (FromSnapshot snap ''Approval required''), s)"
    using s(1) by (simp add: sample_gate_service Socket.sample_env_def)
  have rv: "reviewed_by_adapter x (sample_link ''request'' peer q)" for x peer q by (simp add: reviewed_by_adapter_def sample_link_def)
  obtain z acts where 2: "run sample_step ?z1 acts z" "dp_server z = Some (Run_start (sample_gate s))" "dp_disk z = lg_file (sv_log s)"
    "dp_adapter z = serving default_flags ad" "dp_drawn z = {(sample_rid, sample_request sample_rid)}"
    using dep_serves [OF _ _ sample_lanes(1) sample_links(1) st p rv, of ?z1 sample_mac "\<lambda>_. []" "\<lambda>_. []" 0 sample_sudod default_flags sample_files]
    by (auto simp: deployed_def sample_gate_service Socket.sample_env_def sub)
  obtain errs t where scan: "scanOnce (Inr (Some (lg_file (sv_log s)))) None None NewCanonTailer
      = (None, ([pending_of (sample_request sample_rid)], errs), t)"
    using sole_scan [OF s(2-4)] s(5) by auto
  note r = run_trans [OF 2(1) run_single [where step = sample_step, OF 1]]
  show ?thesis by (intro exI conjI) (fact r 2 s scan)+
qed

text \<open>The server takes the adapter's message and the requester's call, and the command runs.\<close>

lemma sample_launched:
  assumes "dp_server z = Some (Run_start (sample_gate s1))" "(phone, sample_sms) \<in> ar_called (dp_adapter z)"
    and "dp_disk z = lg_file (sv_log s1)" "Get (sv_projection s1) sample_rid = Some snap" "snap_Request snap = sample_request sample_rid"
    and "snap_Status snap = StatusPending" "valid_utf8 (lg_lastHash (sv_log s1))"
  shows "\<exists>acts z' y. run sample_step z acts z' \<and> dp_server z' = Some y \<and> (sample_rid, sample_request sample_rid) \<in> set (ru_running y)
    \<and> dp_drawn z' = dp_drawn z"
proof -
  let ?env = "Socket.sample_env"
  obtain resp s2 s3 where s2: "Approve sample_sha 2000 (sample_io FsOk) (sample_io FsOk) sms_approval s1 = (Inr resp, s2)"
    "execute_begin sample_sha 2000 (sample_io FsOk) (sample_io FsOk) sample_rid s2 = (Launch (sample_request sample_rid), s3)"
    using sms_approval_launches [OF assms(4-7)] by blast
  have p: "perform sample_sha ?env (CallApprove sms_approval) (sr_service (sample_gate s1)) = (Inr resp, s2)"
    using s2(1) by (simp add: sample_gate_service Socket.sample_env_def)
  have rv: "reviewed_by_adapter (dp_adapter z) (sample_link ''review'' root_peer sample_sms)"
    unfolding reviewed_by_adapter_def
    by (intro impI exI [of _ phone] exI [of _ sample_sms] exI [of _ "length (Encode (json_of_wire_request sample_sms))"] conjI)
       (use assms(2) in simp, simp add: sample_link_def)
  have st: "storable sample_sha ?env (sr_service (sample_gate s1)) (CallApprove sms_approval)" by (simp add: storable_def)
  obtain z4 acts4 where 4: "run sample_step z acts4 z4" "dp_server z4 = Some (Run_start (sample_gate s2))" "dp_disk z4 = lg_file (sv_log s2)"
    "dp_drawn z4 = dp_drawn z"
    using dep_serves [OF _ _ sample_lanes(2) sample_links(2) st p rv, of sample_mac "\<lambda>_. []" "\<lambda>_. []" 0 sample_sudod default_flags sample_files] assms(1,3)
    by (auto simp: sample_gate_service)
  have b: "execute_begin sample_sha (ce_now ?env) (ce_io1 ?env) (ce_io2 ?env) sample_rid (sr_service (sample_gate s2))
      = (Launch (sample_request sample_rid), s3)" using s2(2) by (simp add: sample_gate_service Socket.sample_env_def)
  have d: "dp_disk z4 = lg_file (sv_log (sr_service (sample_gate s2)))" using 4(3) by (simp add: sample_gate_service)
  have l: "cn_lane (sample_link ''request'' (si_Requester sample_input) sample_execute) = ''request''" by (simp add: sample_link_def)
  obtain acts5 z5 y where 5: "run sample_step z4 acts5 z5" "dp_server z5 = Some y" "(sample_rid, sample_request sample_rid) \<in> set (ru_running y)"
    "dp_drawn z5 = dp_drawn z" using dep_launches [OF 4(2) d l sample_links(3) b] 4(4) by metis
  with run_trans [OF 5(1) 4(1)] show ?thesis by blast
qed

theorem running_commands_were_approved_by_phone_witness:
  "\<exists>ad acts z y phone r env e q as1 act as2 z1. adapter_start default_flags sample_files = Inr ad \<and> run sample_step (deployed default_flags ad) acts z
     \<and> dp_server z = Some y \<and> (sample_rid, sample_request sample_rid) \<in> set (ru_running y)
     \<and> acts = as1 @ DAdapter act # as2 \<and> (act = TReply r env \<or> act = TCall r env) \<and> run sample_step (deployed default_flags ad) as1 z1
     \<and> live (fst (rp_resolve env)) phone (ad_pending (ar_ad (dp_adapter z1))) e \<and> pe_RequestID e = sample_rid
     \<and> ir_Call (HandleInboundReply sample_mac (\<lambda>_. []) (ad_deps ad) env (inbound_of r) (ad_pending (ar_ad (dp_adapter z1)))) = Some q
     \<and> wr_Action q = ActionReviewApprove \<and> wr_RequestID q = sample_rid
     \<and> phone \<in> set (LookupRecipients (ad_policy ad) ''alice'') \<and> IsAllowedCountry phone (ad_codes ad)"
proof -
  obtain ad where ad: "adapter_start default_flags sample_files = Inr ad" "ad_policy ad = sample_policy" using sample_start by auto
  obtain acts2 z2 s1 snap errs t where 2: "run sample_step (deployed default_flags ad) acts2 z2" "dp_server z2 = Some (Run_start (sample_gate s1))"
    "dp_disk z2 = lg_file (sv_log s1)" "dp_adapter z2 = serving default_flags ad" "dp_drawn z2 = {(sample_rid, sample_request sample_rid)}"
    and snap: "Get (sv_projection s1) sample_rid = Some snap" "snap_Request snap = sample_request sample_rid" "snap_Status snap = StatusPending"
    "valid_utf8 (lg_lastHash (sv_log s1))"
    and scan: "scanOnce (Inr (Some (lg_file (sv_log s1)))) None None NewCanonTailer = (None, ([pending_of (sample_request sample_rid)], errs), t)"
    using sample_submitted [of ad] by (elim exE conjE)
  obtain acts3 x where 3: "run (adapter_turns sample_mac (\<lambda>_. []) (\<lambda>_. [])) (serving default_flags ad) acts3 x"
    "\<forall>act \<in> set acts3. reads_log (lg_file (sv_log s1)) act" "(''+15550001'', sample_sms) \<in> ar_called x"
    using adapter_approves [OF ad(1) scan] by blast
  obtain acts3' where 4: "run sample_step z2 acts3' (z2\<lparr>dp_adapter := x\<rparr>)" using adapter_turns_deployed [OF 3(1)] 3(2) 2(3,4) by metis
  have z3: "dp_server (z2\<lparr>dp_adapter := x\<rparr>) = Some (Run_start (sample_gate s1))" "(''+15550001'', sample_sms) \<in> ar_called (dp_adapter (z2\<lparr>dp_adapter := x\<rparr>))"
    "dp_disk (z2\<lparr>dp_adapter := x\<rparr>) = lg_file (sv_log s1)" "dp_drawn (z2\<lparr>dp_adapter := x\<rparr>) = {(sample_rid, sample_request sample_rid)}"
    using 2(2,3,5) 3(3) by simp_all
  obtain acts5 z y where 5: "run sample_step (z2\<lparr>dp_adapter := x\<rparr>) acts5 z" "dp_server z = Some y"
    "(sample_rid, sample_request sample_rid) \<in> set (ru_running y)" "dp_drawn z = {(sample_rid, sample_request sample_rid)}"
    using sample_launched [OF z3(1-3) snap] z3(4) by metis
  from run_trans [OF 5(1) run_trans [OF 4 2(1)]] obtain acts where r: "run sample_step (deployed default_flags ad) acts z" by blast
  have f: "ax_audit sample_files = Inr []" "ax_replay sample_files = Inr (Some [])" "valid_utf8 (af_approverID default_flags)" "inj_on fst (dp_drawn z)"
    by (simp_all add: sample_files_def default_flags_def 5(4) byte_def)
  have ph: "\<forall>name. list_all valid_utf8 (LookupRecipients (ad_policy ad) name)" using sample_phones ad(2) by simp
  from running_commands_were_approved_by_phone [OF ad(1) f(1-3) ph r 5(2,3) f(4)] obtain phone r0 env fm code v e q as1 act as2 z1 where
    h: "acts = as1 @ DAdapter act # as2" "act = TReply r0 env \<or> act = TCall r0 env" "run sample_step (deployed default_flags ad) as1 z1"
    "live (fst (rp_resolve env)) phone (ad_pending (ar_ad (dp_adapter z1))) e" "pe_RequestID e = sample_rid"
    "ir_Call (HandleInboundReply sample_mac (\<lambda>_. []) (ad_deps ad) env (inbound_of r0) (ad_pending (ar_ad (dp_adapter z1)))) = Some q"
    "wr_Action q = ActionReviewApprove" "wr_RequestID q = sample_rid"
    and p: "phone \<in> set (LookupRecipients (ad_policy ad) (requester_name (req_Requester (sample_request sample_rid))))"
    "IsAllowedCountry phone (ad_codes ad)" by (elim exE conjE)
  from p have p': "phone \<in> set (LookupRecipients (ad_policy ad) ''alice'')" "IsAllowedCountry phone (ad_codes ad)"
    by (simp_all add: requester_name_def)
  show ?thesis by (intro exI conjI) (fact ad(1) r 5(2,3) h p')+
qed

end
